(* ===== verification/HGM_Prelude.thy ===== *)
theory HGM_Prelude
  imports Main "HOL-Library.Word" "HOL-Library.Monad_Syntax"
begin

text \<open>
  The prelude of the development: the machine types of the C++ sources, the error taxonomy and
  \<open>Result\<close> carrier of \<^verbatim>\<open>include/hgm/error.hpp\<close>, the fixed bounds of
  \<^verbatim>\<open>include/hgm/limits.hpp\<close>, and the parts of the C++ standard library that every
  component uses: \<open>std::lower_bound\<close>, \<open>std::sort\<close> followed by \<open>std::unique\<close>, and look-up in
  a vector that is kept strictly sorted by a key.

  Conventions. Unsigned integers keep their width (\<open>u8\<close>, \<open>u16\<close>, \<open>u32\<close>, \<open>u64\<close> are words, so
  \<open>+\<close> wraps). A \<open>Millis\<close> (a signed 64 bit integer) is an \<open>int\<close>; its range is
  \<open>millis_ok\<close>. Sizes of in-memory vectors are natural numbers. A \<open>Status\<close> or \<open>Result\<close> is a
  sum: \<open>Inl code\<close> is a failure with its \<open>ErrorCode\<close>, \<open>Inr v\<close> success. The free-text detail
  that accompanies a code is documentation for operators; no branch of the program reads it, and
  it is not part of the model.
\<close>

section \<open>Collections of facts\<close>

named_theorems codec_simps \<open>round-trip rewrite rules of the binary readers and writers\<close>
named_theorems build_simps \<open>field behaviour of the snapshot builders\<close>

section \<open>Machine types\<close>

type_synonym u8 = "8 word"
type_synonym u16 = "16 word"
type_synonym u32 = "32 word"
type_synonym u64 = "64 word"
type_synonym byte = "8 word"
type_synonym bytes = "8 word list"
type_synonym Millis = int

text \<open>\<open>StrongId\<close> and \<open>Generation\<close>: the value, compared as a number.\<close>

type_synonym StrongId = u64
type_synonym ResourceId = StrongId
type_synonym RegionId = StrongId
type_synonym LinkId = StrongId
type_synonym PathId = StrongId
type_synonym FlowId = StrongId
type_synonym HotspotId = StrongId
type_synonym PolicyId = StrongId
type_synonym InterventionId = StrongId
type_synonym PublisherId = StrongId
type_synonym CoordinatorEpoch = StrongId
type_synonym BootId = StrongId
type_synonym Incarnation = StrongId
type_synonym Sequence = u64
type_synonym Generation = u64

text \<open>\<open>StrongId::valid\<close> and \<open>Generation::valid\<close>: zero is reserved for "absent".\<close>

definition valid_id :: "u64 \<Rightarrow> bool" where
  "valid_id v \<longleftrightarrow> v \<noteq> 0"

text \<open>\<open>StrongId::next\<close> and \<open>Generation::next\<close>: advance by one, saturating.\<close>

definition next_id :: "u64 \<Rightarrow> u64" where
  "next_id v = (if v = - 1 then v else v + 1)"

definition kNoTime :: Millis where
  "kNoTime = - (2 ^ 63)"

definition kMaxTime :: Millis where
  "kMaxTime = 2 ^ 63 - 1"

definition millis_ok :: "Millis \<Rightarrow> bool" where
  "millis_ok t \<longleftrightarrow> kNoTime \<le> t \<and> t \<le> kMaxTime"

section \<open>The error taxonomy\<close>

datatype (plugins only: code) ErrorCode =
    InvalidArgument | OutOfRange | BoundExceeded | ArithmeticOverflow | NotImplemented
  | MalformedFrame | TruncatedFrame | IntegrityMismatch | UnsupportedVersion | FrameTooLarge
  | StaleGeneration | StaleEpoch | UnknownEpoch | StaleIncarnation | UnknownPublisher
  | DuplicateFrame | OutOfOrderSequence | PublisherFenced
  | StaleEvidence | MissingEvidence | ContradictoryEvidence | DegradedTelemetry | StaleTopology
  | TopologyGenerationMismatch | PathGenerationMismatch | CapacityGenerationMismatch
  | TrafficGenerationMismatch | InsufficientCoverage | PolicyExpired | PolicyMissing
  | UnknownResource | UnknownPath | UnknownRegion
  | NotAuthorized | ScopeViolation | BudgetExceeded | LocalizationLost | AttributionUnavailable
  | PersistenceNotMet
  | PersistenceCorrupt | PersistenceTruncated | PersistenceVersionUnsupported
  | PersistenceIoError | JournalRecordInvalid | DurableGrowthExceeded
  | Cancelled | ShuttingDown | QueueFull | WorkerFailed | Timeout | IoError | NotConnected
  | ConnectionClosed | AlreadyStarted | NotStarted
  | Internal

definition is_stale :: "ErrorCode \<Rightarrow> bool" where
  "is_stale code \<longleftrightarrow> code \<in>
     {StaleGeneration, StaleEpoch, StaleIncarnation, DuplicateFrame, OutOfOrderSequence,
      PublisherFenced, StaleEvidence, StaleTopology, TopologyGenerationMismatch,
      PathGenerationMismatch, CapacityGenerationMismatch, TrafficGenerationMismatch,
      PolicyExpired}"

definition is_integrity :: "ErrorCode \<Rightarrow> bool" where
  "is_integrity code \<longleftrightarrow> code \<in>
     {MalformedFrame, TruncatedFrame, IntegrityMismatch, UnsupportedVersion, FrameTooLarge,
      PersistenceCorrupt, PersistenceTruncated, PersistenceVersionUnsupported,
      JournalRecordInvalid}"

type_synonym 'a result = "ErrorCode + 'a"

definition bind_result :: "'a result \<Rightarrow> ('a \<Rightarrow> 'b result) \<Rightarrow> 'b result" where
  "bind_result m f = (case m of Inl e \<Rightarrow> Inl e | Inr x \<Rightarrow> f x)"

text \<open>A guard that fails with a code: \<open>if (!c) return Status::failure(code)\<close>.\<close>

definition guard :: "bool \<Rightarrow> ErrorCode \<Rightarrow> unit result" where
  "guard c e = (if c then Inr () else Inl e)"

text \<open>A reader step that fails with a code: \<open>if (!reader.f(x)) return Status::failure(code)\<close>.\<close>

definition of_option :: "ErrorCode \<Rightarrow> 'a option \<Rightarrow> 'a result" where
  "of_option e m = (case m of None \<Rightarrow> Inl e | Some x \<Rightarrow> Inr x)"

section \<open>Bounds (include/hgm/limits.hpp)\<close>

definition kMaxResources :: nat where "kMaxResources = 1048576"
definition kMaxRegions :: nat where "kMaxRegions = 65536"
definition kMaxLinks :: nat where "kMaxLinks = 2097152"
definition kMaxNeighborsPerResource :: nat where "kMaxNeighborsPerResource = 4096"
definition kMaxResourceNameBytes :: nat where "kMaxResourceNameBytes = 128"
definition kMaxRegionNameBytes :: nat where "kMaxRegionNameBytes = 128"
definition kMaxCapacityEntries :: nat where "kMaxCapacityEntries = 1048576"
definition kMaxSignalRecords :: nat where "kMaxSignalRecords = 1048576"
definition kMaxPaths :: nat where "kMaxPaths = 1048576"
definition kMaxHopsPerPath :: nat where "kMaxHopsPerPath = 256"
definition kMaxTrafficRecords :: nat where "kMaxTrafficRecords = 1048576"
definition kMaxHotspots :: nat where "kMaxHotspots = 4096"
definition kMaxHotspotResources :: nat where "kMaxHotspotResources = 256"
definition kMaxContributors :: nat where "kMaxContributors = 256"
definition kMaxIntentAffectedResources :: nat where "kMaxIntentAffectedResources = 64"
definition kMaxIntentAffectedPaths :: nat where "kMaxIntentAffectedPaths = 256"
definition kMaxIntentAffectedFlows :: nat where "kMaxIntentAffectedFlows = 256"
definition kMaxSuppressedEntries :: nat where "kMaxSuppressedEntries = 64"
definition kMaxPressureEntries :: nat where "kMaxPressureEntries = 8192"
definition kMaxContributorAccumulators :: nat where "kMaxContributorAccumulators = 4096"
definition kMaxAuthorityGrants :: nat where "kMaxAuthorityGrants = 32"
definition kMaxDiagnostics :: nat where "kMaxDiagnostics = 128"
definition kMaxReasonBytes :: nat where "kMaxReasonBytes = 192"
definition kMaxTextBytes :: nat where "kMaxTextBytes = 512"
definition kMaxFrameBytes :: nat where "kMaxFrameBytes = 16777216"
definition kMaxPublishers :: nat where "kMaxPublishers = 512"
definition kMaxConnections :: nat where "kMaxConnections = 512"
definition kMaxWorkerThreads :: nat where "kMaxWorkerThreads = 64"
definition kMaxQueueDepth :: nat where "kMaxQueueDepth = 65536"
definition kMaxJournalRecordBytes :: nat where "kMaxJournalRecordBytes = 1048576"
definition kMaxDurableBytes :: nat where "kMaxDurableBytes = 4294967296"
definition kMaxJournalRecords :: nat where "kMaxJournalRecords = 1048576"
definition kMaxHistoryResources :: nat where "kMaxHistoryResources = 1048576"

lemmas limit_defs =
  kMaxResources_def kMaxRegions_def kMaxLinks_def kMaxNeighborsPerResource_def
  kMaxResourceNameBytes_def kMaxRegionNameBytes_def kMaxCapacityEntries_def
  kMaxSignalRecords_def kMaxPaths_def kMaxHopsPerPath_def kMaxTrafficRecords_def
  kMaxHotspots_def kMaxHotspotResources_def kMaxContributors_def
  kMaxIntentAffectedResources_def kMaxIntentAffectedPaths_def kMaxIntentAffectedFlows_def
  kMaxSuppressedEntries_def kMaxPressureEntries_def kMaxContributorAccumulators_def
  kMaxAuthorityGrants_def kMaxDiagnostics_def kMaxReasonBytes_def kMaxTextBytes_def
  kMaxFrameBytes_def kMaxPublishers_def kMaxConnections_def kMaxWorkerThreads_def
  kMaxQueueDepth_def kMaxJournalRecordBytes_def kMaxDurableBytes_def kMaxJournalRecords_def
  kMaxHistoryResources_def

section \<open>The standard library algorithms the sources rely on\<close>

text \<open>
  \<open>std::lower_bound\<close> on a range partitioned by \<open>key e < k\<close>: the number of leading entries whose
  key is below \<open>k\<close>. Every caller runs it on a range sorted by that key, where the binary search
  returns exactly this partition point.
\<close>

definition lower_bound :: "('e \<Rightarrow> 'k::linorder) \<Rightarrow> 'e list \<Rightarrow> 'k \<Rightarrow> nat" where
  "lower_bound key xs k = length (takeWhile (\<lambda>e. key e < k) xs)"

text \<open>The look-up idiom of the sources: \<open>it == end || it->key != k ? nullptr : &*it\<close>.\<close>

definition find_sorted :: "('e \<Rightarrow> 'k::linorder) \<Rightarrow> 'e list \<Rightarrow> 'k \<Rightarrow> 'e option" where
  "find_sorted key xs k =
     (let i = lower_bound key xs k
      in if i = length xs \<or> key (xs ! i) \<noteq> k then None else Some (xs ! i))"

text \<open>\<open>std::sort\<close> followed by erasing what \<open>std::unique\<close> leaves behind.\<close>

definition sorted_unique :: "'k::linorder list \<Rightarrow> 'k list" where
  "sorted_unique xs = remdups_adj (sort xs)"

text \<open>Two neighbouring entries of a vector share a key (the duplicate test after a sort).\<close>

fun adjacent_dup :: "('e \<Rightarrow> 'k) \<Rightarrow> 'e list \<Rightarrow> bool" where
  "adjacent_dup key (x # y # zs) \<longleftrightarrow> key x = key y \<or> adjacent_dup key (y # zs)"
| "adjacent_dup key _ \<longleftrightarrow> False"

abbreviation strictly_sorted_by :: "('e \<Rightarrow> 'k::linorder) \<Rightarrow> 'e list \<Rightarrow> bool" where
  "strictly_sorted_by key xs \<equiv> sorted_wrt (<) (map key xs)"

text \<open>
  The validation loop over a sorted vector: entry \<open>i\<close> is checked together with entry \<open>i - 1\<close>, and
  the first failing check ends the loop.
\<close>

fun check_entries :: "('e option \<Rightarrow> 'e \<Rightarrow> unit result) \<Rightarrow> 'e option \<Rightarrow> 'e list \<Rightarrow> unit result" where
  "check_entries chk prev [] = Inr ()"
| "check_entries chk prev (x # xs) = bind_result (chk prev x) (\<lambda>_. check_entries chk (Some x) xs)"

definition not_dup :: "('e \<Rightarrow> 'k) \<Rightarrow> 'e option \<Rightarrow> 'e \<Rightarrow> bool" where
  "not_dup key prev x \<longleftrightarrow> (case prev of None \<Rightarrow> True | Some p \<Rightarrow> key x \<noteq> key p)"

section \<open>Shared lemmas\<close>

lemma filter_update:
  assumes "i < length xs"
  shows "length (filter P (xs[i := x])) + (if P (xs ! i) then 1 else 0) = length (filter P xs) + (if P x then 1 else 0)"
  using assms
proof (induction xs arbitrary: i)
  case (Cons y ys)
  then show ?case by (cases i) auto
qed simp

lemma bind_result_simps [simp]:
  "bind_result (Inl e) f = Inl e"
  "bind_result (Inr x) f = f x"
  by (simp_all add: bind_result_def)

lemma bind_result_Inr_iff:
  "bind_result m f = Inr y \<longleftrightarrow> (\<exists>x. m = Inr x \<and> f x = Inr y)"
  by (cases m) auto

lemma bind_result_Inl_iff:
  "bind_result m f = Inl e \<longleftrightarrow> m = Inl e \<or> (\<exists>x. m = Inr x \<and> f x = Inl e)"
  by (cases m) auto

lemma guard_Inr_iff [simp]: "guard c e = Inr u \<longleftrightarrow> c"
  by (simp add: guard_def)

lemma guard_Inl_iff [simp]: "guard c e = Inl e' \<longleftrightarrow> \<not> c \<and> e' = e"
  by (auto simp: guard_def)

lemma guard_True [simp]: "guard True e = Inr ()"
  by (simp add: guard_def)

lemma guard_False [simp]: "guard False e = Inl e"
  by (simp add: guard_def)

lemma of_option_simps [simp]:
  "of_option e None = Inl e"
  "of_option e (Some x) = Inr x"
  by (simp_all add: of_option_def)

lemma of_option_Inr_iff [simp]: "of_option e m = Inr x \<longleftrightarrow> m = Some x"
  by (cases m) auto

lemma check_entries_all:
  assumes "check_entries chk prev xs = Inr ()" and "\<And>p x. chk p x = Inr () \<Longrightarrow> P x"
  shows "\<forall>x\<in>set xs. P x"
  using assms(1) by (induction xs arbitrary: prev) (auto simp: bind_result_Inr_iff dest: assms(2))

lemma check_entries_no_dup:
  assumes "check_entries chk prev xs = Inr ()" and "\<And>p x. chk p x = Inr () \<Longrightarrow> not_dup key p x"
  shows "\<not> adjacent_dup key xs \<and> (\<forall>x. xs \<noteq> [] \<longrightarrow> not_dup key prev (hd xs))"
  using assms(1)
proof (induction xs arbitrary: prev)
  case (Cons x xs)
  then have "chk prev x = Inr ()" and rest: "check_entries chk (Some x) xs = Inr ()"
    by (auto simp: bind_result_Inr_iff)
  from Cons.IH [OF rest] assms(2) [OF \<open>chk prev x = Inr ()\<close>] show ?case
    by (cases xs) (auto simp: not_dup_def)
qed simp

lemma check_entries_succeeds:
  assumes "\<forall>x\<in>set xs. \<forall>p. not_dup key p x \<longrightarrow> chk p x = Inr ()"
    and "\<not> adjacent_dup key xs" and "xs \<noteq> [] \<Longrightarrow> not_dup key prev (hd xs)"
  shows "check_entries chk prev xs = Inr ()"
  using assms
proof (induction xs arbitrary: prev)
  case (Cons x xs)
  have "chk prev x = Inr ()" using Cons.prems by simp
  moreover have "check_entries chk (Some x) xs = Inr ()"
  proof (rule Cons.IH)
    show "\<not> adjacent_dup key xs" using Cons.prems(2) by (cases xs) auto
    show "not_dup key (Some x) (hd xs)" if "xs \<noteq> []"
      using Cons.prems(2) that by (cases xs) (auto simp: not_dup_def)
  qed (use Cons.prems(1) in simp)
  ultimately show ?case by simp
qed simp

lemma next_id_mono: "v \<le> next_id v"
proof (cases "v = - 1")
  case False
  then have "1 + v \<noteq> 0" by (metis add.commute add_eq_0_iff)
  then show ?thesis using False by (simp add: next_id_def word_le_nat_alt unatSuc add.commute)
qed (simp add: next_id_def)

lemma next_id_valid: "valid_id v \<Longrightarrow> valid_id (next_id v)"
  by (metis next_id_mono valid_id_def word_le_0_iff)

lemma strictly_sorted_by_distinct:
  "strictly_sorted_by key xs \<Longrightarrow> distinct (map key xs)"
  by (simp add: strict_sorted_iff)

lemma strictly_sorted_by_iff:
  "strictly_sorted_by key xs \<longleftrightarrow> sorted (map key xs) \<and> \<not> adjacent_dup key xs"
proof (induction key xs rule: adjacent_dup.induct)
  case (1 key x y zs)
  have "strictly_sorted_by key (x # y # zs)
      \<longleftrightarrow> key x < key y \<and> strictly_sorted_by key (y # zs)"
    by (auto intro: less_trans)
  moreover have "sorted (map key (x # y # zs)) \<longleftrightarrow> key x \<le> key y \<and> sorted (map key (y # zs))"
    by auto
  ultimately show ?case using 1 by auto
qed auto

lemma checked_sorted:
  assumes "check_entries chk None xs = Inr ()" and "\<And>p x. chk p x = Inr () \<Longrightarrow> not_dup key p x"
    and "sorted (map key xs)"
  shows "strictly_sorted_by key xs"
  using check_entries_no_dup [OF assms(1), of key] assms(2,3) by (simp add: strictly_sorted_by_iff)

lemma lower_bound_le: "lower_bound key xs k \<le> length xs"
  by (simp add: lower_bound_def length_takeWhile_le)

lemma lower_bound_nth:
  assumes "strictly_sorted_by key xs" and "i < length xs"
  shows "lower_bound key xs (key (xs ! i)) = i"
  using assms
proof (induction xs arbitrary: i)
  case (Cons x xs)
  show ?case
  proof (cases i)
    case 0
    then show ?thesis by (simp add: lower_bound_def)
  next
    case (Suc j)
    with Cons.prems have "key x < key (xs ! j)" and "strictly_sorted_by key xs" and "j < length xs"
      by auto
    with Cons.IH Suc show ?thesis by (simp add: lower_bound_def)
  qed
qed simp

lemma find_sorted_Some_iff:
  assumes "strictly_sorted_by key xs"
  shows "find_sorted key xs k = Some e \<longleftrightarrow> e \<in> set xs \<and> key e = k"
proof
  assume "find_sorted key xs k = Some e"
  then have "lower_bound key xs k \<noteq> length xs" "e = xs ! lower_bound key xs k" "key e = k"
    by (auto simp: find_sorted_def Let_def split: if_splits)
  then show "e \<in> set xs \<and> key e = k"
    using lower_bound_le [of key xs k] by (metis le_neq_implies_less nth_mem)
next
  assume a: "e \<in> set xs \<and> key e = k"
  then obtain i where i: "i < length xs" "xs ! i = e" by (auto simp: in_set_conv_nth)
  with a assms have "lower_bound key xs k = i" using lower_bound_nth by blast
  with i a show "find_sorted key xs k = Some e" by (simp add: find_sorted_def)
qed

lemma find_sorted_None_iff:
  assumes "strictly_sorted_by key xs"
  shows "find_sorted key xs k = None \<longleftrightarrow> k \<notin> key ` set xs"
  using find_sorted_Some_iff [OF assms, of k] by (metis image_iff not_Some_eq)

lemma set_sorted_unique [simp]: "set (sorted_unique xs) = set xs"
  by (simp add: sorted_unique_def)

lemma strict_remdups_adj: "sorted xs \<Longrightarrow> sorted_wrt (<) (remdups_adj xs)"
  by (induction xs rule: remdups_adj.induct) (auto simp: order_le_less)

lemma strictly_sorted_sorted_unique: "sorted_wrt (<) (sorted_unique xs)"
  by (simp add: sorted_unique_def strict_remdups_adj)

lemma sorted_unique_Nil [simp]: "sorted_unique [] = []"
  by (simp add: sorted_unique_def)

lemma sorted_unique_length: "length (sorted_unique xs) \<le> length xs"
  by (metis length_sort remdups_adj_length sorted_unique_def)

section \<open>The interface of a sorted vector with key look-up\<close>

text \<open>
  Every evidence snapshot, the saturation tracker and the publisher registry are vectors kept
  strictly sorted by an identity and searched with \<open>std::lower_bound\<close>. The interface: once
  a container is \<open>ready\<close>, its entries are strictly sorted and its look-up is the idiom above,
  restricted to keys the container accepts (\<open>accepts\<close> is \<open>StrongId::valid\<close> or always true).
  The client lemmas say that the look-up is a finite map.
\<close>

locale sorted_index =
  fixes entries :: "'s \<Rightarrow> 'e list"
    and key :: "'e \<Rightarrow> 'k::linorder"
    and accepts :: "'k \<Rightarrow> bool"
    and ready :: "'s \<Rightarrow> bool"
    and lookup :: "'s \<Rightarrow> 'k \<Rightarrow> 'e option"
  assumes entries_sorted: "ready s \<Longrightarrow> strictly_sorted_by key (entries s)"
    and entries_accepted: "ready s \<Longrightarrow> e \<in> set (entries s) \<Longrightarrow> accepts (key e)"
    and lookup_sorted:
      "ready s \<Longrightarrow> lookup s k = (if accepts k then find_sorted key (entries s) k else None)"
begin

lemma lookup_Some_iff:
  assumes "ready s"
  shows "lookup s k = Some e \<longleftrightarrow> e \<in> set (entries s) \<and> key e = k"
  using find_sorted_Some_iff [OF entries_sorted [OF assms]] entries_accepted [OF assms]
    lookup_sorted [OF assms, of k] by (cases "accepts k") auto

lemma lookup_None_iff:
  assumes "ready s"
  shows "lookup s k = None \<longleftrightarrow> k \<notin> key ` set (entries s)"
proof
  assume none: "lookup s k = None"
  show "k \<notin> key ` set (entries s)"
  proof
    assume "k \<in> key ` set (entries s)"
    then obtain e where "e \<in> set (entries s)" "key e = k" by auto
    then have "lookup s k = Some e" by (simp add: lookup_Some_iff [OF assms])
    with none show False by simp
  qed
next
  assume out: "k \<notin> key ` set (entries s)"
  show "lookup s k = None"
  proof (cases "lookup s k")
    case (Some e)
    then have "e \<in> set (entries s)" "key e = k" by (simp_all add: lookup_Some_iff [OF assms])
    with out show ?thesis by auto
  qed simp
qed

lemma lookup_entry: "ready s \<Longrightarrow> e \<in> set (entries s) \<Longrightarrow> lookup s (key e) = Some e"
  by (simp add: lookup_Some_iff)

lemma lookup_dom: "ready s \<Longrightarrow> dom (lookup s) = key ` set (entries s)"
  using lookup_None_iff by (auto simp: dom_def)

lemma keys_distinct: "ready s \<Longrightarrow> distinct (map key (entries s))"
  using entries_sorted strictly_sorted_by_distinct by blast

lemma entries_unique:
  assumes "ready s" and "e \<in> set (entries s)" and "e' \<in> set (entries s)" and "key e = key e'"
  shows "e = e'"
proof -
  have "Some e = lookup s (key e)" using assms(1,2) by (rule lookup_entry [symmetric])
  also have "\<dots> = lookup s (key e')" by (simp only: assms(4))
  also have "\<dots> = Some e'" using assms(1,3) by (rule lookup_entry)
  finally show ?thesis by simp
qed

end

end
