(* ===== verification/HGM_Arith.thy ===== *)
theory HGM_Arith
  imports HGM_Prelude
begin

text \<open>
  Checked arithmetic (\<^verbatim>\<open>include/hgm/checked.hpp\<close>) and the time helpers
  (\<^verbatim>\<open>include/hgm/time.hpp\<close>). Every function keeps the machine width of the source; the
  lemmas relate each of them to unbounded arithmetic.
\<close>

section \<open>Checked arithmetic\<close>

definition kPpmScale :: u64 where
  "kPpmScale = 1000000"

definition add_ok :: "'a::len word \<Rightarrow> 'a word \<Rightarrow> 'a word option" where
  "add_ok a b = (if a > (- 1) - b then None else Some (a + b))"

definition sub_ok :: "'a::len word \<Rightarrow> 'a word \<Rightarrow> 'a word option" where
  "sub_ok a b = (if b > a then None else Some (a - b))"

definition mul_ok :: "'a::len word \<Rightarrow> 'a word \<Rightarrow> 'a word option" where
  "mul_ok a b = (if a \<noteq> 0 \<and> b > (- 1) div a then None else Some (a * b))"

definition sat_add :: "'a::len word \<Rightarrow> 'a word \<Rightarrow> 'a word" where
  "sat_add a b = (case add_ok a b of Some r \<Rightarrow> r | None \<Rightarrow> - 1)"

definition narrow32 :: "u64 \<Rightarrow> u32 option" where
  "narrow32 v = (if v > 0xFFFFFFFF then None else Some (ucast v))"

definition fits_uint32 :: "u64 \<Rightarrow> bool" where
  "fits_uint32 v \<longleftrightarrow> v \<le> 0xFFFFFFFF"

text \<open>
  \<open>ratio_ppm\<close>. When \<open>rem * 1e6\<close> does not fit 64 bits the source computes
  \<open>rem * 1e6L / whole\<close> in \<open>long double\<close> and truncates; \<open>ld\<close> is that computation. The
  instance \<open>long_double_ppm\<close> used by \<open>ratio_ppm\<close> is the exact quotient;
  \<open>ratio_ppm_long_double_irrelevant\<close> below shows that the rounding of the platform's
  \<open>long double\<close> cannot influence the result.
\<close>

definition long_double_ppm :: "u64 \<Rightarrow> u64 \<Rightarrow> u64" where
  "long_double_ppm r whole = word_of_nat (unat r * 1000000 div unat whole)"

definition ratio_ppm_with :: "(u64 \<Rightarrow> u64 \<Rightarrow> u64) \<Rightarrow> u64 \<Rightarrow> u64 \<Rightarrow> u32 option" where
  "ratio_ppm_with ld part whole =
     (if whole = 0 then None
      else let q = part div whole
           in if q \<ge> 0xFFFFFFFF then Some (- 1)
              else let r = part mod whole;
                       scaled = (case mul_ok r kPpmScale of Some s \<Rightarrow> s | None \<Rightarrow> ld r whole);
                       total = q * kPpmScale + scaled div whole
                   in if total > 0xFFFFFFFF then Some (- 1) else Some (ucast total))"

definition ratio_ppm :: "u64 \<Rightarrow> u64 \<Rightarrow> u32 option" where
  "ratio_ppm = ratio_ppm_with long_double_ppm"

text \<open>\<open>ratio_ppm(a, b).value_or(0u)\<close>\<close>

definition ratio_or0 :: "u64 \<Rightarrow> u64 \<Rightarrow> u32" where
  "ratio_or0 part whole = (case ratio_ppm part whole of Some r \<Rightarrow> r | None \<Rightarrow> 0)"

definition percent_of :: "u64 \<Rightarrow> u64 \<Rightarrow> u32" where
  "percent_of part whole =
     (if whole = 0 then 0
      else case ratio_ppm part whole of
             None \<Rightarrow> 0
           | Some ppm \<Rightarrow> (let pct = (ucast ppm :: u64) div 10000
                          in ucast (if pct > 100 then 100 else pct)))"

definition within_tolerance :: "u64 \<Rightarrow> u64 \<Rightarrow> u64 \<Rightarrow> bool" where
  "within_tolerance a b tolerance \<longleftrightarrow> (let diff = (if a > b then a - b else b - a) in diff \<le> tolerance)"

section \<open>Time\<close>

text \<open>The casts to unsigned and the wrapping subtraction are the \<open>mod 2 ^ 64\<close>.\<close>

definition elapsed_ms :: "Millis \<Rightarrow> Millis \<Rightarrow> Millis" where
  "elapsed_ms from to =
     (if from = kNoTime \<or> to = kNoTime then 0
      else if to \<le> from then 0
      else let delta = (to - from) mod 2 ^ 64
           in if delta > kMaxTime then kMaxTime else delta)"

definition age_ms :: "Millis \<Rightarrow> Millis \<Rightarrow> Millis" where
  "age_ms observed now =
     (if observed = kNoTime \<or> now = kNoTime then kMaxTime
      else if now < observed then kMaxTime
      else let delta = (now - observed) mod 2 ^ 64
           in if delta \<ge> kMaxTime then kMaxTime else delta)"

section \<open>Lemmas\<close>

lemma pow2_pred_less: "(2::nat) ^ n - 1 < m \<longleftrightarrow> 2 ^ n \<le> m"
proof -
  have "Suc (2 ^ n - 1) = (2::nat) ^ n" by simp
  then show ?thesis by (metis Suc_le_eq)
qed

lemma unat_max_word: "unat (- 1 :: 'a::len word) = 2 ^ LENGTH('a) - 1"
  by (simp add: unsigned_minus_1_eq_mask mask_eq_exp_minus_1)

lemma unat_bound: "unat (a :: 'a::len word) \<le> 2 ^ LENGTH('a) - 1"
  by (metis unat_max_word word_le_nat_alt word_order.extremum)

lemma unat_complement: "unat ((- 1) - b :: 'a::len word) = 2 ^ LENGTH('a) - 1 - unat b"
  by (simp add: unat_sub unat_max_word word_order.extremum)

lemma add_ok_Some_iff:
  fixes a b :: "'a::len word"
  shows "add_ok a b = Some r \<longleftrightarrow> unat a + unat b < 2 ^ LENGTH('a) \<and> r = a + b"
proof -
  have "a > (- 1) - b \<longleftrightarrow> 2 ^ LENGTH('a) - 1 - unat b < unat a"
    by (simp add: word_less_nat_alt unat_complement)
  also have "\<dots> \<longleftrightarrow> 2 ^ LENGTH('a) \<le> unat a + unat b"
    using unat_bound [of b] pow2_pred_less [of "LENGTH('a)" "unat a + unat b"] by linarith
  finally show ?thesis by (auto simp: add_ok_def)
qed

lemma add_ok_None_iff:
  fixes a b :: "'a::len word"
  shows "add_ok a b = None \<longleftrightarrow> 2 ^ LENGTH('a) \<le> unat a + unat b"
  by (metis add_ok_Some_iff not_None_eq not_less)

lemma mul_ok_Some_iff:
  fixes a b :: "'a::len word"
  shows "mul_ok a b = Some r \<longleftrightarrow> unat a * unat b < 2 ^ LENGTH('a) \<and> r = a * b"
proof (cases "a = 0")
  case False
  then have pos: "0 < unat a" by (simp add: unat_gt_0)
  have "b > (- 1) div a \<longleftrightarrow> unat b > (2 ^ LENGTH('a) - 1) div unat a"
    by (simp add: word_less_nat_alt unat_div unat_max_word)
  also have "\<dots> \<longleftrightarrow> 2 ^ LENGTH('a) - 1 < unat b * unat a"
    using pos by (simp add: div_less_iff_less_mult)
  also have "\<dots> \<longleftrightarrow> 2 ^ LENGTH('a) \<le> unat a * unat b"
    using pow2_pred_less [of "LENGTH('a)" "unat b * unat a"] by (simp add: mult.commute)
  finally show ?thesis using False by (auto simp: mul_ok_def)
qed (auto simp: mul_ok_def)

lemma sat_add_unat:
  fixes a b :: "'a::len word"
  shows "unat (sat_add a b) = min (unat a + unat b) (2 ^ LENGTH('a) - 1)"
proof (cases "add_ok a b")
  case None
  then show ?thesis by (simp add: sat_add_def unat_max_word) (simp add: add_ok_None_iff)
next
  case (Some r)
  then have lt: "unat a + unat b < 2 ^ LENGTH('a)" and r: "r = a + b"
    by (simp_all add: add_ok_Some_iff)
  from lt have "unat (a + b) = unat a + unat b" by (simp add: unat_word_ariths)
  with Some r lt show ?thesis by (simp add: sat_add_def)
qed

lemma sat_add_mono1: "a \<le> sat_add a b"
  using unat_bound [of a] by (simp add: word_le_nat_alt sat_add_unat)

lemma min_unat_bound [simp]: "min (unat (a :: 'a::len word)) (2 ^ LENGTH('a) - Suc 0) = unat a"
  using unat_bound [of a] by simp

lemma sat_add_0 [simp]: "sat_add a 0 = a" "sat_add 0 a = a"
  by (simp_all add: word_unat_eq_iff sat_add_unat)

text \<open>The value of a saturating sum, whatever the order of its summands.\<close>

lemma fold_sat_add_unat:
  fixes acc :: "'a::len word"
  shows "unat (fold (\<lambda>x s. sat_add s (f x)) xs acc)
       = min (unat acc + (\<Sum>x\<leftarrow>xs. unat (f x))) (2 ^ LENGTH('a) - 1)"
proof (induction xs arbitrary: acc)
  case Nil
  then show ?case by simp
next
  case (Cons x xs)
  then show ?case by (simp add: sat_add_unat add.assoc)
qed

lemma elapsed_ms_nonneg: "0 \<le> elapsed_ms from to"
  by (simp add: elapsed_ms_def Let_def kMaxTime_def)

lemma elapsed_ms_exact:
  assumes "millis_ok from" and "millis_ok to" and "from \<noteq> kNoTime" and "to \<noteq> kNoTime"
  shows "elapsed_ms from to = min (max 0 (to - from)) kMaxTime"
  using assms by (auto simp: elapsed_ms_def Let_def millis_ok_def kNoTime_def kMaxTime_def)

lemma age_ms_small:
  assumes "age_ms observed now \<le> d" and "d < kMaxTime" and "millis_ok observed" and "millis_ok now"
  shows "observed \<noteq> kNoTime \<and> observed \<le> now \<and> now - observed \<le> d"
  using assms by (auto simp: age_ms_def Let_def millis_ok_def kNoTime_def kMaxTime_def split: if_splits)

subsection \<open>Parts per million\<close>

lemma ratio_quotient_bound:
  assumes "q < (0xFFFFFFFF :: u64)" and "s < (2 ^ 63 :: nat)"
  shows "unat (q * kPpmScale + word_of_nat s) = unat q * 1000000 + s"
proof -
  have q: "unat q < 4294967295" using assms(1) by (simp add: word_less_nat_alt)
  then have "unat q * 1000000 < 2 ^ 62" by simp
  then have mul: "unat (q * kPpmScale) = unat q * 1000000"
    by (simp add: kPpmScale_def unat_word_ariths)
  have s: "unat (word_of_nat s :: u64) = s" using assms(2) by (simp add: unat_of_nat)
  have "unat q * 1000000 + s < 2 ^ 64" using q assms(2) by simp
  then show ?thesis by (simp add: unat_word_ariths(1) mul s)
qed

lemma ratio_ppm_with_total:
  assumes w: "whole \<noteq> 0" and s63: "s < 2 ^ 63"
    and s: "(case mul_ok (part mod whole) kPpmScale of Some v \<Rightarrow> v | None \<Rightarrow> ld (part mod whole) whole)
            div whole = word_of_nat s"
  shows "ratio_ppm_with ld part whole
       = Some (word_of_nat (min (unat part div unat whole * 1000000 + s) (2 ^ 32 - 1)))"
proof (cases "part div whole \<ge> 0xFFFFFFFF")
  case True
  then have "4294967295 \<le> unat part div unat whole"
    by (simp add: word_le_nat_alt unat_div)
  then have "min (unat part div unat whole * 1000000 + s) (2 ^ 32 - 1) = 2 ^ 32 - 1" by simp
  with w True show ?thesis by (simp add: ratio_ppm_with_def Let_def)
next
  case False
  then have q: "part div whole < 0xFFFFFFFF" by simp
  let ?t = "part div whole * kPpmScale + word_of_nat s"
  have t: "unat ?t = unat part div unat whole * 1000000 + s"
    using ratio_quotient_bound [OF q s63] by (simp add: unat_div)
  have "ratio_ppm_with ld part whole = (if ?t > 0xFFFFFFFF then Some (- 1) else Some (ucast ?t))"
    using w False s by (simp only: ratio_ppm_with_def Let_def if_False)
  moreover have "?t > 0xFFFFFFFF \<longleftrightarrow> 4294967295 < unat part div unat whole * 1000000 + s"
    by (simp only: word_less_nat_alt t) simp
  moreover have "(ucast ?t :: u32) = word_of_nat (unat part div unat whole * 1000000 + s)"
    by (simp only: t [symmetric]) simp
  ultimately show ?thesis by (auto simp: min_def)
qed

lemma mul_ppm_ok: "unat r * 1000000 < 2 ^ 64 \<Longrightarrow> mul_ok r kPpmScale = Some (r * kPpmScale)"
  by (simp add: mul_ok_Some_iff kPpmScale_def)

lemma mul_ppm_overflow: "2 ^ 64 \<le> unat r * 1000000 \<Longrightarrow> mul_ok r kPpmScale = None"
  using mul_ok_Some_iff [of r kPpmScale] by (cases "mul_ok r kPpmScale") (auto simp: kPpmScale_def)

lemma ppm_divmod: "(p::nat) * k div w = p div w * k + (p mod w) * k div w"
proof (cases "w = 0")
  case False
  have "p * k = (p mod w) * k + w * (p div w * k)"
    by (metis add.commute add_mult_distrib mult.assoc mult_div_mod_eq)
  then show ?thesis using False by (simp add: div_mult_self2)
qed simp

lemma ratio_ppm_total_exact:
  assumes w: "whole \<noteq> 0" and fit: "unat (part mod whole) * 1000000 < 2 ^ 64"
  shows "ratio_ppm_with ld part whole
       = Some (word_of_nat (min (unat part * 1000000 div unat whole) (2 ^ 32 - 1)))"
proof -
  let ?r = "part mod whole"
  let ?s = "unat ?r * 1000000 div unat whole"
  have pos: "0 < unat whole" using w by (simp add: unat_gt_0)
  have "unat ?r < unat whole" using pos by (simp add: unat_mod)
  then have "?s < 1000000" using pos by (simp add: div_less_iff_less_mult)
  then have s63: "?s < 2 ^ 63" by simp
  have "unat (?r * kPpmScale) = unat ?r * 1000000"
    using fit by (simp add: kPpmScale_def unat_word_ariths(2))
  then have "?r * kPpmScale div whole = word_of_nat ?s" by (simp only: word_arith_nat_div)
  then have "(case mul_ok ?r kPpmScale of Some v \<Rightarrow> v | None \<Rightarrow> ld ?r whole) div whole = word_of_nat ?s"
    by (simp add: mul_ppm_ok [OF fit])
  from ratio_ppm_with_total [where ld = ld, OF w s63 this] show ?thesis
    by (simp add: ppm_divmod [of "unat part" _ "unat whole"] unat_mod)
qed

lemma ratio_ppm_total_overflow:
  assumes w: "whole \<noteq> 0" and over: "2 ^ 64 \<le> unat (part mod whole) * 1000000"
    and ld: "unat (ld (part mod whole) whole) \<le> 2000000"
  shows "ratio_ppm_with ld part whole
       = Some (word_of_nat (min (unat part div unat whole * 1000000) (2 ^ 32 - 1)))"
proof -
  let ?r = "part mod whole"
  have "unat ?r < unat whole" using w by (simp add: unat_mod unat_gt_0)
  then have "2000000 < unat whole" using over by simp
  then have "ld ?r whole div whole = 0"
    using ld by (simp add: word_arith_nat_div div_less)
  then have "(case mul_ok ?r kPpmScale of Some v \<Rightarrow> v | None \<Rightarrow> ld ?r whole) div whole = word_of_nat 0"
    by (simp add: mul_ppm_overflow [OF over])
  then show ?thesis
    using ratio_ppm_with_total [where ld = ld and part = part and s = 0] w by simp
qed

lemma long_double_ppm_bound: "r < whole \<Longrightarrow> unat (long_double_ppm r whole) \<le> 2000000"
proof -
  assume "r < whole"
  then have "unat r < unat whole" by (simp add: word_less_nat_alt)
  then have "unat r * 1000000 div unat whole < 1000000"
    by (simp add: div_less_iff_less_mult)
  then show ?thesis by (simp add: long_double_ppm_def unat_of_nat)
qed

text \<open>
  Any \<open>long double\<close> evaluation of a proper fraction in parts per million that stays below
  \<open>2000000\<close> (its exact value is below \<open>1000000\<close>, and the relative error of the format is far below
  one half) gives the same answer.
\<close>

lemma ratio_ppm_long_double_irrelevant:
  assumes "\<And>r w. r < w \<Longrightarrow> unat (ld r w) \<le> 2000000"
  shows "ratio_ppm_with ld part whole = ratio_ppm part whole"
proof (cases "whole = 0")
  case True
  then show ?thesis by (simp add: ratio_ppm_def ratio_ppm_with_def)
next
  case w: False
  then have r: "part mod whole < whole" by (simp add: word_less_nat_alt unat_mod unat_gt_0)
  show ?thesis
  proof (cases "unat (part mod whole) * 1000000 < 2 ^ 64")
    case True
    with w show ?thesis by (simp add: ratio_ppm_def ratio_ppm_total_exact)
  next
    case False
    then have "2 ^ 64 \<le> unat (part mod whole) * 1000000" by simp
    with w r assms show ?thesis
      by (simp add: ratio_ppm_def ratio_ppm_total_overflow long_double_ppm_bound)
  qed
qed

lemma ratio_or0_le_million:
  assumes "part \<le> whole"
  shows "unat (ratio_or0 part whole) \<le> 1000000"
proof (cases "whole = 0")
  case True
  then show ?thesis by (simp add: ratio_or0_def ratio_ppm_def ratio_ppm_with_def)
next
  case w: False
  have le: "unat part \<le> unat whole" and pos: "0 < unat whole"
    using assms w by (simp_all add: word_le_nat_alt unat_gt_0)
  have a: "unat part * 1000000 div unat whole \<le> 1000000"
    using le pos by (metis div_le_mono mult.commute mult_le_mono2 nonzero_mult_div_cancel_right not_gr0)
  have b: "unat part div unat whole * 1000000 \<le> 1000000"
    using a ppm_divmod [of "unat part" 1000000 "unat whole"] by linarith
  show ?thesis
  proof (cases "unat (part mod whole) * 1000000 < 2 ^ 64")
    case True
    then have "ratio_ppm part whole
      = Some (word_of_nat (min (unat part * 1000000 div unat whole) (2 ^ 32 - 1)))"
      by (simp add: ratio_ppm_def ratio_ppm_total_exact [OF w])
    with a show ?thesis by (simp add: ratio_or0_def unat_of_nat min_def)
  next
    case False
    have "part mod whole < whole" using pos by (simp add: word_less_nat_alt unat_mod)
    with False have "ratio_ppm part whole
      = Some (word_of_nat (min (unat part div unat whole * 1000000) (2 ^ 32 - 1)))"
      by (simp add: ratio_ppm_def ratio_ppm_total_overflow [OF w] long_double_ppm_bound)
    moreover have "min (unat part div unat whole * 1000000) (2 ^ 32 - 1)
      = unat part div unat whole * 1000000" using b by simp
    moreover have "unat (word_of_nat (unat part div unat whole * 1000000) :: u32)
      = unat part div unat whole * 1000000" using b by (simp only: unat_of_nat) simp
    ultimately show ?thesis using b by (simp add: ratio_or0_def del: of_nat_mult)
  qed
qed

section \<open>Properties\<close>

text \<open>C22: \<open>ratio_ppm\<close> is total on a non-zero whole and exact, saturated at \<open>UINT32_MAX\<close>, whenever the
  scaled remainder fits 64 bits; when it does not, whatever the platform's \<open>long double\<close> rounding,
  the fractional part of the ratio is dropped: the result is the integral quotient scaled.\<close>

theorem ratio_ppm_value:
  assumes "whole \<noteq> 0" and "\<And>r w. r < w \<Longrightarrow> unat (ld r w) \<le> 2000000"
  shows "ratio_ppm_with ld part whole = Some (word_of_nat (min (2 ^ 32 - 1)
    (if unat (part mod whole) * 1000000 < 2 ^ 64 then unat part * 1000000 div unat whole
     else unat part div unat whole * 1000000)))"
proof -
  have "part mod whole < whole" using assms(1) by (simp add: word_less_nat_alt unat_mod unat_gt_0)
  then show ?thesis
    using assms ratio_ppm_total_exact [of whole part ld] ratio_ppm_total_overflow [of whole part ld]
    by (simp add: min.commute not_less)
qed

theorem ratio_ppm_value_witness:
  "ratio_ppm 3 4 = Some 750000 \<and> ratio_ppm (2 ^ 62) (2 ^ 63) = Some 0"
proof -
  have ld: "\<And>r w. r < w \<Longrightarrow> unat (long_double_ppm r w) \<le> 2000000" by (rule long_double_ppm_bound)
  have "(2 ^ 62 :: u64) mod 2 ^ 63 = 2 ^ 62" "(2 ^ 63 :: u64) \<noteq> 0" by simp_all
  then show ?thesis
    using ratio_ppm_value [of 4 long_double_ppm 3, OF _ ld]
      ratio_ppm_value [of "2 ^ 63" long_double_ppm "2 ^ 62", OF _ ld]
    by (simp add: ratio_ppm_def unat_mod)
qed

end
