(* ===== verification/HGM_Bytes.thy ===== *)
theory HGM_Bytes
  imports HGM_Arith
begin

unbundle bit_operations_syntax

text \<open>
  Digests (\<^verbatim>\<open>src/digest.cpp\<close>) and the little-endian binary encoding
  (\<^verbatim>\<open>src/byteio.cpp\<close>). A \<open>ByteWriter\<close> appends to a byte vector, so a writer is the list of
  bytes it appends. A \<open>ByteReader\<close> is the list of bytes that remain; a read that would run past
  the end is \<open>None\<close> (the source returns \<open>false\<close> and leaves the offset where it was). The locale
  \<open>codec\<close> is the contract between a writer and its reader; every wire and durable format
  of the later theories is an interpretation of it.
\<close>

section \<open>Digests\<close>

definition kFnvOffsetBasis :: u64 where "kFnvOffsetBasis = 0xcbf29ce484222325"
definition kFnvPrime :: u64 where "kFnvPrime = 0x100000001b3"
definition kReflectedPoly :: u64 where "kReflectedPoly = 0xC96C5795D7870F42"

definition fnv1a64 :: "bytes \<Rightarrow> u64" where
  "fnv1a64 bs = fold (\<lambda>b hash. (hash XOR ucast b) * kFnvPrime) bs kFnvOffsetBasis"

text \<open>One bit of the table construction, one table entry, the table.\<close>

definition crc_bit :: "u64 \<Rightarrow> u64" where
  "crc_bit crc = (if crc AND 1 \<noteq> 0 then drop_bit 1 crc XOR kReflectedPoly else drop_bit 1 crc)"

definition crc_entry :: "u64 \<Rightarrow> u64" where
  "crc_entry i = (crc_bit ^^ 8) i"

definition kCrcTable :: "u64 list" where
  "kCrcTable = map (\<lambda>i. crc_entry (word_of_nat i)) [0..<256]"

definition crc_update :: "byte \<Rightarrow> u64 \<Rightarrow> u64" where
  "crc_update b crc =
     (let index = unat ((crc XOR ucast b) AND 0xFF)
      in (kCrcTable ! index) XOR drop_bit 8 crc)"

definition crc64 :: "bytes \<Rightarrow> u64" where
  "crc64 bs = fold crc_update bs 0xFFFFFFFFFFFFFFFF XOR 0xFFFFFFFFFFFFFFFF"

record Digest =
  dg_fnv :: u64
  dg_crc :: u64

definition no_digest :: Digest where
  "no_digest = \<lparr>dg_fnv = kFnvOffsetBasis, dg_crc = 0\<rparr>"

definition digest_of :: "bytes \<Rightarrow> Digest" where
  "digest_of bs = \<lparr>dg_fnv = fnv1a64 bs, dg_crc = crc64 bs\<rparr>"

definition digest_valid :: "Digest \<Rightarrow> bool" where
  "digest_valid d \<longleftrightarrow> dg_crc d \<noteq> 0"

definition kHex :: string where
  "kHex = ''0123456789abcdef''"

primrec hex_loop :: "nat \<Rightarrow> u64 \<Rightarrow> string \<Rightarrow> string" where
  "hex_loop 0 v out = out"
| "hex_loop (Suc n) v out = hex_loop n (drop_bit 4 v) (kHex ! unat (v AND 0xF) # out)"

definition hex64 :: "u64 \<Rightarrow> string" where
  "hex64 v = hex_loop 16 v []"

text \<open>\<open>std::to_string\<close> of an unsigned value.\<close>

fun decimal :: "nat \<Rightarrow> string" where
  "decimal n = (if n < 10 then [char_of (48 + n)] else decimal (n div 10) @ [char_of (48 + n mod 10)])"

declare decimal.simps [simp del]

definition string_bytes :: "string \<Rightarrow> bytes" where
  "string_bytes s = map (\<lambda>c. word_of_nat (of_char c)) s"

definition bytes_string :: "bytes \<Rightarrow> string" where
  "bytes_string bs = map (\<lambda>b. char_of (unat b)) bs"

definition identity_from_bytes :: "string \<Rightarrow> u64" where
  "identity_from_bytes text = (let v = fnv1a64 (string_bytes text) in if v = 0 then 1 else v)"

text \<open>\<open>std::hash\<close> of an identifier or a generation, for unordered containers.\<close>

definition hash_id :: "u64 \<Rightarrow> u64" where
  "hash_id v = v * 0x9E3779B97F4A7C15"

section \<open>ByteWriter\<close>

text \<open>The loop over \<open>shift = 0, 8, \<dots>\<close> shared by \<open>u16\<close>, \<open>u32\<close> and \<open>u64\<close>.\<close>

definition put_le :: "nat \<Rightarrow> 'a::len word \<Rightarrow> bytes" where
  "put_le n v = map (\<lambda>i. ucast (drop_bit (8 * i) v AND 0xFF)) [0..<n]"

definition w_u8 :: "u8 \<Rightarrow> bytes" where "w_u8 v = [v]"
definition w_u16 :: "u16 \<Rightarrow> bytes" where "w_u16 v = put_le 2 v"
definition w_u32 :: "u32 \<Rightarrow> bytes" where "w_u32 v = put_le 4 v"
definition w_u64 :: "u64 \<Rightarrow> bytes" where "w_u64 v = put_le 8 v"
definition w_i64 :: "int \<Rightarrow> bytes" where "w_i64 v = w_u64 (word_of_int v)"
definition w_blob :: "bytes \<Rightarrow> bytes" where "w_blob bs = w_u32 (word_of_nat (length bs)) @ bs"
definition w_text :: "string \<Rightarrow> bytes" where
  "w_text text = w_u32 (word_of_nat (length text)) @ string_bytes text"
definition w_bool :: "bool \<Rightarrow> bytes" where "w_bool b = w_u8 (if b then 1 else 0)"

text \<open>\<open>writer.u32(static_cast<std::uint32_t>(v.size()))\<close> followed by the entries.\<close>

definition w_list :: "('a \<Rightarrow> bytes) \<Rightarrow> 'a list \<Rightarrow> bytes" where
  "w_list put xs = w_u32 (word_of_nat (length xs)) @ concat (map put xs)"

section \<open>ByteReader\<close>

type_synonym 'a reader = "bytes \<Rightarrow> ('a \<times> bytes) option"

definition rd_take :: "nat \<Rightarrow> bytes reader" where
  "rd_take count bs = (if count > length bs then None else Some (take count bs, drop count bs))"

text \<open>The accumulation \<open>value |= byte << (8 * i)\<close>.\<close>

definition get_le :: "bytes \<Rightarrow> 'a::len word" where
  "get_le bs = fold (\<lambda>i v. v OR push_bit (8 * i) (ucast (bs ! i))) [0..<length bs] 0"

definition rd_u8 :: "u8 reader" where
  "rd_u8 bs = do { (h, rest) \<leftarrow> rd_take 1 bs; Some (h ! 0, rest) }"
definition rd_u16 :: "u16 reader" where
  "rd_u16 bs = do { (h, rest) \<leftarrow> rd_take 2 bs; Some (get_le h, rest) }"
definition rd_u32 :: "u32 reader" where
  "rd_u32 bs = do { (h, rest) \<leftarrow> rd_take 4 bs; Some (get_le h, rest) }"
definition rd_u64 :: "u64 reader" where
  "rd_u64 bs = do { (h, rest) \<leftarrow> rd_take 8 bs; Some (get_le h, rest) }"
definition rd_i64 :: "int reader" where
  "rd_i64 bs = do { (v, rest) \<leftarrow> rd_u64 bs; Some (sint v, rest) }"
definition rd_blob :: "nat \<Rightarrow> bytes reader" where
  "rd_blob max_bytes bs = do {
     (len, rest) \<leftarrow> rd_u32 bs;
     if unat len > max_bytes then None else rd_take (unat len) rest }"
definition rd_text :: "nat \<Rightarrow> string reader" where
  "rd_text max_bytes bs = do {
     (len, rest) \<leftarrow> rd_u32 bs;
     if unat len > max_bytes then None
     else do { (h, rest') \<leftarrow> rd_take (unat len) rest; Some (bytes_string h, rest') } }"
definition rd_bool :: "bool reader" where
  "rd_bool bs = do { (v, rest) \<leftarrow> rd_u8 bs; Some (v \<noteq> 0, rest) }"

text \<open>A counted loop of reads, as the decoders of the sources have it.\<close>

fun rd_list :: "'a reader \<Rightarrow> nat \<Rightarrow> 'a list reader" where
  "rd_list get 0 bs = Some ([], bs)"
| "rd_list get (Suc n) bs = do {
     (x, rest) \<leftarrow> get bs; (xs, rest') \<leftarrow> rd_list get n rest; Some (x # xs, rest') }"

section \<open>The CRC is a bijective shift register\<close>

text \<open>The multiplier is odd, so different identifiers never collide before the container reduces the hash.\<close>

lemma hash_id_inverse: "hash_id v * 0xF1DE83E19937733D = v"
proof -
  have "(0x9E3779B97F4A7C15 * 0xF1DE83E19937733D :: u64) = 1" by simp
  then show ?thesis by (simp only: hash_id_def mult.assoc mult_1_right)
qed

lemma hash_id_inj: "hash_id v = hash_id w \<longleftrightarrow> v = w"
  by (metis hash_id_inverse)

lemma crc_bit_alt: "crc_bit c = drop_bit 1 c XOR (if odd c then kReflectedPoly else 0)"
  by (simp add: crc_bit_def and_one_eq odd_iff_mod_2_eq_one)

lemma crc_bit_xor: "crc_bit (a XOR b) = crc_bit a XOR crc_bit b"
  by (auto simp: crc_bit_alt drop_bit_xor even_xor_iff ac_simps xor.left_commute)

lemma crc_bits_xor: "(crc_bit ^^ n) (a XOR b) = (crc_bit ^^ n) a XOR (crc_bit ^^ n) b"
  by (induction n) (simp_all add: crc_bit_xor)

lemma crc_bits_shift:
  assumes "\<And>i. i < n \<Longrightarrow> \<not> bit x i"
  shows "(crc_bit ^^ n) x = drop_bit n x"
  using assms
proof (induction n)
  case (Suc n)
  have "even (drop_bit n x)" using Suc.prems [of n] by (simp add: bit_iff_odd_drop_bit)
  moreover have "(crc_bit ^^ n) x = drop_bit n x" using Suc by simp
  ultimately have "crc_bit ((crc_bit ^^ n) x) = drop_bit 1 (drop_bit n x)"
    by (simp add: crc_bit_alt [of "drop_bit n x"])
  then show ?case by simp
qed simp

lemma xor_cancel_right: "a XOR c = b XOR c \<longleftrightarrow> a = (b :: 'a::len word)"
  by (metis xor.assoc xor.right_neutral xor_self_eq)

lemma crc_bit_inj: "inj crc_bit"
proof (rule injI)
  fix a b assume eq: "crc_bit a = crc_bit b"
  have top: "bit (crc_bit c) 63 = odd c" for c
    by (simp add: crc_bit_alt bit_xor_iff bit_drop_bit_eq kReflectedPoly_def bit_word_iff_drop_bit_and)
  from top [of a] top [of b] eq have par: "odd a = odd b" by simp
  with eq have d: "drop_bit 1 a = drop_bit 1 b"
    by (simp add: crc_bit_alt xor_cancel_right split: if_splits)
  show "a = b"
  proof (rule bit_eqI)
    fix n show "bit a n = bit b n"
    proof (cases n)
      case 0
      with par show ?thesis by (simp add: bit_0)
    next
      case (Suc m)
      from d have "bit (drop_bit 1 a) m = bit (drop_bit 1 b) m" by simp
      with Suc show ?thesis by (simp add: bit_drop_bit_eq)
    qed
  qed
qed

lemma crc_bits_inj: "inj (crc_bit ^^ n)"
  using crc_bit_inj by (rule inj_fn)

lemma kCrcTable_entry: "unat i < 256 \<Longrightarrow> kCrcTable ! unat i = crc_entry i"
  by (simp add: kCrcTable_def)

lemma low_byte_lt: "unat (x AND 0xFF :: u64) < 256"
proof -
  have "x AND 0xFF \<le> 0xFF" by (rule word_and_le1)
  then show ?thesis by (simp add: word_le_nat_alt)
qed

text \<open>The table-driven step is eight steps of the bit-serial register.\<close>

lemma crc_update_bits: "crc_update b crc = (crc_bit ^^ 8) (crc XOR ucast b)"
proof -
  let ?x = "crc XOR ucast b"
  let ?lo = "?x AND 0xFF" and ?hi = "?x AND NOT 0xFF"
  have ff: "(0xFF :: u64) = mask 8" by (simp add: mask_eq_exp_minus_1)
  have split: "?x = ?lo XOR ?hi" by (rule bit_word_eqI) (auto simp: bit_simps)
  have "(crc_bit ^^ 8) ?x = (crc_bit ^^ 8) ?lo XOR (crc_bit ^^ 8) ?hi"
    by (subst split) (rule crc_bits_xor)
  also have "(crc_bit ^^ 8) ?hi = drop_bit 8 ?hi"
    by (rule crc_bits_shift) (simp add: bit_simps ff)
  also have "drop_bit 8 ?hi = drop_bit 8 crc"
    by (rule bit_word_eqI) (auto simp: bit_simps ff dest: bit_imp_le_length)
  finally show ?thesis
    by (simp add: crc_update_def Let_def kCrcTable_entry low_byte_lt crc_entry_def)
qed

lemma crc_update_inj_state: "crc_update b c = crc_update b c' \<longleftrightarrow> c = c'"
  by (simp add: crc_update_bits inj_eq [OF crc_bits_inj] xor_cancel_right)

lemma crc_update_inj_byte: "crc_update b c = crc_update b' c \<longleftrightarrow> b = b'"
proof -
  have "crc_update b c = crc_update b' c \<longleftrightarrow> (ucast b :: u64) = ucast b'"
    by (simp add: crc_update_bits inj_eq [OF crc_bits_inj]) (metis xor_cancel_right xor.commute)
  also have "\<dots> \<longleftrightarrow> b = b'"
  proof
    assume eq: "(ucast b :: u64) = ucast b'"
    show "b = b'"
    proof (rule bit_word_eqI)
      fix n assume n: "n < LENGTH(8)"
      have "bit (ucast b :: u64) n = bit (ucast b' :: u64) n" by (simp only: eq)
      with n show "bit b n = bit b' n" by (simp add: bit_ucast_iff)
    qed
  qed simp
  finally show ?thesis .
qed

lemma crc_fold_inj: "fold crc_update bs c = fold crc_update bs c' \<longleftrightarrow> c = c'"
  by (induction bs arbitrary: c c') (simp_all add: crc_update_inj_state)

lemma crc64_single_byte:
  "crc64 (pre @ x # post) = crc64 (pre @ y # post) \<longleftrightarrow> x = y"
  by (simp add: crc64_def xor_cancel_right crc_fold_inj crc_update_inj_byte)

section \<open>Words as little-endian bytes\<close>

lemma bit_get_le_upto:
  "bit (fold (\<lambda>i v. v OR push_bit (8 * i) (ucast (bs ! i))) [0..<n] (0 :: 'a::len word)) k
     \<longleftrightarrow> k < LENGTH('a) \<and> k div 8 < n \<and> bit (bs ! (k div 8) :: byte) (k mod 8)"
proof (induction n)
  case (Suc n)
  have "bit (push_bit (8 * n) (ucast (bs ! n)) :: 'a word) k
      \<longleftrightarrow> k < LENGTH('a) \<and> k div 8 = n \<and> bit (bs ! n :: byte) (k mod 8)"
  proof (cases "8 * n \<le> k \<and> k < 8 * n + 8")
    case True
    then have kd: "k div 8 = n" by (simp add: div_nat_eqI mult.commute)
    then have "k mod 8 = k - 8 * n" by (metis minus_div_mult_eq_mod mult.commute)
    with True kd show ?thesis by (auto simp: bit_simps)
  next
    case False
    then have "k div 8 \<noteq> n" by auto
    moreover have "\<not> bit (push_bit (8 * n) (ucast (bs ! n)) :: 'a word) k"
      using False bit_imp_le_length [of "bs ! n" "k - 8 * n"] by (auto simp: bit_simps)
    ultimately show ?thesis by blast
  qed
  then show ?case by (auto simp: bit_or_iff Suc.IH less_Suc_eq)
qed simp

lemma bit_get_le:
  "bit (get_le bs :: 'a::len word) k
     \<longleftrightarrow> k < LENGTH('a) \<and> k div 8 < length bs \<and> bit (bs ! (k div 8)) (k mod 8)"
  unfolding get_le_def by (rule bit_get_le_upto)

lemma length_put_le [simp]: "length (put_le n v) = n"
  by (simp add: put_le_def)

lemma bit_put_le:
  "i < n \<Longrightarrow> j < 8 \<Longrightarrow> bit (put_le n (v :: 'a::len word) ! i) j \<longleftrightarrow> bit v (8 * i + j)"
proof -
  assume "i < n" "j < 8"
  have ff: "(0xFF :: 'a word) = mask 8" by (simp add: mask_eq_exp_minus_1)
  from \<open>i < n\<close> \<open>j < 8\<close> show ?thesis
    by (simp only: put_le_def ff) (auto simp: bit_simps add.commute dest: bit_imp_le_length)
qed

lemma get_put_le:
  assumes "8 * n = LENGTH('a)"
  shows "get_le (put_le n v) = (v :: 'a::len word)"
proof (rule bit_word_eqI)
  fix k assume "k < LENGTH('a)"
  then have "k div 8 < n" "8 * (k div 8) + k mod 8 = k" using assms by auto
  then show "bit (get_le (put_le n v) :: 'a word) k = bit v k"
    using \<open>k < LENGTH('a)\<close> by (simp add: bit_get_le bit_put_le)
qed

lemma put_get_le:
  assumes "8 * n = LENGTH('a)" and "length bs = n"
  shows "put_le n (get_le bs :: 'a::len word) = bs"
proof (rule nth_equalityI)
  fix i assume "i < length (put_le n (get_le bs :: 'a word))"
  then have i: "i < n" by simp
  show "put_le n (get_le bs :: 'a word) ! i = bs ! i"
  proof (rule bit_word_eqI)
    fix j assume "j < LENGTH(8)"
    then have j: "j < 8" by simp
    have "8 * i + j < LENGTH('a)" using assms(1) i j by simp
    moreover have "(8 * i + j) div 8 = i" "(8 * i + j) mod 8 = j" using j by auto
    ultimately show "bit (put_le n (get_le bs :: 'a word) ! i) j = bit (bs ! i) j"
      using i j assms(2) by (simp add: bit_put_le bit_get_le)
  qed
qed (simp add: assms)

section \<open>Readers invert writers\<close>

lemma rd_take_append [codec_simps]: "length h = n \<Longrightarrow> rd_take n (h @ rest) = Some (h, rest)"
  by (simp add: rd_take_def)

lemma rd_take_Some_iff: "rd_take n bs = Some (h, rest) \<longleftrightarrow> bs = h @ rest \<and> length h = n"
  by (auto simp: rd_take_def)

lemma rd_u8_w_u8 [codec_simps]: "rd_u8 (w_u8 v @ rest) = Some (v, rest)"
  by (simp add: rd_u8_def w_u8_def rd_take_def)

lemma rd_u16_w_u16 [codec_simps]: "rd_u16 (w_u16 v @ rest) = Some (v, rest)"
  by (simp add: rd_u16_def w_u16_def rd_take_append get_put_le)

lemma rd_u32_w_u32 [codec_simps]: "rd_u32 (w_u32 v @ rest) = Some (v, rest)"
  by (simp add: rd_u32_def w_u32_def rd_take_append get_put_le)

lemma rd_u64_w_u64 [codec_simps]: "rd_u64 (w_u64 v @ rest) = Some (v, rest)"
  by (simp add: rd_u64_def w_u64_def rd_take_append get_put_le)

lemma sint_word_of_int_millis: "millis_ok t \<Longrightarrow> sint (word_of_int t :: u64) = t"
  by (simp add: millis_ok_def kNoTime_def kMaxTime_def sint_sbintrunc' signed_take_bit_int_eq_self)

lemma rd_i64_w_i64 [codec_simps]: "millis_ok t \<Longrightarrow> rd_i64 (w_i64 t @ rest) = Some (t, rest)"
  by (simp add: rd_i64_def w_i64_def rd_u64_w_u64 sint_word_of_int_millis)

lemma rd_i64_range:
  assumes "rd_i64 bs = Some (t, rest)"
  shows "millis_ok t"
proof -
  from assms obtain w :: u64 where "t = sint w" by (auto simp: rd_i64_def bind_eq_Some_conv)
  then show ?thesis using sint_ge [of w] sint_lt [of w] by (simp add: millis_ok_def kNoTime_def kMaxTime_def)
qed

lemma rd_bool_w_bool [codec_simps]: "rd_bool (w_bool b @ rest) = Some (b, rest)"
  by (simp add: rd_bool_def w_bool_def rd_u8_w_u8)

lemma unat_length32: "n < 2 ^ 32 \<Longrightarrow> unat (word_of_nat n :: u32) = n"
  by (simp add: unat_of_nat)

lemma rd_blob_w_blob:
  "length bs \<le> m \<Longrightarrow> length bs < 2 ^ 32 \<Longrightarrow> rd_blob m (w_blob bs @ rest) = Some (bs, rest)"
  by (simp add: rd_blob_def w_blob_def rd_u32_w_u32 unat_length32 rd_take_append)

lemma char_byte_char [simp]: "char_of (unat (word_of_nat (of_char c) :: byte)) = c"
proof -
  have "of_char c < (256 :: nat)" by (rule nat_of_char_less_256)
  then show ?thesis by (simp add: unat_of_nat)
qed

lemma length_string_bytes [simp]: "length (string_bytes t) = length t"
  by (simp add: string_bytes_def)

lemma bytes_string_string_bytes [simp]: "bytes_string (string_bytes t) = t"
  by (simp add: bytes_string_def string_bytes_def o_def)

lemma rd_text_w_text [codec_simps]:
  "length t \<le> m \<Longrightarrow> length t < 2 ^ 32 \<Longrightarrow> rd_text m (w_text t @ rest) = Some (t, rest)"
  by (simp add: rd_text_def w_text_def rd_u32_w_u32 unat_length32 rd_take_append)

lemma length_w [simp]:
  "length (w_u8 a) = 1" "length (w_u16 b) = 2" "length (w_u32 c) = 4" "length (w_u64 d) = 8"
  "length (w_i64 e) = 8" "length (w_bool f) = 1"
  by (simp_all add: w_u8_def w_u16_def w_u32_def w_u64_def w_i64_def w_bool_def)

section \<open>The codec interface\<close>

text \<open>
  The contract of a writer \<open>put\<close> and its reader \<open>get\<close> on the values \<open>ok\<close> admits: reading what
  was written gives the value back and leaves exactly the bytes that follow. From it: the
  encoding is prefix free and injective, and a counted sequence of entries is read back.
\<close>

locale codec =
  fixes put :: "'a \<Rightarrow> bytes" and get :: "'a reader" and ok :: "'a \<Rightarrow> bool"
  assumes get_put: "ok x \<Longrightarrow> get (put x @ rest) = Some (x, rest)"
begin

lemma get_put_end: "ok x \<Longrightarrow> get (put x) = Some (x, [])"
  using get_put [of x "[]"] by simp

lemma put_prefix_free:
  assumes "ok x" and "ok y" and "put x @ r = put y @ s"
  shows "x = y \<and> r = s"
proof -
  have "Some (x, r) = get (put x @ r)" using assms(1) by (simp add: get_put)
  also have "\<dots> = get (put y @ s)" by (simp only: assms(3))
  also have "\<dots> = Some (y, s)" using assms(2) by (simp add: get_put)
  finally show ?thesis by simp
qed

lemma put_inject: "ok x \<Longrightarrow> ok y \<Longrightarrow> put x = put y \<Longrightarrow> x = y"
  using put_prefix_free [of x y "[]" "[]"] by simp

lemma get_list_put:
  "\<forall>x\<in>set xs. ok x \<Longrightarrow> rd_list get (length xs) (concat (map put xs) @ rest) = Some (xs, rest)"
  by (induction xs) (simp_all add: get_put)

end

text \<open>
  A canonical codec reads only what its writer writes: every accepted byte string is the encoding
  of the value it decodes to.
\<close>

locale canonical_codec = codec +
  assumes put_get: "get bs = Some (x, rest) \<Longrightarrow> bs = put x @ rest"
begin

lemma get_iff: "ok x \<Longrightarrow> get bs = Some (x, rest) \<longleftrightarrow> bs = put x @ rest"
  using put_get get_put by blast

lemma put_get_list: "rd_list get n bs = Some (xs, rest) \<Longrightarrow> bs = concat (map put xs) @ rest \<and> length xs = n"
proof (induction n arbitrary: bs xs)
  case (Suc n)
  then obtain x r ys where "get bs = Some (x, r)" "rd_list get n r = Some (ys, rest)" "xs = x # ys"
    by (auto simp: bind_eq_Some_conv)
  with Suc.IH [of r ys] put_get [of bs x r] show ?case by simp
qed simp

end

lemma rd_word_canonical:
  assumes "8 * n = LENGTH('a)" and "do { (h, r) \<leftarrow> rd_take n bs; Some (get_le h :: 'a::len word, r) } = Some (v, rest)"
  shows "bs = put_le n v @ rest"
  using assms(2) put_get_le [OF assms(1)] by (auto simp: bind_eq_Some_conv rd_take_Some_iff)

interpretation u8c: canonical_codec w_u8 rd_u8 "\<lambda>_. True"
proof
  show "rd_u8 bs = Some (x, rest) \<Longrightarrow> bs = w_u8 x @ rest" for bs x rest
    by (auto simp: rd_u8_def w_u8_def bind_eq_Some_conv rd_take_Some_iff length_Suc_conv)
qed (simp add: rd_u8_w_u8)

interpretation u16c: canonical_codec w_u16 rd_u16 "\<lambda>_. True"
proof
  show "rd_u16 bs = Some (x, rest) \<Longrightarrow> bs = w_u16 x @ rest" for bs x rest
    unfolding rd_u16_def w_u16_def by (rule rd_word_canonical) simp_all
qed (simp add: rd_u16_w_u16)

interpretation u32c: canonical_codec w_u32 rd_u32 "\<lambda>_. True"
proof
  show "rd_u32 bs = Some (x, rest) \<Longrightarrow> bs = w_u32 x @ rest" for bs x rest
    unfolding rd_u32_def w_u32_def by (rule rd_word_canonical) simp_all
qed (simp add: rd_u32_w_u32)

interpretation u64c: canonical_codec w_u64 rd_u64 "\<lambda>_. True"
proof
  show "rd_u64 bs = Some (x, rest) \<Longrightarrow> bs = w_u64 x @ rest" for bs x rest
    unfolding rd_u64_def w_u64_def by (rule rd_word_canonical) simp_all
qed (simp add: rd_u64_w_u64)

interpretation i64c: canonical_codec w_i64 rd_i64 millis_ok
proof
  show "rd_i64 bs = Some (x, rest) \<Longrightarrow> bs = w_i64 x @ rest" for bs x rest
    using u64c.put_get [of bs _ rest] by (auto simp: rd_i64_def w_i64_def bind_eq_Some_conv)
qed (rule rd_i64_w_i64)

text \<open>
  A block guarded by its CRC: the eight bytes after the first \<open>n\<close> hold the CRC of those \<open>n\<close>. A
  change of any one byte of the block or of the CRC breaks the guard.
\<close>

definition crc_guarded :: "nat \<Rightarrow> bytes \<Rightarrow> bool" where
  "crc_guarded n bs \<longleftrightarrow> n + 8 \<le> length bs \<and> take 8 (drop n bs) = w_u64 (crc64 (take n bs))"

lemma crc64_byte_changed:
  assumes "i < length bs" and "b \<noteq> bs ! i"
  shows "crc64 (bs[i := b]) \<noteq> crc64 bs"
  using crc64_single_byte [of "take i bs" b "drop (Suc i) bs" "bs ! i"] id_take_nth_drop [OF assms(1)]
    upd_conv_take_nth_drop [OF assms(1), of b] assms(2) by simp

lemma crc_guarded_byte_changed:
  assumes g: "crc_guarded n bs" and i: "i < n + 8" and b: "b \<noteq> bs ! i"
  shows "\<not> crc_guarded n (bs[i := b])"
proof
  assume g': "crc_guarded n (bs[i := b])"
  have il: "i < length bs" using g i by (simp add: crc_guarded_def)
  show False
  proof (cases "i < n")
    case True
    then have "crc64 (take n (bs[i := b])) \<noteq> crc64 (take n bs)"
      using crc64_byte_changed [of i "take n bs" b] il b by (simp add: take_update_swap)
    moreover have "drop n (bs[i := b]) = drop n bs" using True by simp
    ultimately show False using g g' u64c.put_inject unfolding crc_guarded_def by metis
  next
    case False
    then have "take n (bs[i := b]) = take n bs" by simp
    then have "take 8 (drop n (bs[i := b])) ! (i - n) = take 8 (drop n bs) ! (i - n)" using g g' by (simp add: crc_guarded_def)
    moreover have "i - n < 8" using i False by simp
    ultimately show False using False il b by simp
  qed
qed

section \<open>Properties\<close>

text \<open>C21: the table driven CRC-64 equals the bit-serial definition of CRC-64/XZ: initialise
  with ones, per byte exclusive-or it in and run the reflected polynomial step eight times, and
  complement.\<close>

theorem crc64_bit_serial:
  "crc64 bs = fold (\<lambda>b crc. (crc_bit ^^ 8) (crc XOR ucast b)) bs 0xFFFFFFFFFFFFFFFF
     XOR 0xFFFFFFFFFFFFFFFF"
  by (simp add: crc64_def crc_update_bits [abs_def])

text \<open>C20: the integrity check detects every corruption confined to one byte: two byte strings
  that differ in exactly one position have different CRCs, hence different digests.\<close>

theorem digest_detects_byte:
  "x \<noteq> y \<Longrightarrow> digest_of (pre @ x # post) \<noteq> digest_of (pre @ y # post)"
  by (simp add: digest_of_def crc64_single_byte)

theorem digest_detects_byte_witness: "digest_of [1, 2, 3] \<noteq> digest_of [1, 7, 3]"
  using digest_detects_byte [of 2 7 "[1]" "[3]"] by simp

end
