(* ===== verification/HGM_Types.thy ===== *)
theory HGM_Types
  imports HGM_Bytes
begin

text \<open>
  The closed enumerations of \<^verbatim>\<open>include/hgm/enums.hpp\<close> and the provenance records of
  \<^verbatim>\<open>include/hgm/provenance.hpp\<close>.

  A C++ scoped enumeration with a fixed underlying type holds every value of that type, and the
  decoders cast bytes from the wire to it without a range check. Each enumeration therefore has
  its named constants and one constructor \<open>\<dots>_Raw\<close> for the remaining values; \<open>\<dots>_code\<close> is the cast
  to the underlying type and \<open>\<dots>_of\<close> the cast from it. \<open>\<dots>_ok\<close> excludes the second name a raw value
  could give to a named constant; the casts from the wire only produce such values.
\<close>

section \<open>Enumerations\<close>

datatype (plugins only: code) ResourceKind =
    RK_Unknown | RK_Switch | RK_Port | RK_Link
  | RK_Queue | RK_Buffer | RK_Host | RK_Optical
  | RK_Other
  | RK_Raw u8

primrec rk_code :: "ResourceKind \<Rightarrow> u8" where
  "rk_code RK_Unknown = 0"
| "rk_code RK_Switch = 1"
| "rk_code RK_Port = 2"
| "rk_code RK_Link = 3"
| "rk_code RK_Queue = 4"
| "rk_code RK_Buffer = 5"
| "rk_code RK_Host = 6"
| "rk_code RK_Optical = 7"
| "rk_code RK_Other = 255"
| "rk_code (RK_Raw v) = v"

definition rk_of :: "u8 \<Rightarrow> ResourceKind" where
  "rk_of v =
     (if v = 0 then RK_Unknown
      else if v = 1 then RK_Switch
      else if v = 2 then RK_Port
      else if v = 3 then RK_Link
      else if v = 4 then RK_Queue
      else if v = 5 then RK_Buffer
      else if v = 6 then RK_Host
      else if v = 7 then RK_Optical
      else if v = 255 then RK_Other
      else RK_Raw v)"

definition rk_ok :: "ResourceKind \<Rightarrow> bool" where
  "rk_ok k \<longleftrightarrow> rk_of (rk_code k) = k"

datatype (plugins only: code) TelemetryQuality =
    TQ_Unknown | TQ_Missing | TQ_Suspect | TQ_Degraded
  | TQ_Healthy
  | TQ_Raw u8

primrec tq_code :: "TelemetryQuality \<Rightarrow> u8" where
  "tq_code TQ_Unknown = 0"
| "tq_code TQ_Missing = 1"
| "tq_code TQ_Suspect = 2"
| "tq_code TQ_Degraded = 3"
| "tq_code TQ_Healthy = 4"
| "tq_code (TQ_Raw v) = v"

definition tq_of :: "u8 \<Rightarrow> TelemetryQuality" where
  "tq_of v =
     (if v = 0 then TQ_Unknown
      else if v = 1 then TQ_Missing
      else if v = 2 then TQ_Suspect
      else if v = 3 then TQ_Degraded
      else if v = 4 then TQ_Healthy
      else TQ_Raw v)"

definition tq_ok :: "TelemetryQuality \<Rightarrow> bool" where
  "tq_ok k \<longleftrightarrow> tq_of (tq_code k) = k"

datatype (plugins only: code) Severity =
    Sev_None | Sev_Low | Sev_Moderate | Sev_High
  | Sev_Critical
  | Sev_Raw u8

primrec sev_code :: "Severity \<Rightarrow> u8" where
  "sev_code Sev_None = 0"
| "sev_code Sev_Low = 1"
| "sev_code Sev_Moderate = 2"
| "sev_code Sev_High = 3"
| "sev_code Sev_Critical = 4"
| "sev_code (Sev_Raw v) = v"

definition sev_of :: "u8 \<Rightarrow> Severity" where
  "sev_of v =
     (if v = 0 then Sev_None
      else if v = 1 then Sev_Low
      else if v = 2 then Sev_Moderate
      else if v = 3 then Sev_High
      else if v = 4 then Sev_Critical
      else Sev_Raw v)"

definition sev_ok :: "Severity \<Rightarrow> bool" where
  "sev_ok k \<longleftrightarrow> sev_of (sev_code k) = k"

datatype (plugins only: code) CongestionScope =
    Scope_Unknown | Scope_None | Scope_Localized | Scope_Regional
  | Scope_Global
  | Scope_Raw u8

primrec scope_code :: "CongestionScope \<Rightarrow> u8" where
  "scope_code Scope_Unknown = 0"
| "scope_code Scope_None = 1"
| "scope_code Scope_Localized = 2"
| "scope_code Scope_Regional = 3"
| "scope_code Scope_Global = 4"
| "scope_code (Scope_Raw v) = v"

definition scope_of :: "u8 \<Rightarrow> CongestionScope" where
  "scope_of v =
     (if v = 0 then Scope_Unknown
      else if v = 1 then Scope_None
      else if v = 2 then Scope_Localized
      else if v = 3 then Scope_Regional
      else if v = 4 then Scope_Global
      else Scope_Raw v)"

definition scope_ok :: "CongestionScope \<Rightarrow> bool" where
  "scope_ok k \<longleftrightarrow> scope_of (scope_code k) = k"

datatype (plugins only: code) SaturationCause =
    Cause_Unknown | Cause_CapacityExhaustion | Cause_QueueBuildup | Cause_BufferExhaustion
  | Cause_Microburst | Cause_FanInContention | Cause_StructuralConvergence
  | Cause_Raw u8

primrec cause_code :: "SaturationCause \<Rightarrow> u8" where
  "cause_code Cause_Unknown = 0"
| "cause_code Cause_CapacityExhaustion = 1"
| "cause_code Cause_QueueBuildup = 2"
| "cause_code Cause_BufferExhaustion = 3"
| "cause_code Cause_Microburst = 4"
| "cause_code Cause_FanInContention = 5"
| "cause_code Cause_StructuralConvergence = 6"
| "cause_code (Cause_Raw v) = v"

definition cause_of :: "u8 \<Rightarrow> SaturationCause" where
  "cause_of v =
     (if v = 0 then Cause_Unknown
      else if v = 1 then Cause_CapacityExhaustion
      else if v = 2 then Cause_QueueBuildup
      else if v = 3 then Cause_BufferExhaustion
      else if v = 4 then Cause_Microburst
      else if v = 5 then Cause_FanInContention
      else if v = 6 then Cause_StructuralConvergence
      else Cause_Raw v)"

definition cause_ok :: "SaturationCause \<Rightarrow> bool" where
  "cause_ok k \<longleftrightarrow> cause_of (cause_code k) = k"

datatype (plugins only: code) MitigationKind =
    MK_None | MK_FlowRelocation | MK_PathRebalance | MK_AdmissionReduction
  | MK_RatePacingChange | MK_ResourceIsolation | MK_EscalateGlobalCongestion
  | MK_Raw u8

primrec mk_code :: "MitigationKind \<Rightarrow> u8" where
  "mk_code MK_None = 0"
| "mk_code MK_FlowRelocation = 1"
| "mk_code MK_PathRebalance = 2"
| "mk_code MK_AdmissionReduction = 3"
| "mk_code MK_RatePacingChange = 4"
| "mk_code MK_ResourceIsolation = 5"
| "mk_code MK_EscalateGlobalCongestion = 6"
| "mk_code (MK_Raw v) = v"

definition mk_of :: "u8 \<Rightarrow> MitigationKind" where
  "mk_of v =
     (if v = 0 then MK_None
      else if v = 1 then MK_FlowRelocation
      else if v = 2 then MK_PathRebalance
      else if v = 3 then MK_AdmissionReduction
      else if v = 4 then MK_RatePacingChange
      else if v = 5 then MK_ResourceIsolation
      else if v = 6 then MK_EscalateGlobalCongestion
      else MK_Raw v)"

definition mk_ok :: "MitigationKind \<Rightarrow> bool" where
  "mk_ok k \<longleftrightarrow> mk_of (mk_code k) = k"

datatype (plugins only: code) StreamKind =
    Stream_Unknown | Stream_Topology | Stream_Capacity | Stream_Signals
  | Stream_Paths | Stream_Traffic | Stream_Policy
  | Stream_Raw u16

primrec sk_code :: "StreamKind \<Rightarrow> u16" where
  "sk_code Stream_Unknown = 0"
| "sk_code Stream_Topology = 1"
| "sk_code Stream_Capacity = 2"
| "sk_code Stream_Signals = 3"
| "sk_code Stream_Paths = 4"
| "sk_code Stream_Traffic = 5"
| "sk_code Stream_Policy = 6"
| "sk_code (Stream_Raw v) = v"

definition sk_of :: "u16 \<Rightarrow> StreamKind" where
  "sk_of v =
     (if v = 0 then Stream_Unknown
      else if v = 1 then Stream_Topology
      else if v = 2 then Stream_Capacity
      else if v = 3 then Stream_Signals
      else if v = 4 then Stream_Paths
      else if v = 5 then Stream_Traffic
      else if v = 6 then Stream_Policy
      else Stream_Raw v)"

definition sk_ok :: "StreamKind \<Rightarrow> bool" where
  "sk_ok k \<longleftrightarrow> sk_of (sk_code k) = k"

section \<open>Provenance\<close>

definition kStreamCount :: nat where "kStreamCount = 7"

definition stream_index :: "StreamKind \<Rightarrow> nat" where
  "stream_index kind = (let value = unat (sk_code kind) in if value < kStreamCount then value else 0)"

record StreamGeneration =
  sg_stream :: StreamKind
  sg_value :: u64

definition no_stream_generation :: StreamGeneration where
  "no_stream_generation = \<lparr>sg_stream = Stream_Unknown, sg_value = 0\<rparr>"

record Provenance =
  pv_publisher :: PublisherId
  pv_incarnation :: Incarnation
  pv_boot :: BootId
  pv_epoch :: CoordinatorEpoch
  pv_sequence :: Sequence
  pv_generation :: StreamGeneration
  pv_emitted_at :: Millis
  pv_payload_digest :: Digest
  pv_source :: string

definition no_provenance :: Provenance where
  "no_provenance = \<lparr>pv_publisher = 0, pv_incarnation = 0, pv_boot = 0, pv_epoch = 0, pv_sequence = 0,
     pv_generation = no_stream_generation, pv_emitted_at = kNoTime, pv_payload_digest = no_digest,
     pv_source = []\<rparr>"

definition provenance_valid :: "Provenance \<Rightarrow> bool" where
  "provenance_valid p \<longleftrightarrow> valid_id (pv_publisher p) \<and> valid_id (pv_incarnation p)
     \<and> valid_id (pv_epoch p) \<and> digest_valid (pv_payload_digest p)"

record EvidenceBinding =
  eb_topology :: u64
  eb_topology_generation :: Generation
  eb_capacity :: u64
  eb_capacity_generation :: Generation
  eb_signals :: u64
  eb_signals_generation :: Generation
  eb_paths :: u64
  eb_path_generation :: Generation
  eb_traffic :: u64
  eb_traffic_generation :: Generation
  eb_policy :: PolicyId
  eb_policy_generation :: Generation

definition no_binding :: EvidenceBinding where
  "no_binding = \<lparr>eb_topology = 0, eb_topology_generation = 0, eb_capacity = 0,
     eb_capacity_generation = 0, eb_signals = 0, eb_signals_generation = 0, eb_paths = 0,
     eb_path_generation = 0, eb_traffic = 0, eb_traffic_generation = 0, eb_policy = 0,
     eb_policy_generation = 0\<rparr>"

section \<open>Lemmas\<close>

lemma rk_code_of [simp]: "rk_code (rk_of v) = v"
  by (simp add: rk_of_def)

lemma rk_ok_of [simp]: "rk_ok (rk_of v)"
  by (simp add: rk_ok_def)

lemma rk_of_code: "rk_ok k \<Longrightarrow> rk_of (rk_code k) = k"
  by (simp add: rk_ok_def)

lemma tq_code_of [simp]: "tq_code (tq_of v) = v"
  by (simp add: tq_of_def)

lemma tq_ok_of [simp]: "tq_ok (tq_of v)"
  by (simp add: tq_ok_def)

lemma tq_of_code: "tq_ok k \<Longrightarrow> tq_of (tq_code k) = k"
  by (simp add: tq_ok_def)

lemma sev_code_of [simp]: "sev_code (sev_of v) = v"
  by (simp add: sev_of_def)

lemma sev_ok_of [simp]: "sev_ok (sev_of v)"
  by (simp add: sev_ok_def)

lemma sev_of_code: "sev_ok k \<Longrightarrow> sev_of (sev_code k) = k"
  by (simp add: sev_ok_def)

lemma scope_code_of [simp]: "scope_code (scope_of v) = v"
  by (simp add: scope_of_def)

lemma scope_ok_of [simp]: "scope_ok (scope_of v)"
  by (simp add: scope_ok_def)

lemma scope_of_code: "scope_ok k \<Longrightarrow> scope_of (scope_code k) = k"
  by (simp add: scope_ok_def)

lemma cause_code_of [simp]: "cause_code (cause_of v) = v"
  by (simp add: cause_of_def)

lemma cause_ok_of [simp]: "cause_ok (cause_of v)"
  by (simp add: cause_ok_def)

lemma cause_of_code: "cause_ok k \<Longrightarrow> cause_of (cause_code k) = k"
  by (simp add: cause_ok_def)

lemma mk_code_of [simp]: "mk_code (mk_of v) = v"
  by (simp add: mk_of_def)

lemma mk_ok_of [simp]: "mk_ok (mk_of v)"
  by (simp add: mk_ok_def)

lemma mk_of_code: "mk_ok k \<Longrightarrow> mk_of (mk_code k) = k"
  by (simp add: mk_ok_def)

lemma sk_code_of [simp]: "sk_code (sk_of v) = v"
  by (simp add: sk_of_def)

lemma sk_ok_of [simp]: "sk_ok (sk_of v)"
  by (simp add: sk_ok_def)

lemma sk_of_code: "sk_ok k \<Longrightarrow> sk_of (sk_code k) = k"
  by (simp add: sk_ok_def)

lemmas enum_of_code =
  rk_of_code tq_of_code sev_of_code scope_of_code cause_of_code mk_of_code sk_of_code

lemma stream_index_less: "stream_index k < kStreamCount"
  by (simp add: stream_index_def Let_def kStreamCount_def)

lemma stream_index_inj:
  assumes "stream_index k = stream_index k'" and "stream_index k \<noteq> 0" and "sk_ok k" and "sk_ok k'"
  shows "k = k'"
proof -
  have "unat (sk_code k) = unat (sk_code k')"
    using assms(1,2) by (auto simp: stream_index_def Let_def split: if_splits)
  then have "sk_code k = sk_code k'" by (simp add: word_unat_eq_iff)
  then show ?thesis using assms(3,4) by (metis sk_of_code)
qed

end
