(* ===== verification/HGM_Csr.thy ===== *)
theory HGM_Csr
  imports HGM_Prelude
begin

text \<open>
  The compressed sparse row (CSR) indices of \<^verbatim>\<open>src/topology.cpp\<close> (neighbours of a resource)
  and \<^verbatim>\<open>src/paths.cpp\<close> (paths through a resource) are built by the same three loops: count
  the entries of each row, turn the counts into offsets, and scatter the entries through one
  write cursor per row. An entry is a pair of its row and its value, in the order the
  loops visit them. The offsets are 32 bit integers in the sources; the bounds on links
  (\<open>2 * 2097152\<close> entries) and on paths (\<open>1048576 * 256\<close> entries) keep them below \<open>2 ^ 32\<close>, and
  they are natural numbers here.
\<close>

section \<open>The loops\<close>

definition csr_counts :: "nat \<Rightarrow> nat list \<Rightarrow> nat list" where
  "csr_counts n rows = fold (\<lambda>i c. c[i := c ! i + 1]) rows (replicate n 0)"

fun csr_offsets_from :: "nat \<Rightarrow> nat list \<Rightarrow> nat list" where
  "csr_offsets_from s [] = [s]"
| "csr_offsets_from s (c # cs) = s # csr_offsets_from (s + c) cs"

definition csr_offsets :: "nat list \<Rightarrow> nat list" where
  "csr_offsets counts = csr_offsets_from 0 counts"

definition csr_write :: "nat \<times> 'v \<Rightarrow> 'v list \<times> nat list \<Rightarrow> 'v list \<times> nat list" where
  "csr_write w s = (case (w, s) of ((i, v), (ids, cursor)) \<Rightarrow>
     (ids[cursor ! i := v], cursor[i := cursor ! i + 1]))"

definition csr_fill :: "'v \<Rightarrow> nat list \<Rightarrow> (nat \<times> 'v) list \<Rightarrow> 'v list" where
  "csr_fill blank offsets ws =
     fst (fold csr_write ws (replicate (last offsets) blank, butlast offsets))"

definition slice :: "'v list \<Rightarrow> nat \<Rightarrow> nat \<Rightarrow> 'v list" where
  "slice xs b e = map (\<lambda>k. xs ! k) [b..<e]"

text \<open>
  Sorting one row in place, and sorting it and dropping duplicates. \<open>std::unique\<close> leaves the
  positions behind its result unspecified; the model keeps the values that were there.
\<close>

definition csr_sort_row :: "nat list \<Rightarrow> nat \<Rightarrow> 'v::linorder list \<Rightarrow> 'v list" where
  "csr_sort_row offsets i ids =
     take (offsets ! i) ids @ sort (slice ids (offsets ! i) (offsets ! Suc i)) @ drop (offsets ! Suc i) ids"

definition csr_unique_row :: "nat \<Rightarrow> 'v::linorder list \<times> nat list \<Rightarrow> 'v list \<times> nat list" where
  "csr_unique_row i s = (case s of (ids, offsets) \<Rightarrow>
     let b = offsets ! i; e = offsets ! Suc i; row = sort (slice ids b e); u = remdups_adj row
     in (take b ids @ u @ drop (length u) row @ drop e ids, offsets[Suc i := b + length u]))"

text \<open>Copying the rows into a fresh vector (\<open>compact\<close>).\<close>

definition csr_rows :: "'v list \<Rightarrow> nat list \<Rightarrow> nat \<Rightarrow> 'v list list" where
  "csr_rows ids offsets n = map (\<lambda>i. slice ids (offsets ! i) (offsets ! Suc i)) [0..<n]"

definition csr_pack :: "'v list list \<Rightarrow> nat list \<times> 'v list" where
  "csr_pack rows = (csr_offsets (map length rows), concat rows)"

section \<open>Rows of an entry list\<close>

definition csr_row :: "(nat \<times> 'v) list \<Rightarrow> nat \<Rightarrow> 'v list" where
  "csr_row ws i = map snd (filter (\<lambda>w. fst w = i) ws)"

lemma csr_row_simps [simp]:
  "csr_row [] i = []"
  "csr_row (ws @ ws') i = csr_row ws i @ csr_row ws' i"
  "csr_row ((j, v) # ws) i = (if j = i then v # csr_row ws i else csr_row ws i)"
  by (simp_all add: csr_row_def)

lemma set_csr_row: "v \<in> set (csr_row ws i) \<longleftrightarrow> (i, v) \<in> set ws"
  by (force simp: csr_row_def)

lemma csr_counts_length [simp]: "length (csr_counts n rows) = n"
proof -
  have "length (fold (\<lambda>i c. c[i := c ! i + 1]) rows c) = length c" for c :: "nat list"
    by (induction rows arbitrary: c) auto
  then show ?thesis by (simp add: csr_counts_def)
qed

lemma csr_counts_nth:
  assumes "\<forall>i\<in>set rows. i < n" and "j < n"
  shows "csr_counts n rows ! j = count_list rows j"
proof -
  have "fold (\<lambda>i c. c[i := c ! i + 1]) rows c ! j = c ! j + count_list rows j"
    if "length c = n" for c :: "nat list"
    using assms that by (induction rows arbitrary: c) (auto simp: nth_list_update)
  then show ?thesis using assms(2) by (simp add: csr_counts_def)
qed

lemma csr_offsets_from_nth:
  "i \<le> length cs \<Longrightarrow> csr_offsets_from s cs ! i = s + sum_list (take i cs)"
proof (induction cs arbitrary: s i)
  case (Cons c cs)
  then show ?case by (cases i) auto
qed simp

lemma length_csr_offsets_from [simp]: "length (csr_offsets_from s cs) = Suc (length cs)"
  by (induction cs arbitrary: s) auto

lemma csr_offsets_length [simp]: "length (csr_offsets cs) = Suc (length cs)"
  by (simp add: csr_offsets_def)

lemma csr_offsets_nth: "i \<le> length cs \<Longrightarrow> csr_offsets cs ! i = sum_list (take i cs)"
  by (simp add: csr_offsets_def csr_offsets_from_nth)

lemma csr_offsets_Suc: "i < length cs \<Longrightarrow> csr_offsets cs ! Suc i = csr_offsets cs ! i + cs ! i"
  by (simp add: csr_offsets_nth take_Suc_conv_app_nth)

lemma csr_offsets_mono:
  "i \<le> j \<Longrightarrow> j \<le> length cs \<Longrightarrow> csr_offsets cs ! i \<le> csr_offsets cs ! j"
  by (induction j) (auto simp: le_Suc_eq csr_offsets_Suc)

lemma csr_offsets_last: "last (csr_offsets cs) = csr_offsets cs ! length cs"
  by (metis csr_offsets_length diff_Suc_1 last_conv_nth length_0_conv nat.distinct(1))

section \<open>The scatter loop fills every row with its entries in order\<close>

text \<open>
  The loop invariant after the entries \<open>done\<close>: the cursor of a row is its offset plus the number
  of its entries already written, and those entries are in place.
\<close>

definition csr_inv :: "nat list \<Rightarrow> (nat \<times> 'v) list \<Rightarrow> 'v list \<times> nat list \<Rightarrow> bool" where
  "csr_inv offsets ws s \<longleftrightarrow>
     length (snd s) = length offsets - 1 \<and> length (fst s) = last offsets \<and>
     (\<forall>i < length offsets - 1. snd s ! i = offsets ! i + length (csr_row ws i) \<and>
        (\<forall>j < length (csr_row ws i). fst s ! (offsets ! i + j) = csr_row ws i ! j))"

lemma csr_inv_step:
  assumes inv: "csr_inv offsets ws s" and offs: "offsets = csr_offsets counts"
    and i: "i < length counts"
    and room: "\<And>k. k < length counts \<Longrightarrow> length (csr_row (ws @ [(i, v)]) k) \<le> counts ! k"
  shows "csr_inv offsets (ws @ [(i, v)]) (csr_write (i, v) s)"
proof -
  obtain ids cursor where s: "s = (ids, cursor)" by (cases s)
  let ?c = "\<lambda>k. length (csr_row ws k)"
  have len: "length cursor = length counts" "length ids = offsets ! length counts"
    and cur: "\<And>k. k < length counts \<Longrightarrow> cursor ! k = offsets ! k + ?c k"
    and val: "\<And>k j. k < length counts \<Longrightarrow> j < ?c k \<Longrightarrow> ids ! (offsets ! k + j) = csr_row ws k ! j"
    using inv by (auto simp: csr_inv_def s offs csr_offsets_last)
  have suc: "\<And>k. k < length counts \<Longrightarrow> offsets ! Suc k = offsets ! k + counts ! k"
    by (simp add: offs csr_offsets_Suc)
  have ci: "?c i < counts ! i" using room [OF i] by simp
  have below: "offsets ! k + j < offsets ! length counts" if "k < length counts" "j < counts ! k" for k j
    using csr_offsets_mono [of "Suc k" "length counts" counts] suc [OF that(1)] that by (simp add: offs)
  have apart: "offsets ! k + j \<noteq> offsets ! i + ?c i"
    if "k < length counts" "j < counts ! k" "k \<noteq> i" for k j
  proof (cases "k < i")
    case True
    then have "offsets ! Suc k \<le> offsets ! i" using i csr_offsets_mono [of "Suc k" i counts] by (simp add: offs)
    then show ?thesis using suc [OF that(1)] that(2) by simp
  next
    case False
    then have "offsets ! Suc i \<le> offsets ! k"
      using that csr_offsets_mono [of "Suc i" k counts] by (simp add: offs)
    then show ?thesis using suc [OF i] ci by simp
  qed
  have "csr_write (i, v) s = (ids[offsets ! i + ?c i := v], cursor[i := offsets ! i + ?c i + 1])"
    by (simp add: csr_write_def s cur [OF i])
  moreover have "ids[offsets ! i + ?c i := v] ! (offsets ! k + j) = csr_row (ws @ [(i, v)]) k ! j"
    if k: "k < length counts" and j: "j < length (csr_row (ws @ [(i, v)]) k)" for k j
  proof (cases "k = i")
    case True
    then show ?thesis using j val [OF i] below [OF i ci] len
      by (cases "j = ?c i") (auto simp: nth_append nth_list_update)
  next
    case False
    then have jc: "j < ?c k" using j by simp
    then have "j < counts ! k" using room [OF k] by simp
    then have "offsets ! k + j \<noteq> offsets ! i + ?c i" using apart [OF k] False by blast
    then show ?thesis using False val [OF k jc] by simp
  qed
  ultimately show ?thesis
    using len i cur by (auto simp: csr_inv_def offs csr_offsets_last nth_list_update)
qed

lemma csr_row_length_le: "length (csr_row (ws @ ws') k) \<ge> length (csr_row ws k)"
  by simp

lemma csr_inv_fold:
  assumes "offsets = csr_offsets counts" and "\<forall>w\<in>set todo. fst w < length counts"
    and "\<And>k. k < length counts \<Longrightarrow> length (csr_row (ws @ todo) k) \<le> counts ! k"
    and "csr_inv offsets ws s"
  shows "csr_inv offsets (ws @ todo) (fold csr_write todo s)"
  using assms
proof (induction todo arbitrary: ws s)
  case (Cons w todo)
  obtain i v where w: "w = (i, v)" by (cases w)
  have "csr_inv offsets (ws @ [(i, v)]) (csr_write (i, v) s)"
  proof (rule csr_inv_step [OF Cons.prems(4,1)])
    show "i < length counts" using Cons.prems(2) w by simp
    show "length (csr_row (ws @ [(i, v)]) k) \<le> counts ! k" if "k < length counts" for k
      using Cons.prems(3) [OF that] by (auto simp: w split: if_splits)
  qed
  from Cons.IH [OF Cons.prems(1) _ _ this] Cons.prems(2,3) show ?case by (simp add: w)
qed simp

theorem csr_fill_rows:
  assumes rows: "\<forall>w\<in>set ws. fst w < n"
    and offs: "offsets = csr_offsets (csr_counts n (map fst ws))" and k: "k < n"
  shows "slice (csr_fill blank offsets ws) (offsets ! k) (offsets ! Suc k) = csr_row ws k"
proof -
  let ?counts = "csr_counts n (map fst ws)"
  let ?s = "fold csr_write ws (replicate (last offsets) blank, butlast offsets)"
  have cnt: "?counts ! i = length (csr_row ws i)" if "i < n" for i
  proof -
    have "count_list (map fst ws) i = length (csr_row ws i)"
      by (induction ws) (auto simp: csr_row_def)
    then show ?thesis using rows that by (subst csr_counts_nth) auto
  qed
  have start: "csr_inv offsets [] (replicate (last offsets) blank, butlast offsets)"
    by (simp add: csr_inv_def nth_butlast)
  have "csr_inv offsets ([] @ ws) ?s"
    by (rule csr_inv_fold [OF offs _ _ start]) (use rows cnt in auto)
  then have "\<forall>j < length (csr_row ws k). fst ?s ! (offsets ! k + j) = csr_row ws k ! j"
    using k by (simp add: csr_inv_def offs)
  moreover have "offsets ! Suc k = offsets ! k + length (csr_row ws k)"
    using k cnt [OF k] by (simp add: offs csr_offsets_Suc)
  ultimately show ?thesis
    by (intro nth_equalityI) (simp_all add: slice_def csr_fill_def)
qed

lemma csr_fill_length: "length (csr_fill blank offsets ws) = last offsets"
proof -
  have "length (fst (fold csr_write ws s)) = length (fst s)" for s
    by (induction ws arbitrary: s) (auto simp: csr_write_def split: prod.splits)
  then show ?thesis by (simp add: csr_fill_def)
qed

lemma slice_length [simp]: "length (slice xs b e) = e - b"
  by (simp add: slice_def)

lemma slice_take_drop: "e \<le> length xs \<Longrightarrow> slice xs b e = take (e - b) (drop b xs)"
  by (rule nth_equalityI) (auto simp: slice_def)

section \<open>Packed rows and rows sorted in place\<close>

lemma sum_list_take_length_concat:
  "i \<le> length rows \<Longrightarrow> sum_list (take i (map length rows)) = length (concat (take i rows))"
  by (simp add: length_concat take_map)

lemma csr_pack_row:
  assumes "i < length rows" and "csr_pack rows = (offsets, ids)"
  shows "slice ids (offsets ! i) (offsets ! Suc i) = rows ! i"
proof -
  have ids: "ids = concat rows" and offs: "offsets = csr_offsets (map length rows)"
    using assms(2) by (simp_all add: csr_pack_def)
  have b: "offsets ! i = length (concat (take i rows))"
    using assms(1) by (simp add: offs csr_offsets_nth sum_list_take_length_concat)
  have e: "offsets ! Suc i = offsets ! i + length (rows ! i)"
    using assms(1) by (simp add: offs csr_offsets_Suc)
  have "concat rows = concat (take i rows) @ rows ! i @ concat (drop (Suc i) rows)"
    using assms(1) by (metis concat.simps(2) concat_append id_take_nth_drop)
  then show ?thesis
    by (intro nth_equalityI) (simp_all add: slice_def ids b [symmetric] e nth_append)
qed

lemma csr_pack_offset_le:
  assumes "i \<le> length rows" and "csr_pack rows = (offsets, ids)"
  shows "offsets ! i \<le> length ids"
proof -
  have "offsets ! i = length (concat (take i rows))"
    using assms by (auto simp: csr_pack_def csr_offsets_nth sum_list_take_length_concat)
  moreover have "length (concat rows) = length (concat (take i rows)) + length (concat (drop i rows))"
    by (metis append_take_drop_id concat_append length_append)
  moreover have "ids = concat rows" using assms(2) by (simp add: csr_pack_def)
  ultimately show ?thesis by simp
qed

lemma slice_eq_nth: "slice xs b e = slice ys b e \<longleftrightarrow> (\<forall>k. b \<le> k \<and> k < e \<longrightarrow> xs ! k = ys ! k)"
  by (auto simp: slice_def)

lemma slice_splice:
  assumes "b \<le> e" and "e \<le> length ids" and "length row = e - b"
  shows "slice (take b ids @ row @ drop e ids) b e = row"
    and "e' \<le> b \<or> e \<le> b' \<Longrightarrow> e' \<le> length ids \<Longrightarrow>
           slice (take b ids @ row @ drop e ids) b' e' = slice ids b' e'"
proof -
  show "slice (take b ids @ row @ drop e ids) b e = row"
    using assms by (intro nth_equalityI) (auto simp: slice_def nth_append)
  show "slice (take b ids @ row @ drop e ids) b' e' = slice ids b' e'"
    if "e' \<le> b \<or> e \<le> b'" and "e' \<le> length ids"
    using assms that by (auto simp: slice_def nth_append)
qed

lemma csr_unique_rows:
  fixes ids :: "'v::linorder list"
  assumes offs: "offsets = csr_offsets counts" and len: "length ids = last offsets"
    and dist: "\<And>k. k < length counts \<Longrightarrow> distinct (slice ids (offsets ! k) (offsets ! Suc k))"
    and m: "m \<le> length counts"
  shows "\<exists>ids'. fold csr_unique_row [0..<m] (ids, offsets) = (ids', offsets) \<and> length ids' = length ids \<and>
     (\<forall>k < length counts. slice ids' (offsets ! k) (offsets ! Suc k) =
        (if k < m then sort (slice ids (offsets ! k) (offsets ! Suc k))
         else slice ids (offsets ! k) (offsets ! Suc k)))"
  using m
proof (induction m)
  case (Suc m)
  let ?row = "\<lambda>xs k. slice xs (offsets ! k) (offsets ! Suc k)"
  from Suc obtain ids1 where f: "fold csr_unique_row [0..<m] (ids, offsets) = (ids1, offsets)"
    and l: "length ids1 = length ids"
    and r: "\<forall>k < length counts. ?row ids1 k = (if k < m then sort (?row ids k) else ?row ids k)"
    by auto
  from Suc.prems have mlt: "m < length counts" by simp
  have be: "offsets ! m \<le> offsets ! Suc m" using mlt by (simp add: offs csr_offsets_Suc)
  have el: "k \<le> length counts \<Longrightarrow> offsets ! k \<le> length ids" for k
    using csr_offsets_mono [of k "length counts" counts] by (simp add: len offs csr_offsets_last)
  have rm: "?row ids1 m = ?row ids m" using r mlt by simp
  have "distinct (sort (?row ids m))" using dist [OF mlt] by simp
  then have u: "remdups_adj (sort (?row ids m)) = sort (?row ids m)" by (rule remdups_adj_distinct)
  let ?ids2 = "take (offsets ! m) ids1 @ sort (?row ids m) @ drop (offsets ! Suc m) ids1"
  have "csr_unique_row m (ids1, offsets) = (?ids2, offsets[Suc m := offsets ! m + (offsets ! Suc m - offsets ! m)])"
    by (simp add: csr_unique_row_def Let_def rm u)
  then have step: "csr_unique_row m (ids1, offsets) = (?ids2, offsets)" using be by simp
  have rows: "?row ?ids2 k = (if k < Suc m then sort (?row ids k) else ?row ids k)"
    if k: "k < length counts" for k
  proof (cases "k = m")
    case True
    then show ?thesis using be el [of "Suc m"] mlt l by (simp add: slice_splice(1))
  next
    case False
    have "offsets ! Suc k \<le> offsets ! m \<or> offsets ! Suc m \<le> offsets ! k"
      using False k mlt csr_offsets_mono [of "Suc k" m counts] csr_offsets_mono [of "Suc m" k counts]
      by (cases "k < m") (simp_all add: offs)
    then have "?row ?ids2 k = ?row ids1 k"
      using be el [of "Suc m"] el [of "Suc k"] mlt k l by (intro slice_splice(2)) simp_all
    then show ?thesis using r k False by auto
  qed
  have "length ?ids2 = length ids" using be el [of "Suc m"] mlt l by simp
  then show ?case using f step rows by auto
qed auto

lemma csr_sort_rows:
  fixes ids :: "'v::linorder list"
  assumes offs: "offsets = csr_offsets counts" and len: "length ids = last offsets"
    and m: "m \<le> length counts"
  shows "length (fold (csr_sort_row offsets) [0..<m] ids) = length ids \<and>
     (\<forall>k < length counts. slice (fold (csr_sort_row offsets) [0..<m] ids) (offsets ! k) (offsets ! Suc k) =
        (if k < m then sort (slice ids (offsets ! k) (offsets ! Suc k))
         else slice ids (offsets ! k) (offsets ! Suc k)))"
  using m
proof (induction m)
  case (Suc m)
  let ?row = "\<lambda>xs k. slice xs (offsets ! k) (offsets ! Suc k)"
  let ?ids1 = "fold (csr_sort_row offsets) [0..<m] ids"
  from Suc have l: "length ?ids1 = length ids"
    and r: "\<forall>k < length counts. ?row ?ids1 k = (if k < m then sort (?row ids k) else ?row ids k)" by simp_all
  from Suc.prems have mlt: "m < length counts" by simp
  have be: "offsets ! m \<le> offsets ! Suc m" using mlt by (simp add: offs csr_offsets_Suc)
  have el: "k \<le> length counts \<Longrightarrow> offsets ! k \<le> length ids" for k
    using csr_offsets_mono [of k "length counts" counts] by (simp add: len offs csr_offsets_last)
  let ?ids2 = "take (offsets ! m) ?ids1 @ sort (?row ids m) @ drop (offsets ! Suc m) ?ids1"
  have step: "fold (csr_sort_row offsets) [0..<Suc m] ids = ?ids2"
    using r mlt by (simp add: csr_sort_row_def)
  have "?row ?ids2 k = (if k < Suc m then sort (?row ids k) else ?row ids k)"
    if k: "k < length counts" for k
  proof (cases "k = m")
    case True
    then show ?thesis using be el [of "Suc m"] mlt l by (simp add: slice_splice(1))
  next
    case False
    have "offsets ! Suc k \<le> offsets ! m \<or> offsets ! Suc m \<le> offsets ! k"
      using False k mlt csr_offsets_mono [of "Suc k" m counts] csr_offsets_mono [of "Suc m" k counts]
      by (cases "k < m") (simp_all add: offs)
    then have "?row ?ids2 k = ?row ?ids1 k"
      using be el [of "Suc m"] el [of "Suc k"] mlt k l by (intro slice_splice(2)) simp_all
    then show ?thesis using r k False by auto
  qed
  moreover have "length ?ids2 = length ids" using be el [of "Suc m"] mlt l by simp
  ultimately show ?case unfolding step by blast
qed simp

end
