(* ===== verification/HGM_Topology.thy ===== *)
theory HGM_Topology
  imports HGM_Types HGM_Csr "HOL-Library.Product_Lexorder"
begin

text \<open>
  The topology snapshot (\<^verbatim>\<open>include/hgm/topology.hpp\<close>, \<^verbatim>\<open>src/topology.cpp\<close>): regions that
  nest, resources, undirected links; \<open>build\<close> sorts and validates them, derives the neighbour index
  and the region chains in CSR form and the content identity. The lemmas show that a successful
  build yields strictly sorted, closed tables, that \<open>neighbors\<close> is exactly the (symmetric)
  adjacency the links describe, and that every region chain ends at a root.

  A failed \<open>build\<close> returns the code only: the object stays unbuilt and every caller in the sources
  drops it.
\<close>

section \<open>Data\<close>

record Region =
  rg_id :: RegionId
  rg_name :: string
  rg_parent :: RegionId

record Resource =
  rs_id :: ResourceId
  rs_region :: RegionId
  rs_kind :: ResourceKind
  rs_name :: string

record Link =
  ln_id :: LinkId
  ln_endpoint_a :: ResourceId
  ln_endpoint_b :: ResourceId

record TopologySnapshot =
  tp_regions :: "Region list"
  tp_resources :: "Resource list"
  tp_links :: "Link list"
  tp_neighbor_offsets :: "nat list"
  tp_neighbor_ids :: "ResourceId list"
  tp_chain_offsets :: "nat list"
  tp_chain_ids :: "RegionId list"
  tp_region_index :: "nat list"
  tp_id :: u64
  tp_digest :: Digest
  tp_generation :: Generation
  tp_provenance :: Provenance
  tp_valid_from :: Millis
  tp_valid_until :: Millis
  tp_built :: bool

definition empty_topology :: TopologySnapshot where
  "empty_topology = \<lparr>tp_regions = [], tp_resources = [], tp_links = [], tp_neighbor_offsets = [],
     tp_neighbor_ids = [], tp_chain_offsets = [], tp_chain_ids = [], tp_region_index = [],
     tp_id = 0, tp_digest = no_digest, tp_generation = 0, tp_provenance = no_provenance,
     tp_valid_from = kNoTime, tp_valid_until = 0, tp_built = False\<rparr>"

section \<open>Operations\<close>

definition bounded_name :: "string \<Rightarrow> nat \<Rightarrow> string" where
  "bounded_name name limit = (if length name > limit then take limit name else name)"

definition add_region :: "RegionId \<Rightarrow> string \<Rightarrow> RegionId \<Rightarrow> TopologySnapshot \<Rightarrow> TopologySnapshot" where
  "add_region i name parent t = t\<lparr>tp_regions := tp_regions t @
     [\<lparr>rg_id = i, rg_name = bounded_name name kMaxRegionNameBytes, rg_parent = parent\<rparr>], tp_built := False\<rparr>"

definition add_resource ::
    "ResourceId \<Rightarrow> RegionId \<Rightarrow> ResourceKind \<Rightarrow> string \<Rightarrow> TopologySnapshot \<Rightarrow> TopologySnapshot" where
  "add_resource i region kind name t = t\<lparr>tp_resources := tp_resources t @
     [\<lparr>rs_id = i, rs_region = region, rs_kind = kind,
       rs_name = bounded_name name kMaxResourceNameBytes\<rparr>], tp_built := False\<rparr>"

definition add_link :: "LinkId \<Rightarrow> ResourceId \<Rightarrow> ResourceId \<Rightarrow> TopologySnapshot \<Rightarrow> TopologySnapshot" where
  "add_link i a b t = t\<lparr>tp_links := tp_links t @
     [\<lparr>ln_id = i, ln_endpoint_a = a, ln_endpoint_b = b\<rparr>], tp_built := False\<rparr>"

definition fresh_at :: "TopologySnapshot \<Rightarrow> Millis \<Rightarrow> bool" where
  "fresh_at t now \<longleftrightarrow> (if tp_valid_until t = 0 then True else now \<le> tp_valid_until t)"

definition find_resource :: "TopologySnapshot \<Rightarrow> ResourceId \<Rightarrow> Resource option" where
  "find_resource t i = (if valid_id i then find_sorted rs_id (tp_resources t) i else None)"

definition find_region :: "TopologySnapshot \<Rightarrow> RegionId \<Rightarrow> Region option" where
  "find_region t i = (if valid_id i then find_sorted rg_id (tp_regions t) i else None)"

definition has_region :: "TopologySnapshot \<Rightarrow> RegionId \<Rightarrow> bool" where
  "has_region t i \<longleftrightarrow> find_region t i \<noteq> None"

definition has_resource :: "TopologySnapshot \<Rightarrow> ResourceId \<Rightarrow> bool" where
  "has_resource t i \<longleftrightarrow> find_resource t i \<noteq> None"

subsection \<open>Validation\<close>

definition check_region :: "Region option \<Rightarrow> Region \<Rightarrow> unit result" where
  "check_region prev r =
     bind_result (guard (valid_id (rg_id r)) InvalidArgument) (\<lambda>_.
     bind_result (guard (not_dup rg_id prev r) InvalidArgument) (\<lambda>_.
     guard (length (rg_name r) \<le> kMaxRegionNameBytes) BoundExceeded))"

definition check_parent :: "TopologySnapshot \<Rightarrow> Region option \<Rightarrow> Region \<Rightarrow> unit result" where
  "check_parent t prev r =
     bind_result (guard (valid_id (rg_parent r) \<longrightarrow> find_sorted rg_id (tp_regions t) (rg_parent r) \<noteq> None)
                    UnknownRegion) (\<lambda>_.
     guard (rg_parent r \<noteq> rg_id r) InvalidArgument)"

text \<open>The bounded walk along parents; \<open>steps\<close> is what is left of the bound.\<close>

primrec walk_parents :: "nat \<Rightarrow> TopologySnapshot \<Rightarrow> RegionId \<Rightarrow> bool" where
  "walk_parents 0 t cursor \<longleftrightarrow> \<not> valid_id cursor"
| "walk_parents (Suc steps) t cursor \<longleftrightarrow> \<not> valid_id cursor \<or>
     (case find_region t cursor of None \<Rightarrow> True | Some p \<Rightarrow> walk_parents steps t (rg_parent p))"

definition check_cycle :: "TopologySnapshot \<Rightarrow> Region option \<Rightarrow> Region \<Rightarrow> unit result" where
  "check_cycle t prev r = guard (walk_parents (length (tp_regions t)) t (rg_parent r)) InvalidArgument"

definition check_resource :: "TopologySnapshot \<Rightarrow> Resource option \<Rightarrow> Resource \<Rightarrow> unit result" where
  "check_resource t prev r =
     bind_result (guard (valid_id (rs_id r)) InvalidArgument) (\<lambda>_.
     bind_result (guard (not_dup rs_id prev r) InvalidArgument) (\<lambda>_.
     bind_result (guard (valid_id (rs_region r) \<and> has_region t (rs_region r)) UnknownRegion) (\<lambda>_.
     guard (length (rs_name r) \<le> kMaxResourceNameBytes) BoundExceeded)))"

text \<open>The sort key of a link: its lower and its higher endpoint.\<close>

definition link_key :: "Link \<Rightarrow> ResourceId \<times> ResourceId" where
  "link_key l =
     (if ln_endpoint_a l < ln_endpoint_b l then ln_endpoint_a l else ln_endpoint_b l,
      if ln_endpoint_a l < ln_endpoint_b l then ln_endpoint_b l else ln_endpoint_a l)"

definition same_pair :: "Link \<Rightarrow> Link \<Rightarrow> bool" where
  "same_pair p l \<longleftrightarrow>
     (ln_endpoint_a p = ln_endpoint_a l \<and> ln_endpoint_b p = ln_endpoint_b l) \<or>
     (ln_endpoint_a p = ln_endpoint_b l \<and> ln_endpoint_b p = ln_endpoint_a l)"

definition check_link :: "TopologySnapshot \<Rightarrow> Link option \<Rightarrow> Link \<Rightarrow> unit result" where
  "check_link t prev l =
     bind_result (guard (valid_id (ln_endpoint_a l) \<and> valid_id (ln_endpoint_b l)) InvalidArgument) (\<lambda>_.
     bind_result (guard (ln_endpoint_a l \<noteq> ln_endpoint_b l) InvalidArgument) (\<lambda>_.
     bind_result (guard (has_resource t (ln_endpoint_a l) \<and> has_resource t (ln_endpoint_b l)) UnknownResource) (\<lambda>_.
     guard (case prev of None \<Rightarrow> True | Some p \<Rightarrow> \<not> same_pair p l) InvalidArgument)))"

subsection \<open>The neighbour index\<close>

definition resource_index :: "TopologySnapshot \<Rightarrow> ResourceId \<Rightarrow> nat" where
  "resource_index t i = lower_bound rs_id (tp_resources t) i"

text \<open>The entries in the order the scatter loop writes them.\<close>

definition link_entries :: "TopologySnapshot \<Rightarrow> Link list \<Rightarrow> (nat \<times> ResourceId) list" where
  "link_entries t links = concat (map (\<lambda>l.
     [(resource_index t (ln_endpoint_a l), ln_endpoint_b l),
      (resource_index t (ln_endpoint_b l), ln_endpoint_a l)]) links)"

text \<open>\<open>++degree[a] > max || ++degree[b] > max\<close>, entry by entry.\<close>

fun count_degrees :: "nat list \<Rightarrow> nat list \<Rightarrow> nat list result" where
  "count_degrees [] degree = Inr degree"
| "count_degrees (i # rows) degree =
     (let degree' = degree[i := degree ! i + 1]
      in if degree' ! i > kMaxNeighborsPerResource then Inl BoundExceeded
         else count_degrees rows degree')"

definition build_neighbors :: "TopologySnapshot \<Rightarrow> (nat list \<times> ResourceId list) result" where
  "build_neighbors t =
     (let n = length (tp_resources t); entries = link_entries t (tp_links t)
      in bind_result (count_degrees (map fst entries) (replicate n 0)) (\<lambda>degree.
           let offsets = csr_offsets degree;
               (ids, offsets') = fold csr_unique_row [0..<n] (csr_fill 0 offsets entries, offsets)
           in Inr (csr_pack (csr_rows ids offsets' n))))"

subsection \<open>The region chains\<close>

primrec region_walk :: "nat \<Rightarrow> TopologySnapshot \<Rightarrow> RegionId \<Rightarrow> RegionId list" where
  "region_walk 0 t cursor = []"
| "region_walk (Suc steps) t cursor =
     (if valid_id cursor
      then cursor # (case find_region t cursor of
                       None \<Rightarrow> []
                     | Some entry \<Rightarrow> region_walk steps t (rg_parent entry))
      else [])"

text \<open>
  The offsets are cast to \<open>std::uint32_t\<close>. The bounds on regions and resources do not exclude \<open>2\<^sup>3\<^sup>2\<close> entries
  or more, where the cast wraps.
\<close>

definition build_chains :: "TopologySnapshot \<Rightarrow> nat list \<times> RegionId list" where
  "build_chains t =
     (let (offsets, ids) = csr_pack (map (\<lambda>r. region_walk (Suc (length (tp_regions t))) t (rs_region r)) (tp_resources t))
      in (map (\<lambda>n. n mod 2 ^ 32) offsets, ids))"

subsection \<open>build\<close>

definition validate_and_index :: "TopologySnapshot \<Rightarrow> TopologySnapshot result" where
  "validate_and_index t0 =
     (let t1 = t0\<lparr>tp_regions := sort_key rg_id (tp_regions t0)\<rparr>
      in bind_result (check_entries check_region None (tp_regions t1)) (\<lambda>_.
         bind_result (check_entries (check_parent t1) None (tp_regions t1)) (\<lambda>_.
         bind_result (check_entries (check_cycle t1) None (tp_regions t1)) (\<lambda>_.
         let t2 = t1\<lparr>tp_resources := sort_key rs_id (tp_resources t1)\<rparr>
         in bind_result (check_entries (check_resource t2) None (tp_resources t2)) (\<lambda>_.
            let t3 = t2\<lparr>tp_links := sort_key link_key (tp_links t2)\<rparr>
            in bind_result (check_entries (check_link t3) None (tp_links t3)) (\<lambda>_.
               bind_result (build_neighbors t3) (\<lambda>(offsets, ids).
               let (chain_offsets, chain_ids) = build_chains t3
               in Inr (t3\<lparr>tp_neighbor_offsets := offsets, tp_neighbor_ids := ids,
                          tp_chain_offsets := chain_offsets, tp_chain_ids := chain_ids,
                          tp_region_index :=
                            map (\<lambda>r. lower_bound rg_id (tp_regions t3) (rs_region r)) (tp_resources t3)\<rparr>))))))))"

definition w_region :: "Region \<Rightarrow> bytes" where
  "w_region r = w_u64 (rg_id r) @ w_u64 (rg_parent r) @ w_text (rg_name r)"

definition w_resource :: "Resource \<Rightarrow> bytes" where
  "w_resource r = w_u64 (rs_id r) @ w_u64 (rs_region r) @ w_u8 (rk_code (rs_kind r)) @ w_text (rs_name r)"

definition w_link :: "Link \<Rightarrow> bytes" where
  "w_link l = w_u64 (ln_id l) @ w_u64 (ln_endpoint_a l) @ w_u64 (ln_endpoint_b l)"

definition topology_content :: "TopologySnapshot \<Rightarrow> bytes" where
  "topology_content t = w_list w_region (tp_regions t) @ w_list w_resource (tp_resources t)
     @ w_list w_link (tp_links t)"

definition build_topology :: "TopologySnapshot \<Rightarrow> TopologySnapshot result" where
  "build_topology t =
     (let t0 = t\<lparr>tp_built := False, tp_id := 0, tp_digest := no_digest\<rparr>
      in bind_result (guard (length (tp_regions t0) \<le> kMaxRegions) BoundExceeded) (\<lambda>_.
         bind_result (guard (length (tp_resources t0) \<le> kMaxResources) BoundExceeded) (\<lambda>_.
         bind_result (guard (length (tp_links t0) \<le> kMaxLinks) BoundExceeded) (\<lambda>_.
         bind_result (validate_and_index t0) (\<lambda>t1.
         let d = digest_of (topology_content t1)
         in Inr (t1\<lparr>tp_digest := d, tp_id := dg_fnv d, tp_built := True\<rparr>))))))"

subsection \<open>Queries\<close>

text \<open>The index of an exact match, or none: the shared head of \<open>neighbors\<close> and \<open>region_chain\<close>.\<close>

definition built_index :: "TopologySnapshot \<Rightarrow> ResourceId \<Rightarrow> nat option" where
  "built_index t i =
     (if \<not> tp_built t \<or> \<not> valid_id i then None
      else let k = resource_index t i
           in if k = length (tp_resources t) \<or> rs_id (tp_resources t ! k) \<noteq> i then None else Some k)"

definition neighbors :: "TopologySnapshot \<Rightarrow> ResourceId \<Rightarrow> ResourceId list" where
  "neighbors t i =
     (case built_index t i of
        None \<Rightarrow> []
      | Some k \<Rightarrow> slice (tp_neighbor_ids t) (tp_neighbor_offsets t ! k) (tp_neighbor_offsets t ! Suc k))"

definition region_chain :: "TopologySnapshot \<Rightarrow> ResourceId \<Rightarrow> RegionId list" where
  "region_chain t i =
     (case built_index t i of
        None \<Rightarrow> []
      | Some k \<Rightarrow> slice (tp_chain_ids t) (tp_chain_offsets t ! k) (tp_chain_offsets t ! Suc k))"

definition same_region :: "TopologySnapshot \<Rightarrow> ResourceId \<Rightarrow> ResourceId \<Rightarrow> bool" where
  "same_region t a b \<longleftrightarrow>
     (case (find_resource t a, find_resource t b) of
        (Some ra, Some rb) \<Rightarrow> rs_region ra = rs_region rb
      | _ \<Rightarrow> False)"

section \<open>A built topology is well formed\<close>

lemma has_region_iff:
  "has_region t i \<longleftrightarrow> valid_id i \<and> find_sorted rg_id (tp_regions t) i \<noteq> None"
  by (simp add: has_region_def find_region_def)

lemma has_resource_iff:
  "has_resource t i \<longleftrightarrow> valid_id i \<and> find_sorted rs_id (tp_resources t) i \<noteq> None"
  by (simp add: has_resource_def find_resource_def)

definition regions_wf :: "TopologySnapshot \<Rightarrow> bool" where
  "regions_wf t \<longleftrightarrow> strictly_sorted_by rg_id (tp_regions t) \<and>
     (\<forall>r \<in> set (tp_regions t). valid_id (rg_id r) \<and> length (rg_name r) \<le> kMaxRegionNameBytes \<and>
        (valid_id (rg_parent r) \<longrightarrow> has_region t (rg_parent r)) \<and>
        walk_parents (length (tp_regions t)) t (rg_parent r))"

definition resources_wf :: "TopologySnapshot \<Rightarrow> bool" where
  "resources_wf t \<longleftrightarrow> strictly_sorted_by rs_id (tp_resources t) \<and>
     (\<forall>r \<in> set (tp_resources t). valid_id (rs_id r) \<and> has_region t (rs_region r) \<and>
        length (rs_name r) \<le> kMaxResourceNameBytes)"

definition links_wf :: "TopologySnapshot \<Rightarrow> bool" where
  "links_wf t \<longleftrightarrow> strictly_sorted_by link_key (tp_links t) \<and>
     (\<forall>l \<in> set (tp_links t). ln_endpoint_a l \<noteq> ln_endpoint_b l \<and>
        has_resource t (ln_endpoint_a l) \<and> has_resource t (ln_endpoint_b l))"

lemma walk_parents_cong:
  "tp_regions t = tp_regions t' \<Longrightarrow> walk_parents n t c = walk_parents n t' c"
  by (induction n arbitrary: c) (simp_all add: find_region_def split: option.splits)

lemma region_walk_cong:
  "tp_regions t = tp_regions t' \<Longrightarrow> region_walk n t c = region_walk n t' c"
  by (induction n arbitrary: c) (simp_all add: find_region_def split: option.splits)

lemma regions_wf_cong: "tp_regions t = tp_regions t' \<Longrightarrow> regions_wf t = regions_wf t'"
  using walk_parents_cong [of t t'] by (simp add: regions_wf_def has_region_iff)

lemma resources_wf_cong:
  "tp_regions t = tp_regions t' \<Longrightarrow> tp_resources t = tp_resources t' \<Longrightarrow> resources_wf t = resources_wf t'"
  by (simp add: resources_wf_def has_region_iff)

lemma links_wf_cong:
  "tp_resources t = tp_resources t' \<Longrightarrow> tp_links t = tp_links t' \<Longrightarrow> links_wf t = links_wf t'"
  by (simp add: links_wf_def has_resource_iff)

lemma regions_wf_check:
  assumes "sorted (map rg_id (tp_regions t))"
    and "check_entries check_region None (tp_regions t) = Inr ()"
    and "check_entries (check_parent t) None (tp_regions t) = Inr ()"
    and "check_entries (check_cycle t) None (tp_regions t) = Inr ()"
  shows "regions_wf t"
proof -
  have "strictly_sorted_by rg_id (tp_regions t)"
    by (rule checked_sorted [OF assms(2) _ assms(1)]) (auto simp: check_region_def bind_result_Inr_iff)
  moreover have "\<forall>r \<in> set (tp_regions t). valid_id (rg_id r) \<and> length (rg_name r) \<le> kMaxRegionNameBytes"
    by (rule check_entries_all [OF assms(2)]) (auto simp: check_region_def bind_result_Inr_iff)
  moreover have "\<forall>r \<in> set (tp_regions t). valid_id (rg_parent r) \<longrightarrow> has_region t (rg_parent r)"
    by (rule check_entries_all [OF assms(3)]) (auto simp: check_parent_def bind_result_Inr_iff has_region_iff)
  moreover have "\<forall>r \<in> set (tp_regions t). walk_parents (length (tp_regions t)) t (rg_parent r)"
    by (rule check_entries_all [OF assms(4)]) (simp add: check_cycle_def)
  ultimately show ?thesis by (simp add: regions_wf_def)
qed

lemma resources_wf_check:
  assumes "sorted (map rs_id (tp_resources t))"
    and "check_entries (check_resource t) None (tp_resources t) = Inr ()"
  shows "resources_wf t"
proof -
  have "strictly_sorted_by rs_id (tp_resources t)"
    by (rule checked_sorted [OF assms(2) _ assms(1)]) (auto simp: check_resource_def bind_result_Inr_iff)
  moreover have "\<forall>r \<in> set (tp_resources t). valid_id (rs_id r) \<and> has_region t (rs_region r) \<and>
      length (rs_name r) \<le> kMaxResourceNameBytes"
    by (rule check_entries_all [OF assms(2)]) (auto simp: check_resource_def bind_result_Inr_iff)
  ultimately show ?thesis by (simp add: resources_wf_def)
qed

lemma same_pair_iff: "same_pair p l \<longleftrightarrow> link_key p = link_key l"
  by (auto simp: same_pair_def link_key_def not_less)

lemma links_wf_check:
  assumes "sorted (map link_key (tp_links t))"
    and "check_entries (check_link t) None (tp_links t) = Inr ()"
  shows "links_wf t"
proof -
  have "strictly_sorted_by link_key (tp_links t)"
    by (rule checked_sorted [OF assms(2) _ assms(1)])
      (auto simp: check_link_def bind_result_Inr_iff not_dup_def same_pair_iff split: option.splits)
  moreover have "\<forall>l \<in> set (tp_links t). ln_endpoint_a l \<noteq> ln_endpoint_b l \<and>
      has_resource t (ln_endpoint_a l) \<and> has_resource t (ln_endpoint_b l)"
    by (rule check_entries_all [OF assms(2)]) (auto simp: check_link_def bind_result_Inr_iff)
  ultimately show ?thesis by (simp add: links_wf_def)
qed

text \<open>
  The shape of a built topology: the well-formed tables and the two CSR indices over them.
\<close>

definition topology_wf :: "TopologySnapshot \<Rightarrow> bool" where
  "topology_wf t \<longleftrightarrow> tp_built t \<and> regions_wf t \<and> resources_wf t \<and> links_wf t \<and>
     build_neighbors t = Inr (tp_neighbor_offsets t, tp_neighbor_ids t) \<and>
     build_chains t = (tp_chain_offsets t, tp_chain_ids t)"

lemma build_neighbors_cong:
  "tp_resources t = tp_resources t' \<Longrightarrow> tp_links t = tp_links t' \<Longrightarrow> build_neighbors t = build_neighbors t'"
  by (simp add: build_neighbors_def link_entries_def resource_index_def)

lemma build_chains_cong:
  "tp_regions t = tp_regions t' \<Longrightarrow> tp_resources t = tp_resources t' \<Longrightarrow> build_chains t = build_chains t'"
  using region_walk_cong [of t t'] by (simp add: build_chains_def)

lemma validate_and_index_wf:
  assumes "validate_and_index t = Inr t'"
  shows "regions_wf t'" "resources_wf t'" "links_wf t'"
    "build_neighbors t' = Inr (tp_neighbor_offsets t', tp_neighbor_ids t')"
    "build_chains t' = (tp_chain_offsets t', tp_chain_ids t')"
    "tp_regions t' = sort_key rg_id (tp_regions t)" "tp_resources t' = sort_key rs_id (tp_resources t)"
    "tp_links t' = sort_key link_key (tp_links t)"
proof -
  let ?t1 = "t\<lparr>tp_regions := sort_key rg_id (tp_regions t)\<rparr>"
  let ?t2 = "?t1\<lparr>tp_resources := sort_key rs_id (tp_resources t)\<rparr>"
  let ?t3 = "?t2\<lparr>tp_links := sort_key link_key (tp_links t)\<rparr>"
  obtain co ci where c: "build_chains ?t3 = (co, ci)" by (cases "build_chains ?t3")
  from assms c obtain offs ids where
    r: "check_entries check_region None (tp_regions ?t1) = Inr ()"
       "check_entries (check_parent ?t1) None (tp_regions ?t1) = Inr ()"
       "check_entries (check_cycle ?t1) None (tp_regions ?t1) = Inr ()"
    and s: "check_entries (check_resource ?t2) None (tp_resources ?t2) = Inr ()"
    and l: "check_entries (check_link ?t3) None (tp_links ?t3) = Inr ()"
    and n: "build_neighbors ?t3 = Inr (offs, ids)"
    and t': "tp_regions t' = tp_regions ?t3" "tp_resources t' = tp_resources ?t3" "tp_links t' = tp_links ?t3"
       "tp_neighbor_offsets t' = offs" "tp_neighbor_ids t' = ids"
       "(tp_chain_offsets t', tp_chain_ids t') = build_chains ?t3"
    by (clarsimp simp: validate_and_index_def Let_def bind_result_Inr_iff)
  have "regions_wf ?t1" by (rule regions_wf_check [OF _ r]) simp
  then show "regions_wf t'" using regions_wf_cong [of ?t1 t'] t' by simp
  have "resources_wf ?t2" by (rule resources_wf_check [OF _ s]) simp
  then show "resources_wf t'" using resources_wf_cong [of ?t2 t'] t' by simp
  have "links_wf ?t3" by (rule links_wf_check [OF _ l]) simp
  then show "links_wf t'" using links_wf_cong [of ?t3 t'] t' by simp
  show "build_neighbors t' = Inr (tp_neighbor_offsets t', tp_neighbor_ids t')"
    using n t' build_neighbors_cong [of ?t3 t'] by simp
  show "build_chains t' = (tp_chain_offsets t', tp_chain_ids t')"
    using t' build_chains_cong [of ?t3 t'] by simp
  show "tp_regions t' = sort_key rg_id (tp_regions t)" "tp_resources t' = sort_key rs_id (tp_resources t)"
    "tp_links t' = sort_key link_key (tp_links t)" using t' by simp_all
qed

lemma build_topology_wf:
  assumes "build_topology t = Inr t'"
  shows "topology_wf t'" "tp_regions t' = sort_key rg_id (tp_regions t)"
    "tp_resources t' = sort_key rs_id (tp_resources t)" "tp_links t' = sort_key link_key (tp_links t)"
    "tp_digest t' = digest_of (topology_content t')" "tp_id t' = dg_fnv (tp_digest t')"
proof -
  from assms obtain t1 where v: "validate_and_index (t\<lparr>tp_built := False, tp_id := 0, tp_digest := no_digest\<rparr>) = Inr t1"
    and t': "t' = t1\<lparr>tp_digest := digest_of (topology_content t1), tp_id := dg_fnv (digest_of (topology_content t1)), tp_built := True\<rparr>"
    by (auto simp: build_topology_def Let_def bind_result_Inr_iff)
  note wf = validate_and_index_wf [OF v]
  show "topology_wf t'"
    using wf regions_wf_cong [of t1 t'] resources_wf_cong [of t1 t'] links_wf_cong [of t1 t']
      build_neighbors_cong [of t1 t'] build_chains_cong [of t1 t']
    by (simp add: topology_wf_def t')
  show "tp_regions t' = sort_key rg_id (tp_regions t)" "tp_resources t' = sort_key rs_id (tp_resources t)"
    "tp_links t' = sort_key link_key (tp_links t)" using wf by (simp_all add: t')
  show "tp_digest t' = digest_of (topology_content t')" "tp_id t' = dg_fnv (tp_digest t')"
    by (simp_all add: t' topology_content_def)
qed

interpretation resource_index: sorted_index tp_resources rs_id valid_id topology_wf find_resource
  by unfold_locales (auto simp: topology_wf_def resources_wf_def find_resource_def)

interpretation region_index: sorted_index tp_regions rg_id valid_id topology_wf find_region
  by unfold_locales (auto simp: topology_wf_def regions_wf_def find_region_def)

section \<open>The neighbour index\<close>

lemma count_degrees_Inr:
  "count_degrees rows degree = Inr degree' \<Longrightarrow>
     degree' = fold (\<lambda>i c. c[i := c ! i + 1]) rows degree \<and>
     ((\<forall>d \<in> set degree. d \<le> kMaxNeighborsPerResource) \<longrightarrow> (\<forall>d \<in> set degree'. d \<le> kMaxNeighborsPerResource))"
proof (induction rows arbitrary: degree)
  case (Cons i rows)
  let ?d = "degree[i := degree ! i + 1]"
  from Cons.prems have le: "\<not> ?d ! i > kMaxNeighborsPerResource" and r: "count_degrees rows ?d = Inr degree'"
    by (auto simp: Let_def split: if_splits)
  have "\<forall>d \<in> set ?d. d \<le> kMaxNeighborsPerResource" if "\<forall>d \<in> set degree. d \<le> kMaxNeighborsPerResource"
  proof (cases "i < length degree")
    case True
    then have "degree ! i + 1 \<le> kMaxNeighborsPerResource" using le by simp
    then show ?thesis using that set_update_subset_insert [of degree i "degree ! i + 1"] by blast
  qed (use that in \<open>simp add: list_update_beyond\<close>)
  then show ?case using Cons.IH [OF r] unfolding fold_simps by blast
qed simp

lemma resource_index_inj:
  assumes "resources_wf t" and "has_resource t a" and "has_resource t b"
    and "resource_index t a = resource_index t b"
  shows "a = b"
  using assms by (auto simp: has_resource_iff resource_index_def find_sorted_def Let_def split: if_splits)

lemma resource_index_less: "has_resource t a \<Longrightarrow> resource_index t a < length (tp_resources t)"
  using lower_bound_le [of rs_id "tp_resources t" a]
  by (auto simp: has_resource_iff resource_index_def find_sorted_def Let_def split: if_splits)

lemma link_entries_simps [simp]:
  "link_entries t [] = []"
  "link_entries t (l # links) = (resource_index t (ln_endpoint_a l), ln_endpoint_b l)
     # (resource_index t (ln_endpoint_b l), ln_endpoint_a l) # link_entries t links"
  by (simp_all add: link_entries_def)

lemma set_link_entries:
  "set (link_entries t links) = (\<Union>l \<in> set links.
     {(resource_index t (ln_endpoint_a l), ln_endpoint_b l), (resource_index t (ln_endpoint_b l), ln_endpoint_a l)})"
  by (auto simp: link_entries_def)

lemma distinct_link_entries:
  assumes wf: "resources_wf t" and "distinct (map link_key links)"
    and "\<forall>l \<in> set links. ln_endpoint_a l \<noteq> ln_endpoint_b l \<and>
        has_resource t (ln_endpoint_a l) \<and> has_resource t (ln_endpoint_b l)"
  shows "distinct (link_entries t links)"
  using assms(2,3)
proof (induction links)
  case (Cons l links)
  have "same_pair l' l"
    if "l' \<in> set links" and "(resource_index t (ln_endpoint_a l), ln_endpoint_b l) \<in>
          {(resource_index t (ln_endpoint_a l'), ln_endpoint_b l'), (resource_index t (ln_endpoint_b l'), ln_endpoint_a l')}
        \<or> (resource_index t (ln_endpoint_b l), ln_endpoint_a l) \<in>
          {(resource_index t (ln_endpoint_a l'), ln_endpoint_b l'), (resource_index t (ln_endpoint_b l'), ln_endpoint_a l')}" for l'
  proof -
    have "has_resource t (ln_endpoint_a l)" "has_resource t (ln_endpoint_b l)"
      "has_resource t (ln_endpoint_a l')" "has_resource t (ln_endpoint_b l')"
      using Cons.prems(2) that(1) by auto
    then have "resource_index t x = resource_index t y \<longleftrightarrow> x = y"
      if "x \<in> {ln_endpoint_a l, ln_endpoint_b l}" "y \<in> {ln_endpoint_a l', ln_endpoint_b l'}" for x y
      using resource_index_inj [OF wf] that by blast
    then show ?thesis using that(2) by (auto simp: same_pair_def)
  qed
  moreover have "\<forall>l' \<in> set links. \<not> same_pair l' l"
    using Cons.prems(1) by (auto simp: same_pair_iff image_iff)
  ultimately have "(resource_index t (ln_endpoint_a l), ln_endpoint_b l) \<notin> set (link_entries t links)"
    "(resource_index t (ln_endpoint_b l), ln_endpoint_a l) \<notin> set (link_entries t links)"
    by (auto simp: set_link_entries)
  moreover have "distinct (link_entries t links)" using Cons by simp
  moreover have "ln_endpoint_b l \<noteq> ln_endpoint_a l" using Cons.prems(2) by auto
  ultimately show ?case by simp
qed simp

lemma distinct_csr_row: "distinct ws \<Longrightarrow> distinct (csr_row ws i)"
  by (auto simp: csr_row_def distinct_map inj_on_def)

lemma build_neighbors_rows:
  assumes wf: "resources_wf t" "links_wf t" and b: "build_neighbors t = Inr (offsets, ids)"
    and k: "k < length (tp_resources t)"
  shows "slice ids (offsets ! k) (offsets ! Suc k) = sort (csr_row (link_entries t (tp_links t)) k)"
proof -
  let ?n = "length (tp_resources t)" and ?ws = "link_entries t (tp_links t)"
  let ?counts = "csr_counts ?n (map fst ?ws)"
  let ?offs = "csr_offsets ?counts"
  let ?fill = "csr_fill 0 ?offs ?ws"
  have rows: "\<forall>w \<in> set ?ws. fst w < ?n"
    using wf(2) resource_index_less by (auto simp: links_wf_def set_link_entries)
  have dist: "distinct ?ws"
    using wf strictly_sorted_by_distinct by (intro distinct_link_entries) (auto simp: links_wf_def)
  have fill: "slice ?fill (?offs ! i) (?offs ! Suc i) = csr_row ?ws i" if "i < ?n" for i
    by (rule csr_fill_rows [OF rows refl that])
  have "\<exists>ids'. fold csr_unique_row [0..<?n] (?fill, ?offs) = (ids', ?offs) \<and> length ids' = length ?fill \<and>
     (\<forall>i < length ?counts. slice ids' (?offs ! i) (?offs ! Suc i) =
        (if i < ?n then sort (slice ?fill (?offs ! i) (?offs ! Suc i)) else slice ?fill (?offs ! i) (?offs ! Suc i)))"
    by (rule csr_unique_rows [OF refl]) (simp_all add: csr_fill_length fill distinct_csr_row dist)
  then obtain ids' where f: "fold csr_unique_row [0..<?n] (?fill, ?offs) = (ids', ?offs)"
    and r: "\<forall>i < ?n. slice ids' (?offs ! i) (?offs ! Suc i) = sort (csr_row ?ws i)"
    using fill by auto
  from b obtain degree where d: "count_degrees (map fst ?ws) (replicate ?n 0) = Inr degree"
    and p: "(let (ids, offsets') = fold csr_unique_row [0..<?n] (csr_fill 0 (csr_offsets degree) ?ws, csr_offsets degree)
      in csr_pack (csr_rows ids offsets' ?n)) = (offsets, ids)"
    by (cases "count_degrees (map fst ?ws) (replicate ?n 0)")
      (simp_all add: build_neighbors_def Let_def case_prod_beta)
  have "degree = ?counts" using count_degrees_Inr [OF d] by (simp add: csr_counts_def)
  with p f have "csr_pack (csr_rows ids' ?offs ?n) = (offsets, ids)" by simp
  then have "slice ids (offsets ! k) (offsets ! Suc k) = csr_rows ids' ?offs ?n ! k"
    using k by (intro csr_pack_row) (simp_all add: csr_rows_def)
  then show ?thesis using r k by (simp add: csr_rows_def)
qed

lemma built_index_eq:
  assumes "topology_wf t"
  shows "built_index t i = (if has_resource t i then Some (resource_index t i) else None)"
  using assms by (auto simp: built_index_def topology_wf_def has_resource_iff find_sorted_def resource_index_def Let_def)

lemma neighbors_row:
  assumes "topology_wf t"
  shows "neighbors t i = (if has_resource t i
     then sort (csr_row (link_entries t (tp_links t)) (resource_index t i)) else [])"
  using assms build_neighbors_rows [of t] resource_index_less
  by (auto simp: neighbors_def built_index_eq topology_wf_def)

lemma neighbors_iff:
  assumes wf: "topology_wf t"
  shows "b \<in> set (neighbors t a) \<longleftrightarrow> (\<exists>l \<in> set (tp_links t).
     (ln_endpoint_a l = a \<and> ln_endpoint_b l = b) \<or> (ln_endpoint_a l = b \<and> ln_endpoint_b l = a))"
    (is "_ \<longleftrightarrow> (\<exists>l \<in> _. ?joins l)")
proof -
  have lw: "links_wf t" and rw: "resources_wf t" using wf by (simp_all add: topology_wf_def)
  show ?thesis
  proof (cases "has_resource t a")
    case False
    then have "\<not> (\<exists>l \<in> set (tp_links t). ?joins l)" using lw by (auto simp: links_wf_def)
    then show ?thesis using False by (simp add: neighbors_row [OF wf])
  next
    case True
    have "(resource_index t a, b) \<in> {(resource_index t (ln_endpoint_a l), ln_endpoint_b l),
        (resource_index t (ln_endpoint_b l), ln_endpoint_a l)} \<longleftrightarrow> ?joins l" if "l \<in> set (tp_links t)" for l
      using resource_index_inj [OF rw True, of "ln_endpoint_a l"] resource_index_inj [OF rw True, of "ln_endpoint_b l"]
        that lw by (auto simp: links_wf_def)
    then show ?thesis using True by (simp add: neighbors_row [OF wf] set_csr_row set_link_entries)
  qed
qed

lemma neighbors_sorted_distinct:
  assumes "topology_wf t"
  shows "sorted_wrt (<) (neighbors t a)"
proof -
  have "distinct (link_entries t (tp_links t))"
    using assms strictly_sorted_by_distinct
    by (intro distinct_link_entries) (auto simp: topology_wf_def links_wf_def)
  then show ?thesis by (simp add: neighbors_row [OF assms] strict_sorted_iff distinct_csr_row)
qed

lemma neighbors_sym: "topology_wf t \<Longrightarrow> b \<in> set (neighbors t a) \<longleftrightarrow> a \<in> set (neighbors t b)"
  by (auto simp: neighbors_iff)

lemma neighbors_resource:
  assumes "topology_wf t" and "b \<in> set (neighbors t a)"
  shows "has_resource t a \<and> has_resource t b \<and> a \<noteq> b"
  using assms by (auto simp: neighbors_iff topology_wf_def links_wf_def)

section \<open>The region chains\<close>

text \<open>The regions from \<open>c\<close> upwards, ending at a region without parent.\<close>

fun complete_chain :: "TopologySnapshot \<Rightarrow> RegionId list \<Rightarrow> RegionId \<Rightarrow> bool" where
  "complete_chain t [] c \<longleftrightarrow> \<not> valid_id c"
| "complete_chain t (x # xs) c \<longleftrightarrow> valid_id c \<and> x = c \<and>
     (case find_region t c of None \<Rightarrow> False | Some r \<Rightarrow> complete_chain t xs (rg_parent r))"

lemma complete_chain_unique:
  "complete_chain t xs c \<Longrightarrow> complete_chain t ys c \<Longrightarrow> xs = ys"
proof (induction t xs c arbitrary: ys rule: complete_chain.induct)
  case (1 t c)
  then show ?case by (cases ys) auto
next
  case (2 t x xs c)
  then show ?case by (cases ys) (auto split: option.splits)
qed

lemma complete_chain_suffix:
  "complete_chain t (us @ x # xs) c \<Longrightarrow> complete_chain t (x # xs) x"
proof (induction us arbitrary: c)
  case (Cons u us)
  from Cons.prems obtain r :: Region where "complete_chain t (us @ x # xs) (rg_parent r)"
    by (auto split: option.splits)
  then show ?case by (rule Cons.IH)
qed simp

lemma complete_chain_distinct: "complete_chain t xs c \<Longrightarrow> distinct xs"
proof (induction t xs c rule: complete_chain.induct)
  case (2 t x xs c)
  have "x \<notin> set xs"
  proof
    assume "x \<in> set xs"
    then obtain us vs where "xs = us @ x # vs" by (meson split_list)
    moreover from this have "complete_chain t (x # vs) x"
      using complete_chain_suffix [of t "x # us" x vs c] 2(2) by simp
    moreover have "complete_chain t (x # xs) x" using 2(2) by simp
    ultimately show False using complete_chain_unique by fastforce
  qed
  then show ?case using 2 by (auto split: option.splits)
qed simp

lemma complete_chain_regions: "complete_chain t xs c \<Longrightarrow> x \<in> set xs \<Longrightarrow> has_region t x"
  by (induction t xs c rule: complete_chain.induct) (auto simp: has_region_def split: option.splits)

lemma region_walk_complete:
  assumes wf: "topology_wf t"
  shows "walk_parents n t c \<Longrightarrow> (valid_id c \<longrightarrow> has_region t c) \<Longrightarrow> complete_chain t (region_walk n t c) c"
proof (induction n arbitrary: c)
  case (Suc n)
  show ?case
  proof (cases "valid_id c")
    case True
    then obtain r where r: "find_region t c = Some r" using Suc.prems by (auto simp: has_region_def)
    then have "r \<in> set (tp_regions t)" using region_index.lookup_Some_iff [OF wf] by simp
    then have "valid_id (rg_parent r) \<longrightarrow> has_region t (rg_parent r)"
      using wf by (simp add: topology_wf_def regions_wf_def)
    then show ?thesis using Suc.IH [of "rg_parent r"] Suc.prems(1) True r by simp
  qed simp
qed simp

lemma region_chain_walk:
  assumes wf: "topology_wf t" and i: "find_resource t i = Some r" and small: "length (tp_chain_ids t) < 2 ^ 32"
  shows "region_chain t i = region_walk (Suc (length (tp_regions t))) t (rs_region r)"
proof -
  let ?k = "resource_index t i"
  let ?rows = "map (\<lambda>r. region_walk (Suc (length (tp_regions t))) t (rs_region r)) (tp_resources t)"
  have h: "has_resource t i" using i by (simp add: has_resource_def)
  have k: "?k < length (tp_resources t)" "tp_resources t ! ?k = r"
    using resource_index_less [OF h] i
    by (auto simp: find_resource_def find_sorted_def resource_index_def Let_def split: if_splits)
  obtain offsets ids where c: "csr_pack ?rows = (offsets, ids)" by (cases "csr_pack ?rows")
  have "build_chains t = (tp_chain_offsets t, tp_chain_ids t)" using wf by (simp add: topology_wf_def)
  then have o: "tp_chain_offsets t = map (\<lambda>n. n mod 2 ^ 32) offsets" "tp_chain_ids t = ids"
    unfolding build_chains_def c by simp_all
  have n: "length offsets = Suc (length (tp_resources t))"
    using c by (auto simp: csr_pack_def csr_offsets_length simp del: region_walk.simps)
  have "offsets ! ?k \<le> length ids" "offsets ! Suc ?k \<le> length ids" using k(1) by (intro csr_pack_offset_le [OF _ c]; simp)+
  then have "tp_chain_offsets t ! ?k = offsets ! ?k" "tp_chain_offsets t ! Suc ?k = offsets ! Suc ?k"
    using small k(1) n by (simp_all add: o)
  then have "slice (tp_chain_ids t) (tp_chain_offsets t ! ?k) (tp_chain_offsets t ! Suc ?k) = ?rows ! ?k"
    using k(1) c by (simp only: o(2)) (intro csr_pack_row, simp_all del: region_walk.simps)
  then show ?thesis using k h by (simp add: region_chain_def built_index_eq [OF wf] del: region_walk.simps)
qed

lemma region_chain_complete:
  assumes wf: "topology_wf t" and i: "find_resource t i = Some r" and small: "length (tp_chain_ids t) < 2 ^ 32"
  shows "complete_chain t (region_chain t i) (rs_region r)"
proof -
  have "r \<in> set (tp_resources t)" using i resource_index.lookup_Some_iff [OF wf] by simp
  then have "has_region t (rs_region r)" using wf by (simp add: topology_wf_def resources_wf_def)
  then obtain g where g: "find_region t (rs_region r) = Some g" "valid_id (rs_region r)"
    by (auto simp: has_region_iff find_region_def)
  then have "g \<in> set (tp_regions t)" using region_index.lookup_Some_iff [OF wf] by simp
  then have "walk_parents (length (tp_regions t)) t (rg_parent g)"
    "valid_id (rg_parent g) \<longrightarrow> has_region t (rg_parent g)"
    using wf by (simp_all add: topology_wf_def regions_wf_def)
  then have "complete_chain t (region_walk (length (tp_regions t)) t (rg_parent g)) (rg_parent g)"
    by (rule region_walk_complete [OF wf])
  then show ?thesis using g by (simp add: region_chain_walk [OF wf i small])
qed

lemma same_region_iff:
  assumes "topology_wf t"
  shows "same_region t a b \<longleftrightarrow> (\<exists>ra \<in> set (tp_resources t). \<exists>rb \<in> set (tp_resources t).
     rs_id ra = a \<and> rs_id rb = b \<and> rs_region ra = rs_region rb)"
  using resource_index.lookup_Some_iff [OF assms] resource_index.entries_unique [OF assms]
  by (auto simp: same_region_def split: option.splits) (metis option.distinct(1))+

section \<open>Metadata\<close>

lemma topology_wf_cong:
  assumes "tp_regions t = tp_regions t'" and "tp_resources t = tp_resources t'" and "tp_links t = tp_links t'"
    and "tp_neighbor_offsets t = tp_neighbor_offsets t'" and "tp_neighbor_ids t = tp_neighbor_ids t'"
    and "tp_chain_offsets t = tp_chain_offsets t'" and "tp_chain_ids t = tp_chain_ids t'" and "tp_built t = tp_built t'"
  shows "topology_wf t = topology_wf t'"
  using regions_wf_cong [OF assms(1)] resources_wf_cong [OF assms(1,2)] links_wf_cong [OF assms(2,3)]
    build_neighbors_cong [OF assms(2,3)] build_chains_cong [OF assms(1,2)] assms(4-8) by (simp add: topology_wf_def)

lemma topology_wf_metadata [simp]:
  "topology_wf (t\<lparr>tp_generation := g\<rparr>) = topology_wf t" "topology_wf (t\<lparr>tp_provenance := p\<rparr>) = topology_wf t"
  by (rule topology_wf_cong; simp)+

section \<open>A concrete topology\<close>

text \<open>Two nested regions, three resources in a line; added out of order.\<close>

definition line_topology :: TopologySnapshot where
  "line_topology =
     add_link 1 12 11 (add_link 2 10 11
       (add_resource 11 2 RK_Switch [] (add_resource 12 1 RK_Switch [] (add_resource 10 2 RK_Port []
         (add_region 2 [] 1 (add_region 1 [] 0 empty_topology))))))"

lemma build_topology_intro:
  assumes "length (tp_regions t) \<le> kMaxRegions" "length (tp_resources t) \<le> kMaxResources"
    "length (tp_links t) \<le> kMaxLinks"
    and "validate_and_index (t\<lparr>tp_built := False, tp_id := 0, tp_digest := no_digest\<rparr>) = Inr t1"
  shows "\<exists>t'. build_topology t = Inr t'"
  using assms by (simp add: build_topology_def Let_def)

lemma build_neighbors_Inr:
  assumes "count_degrees (map fst (link_entries t (tp_links t))) (replicate (length (tp_resources t)) 0) = Inr d"
  shows "\<exists>x. build_neighbors t = Inr x"
  using assms by (simp add: build_neighbors_def Let_def case_prod_beta)

lemma validate_and_index_intro:
  assumes "t1 = t\<lparr>tp_regions := sort_key rg_id (tp_regions t)\<rparr>"
    and "t2 = t1\<lparr>tp_resources := sort_key rs_id (tp_resources t)\<rparr>"
    and "t3 = t2\<lparr>tp_links := sort_key link_key (tp_links t)\<rparr>"
    and "check_entries check_region None (tp_regions t1) = Inr ()"
        "check_entries (check_parent t1) None (tp_regions t1) = Inr ()"
        "check_entries (check_cycle t1) None (tp_regions t1) = Inr ()"
        "check_entries (check_resource t2) None (tp_resources t2) = Inr ()"
        "check_entries (check_link t3) None (tp_links t3) = Inr ()"
        "count_degrees (map fst (link_entries t3 (tp_links t3))) (replicate (length (tp_resources t3)) 0) = Inr d"
  shows "\<exists>t'. validate_and_index t = Inr t'"
proof -
  obtain offs ids where n: "build_neighbors t3 = Inr (offs, ids)"
    using build_neighbors_Inr [OF assms(9)] by auto
  obtain co ci where c: "build_chains t3 = (co, ci)" by (cases "build_chains t3")
  have r: "tp_resources t1 = tp_resources t" "tp_links t2 = tp_links t" by (simp_all add: assms(1,2))
  show ?thesis
    unfolding validate_and_index_def Let_def
    by (simp only: assms(1) [symmetric] assms(4-6) r bind_result_simps assms(2) [symmetric] assms(7)
        assms(3) [symmetric] assms(8) n c) (simp add: n c)
qed

lemma line_topology_fields:
  "tp_regions line_topology = [\<lparr>rg_id = 1, rg_name = [], rg_parent = 0\<rparr>, \<lparr>rg_id = 2, rg_name = [], rg_parent = 1\<rparr>]"
  "tp_resources line_topology = [\<lparr>rs_id = 10, rs_region = 2, rs_kind = RK_Port, rs_name = []\<rparr>,
     \<lparr>rs_id = 12, rs_region = 1, rs_kind = RK_Switch, rs_name = []\<rparr>, \<lparr>rs_id = 11, rs_region = 2, rs_kind = RK_Switch, rs_name = []\<rparr>]"
  "tp_links line_topology = [\<lparr>ln_id = 2, ln_endpoint_a = 10, ln_endpoint_b = 11\<rparr>, \<lparr>ln_id = 1, ln_endpoint_a = 12, ln_endpoint_b = 11\<rparr>]"
  by (simp_all add: line_topology_def empty_topology_def add_link_def add_resource_def add_region_def bounded_name_def)

lemmas topology_eval = check_region_def check_parent_def check_cycle_def check_resource_def check_link_def
  valid_id_def not_dup_def find_region_def find_resource_def has_region_def has_resource_def same_pair_def
  find_sorted_def lower_bound_def Let_def resource_index_def limit_defs

lemma line_topology_validates: "\<exists>t1. validate_and_index line_topology = Inr t1"
  by (rule validate_and_index_intro [OF refl refl refl])
    (simp_all add: line_topology_fields topology_eval link_key_def)

lemma line_topology_builds: "\<exists>t'. build_topology line_topology = Inr t'"
proof -
  have "line_topology\<lparr>tp_built := False, tp_id := 0, tp_digest := no_digest\<rparr> = line_topology"
    by (simp add: line_topology_def empty_topology_def add_link_def add_resource_def add_region_def)
  with line_topology_validates obtain t1 where
    "validate_and_index (line_topology\<lparr>tp_built := False, tp_id := 0, tp_digest := no_digest\<rparr>) = Inr t1"
    by auto
  then show ?thesis by (rule build_topology_intro [rotated 3]) (simp_all add: line_topology_fields limit_defs)
qed

section \<open>Properties\<close>

text \<open>C17: in a topology that \<open>build\<close> accepts, \<open>neighbors\<close> of a resource lists, strictly ascending,
  exactly the resources joined to it by a link that was added, in either direction; and every
  listed identity resolves.\<close>

theorem build_neighbors_exact:
  assumes "build_topology t = Inr t'"
  shows "sorted_wrt (<) (neighbors t' a) \<and>
    (\<forall>b. b \<in> set (neighbors t' a) \<longleftrightarrow> (\<exists>l \<in> set (tp_links t).
       {ln_endpoint_a l, ln_endpoint_b l} = {a, b})) \<and>
    (\<forall>b \<in> set (neighbors t' a). has_resource t' b)"
proof -
  note wf = build_topology_wf [OF assms]
  have "set (tp_links t') = set (tp_links t)" using wf(4) by simp
  then have "b \<in> set (neighbors t' a) \<longleftrightarrow> (\<exists>l \<in> set (tp_links t).
       {ln_endpoint_a l, ln_endpoint_b l} = {a, b})" for b
    by (simp add: neighbors_iff [OF wf(1)] doubleton_eq_iff)
  then show ?thesis
    using neighbors_sorted_distinct [OF wf(1)] neighbors_resource [OF wf(1)] by blast
qed

theorem build_neighbors_exact_witness:
  "\<exists>t'. build_topology line_topology = Inr t' \<and> set (neighbors t' 11) = {10, 12} \<and> sorted_wrt (<) (neighbors t' 11)"
proof -
  obtain t' where t': "build_topology line_topology = Inr t'" using line_topology_builds by auto
  from build_neighbors_exact [OF t', of 11]
  have "set (neighbors t' 11) = {10, 12}" "sorted_wrt (<) (neighbors t' 11)"
    by (auto simp: line_topology_fields doubleton_eq_iff)
  with t' show ?thesis by blast
qed

text \<open>In a topology that \<open>build\<close> accepts, the region chain of a resource starts at its region,
  follows the parents, ends at a region without parent and never repeats a region, as long as all chains
  together have fewer than \<open>2\<^sup>3\<^sup>2\<close> entries.\<close>

lemma build_region_chain:
  assumes "build_topology t = Inr t'" and "find_resource t' i = Some r" and "length (tp_chain_ids t') < 2 ^ 32"
  shows "complete_chain t' (region_chain t' i) (rs_region r) \<and> distinct (region_chain t' i)"
  using region_chain_complete [OF build_topology_wf(1) [OF assms(1)] assms(2,3)] complete_chain_distinct by blast

text \<open>C23: what \<open>build\<close> accepts is closed and canonical: its tables are the added entries sorted
  strictly by identity, every identity is valid, every region parent, resource region and link
  endpoint resolves, no link is a self loop or a duplicate adjacency, and the look-ups find exactly
  the entries that were added.\<close>

theorem build_topology_closed:
  assumes "build_topology t = Inr t'"
  shows "regions_wf t' \<and> resources_wf t' \<and> links_wf t' \<and>
    (\<forall>i r. find_resource t' i = Some r \<longleftrightarrow> r \<in> set (tp_resources t) \<and> rs_id r = i) \<and>
    (\<forall>i r. find_region t' i = Some r \<longleftrightarrow> r \<in> set (tp_regions t) \<and> rg_id r = i)"
proof -
  note wf = build_topology_wf [OF assms]
  show ?thesis
    using wf(1) by (simp add: resource_index.lookup_Some_iff [OF wf(1)] region_index.lookup_Some_iff [OF wf(1)] wf(2,3))
      (simp add: topology_wf_def)
qed

theorem build_topology_closed_witness:
  "\<exists>t'. build_topology line_topology = Inr t' \<and> links_wf t' \<and> find_resource t' 99 = None"
proof -
  obtain t' where t': "build_topology line_topology = Inr t'" using line_topology_builds by auto
  note c = build_topology_closed [OF t']
  have "links_wf t'" using c by blast
  moreover have "find_resource t' 99 = None"
  proof (cases "find_resource t' 99")
    case (Some r)
    then have "r \<in> set (tp_resources line_topology) \<and> rs_id r = 99" using c by blast
    then show ?thesis by (auto simp: line_topology_fields)
  qed
  ultimately show ?thesis using t' by blast
qed

end
