(* ===== verification/HGM_Evidence.thy ===== *)
theory HGM_Evidence
  imports HGM_Arith HGM_Types HGM_Csr "HOL-Library.Product_Lexorder"
begin

text \<open>
  The evidence snapshots: capacity (\<^verbatim>\<open>src/capacity.cpp\<close>), signals (\<^verbatim>\<open>src/signals.cpp\<close>), paths
  with the reverse index from resources to paths (\<^verbatim>\<open>src/paths.cpp\<close>) and traffic
  (\<^verbatim>\<open>src/traffic.cpp\<close>). Each is filled by \<open>add\<close> and frozen by \<open>build\<close>, which sorts by identity,
  validates entry by entry and derives the content identity. The lemmas: what \<open>build\<close> accepts is
  strictly sorted and valid, look-up is a finite map, and \<open>paths_through\<close> lists exactly the paths
  that traverse a resource, ascending.
\<close>

section \<open>Capacity\<close>

record ResourceCapacity =
  cap_resource :: ResourceId
  cap_units :: u64
  cap_queue_limit :: u64
  cap_buffer_limit :: u64
  cap_usable :: bool

record CapacitySnapshot =
  cs_entries :: "ResourceCapacity list"
  cs_id :: u64
  cs_digest :: Digest
  cs_generation :: Generation
  cs_topology_generation :: Generation
  cs_provenance :: Provenance
  cs_observed_at :: Millis
  cs_built :: bool

definition empty_capacity :: CapacitySnapshot where
  "empty_capacity = \<lparr>cs_entries = [], cs_id = 0, cs_digest = no_digest, cs_generation = 0,
     cs_topology_generation = 0, cs_provenance = no_provenance, cs_observed_at = kNoTime, cs_built = False\<rparr>"

text \<open>\<open>add\<close> returns a reference through which the caller fills the entry; here the entry is given whole.\<close>

definition add_capacity :: "ResourceCapacity \<Rightarrow> CapacitySnapshot \<Rightarrow> CapacitySnapshot" where
  "add_capacity e s = s\<lparr>cs_entries := cs_entries s @ [e], cs_built := False\<rparr>"

definition check_capacity :: "ResourceCapacity option \<Rightarrow> ResourceCapacity \<Rightarrow> unit result" where
  "check_capacity prev e =
     bind_result (guard (valid_id (cap_resource e)) InvalidArgument) (\<lambda>_.
     bind_result (guard (not_dup cap_resource prev e) InvalidArgument) (\<lambda>_.
     guard (\<not> (cap_units e = 0 \<and> cap_usable e)) InvalidArgument))"

definition w_capacity :: "ResourceCapacity \<Rightarrow> bytes" where
  "w_capacity e = w_u64 (cap_resource e) @ w_u64 (cap_units e) @ w_u64 (cap_queue_limit e)
     @ w_u64 (cap_buffer_limit e) @ w_bool (cap_usable e)"

definition build_capacity :: "CapacitySnapshot \<Rightarrow> CapacitySnapshot result" where
  "build_capacity s =
     bind_result (guard (length (cs_entries s) \<le> kMaxCapacityEntries) BoundExceeded) (\<lambda>_.
     let entries = sort_key cap_resource (cs_entries s)
     in bind_result (check_entries check_capacity None entries) (\<lambda>_.
        let d = digest_of (w_list w_capacity entries)
        in Inr (s\<lparr>cs_entries := entries, cs_digest := d, cs_id := dg_fnv d, cs_built := True\<rparr>)))"

definition find_capacity :: "CapacitySnapshot \<Rightarrow> ResourceId \<Rightarrow> ResourceCapacity option" where
  "find_capacity s i = (if \<not> cs_built s \<or> \<not> valid_id i then None else find_sorted cap_resource (cs_entries s) i)"

section \<open>Signals\<close>

record ResourceSignals =
  sr_resource :: ResourceId
  sr_utilized :: u64
  sr_queue_depth :: u64
  sr_buffer_used :: u64
  sr_offered :: u64
  sr_admitted :: u64
  sr_drops :: u64
  sr_confidence :: u32
  sr_quality :: TelemetryQuality
  sr_observed_at :: Millis

record SignalSnapshot =
  ss_records :: "ResourceSignals list"
  ss_id :: u64
  ss_digest :: Digest
  ss_generation :: Generation
  ss_topology_generation :: Generation
  ss_capacity_generation :: Generation
  ss_provenance :: Provenance
  ss_window_start :: Millis
  ss_window_end :: Millis
  ss_built :: bool

definition empty_signals :: SignalSnapshot where
  "empty_signals = \<lparr>ss_records = [], ss_id = 0, ss_digest = no_digest, ss_generation = 0,
     ss_topology_generation = 0, ss_capacity_generation = 0, ss_provenance = no_provenance,
     ss_window_start = kNoTime, ss_window_end = kNoTime, ss_built = False\<rparr>"

definition add_signals :: "ResourceSignals \<Rightarrow> SignalSnapshot \<Rightarrow> SignalSnapshot" where
  "add_signals r s = s\<lparr>ss_records := ss_records s @ [r], ss_built := False\<rparr>"

definition check_signals :: "ResourceSignals option \<Rightarrow> ResourceSignals \<Rightarrow> unit result" where
  "check_signals prev r =
     bind_result (guard (valid_id (sr_resource r)) InvalidArgument) (\<lambda>_.
     bind_result (guard (not_dup sr_resource prev r) InvalidArgument) (\<lambda>_.
     bind_result (guard (\<not> (ucast (sr_confidence r) > kPpmScale)) OutOfRange) (\<lambda>_.
     guard (\<not> (sr_admitted r > sr_offered r \<and> sr_offered r \<noteq> 0)) ContradictoryEvidence)))"

definition w_signals :: "ResourceSignals \<Rightarrow> bytes" where
  "w_signals r = w_u64 (sr_resource r) @ w_u64 (sr_utilized r) @ w_u64 (sr_queue_depth r)
     @ w_u64 (sr_buffer_used r) @ w_u64 (sr_offered r) @ w_u64 (sr_admitted r) @ w_u64 (sr_drops r)
     @ w_u32 (sr_confidence r) @ w_u8 (tq_code (sr_quality r)) @ w_i64 (sr_observed_at r)"

definition build_signals :: "SignalSnapshot \<Rightarrow> SignalSnapshot result" where
  "build_signals s =
     bind_result (guard (length (ss_records s) \<le> kMaxSignalRecords) BoundExceeded) (\<lambda>_.
     let records = sort_key sr_resource (ss_records s)
     in bind_result (check_entries check_signals None records) (\<lambda>_.
        let d = digest_of (w_list w_signals records)
        in Inr (s\<lparr>ss_records := records, ss_digest := d, ss_id := dg_fnv d, ss_built := True\<rparr>)))"

definition find_signals :: "SignalSnapshot \<Rightarrow> ResourceId \<Rightarrow> ResourceSignals option" where
  "find_signals s i = (if \<not> ss_built s \<or> \<not> valid_id i then None else find_sorted sr_resource (ss_records s) i)"

section \<open>Paths\<close>

record PathRecord =
  pr_id :: PathId
  pr_flow :: FlowId
  pr_hops :: "ResourceId list"

record PathSnapshot =
  ps_paths :: "PathRecord list"
  ps_through_offsets :: "nat list"
  ps_through_resources :: "ResourceId list"
  ps_through_paths :: "nat list"
  ps_id :: u64
  ps_digest :: Digest
  ps_generation :: Generation
  ps_topology_generation :: Generation
  ps_provenance :: Provenance
  ps_observed_at :: Millis
  ps_built :: bool

definition empty_paths :: PathSnapshot where
  "empty_paths = \<lparr>ps_paths = [], ps_through_offsets = [], ps_through_resources = [], ps_through_paths = [],
     ps_id = 0, ps_digest = no_digest, ps_generation = 0, ps_topology_generation = 0,
     ps_provenance = no_provenance, ps_observed_at = kNoTime, ps_built = False\<rparr>"

definition add_path :: "PathRecord \<Rightarrow> PathSnapshot \<Rightarrow> PathSnapshot" where
  "add_path p s = s\<lparr>ps_paths := ps_paths s @ [p], ps_built := False\<rparr>"

definition check_path :: "PathRecord option \<Rightarrow> PathRecord \<Rightarrow> unit result" where
  "check_path prev p =
     bind_result (guard (valid_id (pr_id p)) InvalidArgument) (\<lambda>_.
     bind_result (guard (not_dup pr_id prev p) InvalidArgument) (\<lambda>_.
     bind_result (guard (pr_hops p \<noteq> []) InvalidArgument) (\<lambda>_.
     bind_result (guard (length (pr_hops p) \<le> kMaxHopsPerPath) BoundExceeded) (\<lambda>_.
     guard (\<forall>hop \<in> set (pr_hops p). valid_id hop) InvalidArgument))))"

text \<open>The reverse index: the entries in the order both loops visit them.\<close>

definition through_entries :: "ResourceId list \<Rightarrow> PathRecord list \<Rightarrow> (nat \<times> nat) list" where
  "through_entries listed paths =
     concat (map (\<lambda>p. map (\<lambda>hop. (lower_bound id listed hop, p)) (sorted_unique (pr_hops (paths ! p))))
       [0..<length paths])"

definition build_through :: "PathRecord list \<Rightarrow> ResourceId list \<times> nat list \<times> nat list" where
  "build_through paths =
     (let listed = sorted_unique (concat (map pr_hops paths));
          n = length listed;
          entries = through_entries listed paths;
          offsets = csr_offsets (csr_counts n (map fst entries));
          ids = csr_fill 0 offsets entries
      in (listed, offsets, fold (csr_sort_row offsets) [0..<n] ids))"

definition w_path :: "PathRecord \<Rightarrow> bytes" where
  "w_path p = w_u64 (pr_id p) @ w_u64 (pr_flow p) @ w_list w_u64 (pr_hops p)"

definition build_paths :: "PathSnapshot \<Rightarrow> PathSnapshot result" where
  "build_paths s =
     bind_result (guard (length (ps_paths s) \<le> kMaxPaths) BoundExceeded) (\<lambda>_.
     let paths = sort_key pr_id (ps_paths s)
     in bind_result (check_entries check_path None paths) (\<lambda>_.
        let (listed, offsets, through) = build_through paths;
            d = digest_of (w_list w_path paths)
        in Inr (s\<lparr>ps_paths := paths, ps_through_offsets := offsets, ps_through_resources := listed,
                  ps_through_paths := through, ps_digest := d, ps_id := dg_fnv d, ps_built := True\<rparr>)))"

definition find_path :: "PathSnapshot \<Rightarrow> PathId \<Rightarrow> PathRecord option" where
  "find_path s i = (if \<not> ps_built s \<or> \<not> valid_id i then None else find_sorted pr_id (ps_paths s) i)"

definition paths_through :: "PathSnapshot \<Rightarrow> ResourceId \<Rightarrow> nat list" where
  "paths_through s r =
     (if \<not> ps_built s \<or> \<not> valid_id r then []
      else let k = lower_bound id (ps_through_resources s) r
           in if k = length (ps_through_resources s) \<or> ps_through_resources s ! k \<noteq> r then []
              else slice (ps_through_paths s) (ps_through_offsets s ! k) (ps_through_offsets s ! Suc k))"

section \<open>Traffic\<close>

record TrafficRecord =
  tr_flow :: FlowId
  tr_path :: PathId
  tr_demand :: u64
  tr_quality :: TelemetryQuality
  tr_observed_at :: Millis

record TrafficSnapshot =
  ts_records :: "TrafficRecord list"
  ts_id :: u64
  ts_digest :: Digest
  ts_generation :: Generation
  ts_path_generation :: Generation
  ts_provenance :: Provenance
  ts_built :: bool

definition empty_traffic :: TrafficSnapshot where
  "empty_traffic = \<lparr>ts_records = [], ts_id = 0, ts_digest = no_digest, ts_generation = 0,
     ts_path_generation = 0, ts_provenance = no_provenance, ts_built = False\<rparr>"

definition add_traffic :: "TrafficRecord \<Rightarrow> TrafficSnapshot \<Rightarrow> TrafficSnapshot" where
  "add_traffic r s = s\<lparr>ts_records := ts_records s @ [r], ts_built := False\<rparr>"

definition traffic_key :: "TrafficRecord \<Rightarrow> PathId \<times> FlowId" where
  "traffic_key r = (tr_path r, tr_flow r)"

definition check_traffic :: "TrafficRecord option \<Rightarrow> TrafficRecord \<Rightarrow> unit result" where
  "check_traffic prev r =
     bind_result (guard (valid_id (tr_path r)) InvalidArgument) (\<lambda>_.
     guard (not_dup traffic_key prev r) InvalidArgument)"

definition w_traffic :: "TrafficRecord \<Rightarrow> bytes" where
  "w_traffic r = w_u64 (tr_flow r) @ w_u64 (tr_path r) @ w_u64 (tr_demand r)
     @ w_u8 (tq_code (tr_quality r)) @ w_i64 (tr_observed_at r)"

definition build_traffic :: "TrafficSnapshot \<Rightarrow> TrafficSnapshot result" where
  "build_traffic s =
     bind_result (guard (length (ts_records s) \<le> kMaxTrafficRecords) BoundExceeded) (\<lambda>_.
     let records = sort_key traffic_key (ts_records s)
     in bind_result (check_entries check_traffic None records) (\<lambda>_.
        let d = digest_of (w_list w_traffic records)
        in Inr (s\<lparr>ts_records := records, ts_digest := d, ts_id := dg_fnv d, ts_built := True\<rparr>)))"

section \<open>What build accepts\<close>

definition capacity_wf :: "CapacitySnapshot \<Rightarrow> bool" where
  "capacity_wf s \<longleftrightarrow> cs_built s \<and> strictly_sorted_by cap_resource (cs_entries s) \<and>
     (\<forall>e \<in> set (cs_entries s). valid_id (cap_resource e) \<and> (cap_usable e \<longrightarrow> cap_units e \<noteq> 0))"

definition signals_wf :: "SignalSnapshot \<Rightarrow> bool" where
  "signals_wf s \<longleftrightarrow> ss_built s \<and> strictly_sorted_by sr_resource (ss_records s) \<and>
     (\<forall>r \<in> set (ss_records s). valid_id (sr_resource r) \<and> unat (sr_confidence r) \<le> 1000000 \<and>
        (sr_offered r \<noteq> 0 \<longrightarrow> sr_admitted r \<le> sr_offered r))"

definition paths_wf :: "PathSnapshot \<Rightarrow> bool" where
  "paths_wf s \<longleftrightarrow> ps_built s \<and> strictly_sorted_by pr_id (ps_paths s) \<and>
     (\<forall>p \<in> set (ps_paths s). valid_id (pr_id p) \<and> pr_hops p \<noteq> [] \<and> length (pr_hops p) \<le> kMaxHopsPerPath \<and>
        (\<forall>hop \<in> set (pr_hops p). valid_id hop)) \<and>
     build_through (ps_paths s) = (ps_through_resources s, ps_through_offsets s, ps_through_paths s)"

definition traffic_wf :: "TrafficSnapshot \<Rightarrow> bool" where
  "traffic_wf s \<longleftrightarrow> ts_built s \<and> strictly_sorted_by traffic_key (ts_records s) \<and>
     (\<forall>r \<in> set (ts_records s). valid_id (tr_path r))"

lemma build_capacity_wf:
  assumes "build_capacity s = Inr s'"
  shows "capacity_wf s'" "cs_entries s' = sort_key cap_resource (cs_entries s)"
proof -
  let ?es = "sort_key cap_resource (cs_entries s)"
  from assms have c: "check_entries check_capacity None ?es = Inr ()" and s': "cs_entries s' = ?es" "cs_built s'"
    by (auto simp: build_capacity_def Let_def bind_result_Inr_iff)
  have "strictly_sorted_by cap_resource ?es"
    by (rule checked_sorted [OF c]) (auto simp: check_capacity_def bind_result_Inr_iff)
  moreover have "\<forall>e \<in> set ?es. valid_id (cap_resource e) \<and> (cap_usable e \<longrightarrow> cap_units e \<noteq> 0)"
    by (rule check_entries_all [OF c]) (auto simp: check_capacity_def bind_result_Inr_iff)
  ultimately show "capacity_wf s'" using s' unfolding capacity_wf_def by metis
  show "cs_entries s' = ?es" by (fact s')
qed

lemma build_signals_wf:
  assumes "build_signals s = Inr s'"
  shows "signals_wf s'" "ss_records s' = sort_key sr_resource (ss_records s)"
proof -
  let ?es = "sort_key sr_resource (ss_records s)"
  from assms have c: "check_entries check_signals None ?es = Inr ()" and s': "ss_records s' = ?es" "ss_built s'"
    by (auto simp: build_signals_def Let_def bind_result_Inr_iff)
  have "strictly_sorted_by sr_resource ?es"
    by (rule checked_sorted [OF c]) (auto simp: check_signals_def bind_result_Inr_iff)
  moreover have "unat c \<le> 1000000" if "\<not> (ucast c :: u64) > kPpmScale" for c :: u32
    using that take_bit_nat_eq_self [of "unat c" 64] unat_bound [of c]
    by (simp add: kPpmScale_def word_less_nat_alt not_less unsigned_ucast_eq)
  then have "\<forall>r \<in> set ?es. valid_id (sr_resource r) \<and> unat (sr_confidence r) \<le> 1000000 \<and>
        (sr_offered r \<noteq> 0 \<longrightarrow> sr_admitted r \<le> sr_offered r)"
    by (intro check_entries_all [OF c]) (auto simp: check_signals_def bind_result_Inr_iff)
  ultimately show "signals_wf s'" using s' unfolding signals_wf_def by metis
  show "ss_records s' = ?es" by (fact s')
qed

lemma build_paths_wf:
  assumes "build_paths s = Inr s'"
  shows "paths_wf s'" "ps_paths s' = sort_key pr_id (ps_paths s)"
proof -
  let ?es = "sort_key pr_id (ps_paths s)"
  obtain l offs th where b: "build_through ?es = (l, offs, th)" by (cases "build_through ?es")
  with assms have c: "check_entries check_path None ?es = Inr ()" and s': "ps_paths s' = ?es" "ps_built s'"
    "build_through ?es = (ps_through_resources s', ps_through_offsets s', ps_through_paths s')"
    by (auto simp: build_paths_def Let_def bind_result_Inr_iff)
  have "strictly_sorted_by pr_id ?es"
    by (rule checked_sorted [OF c]) (auto simp: check_path_def bind_result_Inr_iff)
  moreover have "\<forall>p \<in> set ?es. valid_id (pr_id p) \<and> pr_hops p \<noteq> [] \<and> length (pr_hops p) \<le> kMaxHopsPerPath \<and>
        (\<forall>hop \<in> set (pr_hops p). valid_id hop)"
    by (rule check_entries_all [OF c]) (auto simp: check_path_def bind_result_Inr_iff)
  ultimately show "paths_wf s'" using s' unfolding paths_wf_def by metis
  show "ps_paths s' = ?es" by (fact s')
qed

lemma build_traffic_wf:
  assumes "build_traffic s = Inr s'"
  shows "traffic_wf s'" "ts_records s' = sort_key traffic_key (ts_records s)"
proof -
  let ?es = "sort_key traffic_key (ts_records s)"
  from assms have c: "check_entries check_traffic None ?es = Inr ()" and s': "ts_records s' = ?es" "ts_built s'"
    by (auto simp: build_traffic_def Let_def bind_result_Inr_iff)
  have "strictly_sorted_by traffic_key ?es"
    by (rule checked_sorted [OF c]) (auto simp: check_traffic_def bind_result_Inr_iff)
  moreover have "\<forall>r \<in> set ?es. valid_id (tr_path r)"
    by (rule check_entries_all [OF c]) (auto simp: check_traffic_def bind_result_Inr_iff)
  ultimately show "traffic_wf s'" using s' unfolding traffic_wf_def by metis
  show "ts_records s' = ?es" by (fact s')
qed

interpretation capacity_index: sorted_index cs_entries cap_resource valid_id capacity_wf find_capacity
  by unfold_locales (auto simp: capacity_wf_def find_capacity_def)

interpretation signal_index: sorted_index ss_records sr_resource valid_id signals_wf find_signals
  by unfold_locales (auto simp: signals_wf_def find_signals_def)

interpretation path_index: sorted_index ps_paths pr_id valid_id paths_wf find_path
  by unfold_locales (auto simp: paths_wf_def find_path_def)

section \<open>The reverse index\<close>

lemma find_sorted_id_index:
  assumes "sorted_wrt (<) xs" and "x \<in> set xs"
  shows "lower_bound id xs x < length xs" "xs ! lower_bound id xs x = x"
proof -
  from assms(2) obtain i where i: "i < length xs" "xs ! i = x" by (auto simp: in_set_conv_nth)
  with assms(1) have "lower_bound id xs x = i" using lower_bound_nth [of id xs i] by (simp add: list.map_id)
  with i show "lower_bound id xs x < length xs" "xs ! lower_bound id xs x = x" by auto
qed

lemma csr_row_map_key:
  assumes "distinct hops" and "inj_on f (insert r (set hops))"
  shows "csr_row (map (\<lambda>hop. (f hop, p)) hops) (f r) = (if r \<in> set hops then [p] else [])"
  using assms
proof (induction hops)
  case (Cons h hops)
  then have "inj_on f (insert r (set hops))" "f h = f r \<longleftrightarrow> h = r" by (auto simp: inj_on_def)
  with Cons show ?case by auto
qed simp

lemma through_row:
  assumes inj: "inj_on f L" and r: "r \<in> L"
    and paths: "\<forall>p < n. set (pr_hops (paths ! p)) \<subseteq> L"
  shows "csr_row (concat (map (\<lambda>p. map (\<lambda>hop. (f hop, p)) (sorted_unique (pr_hops (paths ! p))))
       [0..<n])) (f r) = filter (\<lambda>p. r \<in> set (pr_hops (paths ! p))) [0..<n]"
  using paths
proof (induction n)
  case (Suc n)
  have "inj_on f (insert r (set (sorted_unique (pr_hops (paths ! n)))))"
    by (rule inj_on_subset [OF inj]) (use r Suc.prems in auto)
  moreover have "distinct (sorted_unique (pr_hops (paths ! n)))"
    using strictly_sorted_sorted_unique strict_sorted_iff by blast
  ultimately have "csr_row (map (\<lambda>hop. (f hop, n)) (sorted_unique (pr_hops (paths ! n)))) (f r)
      = (if r \<in> set (pr_hops (paths ! n)) then [n] else [])"
    by (simp add: csr_row_map_key)
  then show ?case using Suc by simp
qed simp

lemma paths_through_exact:
  assumes wf: "paths_wf s"
  shows "paths_through s r = filter (\<lambda>p. r \<in> set (pr_hops (ps_paths s ! p))) [0..<length (ps_paths s)]"
proof -
  let ?paths = "ps_paths s"
  let ?listed = "sorted_unique (concat (map pr_hops ?paths))"
  let ?ws = "through_entries ?listed ?paths" and ?n = "length ?listed"
  let ?offs = "csr_offsets (csr_counts ?n (map fst ?ws))"
  let ?ids = "fold (csr_sort_row ?offs) [0..<?n] (csr_fill 0 ?offs ?ws)"
  have ix: "ps_through_resources s = ?listed" "ps_through_offsets s = ?offs" "ps_through_paths s = ?ids" and b: "ps_built s"
    using wf by (auto simp: paths_wf_def build_through_def Let_def)
  have ss: "sorted_wrt (<) ?listed" by (rule strictly_sorted_sorted_unique)
  have hop: "hop \<in> set ?listed" if "p < length ?paths" "hop \<in> set (pr_hops (?paths ! p))" for p hop
    using that by auto
  have valid: "valid_id hop" if "hop \<in> set ?listed" for hop
    using that wf by (auto simp: paths_wf_def)
  show ?thesis
  proof (cases "r \<in> set ?listed")
    case True
    let ?k = "lower_bound id ?listed r"
    note k = find_sorted_id_index [OF ss True]
    have inj: "inj_on (lower_bound id ?listed) (set ?listed)"
      by (rule inj_on_inverseI [of _ "\<lambda>i. ?listed ! i"]) (rule find_sorted_id_index(2) [OF ss])
    have rows: "\<forall>w \<in> set ?ws. fst w < ?n"
      using hop find_sorted_id_index(1) [OF ss] by (auto simp: through_entries_def)
    have fill: "slice (csr_fill 0 ?offs ?ws) (?offs ! ?k) (?offs ! Suc ?k) = csr_row ?ws ?k"
      by (rule csr_fill_rows [OF rows refl k(1)])
    have "slice ?ids (?offs ! ?k) (?offs ! Suc ?k) = sort (csr_row ?ws ?k)"
      using csr_sort_rows [of ?offs "csr_counts ?n (map fst ?ws)" "csr_fill 0 ?offs ?ws" ?n] k(1) fill
      by (simp add: csr_fill_length)
    also have "csr_row ?ws ?k = filter (\<lambda>p. r \<in> set (pr_hops (?paths ! p))) [0..<length ?paths]"
      unfolding through_entries_def by (rule through_row [OF inj True]) (use hop in blast)
    also have "sort \<dots> = \<dots>" by (rule sorted_sort_id) (simp add: sorted_wrt_filter)
    finally have row: "slice ?ids (?offs ! ?k) (?offs ! Suc ?k)
      = filter (\<lambda>p. r \<in> set (pr_hops (?paths ! p))) [0..<length ?paths]" .
    have "paths_through s r = slice ?ids (?offs ! ?k) (?offs ! Suc ?k)"
      using b k valid [OF True] unfolding paths_through_def ix Let_def by (simp only: if_False) simp
    then show ?thesis using row by (rule trans)
  next
    case False
    have "\<not> (r \<in> set (pr_hops (?paths ! p)))" if "p < length ?paths" for p using hop [OF that] False by blast
    then have "filter (\<lambda>p. r \<in> set (pr_hops (?paths ! p))) [0..<length ?paths] = []" by (simp add: filter_empty_conv)
    moreover have "lower_bound id ?listed r = ?n \<or> ?listed ! lower_bound id ?listed r \<noteq> r"
      using False lower_bound_le [of id ?listed r] by (metis nth_mem order_le_less)
    ultimately show ?thesis by (auto simp: paths_through_def ix Let_def)
  qed
qed

section \<open>Concrete snapshots\<close>

definition two_paths :: PathSnapshot where
  "two_paths = add_path \<lparr>pr_id = 7, pr_flow = 1, pr_hops = [11, 10, 11]\<rparr>
     (add_path \<lparr>pr_id = 5, pr_flow = 2, pr_hops = [12, 11]\<rparr> empty_paths)"

lemma two_paths_builds: "\<exists>s'. build_paths two_paths = Inr s'"
  by (simp add: build_paths_def two_paths_def add_path_def empty_paths_def check_path_def not_dup_def
      valid_id_def limit_defs Let_def split: prod.splits)

section \<open>Properties\<close>

text \<open>C18: after \<open>build\<close>, \<open>paths_through\<close> of a resource lists, ascending and without duplicates, exactly
  the indices of the paths one of whose hops is that resource, although the index is assembled by
  counting, offsets and a scatter loop.\<close>

theorem build_paths_through:
  assumes "build_paths s = Inr s'"
  shows "paths_through s' r = filter (\<lambda>p. r \<in> set (pr_hops (ps_paths s' ! p))) [0..<length (ps_paths s)]"
proof -
  note wf = build_paths_wf [OF assms]
  from wf(2) have "length (ps_paths s') = length (ps_paths s)" by simp
  then show ?thesis using paths_through_exact [OF wf(1), of r] by simp
qed

theorem build_paths_through_witness:
  "\<exists>s'. build_paths two_paths = Inr s' \<and> paths_through s' 11 = [0, 1] \<and> paths_through s' 10 = [1]"
proof -
  obtain s' where s': "build_paths two_paths = Inr s'" using two_paths_builds by auto
  have "ps_paths s' = [\<lparr>pr_id = 5, pr_flow = 2, pr_hops = [12, 11]\<rparr>, \<lparr>pr_id = 7, pr_flow = 1, pr_hops = [11, 10, 11]\<rparr>]"
    using build_paths_wf(2) [OF s'] by (simp add: two_paths_def add_path_def empty_paths_def)
  moreover have "length (ps_paths two_paths) = 2" by (simp add: two_paths_def add_path_def empty_paths_def)
  ultimately show ?thesis
    using s' build_paths_through [OF s', of 11] build_paths_through [OF s', of 10]
    by (simp add: upt_rec numeral_2_eq_2)
qed

text \<open>After \<open>build\<close>, the look-ups of the capacity, signal and path snapshots return exactly the
  entries that were added; every capacity found usable is positive, and every sample found has a
  confidence within one million ppm and admits no more than was offered.\<close>

lemma build_evidence_lookup:
  assumes "build_capacity c = Inr c'" and "build_signals s = Inr s'" and "build_paths p = Inr p'"
  shows "(\<forall>i e. find_capacity c' i = Some e \<longleftrightarrow> e \<in> set (cs_entries c) \<and> cap_resource e = i) \<and>
    (\<forall>i e. find_signals s' i = Some e \<longleftrightarrow> e \<in> set (ss_records s) \<and> sr_resource e = i) \<and>
    (\<forall>i e. find_path p' i = Some e \<longleftrightarrow> e \<in> set (ps_paths p) \<and> pr_id e = i) \<and>
    (\<forall>e \<in> set (cs_entries c). cap_usable e \<longrightarrow> cap_units e \<noteq> 0) \<and>
    (\<forall>r \<in> set (ss_records s). unat (sr_confidence r) \<le> 1000000 \<and> (sr_offered r \<noteq> 0 \<longrightarrow> sr_admitted r \<le> sr_offered r))"
proof -
  note cw = build_capacity_wf [OF assms(1)] and sw = build_signals_wf [OF assms(2)] and pw = build_paths_wf [OF assms(3)]
  have "set (cs_entries c') = set (cs_entries c)" "set (ss_records s') = set (ss_records s)"
    "set (ps_paths p') = set (ps_paths p)" using cw(2) sw(2) pw(2) by simp_all
  then show ?thesis
    using cw(1) sw(1) by (simp add: capacity_index.lookup_Some_iff [OF cw(1)] signal_index.lookup_Some_iff [OF sw(1)]
        path_index.lookup_Some_iff [OF pw(1)]) (simp add: capacity_wf_def signals_wf_def)
qed

end
