(* ===== verification/HGM_Policy.thy ===== *)
theory HGM_Policy
  imports HGM_Arith HGM_Types
begin

text \<open>
  Policy snapshots (\<^verbatim>\<open>include/hgm/policy.hpp\<close>, \<^verbatim>\<open>src/policy.cpp\<close>) and authority vectors
  (\<^verbatim>\<open>include/hgm/authority.hpp\<close>, \<^verbatim>\<open>src/authority.cpp\<close>). The reasons and bindings an authority
  finding carries are text for operators that no branch reads; a finding here is its domain and
  whether it grants. The lemmas: when a policy is live, that the severity bands are monotone, and
  what sealing an authority vector keeps.
\<close>

section \<open>Policy\<close>

record Thresholds =
  th_saturation_utilization_ppm :: u32
  th_queue_pressure_ppm :: u32
  th_buffer_pressure_ppm :: u32
  th_min_confidence_ppm :: u32
  th_max_signal_age_ms :: u32
  th_max_capacity_age_ms :: u32
  th_max_topology_age_ms :: u32
  th_max_path_age_ms :: u32
  th_max_traffic_age_ms :: u32
  th_persistence_window_ms :: u32
  th_min_persistence_samples :: u32
  th_max_local_share_ppm :: u32
  th_global_share_ppm :: u32
  th_max_local_regions :: u32
  th_max_regional_regions :: u32
  th_min_coverage_ppm :: u32
  th_min_attribution_confidence_ppm :: u32
  th_dominant_contributor_ppm :: u32
  th_contradiction_utilization_ppm :: u32

record MitigationBudget =
  bg_max_affected_resources :: u32
  bg_max_affected_paths :: u32
  bg_max_affected_flows :: u32
  bg_max_rate_delta_ppm :: u32
  bg_max_scope_share_ppm :: u32
  bg_max_plan_scope_share_ppm :: u32
  bg_max_intents_per_plan :: u32
  bg_allow_flow_relocation :: bool
  bg_allow_path_rebalance :: bool
  bg_allow_admission_reduction :: bool
  bg_allow_rate_change :: bool
  bg_allow_resource_isolation :: bool
  bg_allow_global_escalation :: bool
  bg_require_attribution_for_relocation :: bool

record SeverityBands =
  bd_low_ppm :: u32
  bd_moderate_ppm :: u32
  bd_high_ppm :: u32
  bd_critical_ppm :: u32

record PolicySnapshot =
  po_id :: PolicyId
  po_generation :: Generation
  po_provenance :: Provenance
  po_issued_at :: Millis
  po_ttl_ms :: u32
  po_thresholds :: Thresholds
  po_budget :: MitigationBudget
  po_bands :: SeverityBands

text \<open>The member initialisers.\<close>

definition default_thresholds :: Thresholds where
  "default_thresholds = \<lparr>th_saturation_utilization_ppm = 900000, th_queue_pressure_ppm = 850000,
     th_buffer_pressure_ppm = 900000, th_min_confidence_ppm = 700000, th_max_signal_age_ms = 5000,
     th_max_capacity_age_ms = 30000, th_max_topology_age_ms = 60000, th_max_path_age_ms = 30000,
     th_max_traffic_age_ms = 5000, th_persistence_window_ms = 2000, th_min_persistence_samples = 3,
     th_max_local_share_ppm = 250000, th_global_share_ppm = 600000, th_max_local_regions = 1,
     th_max_regional_regions = 4, th_min_coverage_ppm = 600000,
     th_min_attribution_confidence_ppm = 500000, th_dominant_contributor_ppm = 500000,
     th_contradiction_utilization_ppm = 400000\<rparr>"

definition default_budget :: MitigationBudget where
  "default_budget = \<lparr>bg_max_affected_resources = 16, bg_max_affected_paths = 32, bg_max_affected_flows = 32,
     bg_max_rate_delta_ppm = 250000, bg_max_scope_share_ppm = 250000,
     bg_max_plan_scope_share_ppm = 400000, bg_max_intents_per_plan = 8, bg_allow_flow_relocation = True,
     bg_allow_path_rebalance = True, bg_allow_admission_reduction = True, bg_allow_rate_change = True,
     bg_allow_resource_isolation = True, bg_allow_global_escalation = True,
     bg_require_attribution_for_relocation = True\<rparr>"

definition default_bands :: SeverityBands where
  "default_bands = \<lparr>bd_low_ppm = 900000, bd_moderate_ppm = 950000, bd_high_ppm = 990000, bd_critical_ppm = 1100000\<rparr>"

definition empty_policy :: PolicySnapshot where
  "empty_policy = \<lparr>po_id = 0, po_generation = 0, po_provenance = no_provenance, po_issued_at = kNoTime,
     po_ttl_ms = 0, po_thresholds = default_thresholds, po_budget = default_budget, po_bands = default_bands\<rparr>"

fun budget_allows :: "MitigationBudget \<Rightarrow> MitigationKind \<Rightarrow> bool" where
  "budget_allows b MK_FlowRelocation = bg_allow_flow_relocation b"
| "budget_allows b MK_PathRebalance = bg_allow_path_rebalance b"
| "budget_allows b MK_AdmissionReduction = bg_allow_admission_reduction b"
| "budget_allows b MK_RatePacingChange = bg_allow_rate_change b"
| "budget_allows b MK_ResourceIsolation = bg_allow_resource_isolation b"
| "budget_allows b MK_EscalateGlobalCongestion = bg_allow_global_escalation b"
| "budget_allows b MK_None = False"
| "budget_allows b (MK_Raw _) = False"

definition classify :: "SeverityBands \<Rightarrow> u32 \<Rightarrow> Severity" where
  "classify b peak =
     (if peak \<ge> bd_critical_ppm b then Sev_Critical
      else if peak \<ge> bd_high_ppm b then Sev_High
      else if peak \<ge> bd_moderate_ppm b then Sev_Moderate
      else if peak \<ge> bd_low_ppm b then Sev_Low
      else Sev_None)"

definition expired_at :: "PolicySnapshot \<Rightarrow> Millis \<Rightarrow> bool" where
  "expired_at p now \<longleftrightarrow>
     (if po_ttl_ms p = 0 then True
      else if po_issued_at p = kNoTime then True
      else if now < po_issued_at p then True
      else elapsed_ms (po_issued_at p) now > uint (po_ttl_ms p))"

definition w_thresholds :: "Thresholds \<Rightarrow> bytes" where
  "w_thresholds t = w_u32 (th_saturation_utilization_ppm t) @ w_u32 (th_queue_pressure_ppm t) @
     w_u32 (th_buffer_pressure_ppm t) @ w_u32 (th_min_confidence_ppm t) @ w_u32 (th_max_signal_age_ms t) @
     w_u32 (th_max_capacity_age_ms t) @ w_u32 (th_max_topology_age_ms t) @ w_u32 (th_max_path_age_ms t) @
     w_u32 (th_max_traffic_age_ms t) @ w_u32 (th_persistence_window_ms t) @
     w_u32 (th_min_persistence_samples t) @ w_u32 (th_max_local_share_ppm t) @
     w_u32 (th_global_share_ppm t) @ w_u32 (th_max_local_regions t) @ w_u32 (th_max_regional_regions t) @
     w_u32 (th_min_coverage_ppm t) @ w_u32 (th_min_attribution_confidence_ppm t) @
     w_u32 (th_dominant_contributor_ppm t) @ w_u32 (th_contradiction_utilization_ppm t)"

definition w_budget :: "MitigationBudget \<Rightarrow> bytes" where
  "w_budget b = w_u32 (bg_max_affected_resources b) @ w_u32 (bg_max_affected_paths b) @
     w_u32 (bg_max_affected_flows b) @ w_u32 (bg_max_rate_delta_ppm b) @ w_u32 (bg_max_scope_share_ppm b) @
     w_u32 (bg_max_plan_scope_share_ppm b) @ w_u32 (bg_max_intents_per_plan b) @
     w_bool (bg_allow_flow_relocation b) @ w_bool (bg_allow_path_rebalance b) @
     w_bool (bg_allow_admission_reduction b) @ w_bool (bg_allow_rate_change b) @
     w_bool (bg_allow_resource_isolation b) @ w_bool (bg_allow_global_escalation b) @
     w_bool (bg_require_attribution_for_relocation b)"

definition w_bands :: "SeverityBands \<Rightarrow> bytes" where
  "w_bands b = w_u32 (bd_low_ppm b) @ w_u32 (bd_moderate_ppm b) @ w_u32 (bd_high_ppm b) @ w_u32 (bd_critical_ppm b)"

definition policy_content :: "PolicySnapshot \<Rightarrow> bytes" where
  "policy_content p = w_u64 (po_id p) @ w_u64 (po_generation p) @ w_i64 (po_issued_at p) @ w_u32 (po_ttl_ms p)
     @ w_thresholds (po_thresholds p) @ w_budget (po_budget p) @ w_bands (po_bands p)"

definition policy_digest :: "PolicySnapshot \<Rightarrow> Digest" where
  "policy_digest p = digest_of (policy_content p)"

section \<open>Authority\<close>

datatype (plugins only: code) AuthorityDomain =
    AD_CoordinatorEpoch | AD_BootIncarnation | AD_PublisherIncarnation | AD_Topology | AD_Capacity
  | AD_Signals | AD_Paths | AD_Traffic | AD_Policy | AD_Attribution | AD_Persistence | AD_MitigationBudget

primrec domain_code :: "AuthorityDomain \<Rightarrow> nat" where
  "domain_code AD_CoordinatorEpoch = 0"
| "domain_code AD_BootIncarnation = 1"
| "domain_code AD_PublisherIncarnation = 2"
| "domain_code AD_Topology = 3"
| "domain_code AD_Capacity = 4"
| "domain_code AD_Signals = 5"
| "domain_code AD_Paths = 6"
| "domain_code AD_Traffic = 7"
| "domain_code AD_Policy = 8"
| "domain_code AD_Attribution = 9"
| "domain_code AD_Persistence = 10"
| "domain_code AD_MitigationBudget = 11"

text \<open>A finding: its domain and whether the domain is granted.\<close>

type_synonym AuthorityGrant = "AuthorityDomain \<times> bool"
type_synonym AuthorityVector = "AuthorityGrant list"

definition auth_grant :: "AuthorityDomain \<Rightarrow> AuthorityVector \<Rightarrow> AuthorityVector" where
  "auth_grant d v = v @ [(d, True)]"

definition auth_deny :: "AuthorityDomain \<Rightarrow> AuthorityVector \<Rightarrow> AuthorityVector" where
  "auth_deny d v = v @ [(d, False)]"

text \<open>The loop of \<open>granted\<close>, with its flag.\<close>

fun granted_loop :: "AuthorityDomain \<Rightarrow> bool \<Rightarrow> AuthorityVector \<Rightarrow> bool" where
  "granted_loop d seen [] = seen"
| "granted_loop d seen ((d', g) # v) =
     (if d' \<noteq> d then granted_loop d seen v else if \<not> g then False else granted_loop d True v)"

definition granted :: "AuthorityVector \<Rightarrow> AuthorityDomain \<Rightarrow> bool" where
  "granted v d = granted_loop d False v"

definition all_granted :: "AuthorityVector \<Rightarrow> bool" where
  "all_granted v \<longleftrightarrow> (\<forall>g \<in> set v. snd g)"

text \<open>\<open>kept = grant\<close> on the first kept finding of the same domain; None when there is none.\<close>

fun replace_kept :: "AuthorityGrant \<Rightarrow> AuthorityVector \<Rightarrow> AuthorityVector option" where
  "replace_kept g [] = None"
| "replace_kept g (k # ks) =
     (if fst k = fst g then Some (g # ks) else map_option (\<lambda>r. k # r) (replace_kept g ks))"

fun dedup_grants :: "AuthorityVector \<Rightarrow> AuthorityVector \<Rightarrow> AuthorityVector" where
  "dedup_grants kept [] = kept"
| "dedup_grants kept (g # gs) =
     (case replace_kept g kept of
        Some kept' \<Rightarrow> dedup_grants kept' gs
      | None \<Rightarrow> if length kept \<ge> kMaxAuthorityGrants then kept else dedup_grants (kept @ [g]) gs)"

definition seal :: "AuthorityVector \<Rightarrow> AuthorityVector" where
  "seal v = sort_key (\<lambda>g. domain_code (fst g)) (dedup_grants [] (sort_key (\<lambda>g. domain_code (fst g)) v))"

section \<open>Lemmas\<close>

lemma expired_at_iff:
  assumes "millis_ok now" and "millis_ok (po_issued_at p)" and "now \<noteq> kNoTime"
  shows "\<not> expired_at p now \<longleftrightarrow> po_ttl_ms p \<noteq> 0 \<and> po_issued_at p \<noteq> kNoTime \<and>
     po_issued_at p \<le> now \<and> now - po_issued_at p \<le> uint (po_ttl_ms p)"
proof (cases "po_issued_at p = kNoTime")
  case False
  have "uint (po_ttl_ms p) < 2 ^ 32" using uint_bounded [of "po_ttl_ms p"] by simp
  then have t: "uint (po_ttl_ms p) < kMaxTime" by (simp add: kMaxTime_def)
  show ?thesis
    using elapsed_ms_exact [OF assms(2,1) False assms(3)] t False by (auto simp: expired_at_def)
qed (simp add: expired_at_def)

lemma granted_loop_iff:
  "granted_loop d seen v \<longleftrightarrow> (\<forall>g \<in> set v. fst g = d \<longrightarrow> snd g) \<and> (seen \<or> (\<exists>g \<in> set v. fst g = d))"
  by (induction d seen v rule: granted_loop.induct) auto

lemma granted_iff:
  "granted v d \<longleftrightarrow> (\<forall>g. (d, g) \<in> set v \<longrightarrow> g) \<and> (\<exists>g. (d, g) \<in> set v)"
  by (simp add: granted_def granted_loop_iff Ball_def Bex_def)

lemma domain_code_inj: "domain_code a = domain_code b \<longleftrightarrow> a = b"
  by (cases a; cases b; simp)

text \<open>The last finding of a domain in a vector.\<close>

definition last_finding :: "AuthorityVector \<Rightarrow> AuthorityDomain \<Rightarrow> bool option" where
  "last_finding v d = map_of (rev v) d"

lemma last_finding_simps [simp]:
  "last_finding [] d = None"
  "last_finding (g # v) d = (case last_finding v d of None \<Rightarrow> if fst g = d then Some (snd g) else None | Some b \<Rightarrow> Some b)"
  by (cases g, auto simp: last_finding_def map_add_def split: option.splits)+

lemma last_finding_filter: "last_finding (filter (\<lambda>g. fst g = d) v) d = last_finding v d"
  by (induction v) (auto split: option.splits)

lemma last_finding_sort: "last_finding (sort_key (\<lambda>g. domain_code (fst g)) v) d = last_finding v d"
proof -
  have "filter (\<lambda>g. domain_code (fst g) = domain_code d) (sort_key (\<lambda>g. domain_code (fst g)) v)
      = filter (\<lambda>g. domain_code (fst g) = domain_code d) v" by (rule sort_key_stable)
  then have "last_finding (filter (\<lambda>g. fst g = d) (sort_key (\<lambda>g. domain_code (fst g)) v)) d
      = last_finding (filter (\<lambda>g. fst g = d) v) d" by (simp add: domain_code_inj)
  then show ?thesis by (simp add: last_finding_filter)
qed

lemma replace_kept_None: "replace_kept g kept = None \<longleftrightarrow> fst g \<notin> fst ` set kept"
  by (induction kept) auto

lemma replace_kept_Some:
  "replace_kept g kept = Some kept' \<Longrightarrow>
     map fst kept' = map fst kept \<and> map_of kept' = (map_of kept)(fst g \<mapsto> snd g)"
proof (induction kept arbitrary: kept')
  case (Cons k ks)
  obtain d b where k: "k = (d, b)" by (cases k)
  obtain d' b' where g: "g = (d', b')" by (cases g)
  show ?case
  proof (cases "d = d'")
    case True
    then show ?thesis using Cons.prems by (auto simp: k g)
  next
    case False
    then obtain r where "replace_kept g ks = Some r" "kept' = k # r" using Cons.prems by (auto simp: k g)
    then show ?thesis using Cons.IH [of r] False by (auto simp: k g fun_upd_twist)
  qed
qed simp

lemma distinct_domains_length: "distinct (map fst (v :: AuthorityVector)) \<Longrightarrow> length v \<le> 12"
proof -
  assume "distinct (map fst v)"
  then have "distinct (map domain_code (map fst v))"
    by (simp add: distinct_map inj_on_def domain_code_inj)
  then have "length v = card (set (map domain_code (map fst v)))" by (metis distinct_card length_map)
  also have "\<dots> \<le> card {..<12::nat}"
  proof (rule card_mono)
    have "domain_code d < 12" for d by (cases d) simp_all
    then show "set (map domain_code (map fst v)) \<subseteq> {..<12}" by auto
  qed simp
  finally show ?thesis by simp
qed

lemma dedup_grants_last:
  assumes "distinct (map fst kept)"
  shows "distinct (map fst (dedup_grants kept gs)) \<and>
     map_of (dedup_grants kept gs) d = (case last_finding gs d of None \<Rightarrow> map_of kept d | Some b \<Rightarrow> Some b)"
  using assms
proof (induction gs arbitrary: kept)
  case (Cons g gs)
  have room: "\<not> length kept \<ge> kMaxAuthorityGrants"
    using distinct_domains_length [OF Cons.prems] by (simp add: kMaxAuthorityGrants_def)
  show ?case
  proof (cases "replace_kept g kept")
    case None
    then have new: "fst g \<notin> fst ` set kept" by (simp add: replace_kept_None)
    then have "distinct (map fst (kept @ [g]))" using Cons.prems by auto
    moreover have "map_of kept (fst g) = None" using new by (simp add: map_of_eq_None_iff)
    then have "map_of (kept @ [g]) d = (if fst g = d then Some (snd g) else map_of kept d)"
      by (cases g) (auto simp: map_add_def split: option.splits)
    ultimately show ?thesis using Cons.IH [of "kept @ [g]"] None room by (auto split: option.splits)
  next
    case (Some kept')
    from replace_kept_Some [OF this] Cons.prems
    have "distinct (map fst kept')" "map_of kept' d = (if fst g = d then Some (snd g) else map_of kept d)" by auto
    then show ?thesis using Cons.IH [of kept'] Some by (auto split: option.splits)
  qed
qed simp

lemma map_of_sort_key:
  assumes "distinct (map fst v)"
  shows "map_of (sort_key f v) = map_of v"
proof -
  have "distinct (map fst (sort_key f v))" using assms by (simp add: distinct_map)
  then show ?thesis using assms by (simp add: map_of_inject_set)
qed

lemma seal_wf:
  shows "strictly_sorted_by (\<lambda>g. domain_code (fst g)) (seal v)" and "map_of (seal v) d = last_finding v d"
proof -
  let ?k = "dedup_grants [] (sort_key (\<lambda>g. domain_code (fst g)) v)"
  have dd: "distinct (map fst ?k)" "\<And>d. map_of ?k d = last_finding v d"
    using dedup_grants_last [of "[]"] by (simp_all add: last_finding_sort split: option.splits)
  have "distinct (map (\<lambda>g. domain_code (fst g)) ?k)"
    using dd(1) by (auto simp: distinct_map inj_on_def domain_code_inj)
  then have "distinct (map (\<lambda>g. domain_code (fst g)) (seal v))"
    by (simp add: seal_def distinct_map)
  then show "strictly_sorted_by (\<lambda>g. domain_code (fst g)) (seal v)"
    by (simp add: strict_sorted_iff seal_def)
  show "map_of (seal v) d = last_finding v d"
    using map_of_sort_key [OF dd(1), of "\<lambda>g. domain_code (fst g)"] dd(2) by (simp add: seal_def)
qed

lemma seal_distinct: "distinct (map fst (seal v))"
proof -
  have "distinct (map (\<lambda>g. domain_code (fst g)) (seal v))"
    using seal_wf(1) by (rule strictly_sorted_by_distinct)
  then show ?thesis by (auto simp: distinct_map inj_on_def domain_code_inj)
qed

lemma granted_seal: "granted (seal v) d \<longleftrightarrow> last_finding v d = Some True"
proof -
  have "(d, g) \<in> set (seal v) \<longleftrightarrow> last_finding v d = Some g" for g
    using seal_wf(2) [of v d] seal_distinct [of v] by (metis map_of_eq_Some_iff)
  then show ?thesis by (auto simp: granted_iff)
qed

section \<open>What sealing keeps\<close>

text \<open>Sealing an authority vector leaves exactly one finding per domain, in domain order, and it is
  the last finding recorded for that domain; so a domain is granted afterwards exactly when its last
  finding grants it, even if an earlier finding denied it.\<close>

lemma seal_last_finding:
  "strictly_sorted_by (\<lambda>g. domain_code (fst g)) (seal v) \<and>
   (\<forall>d. map_of (seal v) d = last_finding v d) \<and>
   (\<forall>d. granted (seal v) d \<longleftrightarrow> last_finding v d = Some True)"
  using seal_wf granted_seal by blast

end
