(* ===== verification/HGM_Saturation.thy ===== *)
theory HGM_Saturation
  imports HGM_Topology HGM_Evidence HGM_Policy
begin

text \<open>
  The first half of \<^verbatim>\<open>src/detection.cpp\<close>: the saturation tracker, the reference checks and the
  scan that turns capacity and signal evidence into one cell per resource with its counters.
  The lemmas: the tracker keeps exactly the history it is given, the linear merge of
  \<open>references_resolve\<close> is set inclusion, and the scan's cells and sums are those of the
  per-resource specification.
\<close>

section \<open>The saturation tracker\<close>

record Entry =
  en_first :: Millis
  en_last :: Millis
  en_samples :: u32

definition no_entry :: Entry where
  "no_entry = \<lparr>en_first = kNoTime, en_last = kNoTime, en_samples = 0\<rparr>"

type_synonym SaturationTracker = "(ResourceId \<times> Entry) list"

definition tracker_find :: "SaturationTracker \<Rightarrow> ResourceId \<Rightarrow> (ResourceId \<times> Entry) option" where
  "tracker_find tr i = find_sorted fst tr i"

definition carry :: "SaturationTracker \<Rightarrow> ResourceId \<Rightarrow> Entry" where
  "carry tr i =
     (case tracker_find tr i of
        None \<Rightarrow> no_entry
      | Some (_, e) \<Rightarrow> if en_last e = kNoTime then no_entry else e)"

text \<open>\<open>std::unique\<close> with the comparison of keys: of a run of equal keys the first stays.\<close>

fun unique_by :: "('e \<Rightarrow> 'k) \<Rightarrow> 'e list \<Rightarrow> 'e list" where
  "unique_by key [] = []"
| "unique_by key [x] = [x]"
| "unique_by key (x # y # zs) = (if key x = key y then unique_by key (x # zs) else x # unique_by key (y # zs))"

definition tracker_replace :: "(ResourceId \<times> Entry) list \<Rightarrow> SaturationTracker" where
  "tracker_replace next = unique_by fst (sort_key fst next)"

definition persistence_ms :: "SaturationTracker \<Rightarrow> ResourceId \<Rightarrow> Millis \<Rightarrow> Millis" where
  "persistence_ms tr i now = (case tracker_find tr i of None \<Rightarrow> 0 | Some (_, e) \<Rightarrow> elapsed_ms (en_first e) now)"

section \<open>References\<close>

text \<open>
  The merge of two vectors sorted by resource: \<open>resources\<close> is what is left from the cursor on.
\<close>

fun merge_resolve :: "ResourceId list \<Rightarrow> ResourceId list \<Rightarrow> bool" where
  "merge_resolve resources [] = True"
| "merge_resolve resources (e # entries) =
     (let rest = dropWhile (\<lambda>r. r < e) resources
      in if rest = [] \<or> hd rest \<noteq> e then False else merge_resolve rest entries)"

definition capacity_resolves :: "TopologySnapshot \<Rightarrow> CapacitySnapshot \<Rightarrow> bool" where
  "capacity_resolves t c = merge_resolve (map rs_id (tp_resources t)) (map cap_resource (cs_entries c))"

definition signals_resolve :: "TopologySnapshot \<Rightarrow> SignalSnapshot \<Rightarrow> bool" where
  "signals_resolve t s = merge_resolve (map rs_id (tp_resources t)) (map sr_resource (ss_records s))"

definition paths_resolve :: "TopologySnapshot \<Rightarrow> PathSnapshot \<Rightarrow> bool" where
  "paths_resolve t p \<longleftrightarrow> (\<forall>path \<in> set (ps_paths p). \<forall>hop \<in> set (pr_hops path). has_resource t hop)"

section \<open>The scan\<close>

record Cell =
  cl_utilization :: u32
  cl_queue :: u32
  cl_buffer :: u32
  cl_pressure :: u32
  cl_covered :: bool
  cl_admissible :: bool
  cl_saturated :: bool
  cl_contradictory :: bool
  cl_stale :: bool

definition no_cell :: Cell where
  "no_cell = \<lparr>cl_utilization = 0, cl_queue = 0, cl_buffer = 0, cl_pressure = 0, cl_covered = False,
     cl_admissible = False, cl_saturated = False, cl_contradictory = False, cl_stale = False\<rparr>"

record ResourcePressure =
  rp_resource :: ResourceId
  rp_region :: RegionId
  rp_capacity :: u64
  rp_utilized :: u64
  rp_queue_depth :: u64
  rp_queue_limit :: u64
  rp_buffer_used :: u64
  rp_buffer_limit :: u64
  rp_drops :: u64
  rp_utilization_ppm :: u32
  rp_queue_ppm :: u32
  rp_buffer_ppm :: u32
  rp_pressure_ppm :: u32
  rp_confidence_ppm :: u32
  rp_quality :: TelemetryQuality
  rp_observed_at :: Millis
  rp_saturated :: bool
  rp_admissible :: bool
  rp_contradictory :: bool
  rp_stale :: bool

definition quality_ok :: "TelemetryQuality \<Rightarrow> bool" where
  "quality_ok q \<longleftrightarrow> q = TQ_Healthy \<or> q = TQ_Degraded"

text \<open>\<open>entry == nullptr || !entry->usable || entry->capacity_units == 0\<close> fails.\<close>

definition usable_capacity :: "CapacitySnapshot \<Rightarrow> Resource \<Rightarrow> ResourceCapacity option" where
  "usable_capacity cap r =
     (case find_capacity cap (rs_id r) of
        None \<Rightarrow> None
      | Some e \<Rightarrow> if \<not> cap_usable e \<or> cap_units e = 0 then None else Some e)"

definition sample_stale :: "Thresholds \<Rightarrow> Millis \<Rightarrow> ResourceSignals \<Rightarrow> bool" where
  "sample_stale th now s \<longleftrightarrow>
     age_ms (sr_observed_at s) now > uint (th_max_signal_age_ms th) \<or> sr_quality s = TQ_Missing"

text \<open>The cell of a covered resource.\<close>

definition measure_cell :: "Thresholds \<Rightarrow> ResourceCapacity \<Rightarrow> ResourceSignals \<Rightarrow> Cell" where
  "measure_cell th e s =
     (let utilization = ratio_or0 (sr_utilized s) (cap_units e);
          queue = (if cap_queue_limit e = 0 then 0 else ratio_or0 (sr_queue_depth s) (cap_queue_limit e));
          buffer = (if cap_buffer_limit e = 0 then 0 else ratio_or0 (sr_buffer_used s) (cap_buffer_limit e));
          queue_pressured = (cap_queue_limit e \<noteq> 0 \<and> queue \<ge> th_queue_pressure_ppm th);
          buffer_pressured = (cap_buffer_limit e \<noteq> 0 \<and> buffer \<ge> th_buffer_pressure_ppm th);
          saturated = (utilization \<ge> th_saturation_utilization_ppm th \<or> queue_pressured \<or> buffer_pressured);
          contradiction =
            ((utilization < th_contradiction_utilization_ppm th \<and> (queue_pressured \<or> buffer_pressured)) \<or>
             (sr_offered s > 0 \<and> sr_utilized s = 0 \<and> sr_queue_depth s = 0 \<and> sr_drops s = 0));
          admissible = (quality_ok (sr_quality s) \<and> sr_confidence s \<ge> th_min_confidence_ppm th \<and> \<not> contradiction)
      in \<lparr>cl_utilization = utilization, cl_queue = queue, cl_buffer = buffer,
          cl_pressure = max utilization (max queue buffer), cl_covered = True, cl_admissible = admissible,
          cl_saturated = (admissible \<and> saturated), cl_contradictory = contradiction, cl_stale = False\<rparr>)"

definition pressure_of :: "Resource \<Rightarrow> ResourceCapacity \<Rightarrow> ResourceSignals \<Rightarrow> Cell \<Rightarrow> ResourcePressure" where
  "pressure_of r e s c =
     \<lparr>rp_resource = rs_id r, rp_region = rs_region r, rp_capacity = cap_units e, rp_utilized = sr_utilized s,
      rp_queue_depth = sr_queue_depth s, rp_queue_limit = cap_queue_limit e, rp_buffer_used = sr_buffer_used s,
      rp_buffer_limit = cap_buffer_limit e, rp_drops = sr_drops s, rp_utilization_ppm = cl_utilization c,
      rp_queue_ppm = cl_queue c, rp_buffer_ppm = cl_buffer c, rp_pressure_ppm = cl_pressure c,
      rp_confidence_ppm = sr_confidence s, rp_quality = sr_quality s, rp_observed_at = sr_observed_at s,
      rp_saturated = cl_saturated c, rp_admissible = cl_admissible c, rp_contradictory = cl_contradictory c,
      rp_stale = False\<rparr>"

record Scan =
  sc_cells :: "Cell list"
  sc_fabric :: u64
  sc_covered :: u64
  sc_admissible :: u64
  sc_saturated :: u64
  sc_observed_count :: nat
  sc_admissible_count :: nat
  sc_saturated_count :: nat
  sc_contradictory_count :: nat
  sc_stale_count :: nat
  sc_unusable_count :: nat
  sc_pressures :: "ResourcePressure list"

definition start_scan :: Scan where
  "start_scan = \<lparr>sc_cells = [], sc_fabric = 0, sc_covered = 0, sc_admissible = 0, sc_saturated = 0,
     sc_observed_count = 0, sc_admissible_count = 0, sc_saturated_count = 0, sc_contradictory_count = 0,
     sc_stale_count = 0, sc_unusable_count = 0, sc_pressures = []\<rparr>"

text \<open>One round of the loop; the cell vector grows by the cell of the round.\<close>

definition scan_resource ::
    "Thresholds \<Rightarrow> Millis \<Rightarrow> CapacitySnapshot \<Rightarrow> SignalSnapshot \<Rightarrow> Resource \<Rightarrow> Scan \<Rightarrow> Scan" where
  "scan_resource th now cap sig r sc =
     (case usable_capacity cap r of
        None \<Rightarrow> sc\<lparr>sc_cells := sc_cells sc @ [no_cell], sc_unusable_count := sc_unusable_count sc + 1\<rparr>
      | Some e \<Rightarrow>
          let sc1 = sc\<lparr>sc_fabric := sat_add (sc_fabric sc) (cap_units e)\<rparr>
          in case find_signals sig (rs_id r) of
               None \<Rightarrow> sc1\<lparr>sc_cells := sc_cells sc @ [no_cell]\<rparr>
             | Some s \<Rightarrow>
                 if sample_stale th now s
                 then sc1\<lparr>sc_cells := sc_cells sc @ [no_cell\<lparr>cl_stale := True\<rparr>],
                          sc_stale_count := sc_stale_count sc + 1\<rparr>
                 else
                   let c = measure_cell th e s;
                       add = (\<lambda>flag total. if flag then sat_add total (cap_units e) else total);
                       count = (\<lambda>flag k. if flag then k + (1::nat) else k)
                   in sc1\<lparr>sc_cells := sc_cells sc @ [c],
                          sc_covered := sat_add (sc_covered sc) (cap_units e),
                          sc_observed_count := sc_observed_count sc + 1,
                          sc_contradictory_count := count (cl_contradictory c) (sc_contradictory_count sc),
                          sc_admissible := add (cl_admissible c) (sc_admissible sc),
                          sc_admissible_count := count (cl_admissible c) (sc_admissible_count sc),
                          sc_saturated := add (cl_saturated c) (sc_saturated sc),
                          sc_saturated_count := count (cl_saturated c) (sc_saturated_count sc),
                          sc_pressures :=
                            (if (cl_saturated c \<or> cl_contradictory c \<or> \<not> cl_admissible c)
                                \<and> length (sc_pressures sc) < kMaxPressureEntries
                             then sc_pressures sc @ [pressure_of r e s c] else sc_pressures sc)\<rparr>)"

definition scan :: "Thresholds \<Rightarrow> Millis \<Rightarrow> CapacitySnapshot \<Rightarrow> SignalSnapshot \<Rightarrow> Resource list \<Rightarrow> Scan" where
  "scan th now cap sig rs = fold (scan_resource th now cap sig) rs start_scan"

section \<open>The tracker is a map\<close>

definition tracker_wf :: "SaturationTracker \<Rightarrow> bool" where
  "tracker_wf tr \<longleftrightarrow> strictly_sorted_by fst tr"

interpretation tracker_index: sorted_index "\<lambda>tr. tr" fst "\<lambda>_. True" tracker_wf tracker_find
  by unfold_locales (auto simp: tracker_wf_def tracker_find_def)

lemma unique_by_distinct: "\<not> adjacent_dup key xs \<Longrightarrow> unique_by key xs = xs"
  by (induction key xs rule: unique_by.induct) auto

lemma tracker_replace_distinct:
  assumes "distinct (map fst next)"
  shows "tracker_wf (tracker_replace next)" "set (tracker_replace next) = set next"
proof -
  have "strictly_sorted_by fst (sort_key fst next)"
    using assms by (simp add: strict_sorted_iff distinct_map)
  moreover from this have "tracker_replace next = sort_key fst next"
    by (simp add: tracker_replace_def strictly_sorted_by_iff unique_by_distinct)
  ultimately show "tracker_wf (tracker_replace next)" "set (tracker_replace next) = set next"
    by (simp_all add: tracker_wf_def)
qed

lemma tracker_find_replace:
  assumes "distinct (map fst next)"
  shows "tracker_find (tracker_replace next) i = Some p \<longleftrightarrow> p \<in> set next \<and> fst p = i"
  using tracker_replace_distinct [OF assms] by (simp add: tracker_index.lookup_Some_iff)

section \<open>The merge is set inclusion\<close>

lemma merge_resolve_subset:
  assumes "sorted_wrt (<) resources" and "sorted_wrt (<) entries"
  shows "merge_resolve resources entries \<longleftrightarrow> set entries \<subseteq> set resources"
  using assms
proof (induction entries arbitrary: resources)
  case (Cons e entries)
  let ?rest = "dropWhile (\<lambda>r. r < e) resources"
  have split: "set resources = set (takeWhile (\<lambda>r. r < e) resources) \<union> set ?rest"
    by (metis set_append takeWhile_dropWhile_id)
  have before: "\<forall>r \<in> set (takeWhile (\<lambda>r. r < e) resources). r < e" by (auto dest: set_takeWhileD)
  have sr: "sorted_wrt (<) ?rest" using Cons.prems(1) by (rule sorted_wrt_dropWhile)
  show ?case
  proof (cases "?rest = [] \<or> hd ?rest \<noteq> e")
    case True
    have "e \<notin> set ?rest"
    proof (cases ?rest)
      case Nil
      show ?thesis unfolding Nil by simp
    next
      case (Cons h t)
      then have "\<not> h < e" by (metis hd_dropWhile list.sel(1) list.distinct(1))
      moreover have "h \<noteq> e" using True Cons by simp
      moreover have "\<forall>x \<in> set t. h < x" using sr Cons by simp
      ultimately show ?thesis unfolding Cons by auto
    qed
    then have "e \<notin> set resources" using split before by auto
    then show ?thesis using True by (auto simp: Let_def)
  next
    case False
    then have e: "e \<in> set ?rest" by (metis hd_in_set)
    have same: "x \<in> set ?rest \<longleftrightarrow> x \<in> set resources" if "x \<in> set entries" for x
    proof -
      have "e < x" using Cons.prems(2) that by simp
      then have "x \<notin> set (takeWhile (\<lambda>r. r < e) resources)" using before by (meson less_asym)
      then show ?thesis using split by blast
    qed
    have "merge_resolve resources (e # entries) \<longleftrightarrow> merge_resolve ?rest entries"
      using False by (simp only: merge_resolve.simps Let_def if_False)
    also have "\<dots> \<longleftrightarrow> set entries \<subseteq> set ?rest" using Cons.IH [OF sr] Cons.prems(2) by simp
    also have "\<dots> \<longleftrightarrow> set entries \<subseteq> set resources" using same by blast
    also have "\<dots> \<longleftrightarrow> set (e # entries) \<subseteq> set resources" using e split by simp
    finally show ?thesis .
  qed
qed simp

lemma has_resource_set:
  assumes "topology_wf t"
  shows "has_resource t i \<longleftrightarrow> i \<in> rs_id ` set (tp_resources t)"
  using resource_index.lookup_None_iff [OF assms, of i] by (simp add: has_resource_def)

lemma capacity_resolves_iff:
  assumes "topology_wf t" and "capacity_wf c"
  shows "capacity_resolves t c \<longleftrightarrow> (\<forall>e \<in> set (cs_entries c). has_resource t (cap_resource e))"
  using assms merge_resolve_subset [of "map rs_id (tp_resources t)" "map cap_resource (cs_entries c)"]
  by (simp add: capacity_resolves_def has_resource_set topology_wf_def resources_wf_def capacity_wf_def image_subset_iff)

lemma signals_resolve_iff:
  assumes "topology_wf t" and "signals_wf s"
  shows "signals_resolve t s \<longleftrightarrow> (\<forall>r \<in> set (ss_records s). has_resource t (sr_resource r))"
  using assms merge_resolve_subset [of "map rs_id (tp_resources t)" "map sr_resource (ss_records s)"]
  by (simp add: signals_resolve_def has_resource_set topology_wf_def resources_wf_def signals_wf_def image_subset_iff)

section \<open>What the scan computes\<close>

text \<open>The specification of one cell, and the capacity a resource contributes to a total.\<close>

definition resource_cell :: "Thresholds \<Rightarrow> Millis \<Rightarrow> CapacitySnapshot \<Rightarrow> SignalSnapshot \<Rightarrow> Resource \<Rightarrow> Cell" where
  "resource_cell th now cap sig r =
     (case (usable_capacity cap r, find_signals sig (rs_id r)) of
        (Some e, Some s) \<Rightarrow> if sample_stale th now s then no_cell\<lparr>cl_stale := True\<rparr> else measure_cell th e s
      | _ \<Rightarrow> no_cell)"

definition units_of :: "CapacitySnapshot \<Rightarrow> Resource \<Rightarrow> u64" where
  "units_of cap r = (case usable_capacity cap r of None \<Rightarrow> 0 | Some e \<Rightarrow> cap_units e)"

lemma no_cell_flags [simp]:
  "\<not> cl_covered no_cell" "\<not> cl_admissible no_cell" "\<not> cl_saturated no_cell" "\<not> cl_contradictory no_cell"
  "\<not> cl_stale no_cell"
  by (simp_all add: no_cell_def)

lemma measure_cell_flags:
  "cl_covered (measure_cell th e s)" "\<not> cl_stale (measure_cell th e s)"
  "cl_saturated (measure_cell th e s) \<Longrightarrow> cl_admissible (measure_cell th e s)"
  "cl_admissible (measure_cell th e s) \<Longrightarrow> \<not> cl_contradictory (measure_cell th e s) \<and>
     quality_ok (sr_quality s) \<and> sr_confidence s \<ge> th_min_confidence_ppm th"
  by (simp_all add: measure_cell_def Let_def)

lemma scan_resource_fields:
  defines "c \<equiv> resource_cell"
  shows "sc_cells (scan_resource th now cap sig r sc) = sc_cells sc @ [c th now cap sig r]"
    "sc_fabric (scan_resource th now cap sig r sc) = sat_add (sc_fabric sc) (units_of cap r)"
    "sc_admissible (scan_resource th now cap sig r sc)
       = sat_add (sc_admissible sc) (if cl_admissible (c th now cap sig r) then units_of cap r else 0)"
    "sc_saturated (scan_resource th now cap sig r sc)
       = sat_add (sc_saturated sc) (if cl_saturated (c th now cap sig r) then units_of cap r else 0)"
    "sc_admissible_count (scan_resource th now cap sig r sc)
       = sc_admissible_count sc + (if cl_admissible (c th now cap sig r) then 1 else 0)"
    "sc_saturated_count (scan_resource th now cap sig r sc)
       = sc_saturated_count sc + (if cl_saturated (c th now cap sig r) then 1 else 0)"
    "sc_unusable_count (scan_resource th now cap sig r sc)
       = sc_unusable_count sc + (if usable_capacity cap r = None then 1 else 0)"
  by (simp_all add: c_def scan_resource_def resource_cell_def units_of_def Let_def measure_cell_flags
      split: option.splits)

lemma scan_fold:
  fixes th now cap sig
  defines "step \<equiv> scan_resource th now cap sig" and "c \<equiv> resource_cell th now cap sig"
  shows "sc_cells (fold step rs sc) = sc_cells sc @ map c rs"
    "sc_fabric (fold step rs sc) = fold (\<lambda>r a. sat_add a (units_of cap r)) rs (sc_fabric sc)"
    "sc_admissible (fold step rs sc)
       = fold (\<lambda>r a. sat_add a (if cl_admissible (c r) then units_of cap r else 0)) rs (sc_admissible sc)"
    "sc_saturated (fold step rs sc)
       = fold (\<lambda>r a. sat_add a (if cl_saturated (c r) then units_of cap r else 0)) rs (sc_saturated sc)"
    "sc_admissible_count (fold step rs sc) = sc_admissible_count sc + length (filter (\<lambda>r. cl_admissible (c r)) rs)"
    "sc_saturated_count (fold step rs sc) = sc_saturated_count sc + length (filter (\<lambda>r. cl_saturated (c r)) rs)"
    "sc_unusable_count (fold step rs sc)
       = sc_unusable_count sc + length (filter (\<lambda>r. usable_capacity cap r = None) rs)"
  unfolding step_def c_def
  by (induction rs arbitrary: sc; simp add: scan_resource_fields)+

lemma start_scan_fields [simp]:
  "sc_cells start_scan = []" "sc_fabric start_scan = 0" "sc_admissible start_scan = 0" "sc_saturated start_scan = 0"
  "sc_admissible_count start_scan = 0" "sc_saturated_count start_scan = 0" "sc_unusable_count start_scan = 0"
  by (simp_all add: start_scan_def)

lemma scan_cells: "sc_cells (scan th now cap sig rs) = map (resource_cell th now cap sig) rs"
  by (simp add: scan_def scan_fold)

lemma scan_totals:
  "unat (sc_fabric (scan th now cap sig rs)) = min (\<Sum>r\<leftarrow>rs. unat (units_of cap r)) (2 ^ 64 - 1)"
  "unat (sc_saturated (scan th now cap sig rs)) = min
     (\<Sum>r\<leftarrow>filter (\<lambda>r. cl_saturated (resource_cell th now cap sig r)) rs. unat (units_of cap r)) (2 ^ 64 - 1)"
  "unat (sc_admissible (scan th now cap sig rs)) = min
     (\<Sum>r\<leftarrow>filter (\<lambda>r. cl_admissible (resource_cell th now cap sig r)) rs. unat (units_of cap r)) (2 ^ 64 - 1)"
proof -
  have f: "(\<Sum>r\<leftarrow>rs. unat (if P r then units_of cap r else 0)) = (\<Sum>r\<leftarrow>filter P rs. unat (units_of cap r))" for P
    by (induction rs) auto
  show "unat (sc_fabric (scan th now cap sig rs)) = min (\<Sum>r\<leftarrow>rs. unat (units_of cap r)) (2 ^ 64 - 1)"
    by (simp add: scan_def scan_fold fold_sat_add_unat)
  show "unat (sc_saturated (scan th now cap sig rs)) = min
     (\<Sum>r\<leftarrow>filter (\<lambda>r. cl_saturated (resource_cell th now cap sig r)) rs. unat (units_of cap r)) (2 ^ 64 - 1)"
    by (simp add: scan_def scan_fold fold_sat_add_unat f)
  show "unat (sc_admissible (scan th now cap sig rs)) = min
     (\<Sum>r\<leftarrow>filter (\<lambda>r. cl_admissible (resource_cell th now cap sig r)) rs. unat (units_of cap r)) (2 ^ 64 - 1)"
    by (simp add: scan_def scan_fold fold_sat_add_unat f)
qed

lemma resource_cell_saturated:
  assumes "cl_saturated (resource_cell th now cap sig r)"
  shows "\<exists>e s. usable_capacity cap r = Some e \<and> find_signals sig (rs_id r) = Some s \<and>
     \<not> sample_stale th now s \<and> quality_ok (sr_quality s) \<and> sr_confidence s \<ge> th_min_confidence_ppm th \<and>
     \<not> cl_contradictory (measure_cell th e s) \<and> resource_cell th now cap sig r = measure_cell th e s"
proof -
  from assms obtain e s where es: "usable_capacity cap r = Some e" "find_signals sig (rs_id r) = Some s"
    "\<not> sample_stale th now s" "resource_cell th now cap sig r = measure_cell th e s"
    by (auto simp: resource_cell_def split: option.splits if_splits)
  then have "cl_admissible (measure_cell th e s)" using assms measure_cell_flags(3) by simp
  from measure_cell_flags(4) [OF this] es show ?thesis by blast
qed

end
