(* ===== verification/HGM_Components.thy ===== *)
theory HGM_Components
  imports HGM_Topology
begin

text \<open>
  The connected components of the saturated resources, as \<open>detect\<close> in \<^verbatim>\<open>src/detection.cpp\<close>
  finds them: an outer loop over seeds and an explicit-stack depth-first search that marks a
  resource when it is pushed. Resources are their indices in the sorted resource vector. The
  interface \<open>saturation_graph\<close> states what the search needs of the adjacency; it is interpreted on
  the topology's own neighbour index, and its lemmas show that the search returns exactly the
  connected components of the saturated set.
\<close>

section \<open>The search\<close>

text \<open>\<open>index_of_resource\<close>: None is the \<open>static_cast<std::size_t>(-1)\<close> of the source.\<close>

definition index_of_resource :: "TopologySnapshot \<Rightarrow> ResourceId \<Rightarrow> nat option" where
  "index_of_resource t i =
     (let k = lower_bound rs_id (tp_resources t) i
      in if k = length (tp_resources t) \<or> rs_id (tp_resources t ! k) \<noteq> i then None else Some k)"

definition neighbor_indices :: "TopologySnapshot \<Rightarrow> nat \<Rightarrow> nat option list" where
  "neighbor_indices t i = map (index_of_resource t) (neighbors t (rs_id (tp_resources t ! i)))"

text \<open>
  One neighbour: skipped when unknown, not saturated or already visited; otherwise marked and
  pushed. An index is always in range (\<open>nbr_bounded\<close> below); the test makes the search total.
\<close>

definition visit_neighbor :: "(nat \<Rightarrow> bool) \<Rightarrow> nat option \<Rightarrow> bool list \<times> nat list \<Rightarrow> bool list \<times> nat list" where
  "visit_neighbor sat nb s =
     (case (nb, s) of
        (None, _) \<Rightarrow> s
      | (Some i, (visited, stack)) \<Rightarrow>
          if i < length visited \<and> sat i \<and> \<not> visited ! i then (visited[i := True], i # stack) else s)"

abbreviation unvisited :: "bool list \<Rightarrow> nat" where
  "unvisited v \<equiv> length (filter Not v)"

lemma unvisited_mark:
  "i < length v \<Longrightarrow> \<not> v ! i \<Longrightarrow> Suc (unvisited (v[i := True])) = unvisited v"
proof (induction v arbitrary: i)
  case (Cons b v)
  then show ?case by (cases i) auto
qed simp

lemma visit_neighbor_measure:
  "2 * unvisited (fst (visit_neighbor sat nb s)) + length (snd (visit_neighbor sat nb s))
     \<le> 2 * unvisited (fst s) + length (snd s)"
  using unvisited_mark [of _ "fst s"]
  by (fastforce simp: visit_neighbor_def split: option.splits prod.splits)

lemma visit_neighbors_measure:
  "2 * unvisited (fst (fold (visit_neighbor sat) nbs s)) + length (snd (fold (visit_neighbor sat) nbs s))
     \<le> 2 * unvisited (fst s) + length (snd s)"
proof (induction nbs arbitrary: s)
  case (Cons nb nbs)
  show ?case using Cons [of "visit_neighbor sat nb s"] visit_neighbor_measure [of sat nb s] by simp
qed simp

function dfs :: "(nat \<Rightarrow> nat option list) \<Rightarrow> (nat \<Rightarrow> bool) \<Rightarrow> bool list \<Rightarrow> nat list \<Rightarrow> nat list \<Rightarrow> bool list \<times> nat list" where
  "dfs nbr sat visited [] component = (visited, component)"
| "dfs nbr sat visited (current # stack) component =
     (let s = fold (visit_neighbor sat) (nbr current) (visited, stack)
      in dfs nbr sat (fst s) (snd s) (component @ [current]))"
  by pat_completeness auto
termination
proof (relation "measure (\<lambda>(_, _, visited, stack, _). 2 * unvisited visited + length stack)")
  show "((nbr, sat, fst s, snd s, component @ [current]), (nbr, sat, visited, current # stack, component))
      \<in> measure (\<lambda>(_, _, visited, stack, _). 2 * unvisited visited + length stack)"
    if "s = fold (visit_neighbor sat) (nbr current) (visited, stack)" for nbr sat visited current stack component s
    using visit_neighbors_measure [of sat "nbr current" "(visited, stack)"] that by simp
qed simp

text \<open>The loop over the seeds; each component is sorted before it is used.\<close>

fun component_loop :: "(nat \<Rightarrow> nat option list) \<Rightarrow> (nat \<Rightarrow> bool) \<Rightarrow> nat list \<Rightarrow> bool list \<Rightarrow> nat list list" where
  "component_loop nbr sat [] visited = []"
| "component_loop nbr sat (seed # seeds) visited =
     (if \<not> sat seed \<or> visited ! seed then component_loop nbr sat seeds visited
      else let (visited', component) = dfs nbr sat (visited[seed := True]) [seed] []
           in sort component # component_loop nbr sat seeds visited')"

definition components :: "(nat \<Rightarrow> nat option list) \<Rightarrow> (nat \<Rightarrow> bool) \<Rightarrow> nat \<Rightarrow> nat list list" where
  "components nbr sat n = component_loop nbr sat [0..<n] (replicate n False)"

section \<open>The interface\<close>

text \<open>Saturated steps: from \<open>i\<close> to a saturated neighbour \<open>j\<close>.\<close>

definition sat_edges :: "(nat \<Rightarrow> nat option list) \<Rightarrow> (nat \<Rightarrow> bool) \<Rightarrow> (nat \<times> nat) set" where
  "sat_edges nbr sat = {(i, j). sat i \<and> sat j \<and> Some j \<in> set (nbr i)}"

definition vset :: "bool list \<Rightarrow> nat set" where
  "vset v = {i. i < length v \<and> v ! i}"

lemma vset_mark: "i < length v \<Longrightarrow> vset (v[i := True]) = insert i (vset v)"
  by (auto simp: vset_def nth_list_update)

lemma vset_replicate [simp]: "vset (replicate n False) = {}"
  by (auto simp: vset_def)

text \<open>What one expansion pushes: the saturated, unvisited neighbours, each once.\<close>

lemma visit_neighbors:
  assumes "fold (visit_neighbor sat) nbs (visited, stack) = (visited', stack')"
  shows "\<exists>new. stack' = new @ stack \<and> distinct new \<and> length visited' = length visited \<and>
     set new = {j. Some j \<in> set nbs \<and> j < length visited \<and> sat j \<and> j \<notin> vset visited} \<and>
     vset visited' = vset visited \<union> set new"
  using assms
proof (induction nbs arbitrary: visited stack)
  case (Cons nb nbs)
  show ?case
  proof (cases "\<exists>i. nb = Some i \<and> i < length visited \<and> sat i \<and> \<not> visited ! i")
    case True
    then obtain i where i: "nb = Some i" "i < length visited" "sat i" "\<not> visited ! i" by blast
    then have "visit_neighbor sat nb (visited, stack) = (visited[i := True], i # stack)"
      by (simp add: visit_neighbor_def)
    then have "fold (visit_neighbor sat) nbs (visited[i := True], i # stack) = (visited', stack')"
      using Cons.prems by simp
    from Cons.IH [OF this] obtain new where n: "stack' = new @ i # stack" "distinct new"
      "length visited' = length visited"
      "set new = {j. Some j \<in> set nbs \<and> j < length visited \<and> sat j \<and> j \<notin> vset (visited[i := True])}"
      "vset visited' = vset (visited[i := True]) \<union> set new" by auto
    have v: "i \<notin> vset visited" "vset (visited[i := True]) = insert i (vset visited)"
      using i by (auto simp: vset_def vset_mark nth_list_update)
    show ?thesis
      by (rule exI [of _ "new @ [i]"]) (use n v i in auto)
  next
    case False
    then have "visit_neighbor sat nb (visited, stack) = (visited, stack)"
      by (auto simp: visit_neighbor_def split: option.splits)
    then have "fold (visit_neighbor sat) nbs (visited, stack) = (visited', stack')"
      using Cons.prems by simp
    from Cons.IH [OF this] False show ?thesis by (fastforce simp: vset_def)
  qed
qed simp

text \<open>
  The invariant of the search from one seed over the saturated edges \<open>E\<close>; \<open>V\<close> is what earlier
  searches visited.
\<close>

definition search_inv :: "(nat \<times> nat) set \<Rightarrow> nat set \<Rightarrow> nat \<Rightarrow> nat \<Rightarrow> bool list \<Rightarrow> nat list \<Rightarrow> nat list \<Rightarrow> bool" where
  "search_inv E V n seed visited stack component \<longleftrightarrow>
     length visited = n \<and> vset visited = V \<union> set component \<union> set stack \<and>
     distinct (component @ stack) \<and> (set component \<union> set stack) \<inter> V = {} \<and>
     (\<forall>i \<in> set component. \<forall>j. (i, j) \<in> E \<longrightarrow> j \<in> vset visited) \<and>
     set component \<union> set stack \<subseteq> E\<^sup>* `` {seed} \<and> seed \<in> set component \<union> set stack"

definition closed_under :: "(nat \<times> nat) set \<Rightarrow> nat set \<Rightarrow> bool" where
  "closed_under E V \<longleftrightarrow> (\<forall>i \<in> V. \<forall>j. (i, j) \<in> E \<longrightarrow> j \<in> V)"

lemma closed_under_reach: "closed_under E V \<Longrightarrow> (i, j) \<in> E\<^sup>* \<Longrightarrow> i \<in> V \<Longrightarrow> j \<in> V"
  by (rotate_tac 1, induction rule: rtrancl_induct) (auto simp: closed_under_def)

lemma reach_sat: "(i, j) \<in> (sat_edges nbr sat)\<^sup>* \<Longrightarrow> sat i \<Longrightarrow> sat j"
  by (induction rule: rtrancl_induct) (auto simp: sat_edges_def)

locale saturation_graph =
  fixes ready :: "'s \<Rightarrow> bool" and size_of :: "'s \<Rightarrow> nat" and nbr :: "'s \<Rightarrow> nat \<Rightarrow> nat option list"
  assumes nbr_bounded: "ready s \<Longrightarrow> i < size_of s \<Longrightarrow> Some j \<in> set (nbr s i) \<Longrightarrow> j < size_of s"
    and nbr_sym: "ready s \<Longrightarrow> i < size_of s \<Longrightarrow> Some j \<in> set (nbr s i) \<Longrightarrow> Some i \<in> set (nbr s j)"
begin

lemma reach_bounded:
  assumes "ready s" and "(i, j) \<in> (sat_edges (nbr s) sat)\<^sup>*" and "i < size_of s"
  shows "j < size_of s"
  using assms(2)
proof (induction rule: rtrancl_induct)
  case (step j k)
  then show ?case using nbr_bounded [OF assms(1)] by (auto simp: sat_edges_def)
qed (rule assms(3))

lemma reach_sym:
  assumes "ready s" and "(i, j) \<in> (sat_edges (nbr s) sat)\<^sup>*" and "i < size_of s"
  shows "(j, i) \<in> (sat_edges (nbr s) sat)\<^sup>*"
  using assms(2)
proof (induction rule: rtrancl_induct)
  case (step j k)
  have "j < size_of s" using reach_bounded [OF assms(1) step(1) assms(3)] .
  then have "(k, j) \<in> sat_edges (nbr s) sat"
    using step(2) nbr_sym [OF assms(1)] by (auto simp: sat_edges_def)
  with step(3) show ?case by (rule converse_rtrancl_into_rtrancl [rotated])
qed simp

lemma search_inv_step:
  assumes rd: "ready s" and sd: "sat seed" "seed < size_of s"
    and inv: "search_inv (sat_edges (nbr s) sat) V (size_of s) seed visited (current # stack) component"
    and f: "fold (visit_neighbor sat) (nbr s current) (visited, stack) = (visited', stack')"
  shows "search_inv (sat_edges (nbr s) sat) V (size_of s) seed visited' stack' (component @ [current])"
proof -
  let ?E = "sat_edges (nbr s) sat"
  from visit_neighbors [OF f] obtain new where n: "stack' = new @ stack" "distinct new"
    "length visited' = length visited"
    "set new = {j. Some j \<in> set (nbr s current) \<and> j < length visited \<and> sat j \<and> j \<notin> vset visited}"
    "vset visited' = vset visited \<union> set new" by blast
  have len: "length visited = size_of s" and vs: "vset visited = V \<union> set component \<union> set (current # stack)"
    and d: "distinct (component @ current # stack)"
    and vd: "(set component \<union> set (current # stack)) \<inter> V = {}"
    and cl: "\<forall>i \<in> set component. \<forall>j. (i, j) \<in> ?E \<longrightarrow> j \<in> vset visited"
    and reach: "set component \<union> set (current # stack) \<subseteq> ?E\<^sup>* `` {seed}"
    and seed: "seed \<in> set component \<union> set (current # stack)"
    using inv unfolding search_inv_def by blast+
  from reach have cur: "(seed, current) \<in> ?E\<^sup>*" by auto
  have cs: "sat current" "current < size_of s"
    using reach_sat [where sat = sat, OF cur sd(1)] reach_bounded [OF rd cur sd(2)] by simp_all
  have edge: "(current, j) \<in> ?E \<longleftrightarrow> Some j \<in> set (nbr s current) \<and> sat j \<and> j < length visited" for j
    using cs nbr_bounded [OF rd cs(2)] by (auto simp: sat_edges_def len)
  have new: "set new = {j. (current, j) \<in> ?E \<and> j \<notin> vset visited}" using n(4) by (auto simp: edge)
  then have "set new \<subseteq> ?E\<^sup>* `` {seed}" using cur by (auto intro: rtrancl_into_rtrancl)
  moreover have "set new \<inter> vset visited = {}" using new by blast
  moreover have "\<forall>j. (current, j) \<in> ?E \<longrightarrow> j \<in> vset visited'" using new n(5) by blast
  ultimately show ?thesis
    unfolding search_inv_def using n(1,2,3,5) len vs d vd cl reach seed by auto
qed

lemma dfs_component:
  assumes rd: "ready s" and sd: "sat seed" "seed < size_of s"
  shows "search_inv (sat_edges (nbr s) sat) V (size_of s) seed visited stack component \<Longrightarrow>
    \<exists>visited' component'. dfs (nbr s) sat visited stack component = (visited', component') \<and>
      search_inv (sat_edges (nbr s) sat) V (size_of s) seed visited' [] component'"
  using sd
proof (induction "nbr s" sat visited stack component rule: dfs.induct)
  case (2 sat visited current stack component)
  obtain v' s' where f: "fold (visit_neighbor sat) (nbr s current) (visited, stack) = (v', s')" by fastforce
  have "search_inv (sat_edges (nbr s) sat) V (size_of s) seed v' s' (component @ [current])"
    by (rule search_inv_step [OF rd "2.prems"(2,3,1) f])
  with 2 f show ?case by simp
qed simp

lemma search_inv_final:
  assumes inv: "search_inv E V n seed visited [] component"
    and closed: "closed_under E V"
    and apart: "E\<^sup>* `` {seed} \<inter> V = {}"
  shows "set component = E\<^sup>* `` {seed}" "distinct component" "vset visited = V \<union> set component"
    "length visited = n"
proof -
  have "j \<in> set component \<union> V" if "(seed, j) \<in> E\<^sup>*" for j
    using that
  proof (induction rule: rtrancl_induct)
    case base
    then show ?case using inv by (simp add: search_inv_def)
  next
    case (step j k)
    then show ?case using inv closed by (auto simp: search_inv_def closed_under_def)
  qed
  then show "set component = E\<^sup>* `` {seed}" using inv apart by (auto simp: search_inv_def)
  show "distinct component" "vset visited = V \<union> set component" "length visited = n"
    using inv by (simp_all add: search_inv_def)
qed

lemma closed_apart:
  assumes rd: "ready s" and sd: "seed < size_of s" "seed \<notin> V" and cl: "closed_under (sat_edges (nbr s) sat) V"
  shows "(sat_edges (nbr s) sat)\<^sup>* `` {seed} \<inter> V = {}"
proof -
  have "x \<notin> V" if x: "(seed, x) \<in> (sat_edges (nbr s) sat)\<^sup>*" for x
    using closed_under_reach [OF cl reach_sym [OF rd x sd(1)]] sd(2) by blast
  then show ?thesis by auto
qed

text \<open>One seed: the search returns the component of the seed and marks exactly it.\<close>

lemma dfs_seed:
  assumes rd: "ready s" and sd: "sat seed" "seed < size_of s" "seed \<notin> vset visited"
    and len: "length visited = size_of s"
    and closed: "closed_under (sat_edges (nbr s) sat) (vset visited)"
  obtains visited' component where
    "dfs (nbr s) sat (visited[seed := True]) [seed] [] = (visited', component)"
    "set component = (sat_edges (nbr s) sat)\<^sup>* `` {seed}" "distinct component"
    "vset visited' = vset visited \<union> set component" "length visited' = size_of s"
proof -
  let ?E = "sat_edges (nbr s) sat" and ?V = "vset visited"
  have "search_inv ?E ?V (size_of s) seed (visited[seed := True]) [seed] []"
    using sd len by (auto simp: search_inv_def vset_mark)
  from dfs_component [OF rd sd(1,2) this] obtain v' c' where
    r: "dfs (nbr s) sat (visited[seed := True]) [seed] [] = (v', c')"
       "search_inv ?E ?V (size_of s) seed v' [] c'" by blast
  have apart: "?E\<^sup>* `` {seed} \<inter> ?V = {}" using closed_apart [OF rd sd(2,3) closed] .
  show ?thesis using r(1) search_inv_final [OF r(2) closed apart] by (rule that)
qed

lemma component_loop_classes:
  assumes rd: "ready s"
  shows "length visited = size_of s \<Longrightarrow> \<forall>x \<in> set seeds. x < size_of s \<Longrightarrow>
    closed_under (sat_edges (nbr s) sat) (vset visited) \<Longrightarrow>
    (\<forall>c \<in> set (component_loop (nbr s) sat seeds visited). sorted_wrt (<) c \<and>
       (\<exists>x \<in> set seeds. sat x \<and> set c = (sat_edges (nbr s) sat)\<^sup>* `` {x}) \<and> set c \<inter> vset visited = {}) \<and>
    (\<forall>x \<in> set seeds. sat x \<longrightarrow> x \<in> vset visited \<union> \<Union> (set ` set (component_loop (nbr s) sat seeds visited))) \<and>
    distinct (concat (component_loop (nbr s) sat seeds visited))"
proof (induction seeds arbitrary: visited)
  case (Cons seed seeds)
  let ?E = "sat_edges (nbr s) sat"
  show ?case
  proof (cases "\<not> sat seed \<or> visited ! seed")
    case True
    have "seed \<in> vset visited" if "sat seed" using True that Cons.prems(1,2) by (auto simp: vset_def)
    then show ?thesis using True Cons.IH [of visited] Cons.prems by auto
  next
    case False
    then have sd: "sat seed" "seed < size_of s" "seed \<notin> vset visited"
      using Cons.prems(1,2) by (auto simp: vset_def)
    obtain v' c where r: "dfs (nbr s) sat (visited[seed := True]) [seed] [] = (v', c)"
      "set c = ?E\<^sup>* `` {seed}" "distinct c" "vset v' = vset visited \<union> set c" "length v' = size_of s"
      by (rule dfs_seed [OF rd sd Cons.prems(1,3)])
    have cl: "closed_under ?E (vset v')"
      using r(2,4) Cons.prems(3) by (auto simp: closed_under_def intro: rtrancl_into_rtrancl)
    note IH = Cons.IH [OF r(5) _ cl]
    have cv: "set c \<inter> vset visited = {}"
      using closed_apart [OF rd sd(2,3) Cons.prems(3)] r(2) by simp
    have "sorted_wrt (<) (sort c)" using r(3) by (simp add: strict_sorted_iff)
    then show ?thesis using False r IH Cons.prems(2) cv sd(1) by auto
  qed
qed simp

lemma components_partition:
  assumes rd: "ready s" and cs: "cs = components (nbr s) sat (size_of s)"
  shows "\<Union> (set ` set cs) = {i. i < size_of s \<and> sat i}" (is ?union)
    and "distinct (concat cs)"
    and "c \<in> set cs \<Longrightarrow> sorted_wrt (<) c \<and> c \<noteq> []"
    and "c \<in> set cs \<Longrightarrow> i \<in> set c \<Longrightarrow> set c = (sat_edges (nbr s) sat)\<^sup>* `` {i}"
proof -
  let ?E = "sat_edges (nbr s) sat"
  have all: "(\<forall>c \<in> set cs. sorted_wrt (<) c \<and> (\<exists>x. x < size_of s \<and> sat x \<and> set c = ?E\<^sup>* `` {x})) \<and>
     (\<forall>x < size_of s. sat x \<longrightarrow> x \<in> \<Union> (set ` set cs)) \<and> distinct (concat cs)"
    using component_loop_classes [OF rd, of "replicate (size_of s) False" "[0..<size_of s]" sat]
    by (simp add: cs components_def closed_under_def atLeast0LessThan Bex_def)
  show "distinct (concat cs)" using all by blast
  show "sorted_wrt (<) c \<and> c \<noteq> []" if "c \<in> set cs" using all that by fastforce
  show ?union
  proof -
    have "i < size_of s \<and> sat i" if "c \<in> set cs" "i \<in> set c" for c i
    proof -
      from all that obtain x where "x < size_of s" "sat x" "(x, i) \<in> ?E\<^sup>*" by auto
      then show ?thesis using reach_bounded [OF rd] reach_sat by blast
    qed
    then show ?thesis using all by auto
  qed
  show "set c = ?E\<^sup>* `` {i}" if "c \<in> set cs" "i \<in> set c"
  proof -
    from all that obtain x where x: "x < size_of s" "set c = ?E\<^sup>* `` {x}" by auto
    then have "(x, i) \<in> ?E\<^sup>*" using that by auto
    moreover from this have "(i, x) \<in> ?E\<^sup>*" using reach_sym [OF rd _ x(1)] by blast
    ultimately show ?thesis unfolding x(2) by (auto intro: rtrancl_trans)
  qed
qed

end

section \<open>The topology provides the interface\<close>

lemma index_of_resource_Some_iff:
  assumes "topology_wf t"
  shows "index_of_resource t i = Some k \<longleftrightarrow> k < length (tp_resources t) \<and> rs_id (tp_resources t ! k) = i"
proof
  assume "index_of_resource t i = Some k"
  then show "k < length (tp_resources t) \<and> rs_id (tp_resources t ! k) = i"
    using lower_bound_le [of rs_id "tp_resources t" i]
    by (auto simp: index_of_resource_def Let_def split: if_splits)
next
  assume k: "k < length (tp_resources t) \<and> rs_id (tp_resources t ! k) = i"
  have "strictly_sorted_by rs_id (tp_resources t)" using assms by (simp add: topology_wf_def resources_wf_def)
  then have "lower_bound rs_id (tp_resources t) i = k" using lower_bound_nth k by blast
  with k show "index_of_resource t i = Some k" by (auto simp: index_of_resource_def)
qed

lemma neighbor_indices_iff:
  assumes wf: "topology_wf t"
  shows "Some j \<in> set (neighbor_indices t i) \<longleftrightarrow>
     j < length (tp_resources t) \<and> rs_id (tp_resources t ! j) \<in> set (neighbors t (rs_id (tp_resources t ! i)))"
proof -
  have "Some j \<in> set (neighbor_indices t i) \<longleftrightarrow>
      (\<exists>x \<in> set (neighbors t (rs_id (tp_resources t ! i))). index_of_resource t x = Some j)"
    by (force simp: neighbor_indices_def image_iff)
  then show ?thesis by (auto simp: index_of_resource_Some_iff [OF wf])
qed

interpretation topology_graph: saturation_graph topology_wf "\<lambda>t. length (tp_resources t)" neighbor_indices
proof
  show "j < length (tp_resources t)"
    if "topology_wf t" "Some j \<in> set (neighbor_indices t i)" for t :: TopologySnapshot and i j
    using that by (simp add: neighbor_indices_iff)
  show "Some i \<in> set (neighbor_indices t j)"
    if "topology_wf t" "i < length (tp_resources t)" "Some j \<in> set (neighbor_indices t i)" for t :: TopologySnapshot and i j
    using that neighbors_sym [of t] by (simp add: neighbor_indices_iff)
qed

end
