(* ===== verification/HGM_Detection.thy ===== *)
theory HGM_Detection
  imports HGM_Saturation HGM_Components
begin

text \<open>
  \<open>detect\<close> of \<^verbatim>\<open>src/detection.cpp\<close>: the evidence gates, the coverage floors, one hotspot per
  connected component of the saturated resources, the fabric verdict and escalation. The
  assessment is threaded through the stages as the source mutates \<open>result\<close>; the tracker is
  returned beside it. Text that only operators read (reasons, diagnostic details, authority
  bindings) is not part of the model; diagnostics are their codes.
\<close>

section \<open>Data\<close>

record Contributor =
  co_flow :: FlowId
  co_path :: PathId
  co_demand :: u64
  co_share :: u32
  co_fresh :: bool
  co_observed_at :: Millis

datatype (plugins only: code) RemediationState = Rem_Unknown | Rem_Eligible | Rem_Suppressed | Rem_NotApplicable

record Hotspot =
  hs_id :: HotspotId
  hs_key :: string
  hs_scope :: CongestionScope
  hs_cause :: SaturationCause
  hs_severity :: Severity
  hs_resources :: "ResourceId list"
  hs_saturated_count :: nat
  hs_saturated_truncated :: bool
  hs_healthy :: "ResourceId list"
  hs_healthy_count :: nat
  hs_healthy_truncated :: bool
  hs_regions :: "RegionId list"
  hs_contributors :: "Contributor list"
  hs_contributor_count :: nat
  hs_contributors_truncated :: bool
  hs_capacity :: u64
  hs_share :: u32
  hs_peak_pressure :: u32
  hs_peak_utilization :: u32
  hs_peak_queue :: u32
  hs_peak_buffer :: u32
  hs_attribution_confidence :: u32
  hs_attributed :: u64
  hs_unattributed :: u64
  hs_persistence_ms :: Millis
  hs_sample_count :: u32
  hs_first_observed :: Millis
  hs_last_observed :: Millis
  hs_persistent :: bool
  hs_remediation :: RemediationState
  hs_binding :: EvidenceBinding
  hs_authority :: AuthorityVector

record FabricAssessment =
  fa_scope :: CongestionScope
  fa_hotspots :: "Hotspot list"
  fa_candidates :: "Hotspot list"
  fa_pressures :: "ResourcePressure list"
  fa_diagnostics :: "ErrorCode list"
  fa_authority :: AuthorityVector
  fa_binding :: EvidenceBinding
  fa_fabric_capacity :: u64
  fa_covered_capacity :: u64
  fa_admissible_capacity :: u64
  fa_saturated_capacity :: u64
  fa_coverage :: u32
  fa_admissible_coverage :: u32
  fa_capacity_coverage :: u32
  fa_global_share :: u32
  fa_resource_count :: nat
  fa_observed_count :: nat
  fa_admissible_count :: nat
  fa_saturated_count :: nat
  fa_contradictory_count :: nat
  fa_stale_count :: nat
  fa_unknown_capacity_count :: nat
  fa_localization_proven :: bool
  fa_escalation_required :: bool

definition find_hotspot :: "FabricAssessment \<Rightarrow> HotspotId \<Rightarrow> Hotspot option" where
  "find_hotspot a i = find (\<lambda>h. hs_id h = i) (fa_hotspots a)"

definition empty_assessment :: FabricAssessment where
  "empty_assessment = \<lparr>fa_scope = Scope_Unknown, fa_hotspots = [], fa_candidates = [], fa_pressures = [],
     fa_diagnostics = [], fa_authority = [], fa_binding = no_binding, fa_fabric_capacity = 0,
     fa_covered_capacity = 0, fa_admissible_capacity = 0, fa_saturated_capacity = 0, fa_coverage = 0,
     fa_admissible_coverage = 0, fa_capacity_coverage = 0, fa_global_share = 0, fa_resource_count = 0,
     fa_observed_count = 0, fa_admissible_count = 0, fa_saturated_count = 0, fa_contradictory_count = 0,
     fa_stale_count = 0, fa_unknown_capacity_count = 0, fa_localization_proven = False,
     fa_escalation_required = False\<rparr>"

text \<open>A null pointer of the input is None.\<close>

record DecisionInput =
  di_topology :: "TopologySnapshot option"
  di_capacity :: "CapacitySnapshot option"
  di_signals :: "SignalSnapshot option"
  di_paths :: "PathSnapshot option"
  di_traffic :: "TrafficSnapshot option"
  di_policy :: "PolicySnapshot option"
  di_now :: Millis
  di_epoch :: CoordinatorEpoch
  di_boot :: BootId
  di_tracker :: "SaturationTracker option"
  di_preverified :: bool

section \<open>Gates\<close>

definition r_grant :: "AuthorityDomain \<Rightarrow> FabricAssessment \<Rightarrow> FabricAssessment" where
  "r_grant d r = r\<lparr>fa_authority := auth_grant d (fa_authority r)\<rparr>"

definition r_deny :: "AuthorityDomain \<Rightarrow> FabricAssessment \<Rightarrow> FabricAssessment" where
  "r_deny d r = r\<lparr>fa_authority := auth_deny d (fa_authority r)\<rparr>"

definition diagnose :: "ErrorCode \<Rightarrow> FabricAssessment \<Rightarrow> FabricAssessment" where
  "diagnose code r =
     (if length (fa_diagnostics r) < kMaxDiagnostics then r\<lparr>fa_diagnostics := fa_diagnostics r @ [code]\<rparr> else r)"

definition refuse :: "AuthorityDomain \<Rightarrow> ErrorCode \<Rightarrow> FabricAssessment \<Rightarrow> FabricAssessment" where
  "refuse d code r = diagnose code (r_deny d r)"

text \<open>\<open>reject\<close>: the verdict, the emptied tracker and the sealed authority.\<close>

definition reject ::
    "DecisionInput \<Rightarrow> CongestionScope \<Rightarrow> FabricAssessment \<Rightarrow> FabricAssessment \<times> SaturationTracker option" where
  "reject inp scope r =
     (r\<lparr>fa_scope := scope, fa_localization_proven := False, fa_authority := seal (fa_authority r)\<rparr>,
      map_option (\<lambda>_. tracker_replace []) (di_tracker inp))"

definition input_binding :: "DecisionInput \<Rightarrow> EvidenceBinding" where
  "input_binding inp =
     \<lparr>eb_topology = (case di_topology inp of None \<Rightarrow> 0 | Some t \<Rightarrow> tp_id t),
      eb_topology_generation = (case di_topology inp of None \<Rightarrow> 0 | Some t \<Rightarrow> tp_generation t),
      eb_capacity = (case di_capacity inp of None \<Rightarrow> 0 | Some c \<Rightarrow> cs_id c),
      eb_capacity_generation = (case di_capacity inp of None \<Rightarrow> 0 | Some c \<Rightarrow> cs_generation c),
      eb_signals = (case di_signals inp of None \<Rightarrow> 0 | Some s \<Rightarrow> ss_id s),
      eb_signals_generation = (case di_signals inp of None \<Rightarrow> 0 | Some s \<Rightarrow> ss_generation s),
      eb_paths = (case di_paths inp of None \<Rightarrow> 0 | Some p \<Rightarrow> ps_id p),
      eb_path_generation = (case di_paths inp of None \<Rightarrow> 0 | Some p \<Rightarrow> ps_generation p),
      eb_traffic = (case di_traffic inp of None \<Rightarrow> 0 | Some t \<Rightarrow> ts_id t),
      eb_traffic_generation = (case di_traffic inp of None \<Rightarrow> 0 | Some t \<Rightarrow> ts_generation t),
      eb_policy = (case di_policy inp of None \<Rightarrow> 0 | Some p \<Rightarrow> po_id p),
      eb_policy_generation = (case di_policy inp of None \<Rightarrow> 0 | Some p \<Rightarrow> po_generation p)\<rparr>"

text \<open>\<open>generation_binding\<close>\<close>

definition generation_binding :: "DecisionInput \<Rightarrow> string" where
  "generation_binding inp =
     (let b = input_binding inp; num = (\<lambda>g. decimal (unat (g :: u64)))
      in ''t'' @ num (eb_topology_generation b) @ ''/c'' @ num (eb_capacity_generation b)
         @ ''/s'' @ num (eb_signals_generation b) @ ''/p'' @ num (eb_path_generation b)
         @ ''/r'' @ num (eb_traffic_generation b) @ ''/y'' @ num (eb_policy_generation b))"

definition coordinator_gate :: "DecisionInput \<Rightarrow> FabricAssessment \<Rightarrow> FabricAssessment" where
  "coordinator_gate inp r =
     (let r1 = (if valid_id (di_epoch inp) then r_grant AD_CoordinatorEpoch r else r_deny AD_CoordinatorEpoch r)
      in if valid_id (di_boot inp) then r_grant AD_BootIncarnation r1 else r_deny AD_BootIncarnation r1)"

definition input_thresholds :: "DecisionInput \<Rightarrow> Thresholds" where
  "input_thresholds inp = (case di_policy inp of None \<Rightarrow> default_thresholds | Some p \<Rightarrow> po_thresholds p)"

definition input_budget :: "DecisionInput \<Rightarrow> MitigationBudget" where
  "input_budget inp = (case di_policy inp of None \<Rightarrow> default_budget | Some p \<Rightarrow> po_budget p)"

definition input_bands :: "DecisionInput \<Rightarrow> SeverityBands" where
  "input_bands inp = (case di_policy inp of None \<Rightarrow> default_bands | Some p \<Rightarrow> po_bands p)"

definition policy_live :: "DecisionInput \<Rightarrow> bool" where
  "policy_live inp = (case di_policy inp of None \<Rightarrow> False | Some p \<Rightarrow> \<not> expired_at p (di_now inp))"

definition policy_gate :: "DecisionInput \<Rightarrow> FabricAssessment \<Rightarrow> FabricAssessment" where
  "policy_gate inp r =
     (case di_policy inp of
        None \<Rightarrow> refuse AD_Policy PolicyMissing r
      | Some p \<Rightarrow> if expired_at p (di_now inp) then refuse AD_Policy PolicyExpired r else r_grant AD_Policy r)"

text \<open>Each evidence gate yields the snapshot when it is admitted.\<close>

definition topology_gate :: "DecisionInput \<Rightarrow> FabricAssessment \<Rightarrow> TopologySnapshot option \<times> FabricAssessment" where
  "topology_gate inp r =
     (case di_topology inp of
        None \<Rightarrow> (None, refuse AD_Topology MissingEvidence r)
      | Some t \<Rightarrow>
          if \<not> tp_built t then (None, refuse AD_Topology MissingEvidence r)
          else if \<not> fresh_at t (di_now inp) then (None, refuse AD_Topology StaleTopology r)
          else (Some t, r_grant AD_Topology r))"

definition capacity_gate ::
    "DecisionInput \<Rightarrow> TopologySnapshot \<Rightarrow> FabricAssessment \<Rightarrow> CapacitySnapshot option \<times> FabricAssessment" where
  "capacity_gate inp t r =
     (case di_capacity inp of
        None \<Rightarrow> (None, refuse AD_Capacity MissingEvidence r)
      | Some c \<Rightarrow>
          if \<not> cs_built c then (None, refuse AD_Capacity MissingEvidence r)
          else if cs_topology_generation c \<noteq> tp_generation t
               then (None, refuse AD_Capacity CapacityGenerationMismatch r)
          else if age_ms (cs_observed_at c) (di_now inp) > uint (th_max_capacity_age_ms (input_thresholds inp))
               then (None, refuse AD_Capacity StaleEvidence r)
          else (Some c, r_grant AD_Capacity r))"

definition signals_gate ::
    "DecisionInput \<Rightarrow> TopologySnapshot \<Rightarrow> CapacitySnapshot option \<Rightarrow> FabricAssessment
       \<Rightarrow> SignalSnapshot option \<times> FabricAssessment" where
  "signals_gate inp t cap r =
     (case cap of
        None \<Rightarrow> (None, r_deny AD_Signals r)
      | Some c \<Rightarrow>
          (case di_signals inp of
             None \<Rightarrow> (None, refuse AD_Signals MissingEvidence r)
           | Some s \<Rightarrow>
               if \<not> ss_built s then (None, refuse AD_Signals MissingEvidence r)
               else if ss_topology_generation s \<noteq> tp_generation t
                    then (None, refuse AD_Signals TopologyGenerationMismatch r)
               else if ss_capacity_generation s \<noteq> cs_generation c
                    then (None, refuse AD_Signals CapacityGenerationMismatch r)
               else (Some s, r_grant AD_Signals r)))"

definition paths_gate ::
    "DecisionInput \<Rightarrow> TopologySnapshot \<Rightarrow> FabricAssessment \<Rightarrow> PathSnapshot option \<times> FabricAssessment" where
  "paths_gate inp t r =
     (case di_paths inp of
        None \<Rightarrow> (None, refuse AD_Paths MissingEvidence r)
      | Some p \<Rightarrow>
          if \<not> ps_built p then (None, refuse AD_Paths MissingEvidence r)
          else if ps_topology_generation p \<noteq> tp_generation t
               then (None, refuse AD_Paths PathGenerationMismatch r)
          else if age_ms (ps_observed_at p) (di_now inp) > uint (th_max_path_age_ms (input_thresholds inp))
               then (None, refuse AD_Paths StaleEvidence r)
          else (Some p, r_grant AD_Paths r))"

definition traffic_gate ::
    "DecisionInput \<Rightarrow> PathSnapshot option \<Rightarrow> FabricAssessment \<Rightarrow> TrafficSnapshot option \<times> FabricAssessment" where
  "traffic_gate inp paths r =
     (case paths of
        None \<Rightarrow> (None, r_deny AD_Traffic r)
      | Some p \<Rightarrow>
          (case di_traffic inp of
             None \<Rightarrow> (None, refuse AD_Traffic MissingEvidence r)
           | Some tr \<Rightarrow>
               if \<not> ts_built tr then (None, refuse AD_Traffic MissingEvidence r)
               else if ts_path_generation tr \<noteq> ps_generation p
                    then (None, refuse AD_Traffic TrafficGenerationMismatch r)
               else (Some tr, r_grant AD_Traffic r)))"

section \<open>One hotspot\<close>

text \<open>The inputs every hotspot of one evaluation shares.\<close>

record Context =
  cx_topology :: TopologySnapshot
  cx_capacity :: CapacitySnapshot
  cx_paths :: "PathSnapshot option"
  cx_traffic :: "TrafficSnapshot option"
  cx_thresholds :: Thresholds
  cx_budget :: MitigationBudget
  cx_bands :: SeverityBands
  cx_policy_live :: bool
  cx_now :: Millis
  cx_tracker :: "SaturationTracker option"
  cx_scan :: Scan
  cx_bindings :: string
  cx_binding :: EvidenceBinding

definition cx_resource :: "Context \<Rightarrow> nat \<Rightarrow> Resource" where
  "cx_resource cx i = tp_resources (cx_topology cx) ! i"

definition cx_cell :: "Context \<Rightarrow> nat \<Rightarrow> Cell" where
  "cx_cell cx i = sc_cells (cx_scan cx) ! i"

definition take_capped :: "nat \<Rightarrow> 'a list \<Rightarrow> 'a list \<times> bool" where
  "take_capped limit xs = (take limit xs, length xs > limit)"

subsection \<open>Capacity, peaks and history\<close>

text \<open>The history entry a saturated resource gets in this evaluation.\<close>

definition entry_state :: "SaturationTracker option \<Rightarrow> Millis \<Rightarrow> ResourceId \<Rightarrow> Entry" where
  "entry_state tracker now i =
     (case tracker of
        None \<Rightarrow> \<lparr>en_first = now, en_last = now, en_samples = 1\<rparr>
      | Some tr \<Rightarrow>
          let previous = carry tr i
          in if en_samples previous = 0 then \<lparr>en_first = now, en_last = now, en_samples = 1\<rparr>
             else \<lparr>en_first = en_first previous, en_last = now,
                   en_samples = (if en_samples previous = - 1 then - 1 else en_samples previous + 1)\<rparr>)"

definition component_capacity :: "Context \<Rightarrow> nat list \<Rightarrow> u64" where
  "component_capacity cx component =
     fold (\<lambda>i total. case find_capacity (cx_capacity cx) (rs_id (cx_resource cx i)) of
             None \<Rightarrow> total | Some e \<Rightarrow> sat_add total (cap_units e)) component 0"

definition peak :: "(Cell \<Rightarrow> u32) \<Rightarrow> Context \<Rightarrow> nat list \<Rightarrow> u32" where
  "peak field cx component = fold (\<lambda>i m. max m (field (cx_cell cx i))) component 0"

definition component_history :: "Context \<Rightarrow> nat list \<Rightarrow> (ResourceId \<times> Entry) list" where
  "component_history cx component =
     map (\<lambda>i. (rs_id (cx_resource cx i), entry_state (cx_tracker cx) (cx_now cx) (rs_id (cx_resource cx i)))) component"

text \<open>\<open>latest_first\<close> and \<open>min_samples\<close>; \<open>have_history\<close> is that the accumulator is present.\<close>

definition history_bounds :: "(ResourceId \<times> Entry) list \<Rightarrow> Millis \<times> u32" where
  "history_bounds history =
     (case fold (\<lambda>(_, e) acc. case acc of
                   None \<Rightarrow> Some (en_first e, en_samples e)
                 | Some (latest, least) \<Rightarrow>
                     Some (if en_first e > latest then en_first e else latest,
                           if en_samples e < least then en_samples e else least)) history None of
        None \<Rightarrow> (kNoTime, 0)
      | Some b \<Rightarrow> b)"

subsection \<open>Neighbours, regions and classification\<close>

definition healthy_neighbors :: "Context \<Rightarrow> nat list \<Rightarrow> ResourceId list" where
  "healthy_neighbors cx component =
     sorted_unique (concat (map (\<lambda>i.
       filter (\<lambda>nb. case index_of_resource (cx_topology cx) nb of
                 None \<Rightarrow> False
               | Some k \<Rightarrow> cl_admissible (cx_cell cx k) \<and> \<not> cl_saturated (cx_cell cx k))
         (neighbors (cx_topology cx) (rs_id (cx_resource cx i)))) component))"

definition component_regions :: "Context \<Rightarrow> nat list \<Rightarrow> RegionId list" where
  "component_regions cx component =
     sorted_unique (take kMaxRegions (map (\<lambda>i. rs_region (cx_resource cx i)) component))"

definition classify_scope :: "Thresholds \<Rightarrow> Scan \<Rightarrow> u32 \<Rightarrow> nat \<Rightarrow> nat \<Rightarrow> CongestionScope" where
  "classify_scope th sc share regions healthy =
     (if share \<ge> th_global_share_ppm th then Scope_Global
      else if regions > unat (th_max_regional_regions th) then Scope_Global
      else if sc_admissible_count sc \<noteq> 0 \<and> sc_saturated_count sc = sc_admissible_count sc then Scope_Global
      else if regions > unat (th_max_local_regions th) then Scope_Regional
      else if healthy = 0 then Scope_Unknown
      else Scope_Localized)"

definition classify_cause :: "Thresholds \<Rightarrow> u32 \<Rightarrow> u32 \<Rightarrow> u32 \<Rightarrow> SaturationCause" where
  "classify_cause th utilization queue buffer =
     (if (ucast utilization :: u64) \<ge> kPpmScale then Cause_CapacityExhaustion
      else if queue \<ge> th_queue_pressure_ppm th then Cause_QueueBuildup
      else if buffer \<ge> th_buffer_pressure_ppm th then Cause_BufferExhaustion
      else Cause_Unknown)"

subsection \<open>Attribution\<close>

record Accumulator =
  ac_flow :: FlowId
  ac_path :: PathId
  ac_fresh :: u64
  ac_stale :: u64
  ac_best :: u64
  ac_observed_at :: Millis

record Attribution =
  at_accumulators :: "Accumulator list"
  at_fresh :: u64
  at_stale :: u64
  at_fresh_paths :: u32
  at_incomplete :: bool

definition no_attribution :: Attribution where
  "no_attribution = \<lparr>at_accumulators = [], at_fresh = 0, at_stale = 0, at_fresh_paths = 0, at_incomplete = False\<rparr>"

definition traffic_fresh :: "Thresholds \<Rightarrow> Millis \<Rightarrow> TrafficRecord \<Rightarrow> bool" where
  "traffic_fresh th now r \<longleftrightarrow>
     age_ms (tr_observed_at r) now \<le> uint (th_max_traffic_age_ms th) \<and> quality_ok (tr_quality r)"

text \<open>
  \<open>accumulator_index\<close> maps a flow to its slot; the slots are in the order of first occurrence and
  hold one flow each, so the slot is the first accumulator of that flow.
\<close>

fun update_slot :: "FlowId \<Rightarrow> (Accumulator \<Rightarrow> Accumulator) \<Rightarrow> Accumulator list \<Rightarrow> Accumulator list option" where
  "update_slot flow f [] = None"
| "update_slot flow f (a # as) =
     (if ac_flow a = flow then Some (f a # as) else map_option (\<lambda>as'. a # as') (update_slot flow f as))"

definition accumulate :: "bool \<Rightarrow> PathId \<Rightarrow> TrafficRecord \<Rightarrow> Accumulator \<Rightarrow> Accumulator" where
  "accumulate fresh path r a =
     (if fresh then
        let a1 = a\<lparr>ac_fresh := sat_add (ac_fresh a) (tr_demand r),
                   ac_observed_at := max (ac_observed_at a) (tr_observed_at r)\<rparr>
        in if tr_demand r > ac_best a then a1\<lparr>ac_best := tr_demand r, ac_path := path\<rparr> else a1
      else a\<lparr>ac_stale := sat_add (ac_stale a) (tr_demand r)\<rparr>)"

definition attribute_record :: "Thresholds \<Rightarrow> Millis \<Rightarrow> PathId \<Rightarrow> TrafficRecord \<Rightarrow> Attribution \<Rightarrow> Attribution" where
  "attribute_record th now path r at =
     (let fresh = traffic_fresh th now r;
          blank = \<lparr>ac_flow = tr_flow r, ac_path = path, ac_fresh = 0, ac_stale = 0, ac_best = 0, ac_observed_at = kNoTime\<rparr>;
          count = (\<lambda>at. if fresh
                    then at\<lparr>at_fresh := sat_add (at_fresh at) (tr_demand r), at_fresh_paths := at_fresh_paths at + 1\<rparr>
                    else at\<lparr>at_stale := sat_add (at_stale at) (tr_demand r)\<rparr>)
      in case update_slot (tr_flow r) (accumulate fresh path r) (at_accumulators at) of
           Some as \<Rightarrow> count (at\<lparr>at_accumulators := as\<rparr>)
         | None \<Rightarrow>
             if length (at_accumulators at) \<ge> kMaxContributorAccumulators then at\<lparr>at_incomplete := True\<rparr>
             else count (at\<lparr>at_accumulators := at_accumulators at @ [accumulate fresh path r blank]\<rparr>))"

text \<open>The traffic of one path: from the lower bound while the path matches.\<close>

definition path_traffic :: "TrafficSnapshot \<Rightarrow> PathId \<Rightarrow> TrafficRecord list" where
  "path_traffic tr path =
     takeWhile (\<lambda>r. tr_path r = path) (drop (lower_bound tr_path (ts_records tr) path) (ts_records tr))"

definition component_traffic :: "Context \<Rightarrow> PathSnapshot \<Rightarrow> TrafficSnapshot \<Rightarrow> nat list \<Rightarrow> (PathId \<times> TrafficRecord) list" where
  "component_traffic cx paths traffic component =
     concat (map (\<lambda>i. concat (map (\<lambda>p. let path = pr_id (ps_paths paths ! p)
                                      in map (Pair path) (path_traffic traffic path))
                                (paths_through paths (rs_id (cx_resource cx i))))) component)"

definition attribute_component :: "Context \<Rightarrow> nat list \<Rightarrow> Attribution" where
  "attribute_component cx component =
     (case (cx_paths cx, cx_traffic cx) of
        (Some paths, Some traffic) \<Rightarrow>
          fold (\<lambda>(path, r). attribute_record (cx_thresholds cx) (cx_now cx) path r)
            (component_traffic cx paths traffic component) no_attribution
      | _ \<Rightarrow> no_attribution)"

definition contributors_of :: "Attribution \<Rightarrow> Contributor list" where
  "contributors_of at =
     map (\<lambda>a. \<lparr>co_flow = ac_flow a, co_path = ac_path a, co_demand = ac_fresh a,
               co_share = ratio_or0 (ac_fresh a) (at_fresh at), co_fresh = True,
               co_observed_at = ac_observed_at a\<rparr>)
       (filter (\<lambda>a. ac_fresh a \<noteq> 0)
         (sort_key (\<lambda>a. (- 1 - ac_fresh a, ac_flow a, ac_path a)) (at_accumulators at)))"

definition attribution_confidence :: "Attribution \<Rightarrow> u32" where
  "attribution_confidence at =
     (let total = sat_add (at_fresh at) (at_stale at)
      in if at_incomplete at then 0 else if total = 0 then 0 else ratio_or0 (at_fresh at) total)"

subsection \<open>Persistence, severity, remediation, identity\<close>

definition is_persistent :: "Thresholds \<Rightarrow> bool \<Rightarrow> u32 \<Rightarrow> Millis \<Rightarrow> bool" where
  "is_persistent th tracked samples ms \<longleftrightarrow>
     tracked \<and> samples \<ge> th_min_persistence_samples th \<and> ms \<ge> uint (th_persistence_window_ms th)"

definition hotspot_severity :: "SeverityBands \<Rightarrow> Thresholds \<Rightarrow> u32 \<Rightarrow> bool \<Rightarrow> Millis \<Rightarrow> Severity" where
  "hotspot_severity bands th peak_pressure persistent ms =
     (let severity = classify bands peak_pressure
      in if persistent \<and> ms \<ge> uint (th_persistence_window_ms th) * 4 \<and> sev_code severity < sev_code Sev_Critical
         then sev_of (sev_code severity + 1) else severity)"

definition remediation_of :: "bool \<Rightarrow> bool \<Rightarrow> CongestionScope \<Rightarrow> u32 \<Rightarrow> MitigationBudget \<Rightarrow> RemediationState" where
  "remediation_of live persistent scope share budget =
     (if \<not> live then Rem_Suppressed
      else if \<not> persistent then Rem_NotApplicable
      else if scope = Scope_Unknown then Rem_Suppressed
      else if scope = Scope_Global then Rem_Suppressed
      else if scope = Scope_Regional \<and> share > bg_max_scope_share_ppm budget then Rem_Suppressed
      else Rem_Eligible)"

definition canonical_key :: "string \<Rightarrow> CongestionScope \<Rightarrow> SaturationCause \<Rightarrow> nat \<Rightarrow> ResourceId list \<Rightarrow> string" where
  "canonical_key bindings scope cause count resources =
     ''hg1|'' @ bindings @ ''|s'' @ decimal (unat (scope_code scope)) @ ''|c'' @ decimal (unat (cause_code cause))
     @ ''|n'' @ decimal count @ ''|'' @ concat (map (\<lambda>i. hex64 i @ '','') (take 32 resources))
     @ ''|m'' @ hex64 (if resources = [] then 0 else last resources)"

definition make_hotspot :: "Context \<Rightarrow> nat list \<Rightarrow> Hotspot" where
  "make_hotspot cx component =
     (let th = cx_thresholds cx;
          (resources, truncated) = take_capped kMaxHotspotResources (map (\<lambda>i. rs_id (cx_resource cx i)) component);
          capacity = component_capacity cx component;
          share = ratio_or0 capacity (sc_fabric (cx_scan cx));
          (latest_first, min_samples) = history_bounds (component_history cx component);
          ms = elapsed_ms latest_first (cx_now cx);
          all_healthy = healthy_neighbors cx component;
          (healthy, healthy_truncated) = take_capped kMaxHotspotResources all_healthy;
          regions = component_regions cx component;
          scope = classify_scope th (cx_scan cx) share (length regions) (length all_healthy);
          utilization = peak cl_utilization cx component;
          queue = peak cl_queue cx component;
          buffer = peak cl_buffer cx component;
          at = attribute_component cx component;
          all_contributors = contributors_of at;
          contributors = sort_key (\<lambda>c. (- 1 - co_share c, co_flow c, co_path c)) (take kMaxContributors all_contributors);
          confidence = attribution_confidence at;
          usable = (cx_paths cx \<noteq> None \<and> cx_traffic cx \<noteq> None \<and> \<not> at_incomplete at \<and>
                    confidence \<ge> th_min_attribution_confidence_ppm th);
          cause0 = classify_cause th utilization queue buffer;
          cause = (if usable \<and> contributors \<noteq> [] \<and> co_share (hd contributors) \<ge> th_dominant_contributor_ppm th
                   then Cause_FanInContention
                   else if usable \<and> at_fresh_paths at \<ge> 8 \<and> cause0 = Cause_CapacityExhaustion
                   then Cause_StructuralConvergence else cause0);
          persistent = is_persistent th (cx_tracker cx \<noteq> None) min_samples ms;
          pressure = peak cl_pressure cx component;
          i = identity_from_bytes (canonical_key (cx_bindings cx) scope cause (length component) resources)
      in \<lparr>hs_id = i, hs_key = ''hs-'' @ hex64 i, hs_scope = scope, hs_cause = cause,
          hs_severity = hotspot_severity (cx_bands cx) th pressure persistent ms,
          hs_resources = resources, hs_saturated_count = length component, hs_saturated_truncated = truncated,
          hs_healthy = healthy, hs_healthy_count = length all_healthy, hs_healthy_truncated = healthy_truncated,
          hs_regions = regions, hs_contributors = contributors,
          hs_contributor_count = length all_contributors,
          hs_contributors_truncated = (length all_contributors > kMaxContributors),
          hs_capacity = capacity, hs_share = share, hs_peak_pressure = pressure,
          hs_peak_utilization = utilization, hs_peak_queue = queue, hs_peak_buffer = buffer,
          hs_attribution_confidence = confidence, hs_attributed = at_fresh at, hs_unattributed = at_stale at,
          hs_persistence_ms = ms, hs_sample_count = min_samples, hs_first_observed = latest_first,
          hs_last_observed = cx_now cx, hs_persistent = persistent,
          hs_remediation = remediation_of (cx_policy_live cx) persistent scope share (cx_budget cx),
          hs_binding = cx_binding cx, hs_authority = []\<rparr>)"

text \<open>Whether the hotspot's attribution finding grants (\<open>attribution_usable\<close>).\<close>

definition attribution_usable :: "Context \<Rightarrow> nat list \<Rightarrow> bool" where
  "attribution_usable cx component \<longleftrightarrow>
     (let at = attribute_component cx component
      in cx_paths cx \<noteq> None \<and> cx_traffic cx \<noteq> None \<and> \<not> at_incomplete at \<and>
         attribution_confidence at \<ge> th_min_attribution_confidence_ppm (cx_thresholds cx))"

section \<open>The verdict\<close>

text \<open>One round of the component loop: findings, then the hotspot or candidate within the bound.\<close>

record Rounds =
  ro_result :: FabricAssessment
  ro_history :: "(ResourceId \<times> Entry) list"
  ro_truncated :: nat

definition component_round :: "Context \<Rightarrow> nat list \<Rightarrow> Rounds \<Rightarrow> Rounds" where
  "component_round cx component st =
     (let h = make_hotspot cx component;
          r0 = ro_result st;
          r1 = (if attribution_usable cx component then r_grant AD_Attribution r0 else r_deny AD_Attribution r0);
          r2 = (if hs_persistent h then r_grant AD_Persistence r1 else r_deny AD_Persistence r1);
          st1 = st\<lparr>ro_history := ro_history st @ component_history cx component\<rparr>
      in if hs_persistent h
         then if length (fa_hotspots r2) < kMaxHotspots
              then st1\<lparr>ro_result := r2\<lparr>fa_hotspots := fa_hotspots r2 @ [h]\<rparr>\<rparr>
              else st1\<lparr>ro_result := r2, ro_truncated := ro_truncated st + 1\<rparr>
         else if length (fa_candidates r2) < kMaxHotspots
              then st1\<lparr>ro_result := r2\<lparr>fa_candidates := fa_candidates r2 @ [h]\<rparr>\<rparr>
              else st1\<lparr>ro_result := r2, ro_truncated := ro_truncated st + 1\<rparr>)"

definition fabric_scope :: "Hotspot list \<Rightarrow> CongestionScope" where
  "fabric_scope hs =
     fold (\<lambda>h widest. if scope_code (hs_scope h) > scope_code widest then hs_scope h else widest) hs Scope_None"

definition fabric_verdict :: "FabricAssessment \<Rightarrow> FabricAssessment" where
  "fabric_verdict r =
     (if fa_hotspots r = [] then r\<lparr>fa_scope := Scope_None\<rparr>
      else r\<lparr>fa_scope := fabric_scope (fa_hotspots r),
             fa_localization_proven := (\<exists>h \<in> set (fa_hotspots r). hs_scope h = Scope_Localized)\<rparr>)"

definition hotspot_share_total :: "Hotspot list \<Rightarrow> u64" where
  "hotspot_share_total hs = fold (\<lambda>h total. sat_add total (ucast (hs_share h))) hs 0"

definition escalation :: "Thresholds \<Rightarrow> MitigationBudget \<Rightarrow> FabricAssessment \<Rightarrow> bool" where
  "escalation th budget r \<longleftrightarrow>
     fa_scope r = Scope_Global \<or>
     (fa_global_share r \<ge> th_global_share_ppm th \<and> fa_hotspots r \<noteq> []) \<or>
     (length (fa_hotspots r) > unat (bg_max_intents_per_plan budget) \<and>
      hotspot_share_total (fa_hotspots r) \<ge> ucast (bg_max_plan_scope_share_ppm budget))"

definition finish :: "Thresholds \<Rightarrow> MitigationBudget \<Rightarrow> FabricAssessment \<Rightarrow> FabricAssessment" where
  "finish th budget r =
     (let r1 = fabric_verdict r;
          escalate = escalation th budget r1;
          r2 = r1\<lparr>fa_escalation_required := escalate\<rparr>;
          r3 = (if escalate then r_deny AD_MitigationBudget r2 else r_grant AD_MitigationBudget r2);
          auth = seal (fa_authority r3)
      in r3\<lparr>fa_authority := auth,
            fa_hotspots := map (\<lambda>h. h\<lparr>hs_authority := auth\<rparr>) (fa_hotspots r3),
            fa_candidates := map (\<lambda>h. h\<lparr>hs_authority := auth\<rparr>) (fa_candidates r3)\<rparr>)"

section \<open>detect\<close>

definition record_scan :: "nat \<Rightarrow> Scan \<Rightarrow> FabricAssessment \<Rightarrow> FabricAssessment" where
  "record_scan n sc r =
     r\<lparr>fa_pressures := sc_pressures sc, fa_fabric_capacity := sc_fabric sc, fa_covered_capacity := sc_covered sc,
       fa_admissible_capacity := sc_admissible sc, fa_saturated_capacity := sc_saturated sc,
       fa_observed_count := sc_observed_count sc, fa_admissible_count := sc_admissible_count sc,
       fa_saturated_count := sc_saturated_count sc, fa_contradictory_count := sc_contradictory_count sc,
       fa_stale_count := sc_stale_count sc, fa_unknown_capacity_count := sc_unusable_count sc,
       fa_coverage := ratio_or0 (sc_covered sc) (sc_fabric sc),
       fa_admissible_coverage := ratio_or0 (sc_admissible sc) (sc_fabric sc),
       fa_capacity_coverage := ratio_or0 (word_of_nat (n - sc_unusable_count sc)) (word_of_nat n),
       fa_global_share := ratio_or0 (sc_saturated sc) (sc_fabric sc)\<rparr>"

text \<open>The reference checks: the domain and code of the first that fails.\<close>

definition reference_failure ::
    "DecisionInput \<Rightarrow> TopologySnapshot \<Rightarrow> CapacitySnapshot \<Rightarrow> SignalSnapshot \<Rightarrow> PathSnapshot option \<Rightarrow> AuthorityDomain option" where
  "reference_failure inp t cap sig paths =
     (if di_preverified inp then None
      else if \<not> capacity_resolves t cap then Some AD_Capacity
      else if \<not> signals_resolve t sig then Some AD_Signals
      else case paths of
             Some p \<Rightarrow> if \<not> paths_resolve t p then Some AD_Paths else None
           | None \<Rightarrow> None)"

definition coverage_failure :: "Thresholds \<Rightarrow> FabricAssessment \<Rightarrow> AuthorityDomain option" where
  "coverage_failure th r =
     (if fa_fabric_capacity r = 0 then Some AD_Signals
      else if fa_capacity_coverage r < th_min_coverage_ppm th then Some AD_Capacity
      else if fa_admissible_coverage r < th_min_coverage_ppm th then Some AD_Signals
      else None)"

definition detect_context ::
    "DecisionInput \<Rightarrow> TopologySnapshot \<Rightarrow> CapacitySnapshot \<Rightarrow> PathSnapshot option \<Rightarrow> TrafficSnapshot option
       \<Rightarrow> Scan \<Rightarrow> EvidenceBinding \<Rightarrow> Context" where
  "detect_context inp t cap paths traffic sc binding =
     \<lparr>cx_topology = t, cx_capacity = cap, cx_paths = paths, cx_traffic = traffic,
      cx_thresholds = input_thresholds inp, cx_budget = input_budget inp, cx_bands = input_bands inp,
      cx_policy_live = policy_live inp, cx_now = di_now inp, cx_tracker = di_tracker inp,
      cx_scan = sc, cx_bindings = generation_binding inp, cx_binding = binding\<rparr>"

definition saturated_components :: "TopologySnapshot \<Rightarrow> Scan \<Rightarrow> nat list list" where
  "saturated_components t sc =
     components (neighbor_indices t) (\<lambda>i. cl_saturated (sc_cells sc ! i)) (length (tp_resources t))"

text \<open>From the admitted evidence to the assessment: scan, coverage, components, tracker, verdict.\<close>

definition detect_admitted ::
    "DecisionInput \<Rightarrow> TopologySnapshot \<Rightarrow> CapacitySnapshot \<Rightarrow> SignalSnapshot \<Rightarrow> PathSnapshot option
       \<Rightarrow> TrafficSnapshot option \<Rightarrow> FabricAssessment \<Rightarrow> FabricAssessment \<times> SaturationTracker option" where
  "detect_admitted inp t cap sig paths traffic r0 =
     (let th = input_thresholds inp; budget = input_budget inp;
          n = length (tp_resources t);
          sc = scan th (di_now inp) cap sig (tp_resources t);
          r1 = record_scan n sc r0
      in case coverage_failure th r1 of
           Some d \<Rightarrow> reject inp Scope_Unknown (refuse d InsufficientCoverage r1)
         | None \<Rightarrow>
             let r2 = (if di_tracker inp = None then refuse AD_Persistence MissingEvidence r1 else r1);
                 cx = detect_context inp t cap paths traffic sc (fa_binding r2);
                 comps = saturated_components t sc;
                 st = fold (component_round cx) comps \<lparr>ro_result = r2, ro_history = [], ro_truncated = 0\<rparr>;
                 over = (di_tracker inp \<noteq> None \<and> length (ro_history st) > kMaxHistoryResources);
                 r3 = (if over then diagnose BoundExceeded (ro_result st) else ro_result st);
                 r4 = (if ro_truncated st > 0 then diagnose BoundExceeded r3 else r3)
             in (finish th budget r4,
                 map_option (\<lambda>_. tracker_replace (take kMaxHistoryResources (ro_history st))) (di_tracker inp)))"

definition detect :: "DecisionInput \<Rightarrow> FabricAssessment \<times> SaturationTracker option" where
  "detect inp =
     (let r0 = policy_gate inp (coordinator_gate inp (empty_assessment\<lparr>fa_binding := input_binding inp\<rparr>))
      in case topology_gate inp r0 of
           (None, r1) \<Rightarrow> reject inp Scope_Unknown r1
         | (Some t, r1) \<Rightarrow>
             let (cap, r2) = capacity_gate inp t r1;
                 (sig, r3) = signals_gate inp t cap r2;
                 (paths, r4) = paths_gate inp t r3;
                 (traffic, r5) = traffic_gate inp paths r4
             in case (cap, sig) of
                  (Some c, Some s) \<Rightarrow>
                    let r6 = r5\<lparr>fa_resource_count := length (tp_resources t)\<rparr>
                    in if tp_resources t = [] then reject inp Scope_None r6
                       else (case reference_failure inp t c s paths of
                               Some d \<Rightarrow> reject inp Scope_Unknown (refuse d UnknownResource r6)
                             | None \<Rightarrow> detect_admitted inp t c s paths traffic r6)
                | _ \<Rightarrow> reject inp Scope_Unknown r5)"

section \<open>The stages, field by field\<close>

lemma r_fields [simp]:
  "fa_hotspots (r_grant d r) = fa_hotspots r" "fa_hotspots (r_deny d r) = fa_hotspots r"
  "fa_hotspots (diagnose e r) = fa_hotspots r" "fa_hotspots (refuse d e r) = fa_hotspots r"
  "fa_candidates (r_grant d r) = fa_candidates r" "fa_candidates (r_deny d r) = fa_candidates r"
  "fa_candidates (diagnose e r) = fa_candidates r" "fa_candidates (refuse d e r) = fa_candidates r"
  "fa_escalation_required (r_grant d r) = fa_escalation_required r"
  "fa_escalation_required (r_deny d r) = fa_escalation_required r"
  "fa_escalation_required (diagnose e r) = fa_escalation_required r"
  "fa_escalation_required (refuse d e r) = fa_escalation_required r"
  "fa_binding (r_grant d r) = fa_binding r" "fa_binding (r_deny d r) = fa_binding r"
  "fa_binding (diagnose e r) = fa_binding r" "fa_binding (refuse d e r) = fa_binding r"
  "fa_global_share (r_grant d r) = fa_global_share r" "fa_global_share (r_deny d r) = fa_global_share r"
  "fa_global_share (diagnose e r) = fa_global_share r" "fa_global_share (refuse d e r) = fa_global_share r"
  "fa_fabric_capacity (r_grant d r) = fa_fabric_capacity r" "fa_fabric_capacity (r_deny d r) = fa_fabric_capacity r"
  "fa_fabric_capacity (diagnose e r) = fa_fabric_capacity r" "fa_fabric_capacity (refuse d e r) = fa_fabric_capacity r"
  "fa_scope (r_grant d r) = fa_scope r" "fa_scope (r_deny d r) = fa_scope r"
  "fa_localization_proven (r_grant d r) = fa_localization_proven r"
  "fa_localization_proven (r_deny d r) = fa_localization_proven r"
  "fa_localization_proven (diagnose e r) = fa_localization_proven r"
  "fa_localization_proven (refuse d e r) = fa_localization_proven r"
  by (simp_all add: r_grant_def r_deny_def diagnose_def refuse_def)

text \<open>The fields no gate touches: what a rejection reports.\<close>

definition blank_result :: "FabricAssessment \<Rightarrow> bool" where
  "blank_result r \<longleftrightarrow> fa_hotspots r = [] \<and> fa_candidates r = [] \<and> \<not> fa_escalation_required r \<and>
     \<not> fa_localization_proven r"

lemma blank_result_update [simp]:
  "blank_result (r_grant d r) = blank_result r" "blank_result (r_deny d r) = blank_result r"
  "blank_result (refuse d e r) = blank_result r" "blank_result (diagnose e r) = blank_result r"
  "blank_result (record_scan n sc r) = blank_result r" "blank_result (r\<lparr>fa_resource_count := k\<rparr>) = blank_result r"
  by (simp_all add: blank_result_def record_scan_def)

lemma gates_blank:
  "blank_result (coordinator_gate inp r) = blank_result r" "blank_result (policy_gate inp r) = blank_result r"
  "blank_result (snd (topology_gate inp r)) = blank_result r"
  "blank_result (snd (capacity_gate inp t r)) = blank_result r"
  "blank_result (snd (signals_gate inp t c r)) = blank_result r"
  "blank_result (snd (paths_gate inp t r)) = blank_result r"
  "blank_result (snd (traffic_gate inp p r)) = blank_result r"
  by (simp_all add: coordinator_gate_def policy_gate_def topology_gate_def capacity_gate_def signals_gate_def
      paths_gate_def traffic_gate_def Let_def split: option.splits)

lemma gates_binding:
  "fa_binding (coordinator_gate inp r) = fa_binding r" "fa_binding (policy_gate inp r) = fa_binding r"
  "fa_binding (snd (topology_gate inp r)) = fa_binding r"
  "fa_binding (snd (capacity_gate inp t r)) = fa_binding r"
  "fa_binding (snd (signals_gate inp t c r)) = fa_binding r"
  "fa_binding (snd (paths_gate inp t r)) = fa_binding r"
  "fa_binding (snd (traffic_gate inp p r)) = fa_binding r"
  by (simp_all add: coordinator_gate_def policy_gate_def topology_gate_def capacity_gate_def signals_gate_def
      paths_gate_def traffic_gate_def Let_def split: option.splits)

text \<open>What the gates admit.\<close>

definition admitted_paths :: "DecisionInput \<Rightarrow> TopologySnapshot \<Rightarrow> PathSnapshot option" where
  "admitted_paths inp t = fst (paths_gate inp t empty_assessment)"

definition admitted_traffic :: "DecisionInput \<Rightarrow> TopologySnapshot \<Rightarrow> TrafficSnapshot option" where
  "admitted_traffic inp t = fst (traffic_gate inp (admitted_paths inp t) empty_assessment)"

definition evidence_admitted :: "DecisionInput \<Rightarrow> TopologySnapshot \<Rightarrow> CapacitySnapshot \<Rightarrow> SignalSnapshot \<Rightarrow> bool" where
  "evidence_admitted inp t c s \<longleftrightarrow>
     di_topology inp = Some t \<and> tp_built t \<and> fresh_at t (di_now inp) \<and>
     di_capacity inp = Some c \<and> cs_built c \<and> cs_topology_generation c = tp_generation t \<and>
     age_ms (cs_observed_at c) (di_now inp) \<le> uint (th_max_capacity_age_ms (input_thresholds inp)) \<and>
     di_signals inp = Some s \<and> ss_built s \<and> ss_topology_generation s = tp_generation t \<and>
     ss_capacity_generation s = cs_generation c"

text \<open>Enough of it can be believed: references resolve and every coverage floor is met.\<close>

definition evidence_sufficient :: "DecisionInput \<Rightarrow> TopologySnapshot \<Rightarrow> CapacitySnapshot \<Rightarrow> SignalSnapshot \<Rightarrow> bool" where
  "evidence_sufficient inp t c s \<longleftrightarrow>
     (let th = input_thresholds inp; n = length (tp_resources t); sc = scan th (di_now inp) c s (tp_resources t)
      in tp_resources t \<noteq> [] \<and> reference_failure inp t c s (admitted_paths inp t) = None \<and> sc_fabric sc \<noteq> 0 \<and>
         ratio_or0 (word_of_nat (n - sc_unusable_count sc)) (word_of_nat n) \<ge> th_min_coverage_ppm th \<and>
         ratio_or0 (sc_admissible sc) (sc_fabric sc) \<ge> th_min_coverage_ppm th)"

lemma topology_gate_Some_iff:
  "fst (topology_gate inp r) = Some t \<longleftrightarrow> di_topology inp = Some t \<and> tp_built t \<and> fresh_at t (di_now inp)"
  by (auto simp: topology_gate_def split: option.splits)

lemma capacity_gate_Some_iff:
  "fst (capacity_gate inp t r) = Some c \<longleftrightarrow> di_capacity inp = Some c \<and> cs_built c \<and>
     cs_topology_generation c = tp_generation t \<and>
     age_ms (cs_observed_at c) (di_now inp) \<le> uint (th_max_capacity_age_ms (input_thresholds inp))"
  by (auto simp: capacity_gate_def split: option.splits)

lemma signals_gate_Some_iff:
  "fst (signals_gate inp t cap r) = Some s \<longleftrightarrow> (\<exists>c. cap = Some c \<and> di_signals inp = Some s \<and> ss_built s \<and>
     ss_topology_generation s = tp_generation t \<and> ss_capacity_generation s = cs_generation c)"
  by (auto simp: signals_gate_def split: option.splits)

lemma gate_independent:
  "fst (paths_gate inp t r) = admitted_paths inp t"
  "fst (traffic_gate inp (admitted_paths inp t) r) = admitted_traffic inp t"
  by (simp_all add: admitted_paths_def admitted_traffic_def paths_gate_def traffic_gate_def split: option.splits)

text \<open>The result carried into the evaluation proper.\<close>

definition gated_result :: "DecisionInput \<Rightarrow> TopologySnapshot \<Rightarrow> FabricAssessment" where
  "gated_result inp t =
     (let r0 = policy_gate inp (coordinator_gate inp (empty_assessment\<lparr>fa_binding := input_binding inp\<rparr>));
          r1 = snd (topology_gate inp r0);
          cap = capacity_gate inp t r1;
          sig = signals_gate inp t (fst cap) (snd cap);
          pth = paths_gate inp t (snd sig)
      in (snd (traffic_gate inp (fst pth) (snd pth)))\<lparr>fa_resource_count := length (tp_resources t)\<rparr>)"

lemma gated_result_fields: "blank_result (gated_result inp t)" "fa_binding (gated_result inp t) = input_binding inp"
  by (simp_all add: gated_result_def Let_def gates_blank gates_binding)
    (simp_all add: blank_result_def empty_assessment_def)

lemma detect_eq:
  assumes "evidence_admitted inp t c s"
  shows "detect inp =
     (if tp_resources t = [] then reject inp Scope_None (gated_result inp t)
      else case reference_failure inp t c s (admitted_paths inp t) of
             Some d \<Rightarrow> reject inp Scope_Unknown (refuse d UnknownResource (gated_result inp t))
           | None \<Rightarrow> detect_admitted inp t c s (admitted_paths inp t) (admitted_traffic inp t) (gated_result inp t))"
proof -
  define r0 where "r0 = policy_gate inp (coordinator_gate inp (empty_assessment\<lparr>fa_binding := input_binding inp\<rparr>))"
  have t: "fst (topology_gate inp r0) = Some t"
    using topology_gate_Some_iff assms by (simp add: evidence_admitted_def)
  have c: "fst (capacity_gate inp t r) = Some c" for r
    using capacity_gate_Some_iff assms by (simp add: evidence_admitted_def)
  have s: "fst (signals_gate inp t (Some c) r) = Some s" for r
    using signals_gate_Some_iff assms by (simp add: evidence_admitted_def)
  show ?thesis
    unfolding detect_def gated_result_def r0_def [symmetric] Let_def case_prod_beta
    by (simp add: t c s gate_independent cong: if_cong option.case_cong)
qed

lemma coverage_failure_scan:
  "coverage_failure th (record_scan n sc r) = None \<longleftrightarrow> sc_fabric sc \<noteq> 0 \<and>
     ratio_or0 (word_of_nat (n - sc_unusable_count sc)) (word_of_nat n) \<ge> th_min_coverage_ppm th \<and>
     ratio_or0 (sc_admissible sc) (sc_fabric sc) \<ge> th_min_coverage_ppm th"
  by (auto simp: coverage_failure_def record_scan_def)

lemma reject_blank:
  assumes "blank_result r"
  shows "fa_scope (fst (reject inp scope r)) = scope" "blank_result (fst (reject inp scope r))"
    "snd (reject inp scope r) = map_option (\<lambda>_. []) (di_tracker inp)"
  using assms by (simp_all add: reject_def blank_result_def tracker_replace_def option.map_comp)

lemma detect_insufficient:
  assumes e: "evidence_admitted inp t c s" and n: "tp_resources t \<noteq> []" "\<not> evidence_sufficient inp t c s"
  shows "\<exists>r. detect inp = reject inp Scope_Unknown r \<and> blank_result r"
proof (cases "reference_failure inp t c s (admitted_paths inp t)")
  case (Some d)
  then show ?thesis
    by (intro exI [of _ "refuse d UnknownResource (gated_result inp t)"])
      (simp add: detect_eq [OF e] n(1) gated_result_fields)
next
  case None
  define r1 where "r1 = record_scan (length (tp_resources t))
    (scan (input_thresholds inp) (di_now inp) c s (tp_resources t)) (gated_result inp t)"
  have "coverage_failure (input_thresholds inp) r1 \<noteq> None"
    using n None by (simp add: r1_def coverage_failure_scan evidence_sufficient_def Let_def)
  then obtain d where d: "coverage_failure (input_thresholds inp) r1 = Some d" by blast
  have "detect inp = reject inp Scope_Unknown (refuse d InsufficientCoverage r1)"
    using d by (simp add: detect_eq [OF e] n(1) None detect_admitted_def Let_def r1_def [symmetric])
  then show ?thesis
    by (intro exI [of _ "refuse d InsufficientCoverage r1"]) (simp add: r1_def gated_result_fields)
qed

lemma detect_not_admitted:
  assumes no: "\<nexists>t c s. evidence_admitted inp t c s"
  shows "\<exists>r. detect inp = reject inp Scope_Unknown r \<and> blank_result r"
proof -
  define r0 where "r0 = policy_gate inp (coordinator_gate inp (empty_assessment\<lparr>fa_binding := input_binding inp\<rparr>))"
  have b0: "blank_result r0"
    by (simp add: r0_def gates_blank) (simp add: blank_result_def empty_assessment_def)
  show ?thesis
  proof (cases "fst (topology_gate inp r0)")
    case None
    then have "detect inp = reject inp Scope_Unknown (snd (topology_gate inp r0))"
      by (simp add: detect_def r0_def [symmetric] Let_def case_prod_beta)
    then show ?thesis using b0 gates_blank by blast
  next
    case (Some t)
    define cg where "cg = capacity_gate inp t (snd (topology_gate inp r0))"
    define sg where "sg = signals_gate inp t (fst cg) (snd cg)"
    define pg where "pg = paths_gate inp t (snd sg)"
    have "fst cg = None \<or> fst sg = None"
    proof (rule ccontr)
      assume "\<not> ?thesis"
      then obtain c s where "fst cg = Some c" "fst sg = Some s" by auto
      then have "evidence_admitted inp t c s"
        using Some by (auto simp: cg_def sg_def evidence_admitted_def topology_gate_Some_iff
            capacity_gate_Some_iff signals_gate_Some_iff)
      with no show False by blast
    qed
    then have "detect inp = reject inp Scope_Unknown (snd (traffic_gate inp (fst pg) (snd pg)))"
      using Some unfolding cg_def sg_def pg_def
      by (auto simp: detect_def r0_def [symmetric] Let_def case_prod_beta split: option.splits)
    moreover have "blank_result (snd (traffic_gate inp (fst pg) (snd pg)))"
      using b0 by (simp add: pg_def sg_def cg_def gates_blank)
    ultimately show ?thesis by blast
  qed
qed

lemma detect_rejects:
  assumes "\<not> (\<exists>t c s. evidence_admitted inp t c s \<and> (tp_resources t = [] \<or> evidence_sufficient inp t c s))"
  shows "\<exists>r. detect inp = reject inp Scope_Unknown r \<and> blank_result r"
  using assms detect_insufficient detect_not_admitted by blast

section \<open>The component rounds\<close>

lemma rounds_history:
  "ro_history (fold (component_round cx) cs st) = ro_history st @ concat (map (component_history cx) cs)"
proof (induction cs arbitrary: st)
  case (Cons c cs)
  have "ro_history (component_round cx c st) = ro_history st @ component_history cx c"
    by (simp add: component_round_def Let_def)
  then show ?case by (simp add: Cons)
qed simp

lemma take_snoc_round: "length xs \<le> k \<Longrightarrow> (if length xs < k then xs @ [h] else xs) = take k (xs @ [h])"
  by simp

lemma component_round_lists:
  "length (fa_hotspots (ro_result st)) \<le> kMaxHotspots \<Longrightarrow>
     fa_hotspots (ro_result (component_round cx c st)) =
       take kMaxHotspots (fa_hotspots (ro_result st) @ filter hs_persistent [make_hotspot cx c])"
  "length (fa_candidates (ro_result st)) \<le> kMaxHotspots \<Longrightarrow>
     fa_candidates (ro_result (component_round cx c st)) =
       take kMaxHotspots (fa_candidates (ro_result st) @ filter (\<lambda>h. \<not> hs_persistent h) [make_hotspot cx c])"
  by (auto simp: component_round_def Let_def)

lemma take_append_take: "take k (take k xs @ ys) = take k (xs @ ys)"
  by (cases "k \<le> length xs") simp_all

lemma rounds_hotspots:
  "length (fa_hotspots (ro_result st)) \<le> kMaxHotspots \<Longrightarrow>
     fa_hotspots (ro_result (fold (component_round cx) cs st)) =
       take kMaxHotspots (fa_hotspots (ro_result st) @ filter hs_persistent (map (make_hotspot cx) cs))"
proof (induction cs arbitrary: st)
  case (Cons c cs)
  have "length (fa_hotspots (ro_result (component_round cx c st))) \<le> kMaxHotspots"
    by (simp only: component_round_lists(1) [OF Cons.prems] length_take min.cobounded2)
  note IH = Cons.IH [OF this]
  have split: "filter hs_persistent (map (make_hotspot cx) (c # cs))
      = filter hs_persistent [make_hotspot cx c] @ filter hs_persistent (map (make_hotspot cx) cs)" by simp
  show ?case
    unfolding fold_simps IH component_round_lists(1) [OF Cons.prems] take_append_take split append_assoc ..
qed simp

lemma rounds_candidates:
  "length (fa_candidates (ro_result st)) \<le> kMaxHotspots \<Longrightarrow>
     fa_candidates (ro_result (fold (component_round cx) cs st)) =
       take kMaxHotspots (fa_candidates (ro_result st) @ filter (\<lambda>h. \<not> hs_persistent h) (map (make_hotspot cx) cs))"
proof (induction cs arbitrary: st)
  case (Cons c cs)
  have "length (fa_candidates (ro_result (component_round cx c st))) \<le> kMaxHotspots"
    by (simp only: component_round_lists(2) [OF Cons.prems] length_take min.cobounded2)
  note IH = Cons.IH [OF this]
  have split: "filter (\<lambda>h. \<not> hs_persistent h) (map (make_hotspot cx) (c # cs))
      = filter (\<lambda>h. \<not> hs_persistent h) [make_hotspot cx c] @ filter (\<lambda>h. \<not> hs_persistent h) (map (make_hotspot cx) cs)" by simp
  show ?case
    unfolding fold_simps IH component_round_lists(2) [OF Cons.prems] take_append_take split append_assoc ..
qed simp

lemma rounds_binding:
  "fa_binding (ro_result (fold (component_round cx) cs st)) = fa_binding (ro_result st)"
  "fa_global_share (ro_result (fold (component_round cx) cs st)) = fa_global_share (ro_result st)"
  "fa_fabric_capacity (ro_result (fold (component_round cx) cs st)) = fa_fabric_capacity (ro_result st)"
  by (induction cs arbitrary: st) (simp_all add: component_round_def Let_def)

text \<open>What a completed evaluation reports, with the authority it is sealed with.\<close>

definition evaluation_context :: "DecisionInput \<Rightarrow> TopologySnapshot \<Rightarrow> CapacitySnapshot \<Rightarrow> SignalSnapshot \<Rightarrow> Context" where
  "evaluation_context inp t c s =
     detect_context inp t c (admitted_paths inp t) (admitted_traffic inp t)
       (scan (input_thresholds inp) (di_now inp) c s (tp_resources t)) (input_binding inp)"

definition sealed :: "AuthorityVector \<Rightarrow> Hotspot \<Rightarrow> Hotspot" where
  "sealed auth h = h\<lparr>hs_authority := auth\<rparr>"

lemma finish_fields:
  "fa_hotspots (finish th b r) = map (sealed (fa_authority (finish th b r))) (fa_hotspots r)"
  "fa_candidates (finish th b r) = map (sealed (fa_authority (finish th b r))) (fa_candidates r)"
  "fa_scope (finish th b r) = (if fa_hotspots r = [] then Scope_None else fabric_scope (fa_hotspots r))"
  "fa_localization_proven (finish th b r) =
     (if fa_hotspots r = [] then fa_localization_proven r else (\<exists>h \<in> set (fa_hotspots r). hs_scope h = Scope_Localized))"
  "fa_binding (finish th b r) = fa_binding r" "fa_fabric_capacity (finish th b r) = fa_fabric_capacity r"
  "fa_global_share (finish th b r) = fa_global_share r"
  by (simp_all add: finish_def Let_def fabric_verdict_def r_grant_def r_deny_def sealed_def [abs_def])

lemma fold_sealed_share:
  "fold (\<lambda>h total. sat_add total (ucast (hs_share h))) (map (sealed a) hs) x
     = fold (\<lambda>h total. sat_add total (ucast (hs_share h))) hs (x :: u64)"
  by (induction hs arbitrary: x) (simp_all add: sealed_def)

text \<open>Escalation is a function of the finished assessment.\<close>

lemma finish_escalation: "fa_escalation_required (finish th b r) \<longleftrightarrow> escalation th b (finish th b r)"
proof -
  have "fa_escalation_required (finish th b r) = escalation th b (fabric_verdict r)"
    by (simp add: finish_def Let_def)
  also have "\<dots> = escalation th b (finish th b r)"
    by (simp add: escalation_def finish_fields hotspot_share_total_def fold_sealed_share) (simp add: fabric_verdict_def)
  finally show ?thesis .
qed

lemma detect_evaluation:
  assumes adm: "evidence_admitted inp t c s" and suff: "evidence_sufficient inp t c s"
    and cx: "cx = evaluation_context inp t c s"
    and comps: "comps = saturated_components t (cx_scan cx)"
  shows "fa_hotspots (fst (detect inp)) =
      map (sealed (fa_authority (fst (detect inp)))) (take kMaxHotspots (filter hs_persistent (map (make_hotspot cx) comps)))"
    and "fa_candidates (fst (detect inp)) =
      map (sealed (fa_authority (fst (detect inp)))) (take kMaxHotspots (filter (\<lambda>h. \<not> hs_persistent h) (map (make_hotspot cx) comps)))"
    and "snd (detect inp) =
      map_option (\<lambda>_. tracker_replace (take kMaxHistoryResources (concat (map (component_history cx) comps)))) (di_tracker inp)"
    and "fa_scope (fst (detect inp)) =
      (let hs = filter hs_persistent (map (make_hotspot cx) comps) in if hs = [] then Scope_None else fabric_scope (take kMaxHotspots hs))"
    and "fa_binding (fst (detect inp)) = input_binding inp"
    and "fa_fabric_capacity (fst (detect inp)) = sc_fabric (cx_scan cx)"
    and "fa_global_share (fst (detect inp)) = ratio_or0 (sc_saturated (cx_scan cx)) (sc_fabric (cx_scan cx))"
    and "fa_escalation_required (fst (detect inp)) \<longleftrightarrow>
      escalation (input_thresholds inp) (input_budget inp) (fst (detect inp))"
proof -
  let ?th = "input_thresholds inp" and ?n = "length (tp_resources t)"
  let ?sc = "scan ?th (di_now inp) c s (tp_resources t)"
  define r1 where "r1 = record_scan ?n ?sc (gated_result inp t)"
  define r2 where "r2 = (if di_tracker inp = None then refuse AD_Persistence MissingEvidence r1 else r1)"
  define st where "st = fold (component_round cx) comps \<lparr>ro_result = r2, ro_history = [], ro_truncated = 0\<rparr>"
  define r3 where "r3 = (if di_tracker inp \<noteq> None \<and> length (ro_history st) > kMaxHistoryResources
     then diagnose BoundExceeded (ro_result st) else ro_result st)"
  define r4 where "r4 = (if ro_truncated st > 0 then diagnose BoundExceeded r3 else r3)"
  have cov: "coverage_failure ?th r1 = None" and ne: "tp_resources t \<noteq> []"
    and ref: "reference_failure inp t c s (admitted_paths inp t) = None"
    using suff by (simp_all add: r1_def coverage_failure_scan evidence_sufficient_def Let_def)
  have "fa_binding r2 = input_binding inp"
    by (simp add: r2_def r1_def record_scan_def gated_result_fields)
  then have cx': "detect_context inp t c (admitted_paths inp t) (admitted_traffic inp t) ?sc (fa_binding r2) = cx"
    by (simp add: cx evaluation_context_def)
  have comps': "saturated_components t ?sc = comps"
    by (simp add: comps cx evaluation_context_def detect_context_def)
  have eq: "detect inp = (finish ?th (input_budget inp) r4,
     map_option (\<lambda>_. tracker_replace (take kMaxHistoryResources (ro_history st))) (di_tracker inp))"
  proof -
    have "detect inp = detect_admitted inp t c s (admitted_paths inp t) (admitted_traffic inp t) (gated_result inp t)"
      by (simp add: detect_eq [OF adm] ne ref)
    then show ?thesis
      unfolding detect_admitted_def Let_def r1_def [symmetric] cov option.case r2_def [symmetric] cx' comps'
        st_def [symmetric] r3_def [symmetric] r4_def [symmetric] .
  qed
  have blank: "blank_result r2" by (simp add: r2_def r1_def gated_result_fields)
  have hist: "ro_history st = concat (map (component_history cx) comps)" by (simp add: st_def rounds_history)
  have hot: "fa_hotspots r4 = take kMaxHotspots (filter hs_persistent (map (make_hotspot cx) comps))"
    using blank by (simp add: r4_def r3_def st_def rounds_hotspots blank_result_def)
  have cand: "fa_candidates r4 = take kMaxHotspots (filter (\<lambda>h. \<not> hs_persistent h) (map (make_hotspot cx) comps))"
    using blank by (simp add: r4_def r3_def st_def rounds_candidates blank_result_def)
  show "fa_hotspots (fst (detect inp)) =
      map (sealed (fa_authority (fst (detect inp)))) (take kMaxHotspots (filter hs_persistent (map (make_hotspot cx) comps)))"
    using hot by (simp add: eq finish_fields)
  show "fa_candidates (fst (detect inp)) =
      map (sealed (fa_authority (fst (detect inp)))) (take kMaxHotspots (filter (\<lambda>h. \<not> hs_persistent h) (map (make_hotspot cx) comps)))"
    using cand by (simp add: eq finish_fields)
  show "snd (detect inp) =
      map_option (\<lambda>_. tracker_replace (take kMaxHistoryResources (concat (map (component_history cx) comps)))) (di_tracker inp)"
    by (simp add: eq hist)
  show "fa_scope (fst (detect inp)) =
      (let hs = filter hs_persistent (map (make_hotspot cx) comps) in if hs = [] then Scope_None else fabric_scope (take kMaxHotspots hs))"
    by (simp add: eq finish_fields hot Let_def kMaxHotspots_def)
  show "fa_binding (fst (detect inp)) = input_binding inp"
    "fa_fabric_capacity (fst (detect inp)) = sc_fabric (cx_scan cx)"
    "fa_global_share (fst (detect inp)) = ratio_or0 (sc_saturated (cx_scan cx)) (sc_fabric (cx_scan cx))"
    by (simp_all add: eq finish_fields r4_def r3_def st_def rounds_binding r2_def)
      (simp_all add: r1_def record_scan_def gated_result_fields cx evaluation_context_def detect_context_def)
  show "fa_escalation_required (fst (detect inp)) \<longleftrightarrow>
      escalation (input_thresholds inp) (input_budget inp) (fst (detect inp))"
    by (simp add: eq finish_escalation)
qed

end
