(* ===== verification/HGM_Persistence.thy ===== *)
theory HGM_Persistence
  imports HGM_Detection
begin

text \<open>
  What detection remembers from one evaluation to the next. The tracker after an evaluation holds
  exactly the resources saturated in it; over a series of evaluations its entry for a resource is
  the length and the start of the unbroken run of evaluations in which the resource was saturated;
  and a hotspot is confirmed only when every resource of its component has such a run of the
  required number of samples and duration.
\<close>

section \<open>One evaluation\<close>

definition resource_saturated ::
    "DecisionInput \<Rightarrow> TopologySnapshot \<Rightarrow> CapacitySnapshot \<Rightarrow> SignalSnapshot \<Rightarrow> ResourceId \<Rightarrow> bool" where
  "resource_saturated inp t c s i \<longleftrightarrow>
     (\<exists>r \<in> set (tp_resources t). rs_id r = i \<and> cl_saturated (resource_cell (input_thresholds inp) (di_now inp) c s r))"

definition saturated_in :: "DecisionInput \<Rightarrow> ResourceId \<Rightarrow> bool" where
  "saturated_in inp i \<longleftrightarrow>
     (\<exists>t c s. evidence_admitted inp t c s \<and> evidence_sufficient inp t c s \<and> resource_saturated inp t c s i)"

text \<open>Inputs a governor supplies: a built topology within its bound, and a clock reading.\<close>

definition input_ok :: "DecisionInput \<Rightarrow> bool" where
  "input_ok inp \<longleftrightarrow> di_now inp \<noteq> kNoTime \<and>
     (\<forall>t. di_topology inp = Some t \<and> tp_built t \<longrightarrow> topology_wf t \<and> length (tp_resources t) \<le> kMaxResources)"

lemma resource_saturated_nth:
  "resource_saturated inp t c s i \<longleftrightarrow> (\<exists>k < length (tp_resources t). rs_id (tp_resources t ! k) = i \<and>
     cl_saturated (resource_cell (input_thresholds inp) (di_now inp) c s (tp_resources t ! k)))"
  by (metis in_set_conv_nth resource_saturated_def)

lemma scan_cell_nth:
  "i < length rs \<Longrightarrow> sc_cells (scan th now c s rs) ! i = resource_cell th now c s (rs ! i)"
  by (simp add: scan_cells)

lemma evaluation_context_fields [simp]:
  "cx_topology (evaluation_context inp t c s) = t" "cx_tracker (evaluation_context inp t c s) = di_tracker inp"
  "cx_now (evaluation_context inp t c s) = di_now inp"
  "cx_thresholds (evaluation_context inp t c s) = input_thresholds inp"
  "cx_scan (evaluation_context inp t c s) = scan (input_thresholds inp) (di_now inp) c s (tp_resources t)"
  "cx_budget (evaluation_context inp t c s) = input_budget inp"
  "cx_policy_live (evaluation_context inp t c s) = policy_live inp"
  "cx_capacity (evaluation_context inp t c s) = c"
  by (simp_all add: evaluation_context_def detect_context_def)

text \<open>The components of an evaluation partition the saturated indices.\<close>

definition evaluation_components :: "DecisionInput \<Rightarrow> TopologySnapshot \<Rightarrow> CapacitySnapshot \<Rightarrow> SignalSnapshot \<Rightarrow> nat list list" where
  "evaluation_components inp t c s =
     saturated_components t (scan (input_thresholds inp) (di_now inp) c s (tp_resources t))"

lemma evaluation_components_partition:
  assumes "topology_wf t"
  shows "\<Union> (set ` set (evaluation_components inp t c s)) = {i. i < length (tp_resources t) \<and>
      cl_saturated (resource_cell (input_thresholds inp) (di_now inp) c s (tp_resources t ! i))}"
    and "distinct (concat (evaluation_components inp t c s))"
    and "cmp \<in> set (evaluation_components inp t c s) \<Longrightarrow> sorted_wrt (<) cmp \<and> cmp \<noteq> []"
proof -
  let ?sat = "\<lambda>i. cl_saturated (sc_cells (scan (input_thresholds inp) (di_now inp) c s (tp_resources t)) ! i)"
  have eq: "evaluation_components inp t c s = components (neighbor_indices t) ?sat (length (tp_resources t))"
    by (simp add: evaluation_components_def saturated_components_def)
  note p = topology_graph.components_partition [OF assms eq]
  show "\<Union> (set ` set (evaluation_components inp t c s)) = {i. i < length (tp_resources t) \<and>
      cl_saturated (resource_cell (input_thresholds inp) (di_now inp) c s (tp_resources t ! i))}"
    using p(1) by (auto simp: scan_cell_nth)
  show "distinct (concat (evaluation_components inp t c s))" by (rule p(2))
  show "cmp \<in> set (evaluation_components inp t c s) \<Longrightarrow> sorted_wrt (<) cmp \<and> cmp \<noteq> []" by (rule p(3))
qed

lemma resource_id_inj:
  assumes "topology_wf t" and "i < length (tp_resources t)" and "j < length (tp_resources t)"
    and "rs_id (tp_resources t ! i) = rs_id (tp_resources t ! j)"
  shows "i = j"
proof -
  have "distinct (map rs_id (tp_resources t))" by (rule resource_index.keys_distinct [OF assms(1)])
  then show ?thesis using assms(2-4) by (simp add: distinct_conv_nth) metis
qed

lemma evaluation_history:
  assumes wf: "topology_wf t" and cx: "cx = evaluation_context inp t c s"
  defines "hist \<equiv> concat (map (component_history cx) (evaluation_components inp t c s))"
  shows "distinct (map fst hist)"
    and "set hist = {(i, entry_state (di_tracker inp) (di_now inp) i) | i. resource_saturated inp t c s i}"
    and "length hist \<le> length (tp_resources t)"
proof -
  let ?cs = "evaluation_components inp t c s" and ?rs = "tp_resources t"
  let ?f = "\<lambda>k. (rs_id (?rs ! k), entry_state (di_tracker inp) (di_now inp) (rs_id (?rs ! k)))"
  note p = evaluation_components_partition [OF wf, where inp = inp and c = c and s = s]
  have h: "hist = map ?f (concat ?cs)"
    by (simp add: hist_def component_history_def [abs_def] cx cx_resource_def map_concat)
  have idx: "set (concat ?cs) = {i. i < length ?rs \<and> cl_saturated (resource_cell (input_thresholds inp) (di_now inp) c s (?rs ! i))}"
    using p(1) by simp
  have "inj_on (\<lambda>k. rs_id (?rs ! k)) (set (concat ?cs))"
    using resource_id_inj [OF wf] idx by (auto intro!: inj_onI)
  then show "distinct (map fst hist)"
    using p(2) by (simp add: h distinct_map comp_def)
  have "set hist = ?f ` {i. i < length ?rs \<and> cl_saturated (resource_cell (input_thresholds inp) (di_now inp) c s (?rs ! i))}"
    using idx h by simp
  then show "set hist = {(i, entry_state (di_tracker inp) (di_now inp) i) | i. resource_saturated inp t c s i}"
    by (auto simp: resource_saturated_nth)
  have "set (concat ?cs) \<subseteq> {..<length ?rs}" using idx by auto
  then have "card (set (concat ?cs)) \<le> length ?rs" using card_mono [of "{..<length ?rs}"] by fastforce
  then show "length hist \<le> length ?rs" using distinct_card [OF p(2)] by (simp add: h)
qed

lemma detect_tracker:
  assumes ok: "input_ok inp" and tr: "di_tracker inp = Some tr"
  shows "\<exists>tr'. snd (detect inp) = Some tr' \<and> tracker_wf tr' \<and>
     (\<forall>i e. tracker_find tr' i = Some (i, e) \<longleftrightarrow> saturated_in inp i \<and> e = entry_state (Some tr) (di_now inp) i)"
proof (cases "\<exists>t c s. evidence_admitted inp t c s \<and> evidence_sufficient inp t c s")
  case True
  then obtain t c s where adm: "evidence_admitted inp t c s" and suff: "evidence_sufficient inp t c s" by blast
  have wf: "topology_wf t" and bound: "length (tp_resources t) \<le> kMaxHistoryResources"
    using ok adm by (auto simp: input_ok_def evidence_admitted_def limit_defs)
  have sat: "saturated_in inp i \<longleftrightarrow> resource_saturated inp t c s i" for i
    using adm suff by (auto simp: saturated_in_def evidence_admitted_def)
  define cx where "cx = evaluation_context inp t c s"
  define hist where "hist = concat (map (component_history cx) (evaluation_components inp t c s))"
  note h = evaluation_history [OF wf cx_def, folded hist_def]
  have "snd (detect inp) = Some (tracker_replace hist)"
    using detect_evaluation(3) [OF adm suff cx_def refl] h(3) bound
    by (simp add: tr hist_def evaluation_components_def cx_def)
  moreover have "tracker_find (tracker_replace hist) i = Some (i, e) \<longleftrightarrow>
      saturated_in inp i \<and> e = entry_state (Some tr) (di_now inp) i" for i e
    using tracker_find_replace [OF h(1)] h(2) by (auto simp: sat tr)
  ultimately show ?thesis using tracker_replace_distinct(1) [OF h(1)] by blast
next
  case False
  then have none: "\<not> saturated_in inp i" for i by (auto simp: saturated_in_def)
  have "snd (detect inp) = Some []"
  proof (cases "\<exists>t c s. evidence_admitted inp t c s \<and> tp_resources t = []")
    case True
    then obtain t c s where adm: "evidence_admitted inp t c s" and e: "tp_resources t = []" by blast
    show ?thesis
      using reject_blank(3) [OF gated_result_fields(1)] by (simp add: detect_eq [OF adm] e tr)
  next
    case no: False
    then obtain r where "detect inp = reject inp Scope_Unknown r" "blank_result r"
      using detect_rejects [of inp] False by blast
    then show ?thesis by (simp add: reject_blank(3) tr)
  qed
  then show ?thesis using none by (simp add: tracker_wf_def tracker_find_def find_sorted_def lower_bound_def)
qed

section \<open>A series of evaluations\<close>

text \<open>The tracker after a series of evaluations, the latest first, starting empty.\<close>

fun run_series :: "DecisionInput list \<Rightarrow> SaturationTracker" where
  "run_series [] = []"
| "run_series (inp # earlier) =
     (case snd (detect (inp\<lparr>di_tracker := Some (run_series earlier)\<rparr>)) of Some tr \<Rightarrow> tr | None \<Rightarrow> [])"

lemma input_simps [simp]:
  "evidence_admitted (inp\<lparr>di_tracker := x\<rparr>) t c s = evidence_admitted inp t c s"
  "evidence_sufficient (inp\<lparr>di_tracker := x\<rparr>) t c s = evidence_sufficient inp t c s"
  "resource_saturated (inp\<lparr>di_tracker := x\<rparr>) t c s i = resource_saturated inp t c s i"
  "saturated_in (inp\<lparr>di_tracker := x\<rparr>) i = saturated_in inp i"
  "input_ok (inp\<lparr>di_tracker := x\<rparr>) = input_ok inp"
proof -
  have th: "input_thresholds (inp\<lparr>di_tracker := x\<rparr>) = input_thresholds inp" by (simp add: input_thresholds_def)
  have p: "admitted_paths (inp\<lparr>di_tracker := x\<rparr>) t = admitted_paths inp t" for t
    by (simp add: admitted_paths_def paths_gate_def th split: option.splits)
  have rf: "reference_failure (inp\<lparr>di_tracker := x\<rparr>) t c s q = reference_failure inp t c s q" for t c s q
    by (simp add: reference_failure_def)
  show adm: "evidence_admitted (inp\<lparr>di_tracker := x\<rparr>) t c s = evidence_admitted inp t c s" for t c s
    by (simp add: evidence_admitted_def th)
  show suf: "evidence_sufficient (inp\<lparr>di_tracker := x\<rparr>) t c s = evidence_sufficient inp t c s" for t c s
    by (simp add: evidence_sufficient_def th p rf)
  show rs: "resource_saturated (inp\<lparr>di_tracker := x\<rparr>) t c s i = resource_saturated inp t c s i" for t c s
    by (simp add: resource_saturated_def th)
  show "saturated_in (inp\<lparr>di_tracker := x\<rparr>) i = saturated_in inp i"
    by (simp add: saturated_in_def adm suf rs)
  show "input_ok (inp\<lparr>di_tracker := x\<rparr>) = input_ok inp" by (simp add: input_ok_def)
qed

text \<open>The unbroken run of evaluations, ending with the latest, in which a resource was saturated.\<close>

definition streak :: "ResourceId \<Rightarrow> DecisionInput list \<Rightarrow> DecisionInput list" where
  "streak i inps = takeWhile (\<lambda>inp. saturated_in inp i) inps"

text \<open>A sample count saturates at \<open>UINT32_MAX\<close>.\<close>

definition sample_word :: "nat \<Rightarrow> u32" where
  "sample_word n = word_of_nat (min n (2 ^ 32 - 1))"

definition streak_entry :: "DecisionInput list \<Rightarrow> Entry" where
  "streak_entry xs = \<lparr>en_first = di_now (last xs), en_last = di_now (hd xs),
     en_samples = sample_word (length xs)\<rparr>"

lemma unat_sample_word: "unat (sample_word n) = min n (2 ^ 32 - 1)"
  by (simp add: sample_word_def unat_of_nat)

lemma sample_word_nonzero: "0 < n \<Longrightarrow> sample_word n \<noteq> 0"
  using unat_sample_word [of n] by (auto simp: unat_gt_0 [symmetric])

lemma sample_word_one [simp]: "sample_word (Suc 0) = 1"
  by (simp add: sample_word_def)

lemma sample_word_succ: "(if sample_word n = - 1 then - 1 else sample_word n + 1) = sample_word (Suc n)"
proof (cases "n < 2 ^ 32 - 1")
  case True
  then have "unat (sample_word n) < 2 ^ 32 - 1" by (simp add: unat_sample_word)
  then have "sample_word n \<noteq> - 1" by (auto simp: unat_max_word)
  then show ?thesis using True by (simp add: sample_word_def min_def)
next
  case False
  then have "sample_word n = - 1" "sample_word (Suc n) = - 1"
    by (simp_all add: word_unat_eq_iff unat_max_word unat_sample_word)
  then show ?thesis by simp
qed

lemma run_series_exact:
  assumes "\<forall>inp \<in> set inps. input_ok inp"
  shows "tracker_wf (run_series inps) \<and> tracker_find (run_series inps) i =
     (if streak i inps = [] then None else Some (i, streak_entry (streak i inps)))"
  using assms
proof (induction inps)
  case Nil
  then show ?case by (simp add: streak_def tracker_wf_def tracker_find_def find_sorted_def lower_bound_def)
next
  case (Cons inp earlier)
  let ?tr = "run_series earlier" and ?inp = "inp\<lparr>di_tracker := Some (run_series earlier)\<rparr>"
  have ok: "input_ok ?inp" using Cons.prems by simp
  have "di_tracker ?inp = Some ?tr" by simp
  from detect_tracker [OF ok this] obtain tr' where d: "snd (detect ?inp) = Some tr'" "tracker_wf tr'"
    and f: "\<And>i e. tracker_find tr' i = Some (i, e) \<longleftrightarrow> saturated_in inp i \<and> e = entry_state (Some ?tr) (di_now inp) i"
    by auto
  have run: "run_series (inp # earlier) = tr'" by (simp add: d(1))
  have IH: "tracker_find ?tr i = (if streak i earlier = [] then None else Some (i, streak_entry (streak i earlier)))"
    using Cons by simp
  have key: "fst p = i" if "tracker_find tr' i = Some p" for p
    using that tracker_index.lookup_Some_iff [OF d(2)] by simp
  show ?case
  proof (cases "saturated_in inp i")
    case False
    then have "tracker_find tr' i = None" using f key by (cases "tracker_find tr' i") auto
    then show ?thesis using False d(2) unfolding run by (simp add: streak_def)
  next
    case True
    have "entry_state (Some ?tr) (di_now inp) i = streak_entry (inp # streak i earlier)"
    proof (cases "streak i earlier = []")
      case True
      then show ?thesis using IH by (simp add: entry_state_def carry_def no_entry_def streak_entry_def)
    next
      case ne: False
      have "set (streak i earlier) \<subseteq> set earlier" by (auto simp: streak_def dest: set_takeWhileD)
      then have "hd (streak i earlier) \<in> set earlier" using hd_in_set [OF ne] by blast
      then have "input_ok (hd (streak i earlier))" using Cons.prems by simp
      then have "carry ?tr i = streak_entry (streak i earlier)"
        using IH ne by (simp add: carry_def streak_entry_def input_ok_def)
      then show ?thesis
        using ne sample_word_succ [of "length (streak i earlier)"] sample_word_nonzero [of "length (streak i earlier)"]
        by (auto simp: entry_state_def Let_def streak_entry_def split: if_splits)
    qed
    then have "tracker_find tr' i = Some (i, streak_entry (inp # streak i earlier))" using f True by simp
    then show ?thesis using True d(2) unfolding run by (simp add: streak_def)
  qed
qed

section \<open>Confirmation\<close>

lemma history_bounds_spec:
  assumes "history \<noteq> []"
  shows "(\<forall>p \<in> set history. en_first (snd p) \<le> fst (history_bounds history) \<and>
            snd (history_bounds history) \<le> en_samples (snd p))"
proof -
  let ?step = "\<lambda>(_ :: ResourceId, e) acc. case acc of
                   None \<Rightarrow> Some (en_first e, en_samples e)
                 | Some (latest, least) \<Rightarrow>
                     Some (if en_first e > latest then en_first e else latest,
                           if en_samples e < least then en_samples e else least)"
  have some: "\<exists>a b. fold ?step h (Some (x, y)) = Some (a, b) \<and> x \<le> a \<and> b \<le> y \<and>
      (\<forall>p \<in> set h. en_first (snd p) \<le> a \<and> b \<le> en_samples (snd p))" for h x y
  proof (induction h arbitrary: x y)
    case (Cons p h)
    obtain i e where p: "p = (i, e)" by (cases p)
    let ?x = "if en_first e > x then en_first e else x" and ?y = "if en_samples e < y then en_samples e else y"
    from Cons.IH [of ?x ?y] obtain a b where "fold ?step h (Some (?x, ?y)) = Some (a, b)" "?x \<le> a" "b \<le> ?y"
      "\<forall>p \<in> set h. en_first (snd p) \<le> a \<and> b \<le> en_samples (snd p)" by blast
    then show ?case by (auto simp: p split: if_splits)
  qed simp
  obtain i e h where h: "history = (i, e) # h" using assms by (metis list.exhaust surj_pair)
  from some [of h "en_first e" "en_samples e"] show ?thesis by (auto simp: history_bounds_def h)
qed

lemma make_hotspot_persistence:
  "hs_persistence_ms (make_hotspot cx cmp) = elapsed_ms (fst (history_bounds (component_history cx cmp))) (cx_now cx)"
  "hs_sample_count (make_hotspot cx cmp) = snd (history_bounds (component_history cx cmp))"
  "hs_persistent (make_hotspot cx cmp) \<longleftrightarrow> is_persistent (cx_thresholds cx) (cx_tracker cx \<noteq> None)
     (hs_sample_count (make_hotspot cx cmp)) (hs_persistence_ms (make_hotspot cx cmp))"
  "hs_resources (make_hotspot cx cmp) = take kMaxHotspotResources (map (\<lambda>i. rs_id (cx_resource cx i)) cmp)"
  "hs_saturated_count (make_hotspot cx cmp) = length cmp"
  "hs_remediation (make_hotspot cx cmp) = remediation_of (cx_policy_live cx) (hs_persistent (make_hotspot cx cmp))
     (hs_scope (make_hotspot cx cmp)) (hs_share (make_hotspot cx cmp)) (cx_budget cx)"
  "hs_share (make_hotspot cx cmp) = ratio_or0 (component_capacity cx cmp) (sc_fabric (cx_scan cx))"
  "hs_regions (make_hotspot cx cmp) = component_regions cx cmp"
  "hs_healthy_count (make_hotspot cx cmp) = length (healthy_neighbors cx cmp)"
  "hs_scope (make_hotspot cx cmp) = classify_scope (cx_thresholds cx) (cx_scan cx) (hs_share (make_hotspot cx cmp))
     (length (component_regions cx cmp)) (length (healthy_neighbors cx cmp))"
  by (simp_all add: make_hotspot_def Let_def take_capped_def case_prod_beta)

lemma sealed_fields [simp]:
  "hs_persistent (sealed a h) = hs_persistent h" "hs_resources (sealed a h) = hs_resources h"
  "hs_saturated_count (sealed a h) = hs_saturated_count h" "hs_scope (sealed a h) = hs_scope h"
  "hs_share (sealed a h) = hs_share h" "hs_remediation (sealed a h) = hs_remediation h"
  "hs_regions (sealed a h) = hs_regions h" "hs_healthy_count (sealed a h) = hs_healthy_count h"
  "hs_authority (sealed a h) = a"
  by (simp_all add: sealed_def)

lemma elapsed_ms_anti:
  assumes "elapsed_ms latest now \<ge> w" and "first \<le> latest" and "0 < w" and "millis_ok first" and "millis_ok now"
    and "first \<noteq> kNoTime"
  shows "first + w \<le> now"
  using assms by (auto simp: elapsed_ms_def Let_def millis_ok_def kNoTime_def kMaxTime_def split: if_splits)

lemma hotspot_evidence:
  assumes h: "h \<in> set (fa_hotspots (fst (detect inp)))"
  shows "\<exists>t c s. evidence_admitted inp t c s \<and> evidence_sufficient inp t c s"
proof (cases "\<exists>t c s. evidence_admitted inp t c s \<and> (tp_resources t = [] \<or> evidence_sufficient inp t c s)")
  case True
  then obtain t c s where e: "evidence_admitted inp t c s" "tp_resources t = [] \<or> evidence_sufficient inp t c s" by blast
  have "tp_resources t \<noteq> []"
  proof
    assume "tp_resources t = []"
    then have "detect inp = reject inp Scope_None (gated_result inp t)" by (simp add: detect_eq [OF e(1)])
    then show False using h reject_blank(2) [OF gated_result_fields(1)] by (simp add: blank_result_def)
  qed
  with e show ?thesis by blast
next
  case False
  then obtain r where "detect inp = reject inp Scope_Unknown r" "blank_result r" using detect_rejects by blast
  then show ?thesis using h reject_blank(2) by (simp add: blank_result_def)
qed

lemma reported_hotspot:
  assumes h: "h \<in> set (fa_hotspots (fst (detect inp)))"
  shows "\<exists>t c s cmp. evidence_admitted inp t c s \<and> evidence_sufficient inp t c s \<and>
    cmp \<in> set (evaluation_components inp t c s) \<and> hs_persistent (make_hotspot (evaluation_context inp t c s) cmp) \<and>
    h = sealed (fa_authority (fst (detect inp))) (make_hotspot (evaluation_context inp t c s) cmp)"
proof -
  from hotspot_evidence [OF h] obtain t c s where adm: "evidence_admitted inp t c s" and suff: "evidence_sufficient inp t c s"
    by blast
  from h detect_evaluation(1) [OF adm suff refl refl] obtain cmp where
    "cmp \<in> set (evaluation_components inp t c s)"
    "h = sealed (fa_authority (fst (detect inp))) (make_hotspot (evaluation_context inp t c s) cmp)"
    "hs_persistent (make_hotspot (evaluation_context inp t c s) cmp)"
    by (auto simp: evaluation_components_def dest!: in_set_takeD)
  with adm suff show ?thesis by blast
qed

text \<open>A reported hotspot carries, for each of its resources, an entry of a history that meets both persistence limits.\<close>

lemma reported_history:
  assumes ok: "input_ok inp" and h: "h \<in> set (fa_hotspots (fst (detect (inp\<lparr>di_tracker := Some tr\<rparr>))))"
    and i: "i \<in> set (hs_resources h)" and th: "th = input_thresholds inp"
  shows "\<exists>hist. hist \<noteq> [] \<and> (i, entry_state (Some tr) (di_now inp) i) \<in> set hist \<and> saturated_in inp i \<and>
    th_min_persistence_samples th \<le> snd (history_bounds hist) \<and>
    uint (th_persistence_window_ms th) \<le> elapsed_ms (fst (history_bounds hist)) (di_now inp)"
proof -
  define inp' where "inp' = inp\<lparr>di_tracker := Some tr\<rparr>"
  have ok': "input_ok inp'" using ok by (simp add: inp'_def)
  obtain t c s cmp a where adm: "evidence_admitted inp' t c s" and suff: "evidence_sufficient inp' t c s"
    and cmp: "cmp \<in> set (evaluation_components inp' t c s)"
    and p0: "hs_persistent (make_hotspot (evaluation_context inp' t c s) cmp)"
    and h0: "h = sealed a (make_hotspot (evaluation_context inp' t c s) cmp)"
    using reported_hotspot [OF h [folded inp'_def]] by blast
  define cx where "cx = evaluation_context inp' t c s"
  have wf: "topology_wf t" using ok' adm by (simp add: input_ok_def evidence_admitted_def)
  let ?hist = "component_history cx cmp"
  have ne: "?hist \<noteq> []" using evaluation_components_partition(3) [OF wf cmp] by (simp add: component_history_def)
  have e: "(i, entry_state (Some tr) (di_now inp) i) \<in> set ?hist"
    using i by (auto simp: h0 make_hotspot_persistence component_history_def cx_def inp'_def dest!: in_set_takeD)
  then have "(i, entry_state (Some tr) (di_now inp) i) \<in> set (concat (map (component_history cx) (evaluation_components inp' t c s)))"
    using cmp by auto
  then have "resource_saturated inp' t c s i" unfolding evaluation_history(2) [OF wf cx_def] by blast
  then have "saturated_in inp' i" using adm suff saturated_in_def by blast
  then have "saturated_in inp i" by (simp add: inp'_def)
  moreover have "th_min_persistence_samples th \<le> snd (history_bounds ?hist)"
    "uint (th_persistence_window_ms th) \<le> elapsed_ms (fst (history_bounds ?hist)) (di_now inp)"
    using p0 by (simp_all add: make_hotspot_persistence is_persistent_def cx_def inp'_def input_thresholds_def th)
  ultimately show ?thesis using ne e by blast
qed

lemma entry_state_streak:
  assumes ok: "\<forall>x \<in> set (inp # earlier). input_ok x" and sat: "saturated_in inp i"
  shows "entry_state (Some (run_series earlier)) (di_now inp) i = streak_entry (streak i (inp # earlier))"
proof -
  define inp' where "inp' = inp\<lparr>di_tracker := Some (run_series earlier)\<rparr>"
  have ok': "input_ok inp'" using ok by (simp add: inp'_def)
  have f: "tracker_find (run_series (inp # earlier)) i = Some (i, streak_entry (streak i (inp # earlier)))"
    using run_series_exact [OF ok, of i] sat by (simp add: streak_def)
  obtain tr' where "snd (detect inp') = Some tr'" "\<And>e. tracker_find tr' i = Some (i, e) \<longleftrightarrow>
      saturated_in inp' i \<and> e = entry_state (Some (run_series earlier)) (di_now inp') i"
    using detect_tracker [OF ok'] by (auto simp: inp'_def)
  with f show ?thesis by (simp add: inp'_def)
qed

lemma reported_resources:
  assumes ok: "input_ok inp" and h: "h \<in> set (fa_hotspots (fst (detect inp)))"
  shows "hs_resources h \<noteq> []"
proof -
  obtain t c s cmp a where adm: "evidence_admitted inp t c s" and cmp: "cmp \<in> set (evaluation_components inp t c s)"
    and h0: "h = sealed a (make_hotspot (evaluation_context inp t c s) cmp)" using reported_hotspot [OF h] by blast
  have "topology_wf t" using ok adm by (simp add: input_ok_def evidence_admitted_def)
  from evaluation_components_partition(3) [OF this cmp] show ?thesis
    by (simp add: h0 make_hotspot_persistence kMaxHotspotResources_def)
qed

text \<open>
  Sustained saturation of a resource: it is saturated now, it was in at least the required number of
  consecutive evaluations up to this one, and the first of them lies at least the persistence window
  in the past. A policy with a window of 0 ms asks for no time span.
\<close>

definition sustained :: "DecisionInput \<Rightarrow> DecisionInput list \<Rightarrow> ResourceId \<Rightarrow> bool" where
  "sustained inp earlier r \<longleftrightarrow>
     saturated_in inp r \<and>
     unat (th_min_persistence_samples (input_thresholds inp)) \<le> length (streak r (inp # earlier)) \<and>
     (th_persistence_window_ms (input_thresholds inp) \<noteq> 0 \<longrightarrow>
        di_now (last (streak r (inp # earlier))) + uint (th_persistence_window_ms (input_thresholds inp)) \<le> di_now inp)"

text \<open>Every resource of a hotspot confirmed in the latest of a series of evaluations is saturated in that sense.\<close>

lemma confirmed_hotspot_streak:
  assumes ok: "\<forall>x \<in> set (inp # earlier). input_ok x \<and> millis_ok (di_now x)"
    and h: "h \<in> set (fa_hotspots (fst (detect (inp\<lparr>di_tracker := Some (run_series earlier)\<rparr>))))"
    and i: "i \<in> set (hs_resources h)"
  shows "sustained inp earlier i"
proof -
  let ?xs = "streak i (inp # earlier)" and ?th = "input_thresholds inp"
  have all: "\<forall>x \<in> set (inp # earlier). input_ok x" and inp: "input_ok inp" using ok by auto
  obtain hist where ne: "hist \<noteq> []" and e: "(i, entry_state (Some (run_series earlier)) (di_now inp) i) \<in> set hist"
    and sat: "saturated_in inp i" and pers: "th_min_persistence_samples ?th \<le> snd (history_bounds hist)"
      "uint (th_persistence_window_ms ?th) \<le> elapsed_ms (fst (history_bounds hist)) (di_now inp)"
    using reported_history [OF inp h i refl] by blast
  have ne_streak: "?xs \<noteq> []" using sat by (simp add: streak_def)
  note b = bspec [OF history_bounds_spec [OF ne] e, unfolded entry_state_streak [OF all sat]]
  have "snd (history_bounds hist) \<le> sample_word (length ?xs)" using b by (simp add: streak_entry_def)
  with pers(1) have "th_min_persistence_samples ?th \<le> sample_word (length ?xs)" by (rule order_trans)
  then have "unat (th_min_persistence_samples ?th) \<le> min (length ?xs) (2 ^ 32 - 1)"
    by (simp add: word_le_nat_alt unat_sample_word)
  moreover have "di_now (last ?xs) + uint (th_persistence_window_ms ?th) \<le> di_now inp" if w: "th_persistence_window_ms ?th \<noteq> 0"
  proof (rule elapsed_ms_anti [OF pers(2)])
    show "di_now (last ?xs) \<le> fst (history_bounds hist)" using b by (simp add: streak_entry_def)
    show "0 < uint (th_persistence_window_ms ?th)" using w by (simp add: uint_0_iff order_less_le)
    have "last ?xs \<in> set (inp # earlier)"
      using ne_streak last_in_set set_takeWhileD unfolding streak_def by metis
    then show "millis_ok (di_now (last ?xs))" "di_now (last ?xs) \<noteq> kNoTime" using ok by (auto simp: input_ok_def)
    show "millis_ok (di_now inp)" using ok by simp
  qed
  ultimately show ?thesis using sat by (simp add: sustained_def)
qed

end
