(* ===== verification/HGM_Scenario.thy ===== *)
theory HGM_Scenario
  imports HGM_Persistence
begin

text \<open>
  A concrete fabric for the closed instances of the properties: the three resources in a line of
  \<open>line_topology\<close>, the middle one at 95 of 100 units, evaluated once per second under the default
  policy thresholds; one intent may touch up to 40 percent of the fabric.
\<close>

definition cap100 :: "ResourceId \<Rightarrow> ResourceCapacity" where
  "cap100 i = \<lparr>cap_resource = i, cap_units = 100, cap_queue_limit = 0, cap_buffer_limit = 0, cap_usable = True\<rparr>"

definition load :: "ResourceId \<Rightarrow> u64 \<Rightarrow> ResourceSignals" where
  "load i u = \<lparr>sr_resource = i, sr_utilized = u, sr_queue_depth = 0, sr_buffer_used = 0, sr_offered = 0,
     sr_admitted = 0, sr_drops = 0, sr_confidence = 900000, sr_quality = TQ_Healthy, sr_observed_at = 1000\<rparr>"

definition line_capacity :: CapacitySnapshot where
  "line_capacity = (add_capacity (cap100 12) (add_capacity (cap100 11) (add_capacity (cap100 10) empty_capacity)))
     \<lparr>cs_observed_at := 1000\<rparr>"

definition line_signals :: SignalSnapshot where
  "line_signals = add_signals (load 12 50) (add_signals (load 11 95) (add_signals (load 10 50) empty_signals))"

text \<open>The provenance of the frames of publisher 7 that carry this evidence.\<close>

definition line_provenance :: "StreamKind \<Rightarrow> Sequence \<Rightarrow> Provenance" where
  "line_provenance k q = no_provenance\<lparr>pv_publisher := 7, pv_incarnation := 2, pv_boot := 9, pv_epoch := 1, pv_sequence := q,
     pv_generation := \<lparr>sg_stream = k, sg_value = 1\<rparr>\<rparr>"

definition line_policy :: PolicySnapshot where
  "line_policy = empty_policy\<lparr>po_id := 1, po_generation := 1, po_issued_at := 1000, po_ttl_ms := 60000,
     po_budget := default_budget\<lparr>bg_max_scope_share_ppm := 400000\<rparr>, po_provenance := line_provenance Stream_Policy 4\<rparr>"

definition line_input :: "TopologySnapshot \<Rightarrow> CapacitySnapshot \<Rightarrow> SignalSnapshot \<Rightarrow> Millis \<Rightarrow> DecisionInput" where
  "line_input t c s now = \<lparr>di_topology = Some t, di_capacity = Some c, di_signals = Some s, di_paths = None,
     di_traffic = None, di_policy = Some line_policy, di_now = now, di_epoch = 1, di_boot = 5, di_tracker = None,
     di_preverified = True\<rparr>"

text \<open>The three built snapshots, stamped with any provenance.\<close>

definition line_built :: "TopologySnapshot \<Rightarrow> CapacitySnapshot \<Rightarrow> SignalSnapshot \<Rightarrow> bool" where
  "line_built t c s \<longleftrightarrow> (\<exists>t0 c0 s0 pt pc ps. build_topology line_topology = Inr t0 \<and> build_capacity line_capacity = Inr c0 \<and>
     build_signals line_signals = Inr s0 \<and> t = t0\<lparr>tp_provenance := pt\<rparr> \<and> c = c0\<lparr>cs_provenance := pc\<rparr> \<and> s = s0\<lparr>ss_provenance := ps\<rparr>)"

lemma line_snapshots_build:
  "\<exists>t c s. build_topology line_topology = Inr t \<and> build_capacity line_capacity = Inr c \<and> build_signals line_signals = Inr s"
proof -
  have "\<exists>c. build_capacity line_capacity = Inr c"
    by (simp add: build_capacity_def line_capacity_def cap100_def add_capacity_def empty_capacity_def
        check_capacity_def not_dup_def valid_id_def limit_defs Let_def)
  moreover have "\<exists>s. build_signals line_signals = Inr s"
    by (simp add: build_signals_def line_signals_def load_def add_signals_def empty_signals_def check_signals_def
        not_dup_def valid_id_def limit_defs Let_def kPpmScale_def)
  ultimately show ?thesis using line_topology_builds by blast
qed

lemma line_builds: "\<exists>t c s. line_built t c s"
  using line_snapshots_build unfolding line_built_def by blast

lemma build_topology_meta:
  assumes "build_topology t = Inr t'"
  shows "tp_generation t' = tp_generation t" "tp_valid_until t' = tp_valid_until t" "tp_valid_from t' = tp_valid_from t"
proof -
  have v: "tp_generation x' = tp_generation x \<and> tp_valid_until x' = tp_valid_until x \<and> tp_valid_from x' = tp_valid_from x"
    if "validate_and_index x = Inr x'" for x x'
    using that by (auto simp: validate_and_index_def Let_def bind_result_Inr_iff case_prod_beta)
  from assms obtain t1 where "validate_and_index (t\<lparr>tp_built := False, tp_id := 0, tp_digest := no_digest\<rparr>) = Inr t1"
    "tp_generation t' = tp_generation t1" "tp_valid_until t' = tp_valid_until t1" "tp_valid_from t' = tp_valid_from t1"
    by (auto simp: build_topology_def Let_def bind_result_Inr_iff)
  from v [OF this(1)] this(2-4)
  show "tp_generation t' = tp_generation t" "tp_valid_until t' = tp_valid_until t" "tp_valid_from t' = tp_valid_from t"
    by simp_all
qed

lemma line_facts:
  assumes "line_built t c s"
  shows "topology_wf t" "map rs_id (tp_resources t) = [10, 11, 12]" "tp_generation t = 0" "tp_valid_until t = 0"
    "capacity_wf c" "map cap_resource (cs_entries c) = [10, 11, 12]" "cs_generation c = 0"
    "cs_topology_generation c = 0" "cs_observed_at c = 1000"
    "signals_wf s" "map sr_resource (ss_records s) = [10, 11, 12]" "ss_topology_generation s = 0"
    "ss_capacity_generation s = 0"
    "find_capacity c 10 = Some (cap100 10)" "find_capacity c 11 = Some (cap100 11)" "find_capacity c 12 = Some (cap100 12)"
    "find_signals s 10 = Some (load 10 50)" "find_signals s 11 = Some (load 11 95)" "find_signals s 12 = Some (load 12 50)"
    "set (tp_links t) = set (tp_links line_topology)"
proof -
  from assms obtain t0 c0 s0 pt pc ps where
    b: "build_topology line_topology = Inr t0" "build_capacity line_capacity = Inr c0" "build_signals line_signals = Inr s0"
    and st: "t = t0\<lparr>tp_provenance := pt\<rparr>" "c = c0\<lparr>cs_provenance := pc\<rparr>" "s = s0\<lparr>ss_provenance := ps\<rparr>"
    unfolding line_built_def by blast
  note tw = build_topology_wf [OF b(1)] and cw = build_capacity_wf [OF b(2)] and sw = build_signals_wf [OF b(3)]
  show twf: "topology_wf t" using tw(1) by (simp add: st)
  show cwf: "capacity_wf c" using cw(1) by (simp add: st capacity_wf_def)
  show swf: "signals_wf s" using sw(1) by (simp add: st signals_wf_def)
  show "map rs_id (tp_resources t) = [10, 11, 12]" by (simp add: st tw(3) line_topology_fields)
  show "set (tp_links t) = set (tp_links line_topology)" by (simp add: st tw(4))
  show "tp_generation t = 0" "tp_valid_until t = 0"
    by (simp_all add: st build_topology_meta [OF b(1)] line_topology_def add_link_def add_resource_def add_region_def
        empty_topology_def)
  show "map cap_resource (cs_entries c) = [10, 11, 12]"
    by (simp add: st cw(2) line_capacity_def add_capacity_def empty_capacity_def cap100_def)
  show "cs_generation c = 0" "cs_topology_generation c = 0" "cs_observed_at c = 1000"
    using b(2) by (auto simp: st build_capacity_def Let_def bind_result_Inr_iff line_capacity_def add_capacity_def
        empty_capacity_def)
  show "map sr_resource (ss_records s) = [10, 11, 12]"
    by (simp add: st sw(2) line_signals_def add_signals_def empty_signals_def load_def)
  show "ss_topology_generation s = 0" "ss_capacity_generation s = 0"
    using b(3) by (auto simp: st build_signals_def Let_def bind_result_Inr_iff line_signals_def add_signals_def
        empty_signals_def)
  have ce: "set (cs_entries c) = {cap100 10, cap100 11, cap100 12}"
    by (simp add: st cw(2) line_capacity_def add_capacity_def empty_capacity_def insert_commute)
  show "find_capacity c 10 = Some (cap100 10)" "find_capacity c 11 = Some (cap100 11)" "find_capacity c 12 = Some (cap100 12)"
    by (simp_all add: capacity_index.lookup_Some_iff [OF cwf] ce) (simp_all add: cap100_def)
  have se: "set (ss_records s) = {load 10 50, load 11 95, load 12 50}"
    by (simp add: st sw(2) line_signals_def add_signals_def empty_signals_def insert_commute)
  show "find_signals s 10 = Some (load 10 50)" "find_signals s 11 = Some (load 11 95)" "find_signals s 12 = Some (load 12 50)"
    by (simp_all add: signal_index.lookup_Some_iff [OF swf] se) (simp_all add: load_def)
qed

lemma ratio_small: "ratio_or0 50 100 = 500000" "ratio_or0 95 100 = 950000" "ratio_or0 300 300 = 1000000"
  "ratio_or0 3 3 = 1000000"
  using ratio_ppm_total_exact [of 100 50 long_double_ppm] ratio_ppm_total_exact [of 100 95 long_double_ppm]
    ratio_ppm_total_exact [of 300 300 long_double_ppm] ratio_ppm_total_exact [of 3 3 long_double_ppm]
  by (simp_all add: ratio_or0_def ratio_ppm_def unat_mod)

text \<open>The cells: only resource 11 is saturated.\<close>

lemma line_cells:
  assumes "line_built t c s" and "age_ms 1000 now \<le> 5000" and "rs_id r = i"
  shows "i = 10 \<or> i = 12 \<Longrightarrow> cl_admissible (resource_cell default_thresholds now c s r) \<and>
       \<not> cl_saturated (resource_cell default_thresholds now c s r)"
    and "i = 11 \<Longrightarrow> cl_saturated (resource_cell default_thresholds now c s r) \<and>
       cl_admissible (resource_cell default_thresholds now c s r)"
    and "i \<in> {10, 11, 12} \<Longrightarrow> units_of c r = 100 \<and> usable_capacity c r \<noteq> None"
proof -
  have u: "usable_capacity c r = Some (cap100 i)" if "i \<in> {10, 11, 12}"
    using that line_facts(14-16) [OF assms(1)] by (auto simp: usable_capacity_def assms(3) cap100_def)
  have fresh: "\<not> sample_stale default_thresholds now (load j x)" for j x
    using assms(2) by (simp add: sample_stale_def load_def default_thresholds_def)
  show "i \<in> {10, 11, 12} \<Longrightarrow> units_of c r = 100 \<and> usable_capacity c r \<noteq> None"
    using u by (simp add: units_of_def cap100_def)
  have m: "resource_cell default_thresholds now c s r = measure_cell default_thresholds (cap100 i) (load i x)"
    if "i \<in> {10, 11, 12}" "find_signals s i = Some (load i x)" for x
    using that u fresh by (simp add: resource_cell_def assms(3))
  show "i = 10 \<or> i = 12 \<Longrightarrow> cl_admissible (resource_cell default_thresholds now c s r) \<and>
       \<not> cl_saturated (resource_cell default_thresholds now c s r)"
    using m [of 50] line_facts(17,19) [OF assms(1)]
    by (auto simp: measure_cell_def load_def cap100_def ratio_small default_thresholds_def quality_ok_def Let_def)
  show "i = 11 \<Longrightarrow> cl_saturated (resource_cell default_thresholds now c s r) \<and>
       cl_admissible (resource_cell default_thresholds now c s r)"
    using m [of 95] line_facts(18) [OF assms(1)]
    by (auto simp: measure_cell_def load_def cap100_def ratio_small default_thresholds_def quality_ok_def Let_def)
qed

lemma line_resources:
  assumes "line_built t c s"
  obtains r10 r11 r12 where "tp_resources t = [r10, r11, r12]" "rs_id r10 = 10" "rs_id r11 = 11" "rs_id r12 = 12"
proof -
  from line_facts(2) [OF assms] show ?thesis using that by (auto simp: map_eq_Cons_conv)
qed

lemma line_scan:
  assumes b: "line_built t c s" and now: "age_ms 1000 now \<le> 5000"
  shows "sc_fabric (scan default_thresholds now c s (tp_resources t)) = 300"
    "sc_admissible (scan default_thresholds now c s (tp_resources t)) = 300"
    "sc_unusable_count (scan default_thresholds now c s (tp_resources t)) = 0"
proof -
  obtain r10 r11 r12 where r: "tp_resources t = [r10, r11, r12]" "rs_id r10 = 10" "rs_id r11 = 11" "rs_id r12 = 12"
    by (rule line_resources [OF b])
  note c10 = line_cells [OF b now r(2)] and c11 = line_cells [OF b now r(3)] and c12 = line_cells [OF b now r(4)]
  have "unat (sc_fabric (scan default_thresholds now c s (tp_resources t))) = 300"
    "unat (sc_admissible (scan default_thresholds now c s (tp_resources t))) = 300"
    using c10 c11 c12 by (simp_all only: scan_totals) (simp_all add: r(1))
  then show "sc_fabric (scan default_thresholds now c s (tp_resources t)) = 300"
    "sc_admissible (scan default_thresholds now c s (tp_resources t)) = 300"
    by (simp_all add: word_unat_eq_iff)
  show "sc_unusable_count (scan default_thresholds now c s (tp_resources t)) = 0"
    using c10 c11 c12 unfolding scan_def scan_fold(7) by (auto simp: r)
qed

lemma line_thresholds [simp]: "input_thresholds (line_input t c s now) = default_thresholds"
  by (simp add: input_thresholds_def line_input_def line_policy_def empty_policy_def)

lemma line_evidence:
  assumes b: "line_built t c s" and now: "age_ms 1000 now \<le> 5000"
  shows "evidence_admitted (line_input t c s now) t c s" "evidence_sufficient (line_input t c s now) t c s"
    "saturated_in (line_input t c s now) i \<longleftrightarrow> i = 11"
proof -
  note f = line_facts [OF b]
  obtain r10 r11 r12 where r: "tp_resources t = [r10, r11, r12]" "rs_id r10 = 10" "rs_id r11 = 11" "rs_id r12 = 12"
    by (rule line_resources [OF b])
  have flags: "tp_built t" "cs_built c" "ss_built s"
    using f(1,5,10) by (simp_all add: topology_wf_def capacity_wf_def signals_wf_def)
  show adm: "evidence_admitted (line_input t c s now) t c s"
    using f flags now unfolding evidence_admitted_def line_thresholds
    by (simp add: line_input_def fresh_at_def default_thresholds_def)
  have "reference_failure (line_input t c s now) t c s (admitted_paths (line_input t c s now) t) = None"
    using f(2,6,11) by (simp add: reference_failure_def line_input_def capacity_resolves_def signals_resolve_def
        admitted_paths_def paths_gate_def)
  then show suf: "evidence_sufficient (line_input t c s now) t c s"
    using line_scan [OF b now] unfolding evidence_sufficient_def line_thresholds
    by (simp add: Let_def line_input_def r(1) ratio_small default_thresholds_def)
  have "saturated_in (line_input t c s now) i \<longleftrightarrow> resource_saturated (line_input t c s now) t c s i"
    using adm suf by (auto simp: saturated_in_def evidence_admitted_def)
  also have "\<dots> \<longleftrightarrow> i = 11"
    using line_cells [OF b now r(2)] line_cells [OF b now r(3)] line_cells [OF b now r(4)]
    unfolding resource_saturated_def line_thresholds by (auto simp: r line_input_def)
  finally show "saturated_in (line_input t c s now) i \<longleftrightarrow> i = 11" .
qed

lemma line_input_ok:
  assumes "line_built t c s" and "now \<noteq> kNoTime"
  shows "input_ok (line_input t c s now)"
proof -
  have "length (tp_resources t) = 3" using arg_cong [OF line_facts(2) [OF assms(1)], of length] by simp
  then show ?thesis
    using line_facts(1) [OF assms(1)] assms(2) by (simp add: input_ok_def line_input_def kMaxResources_def)
qed

text \<open>Three evaluations a second apart: resource 11 is confirmed as a hotspot.\<close>

definition line_series :: "TopologySnapshot \<Rightarrow> CapacitySnapshot \<Rightarrow> SignalSnapshot \<Rightarrow> DecisionInput list" where
  "line_series t c s = map (line_input t c s) [2000, 1000]"

lemma line_times: "age_ms 1000 1000 \<le> 5000" "age_ms 1000 2000 \<le> 5000" "age_ms 1000 3000 \<le> 5000"
  "(1000 :: Millis) \<noteq> kNoTime" "(2000 :: Millis) \<noteq> kNoTime" "(3000 :: Millis) \<noteq> kNoTime"
  "millis_ok 1000" "millis_ok 2000" "millis_ok 3000"
  by (simp_all add: age_ms_def kNoTime_def kMaxTime_def millis_ok_def)

lemma line_components:
  assumes b: "line_built t c s" and now: "age_ms 1000 now \<le> 5000"
  shows "evaluation_components ((line_input t c s now)\<lparr>di_tracker := x\<rparr>) t c s = [[Suc 0]]"
proof -
  let ?inp = "(line_input t c s now)\<lparr>di_tracker := x\<rparr>"
  obtain r10 r11 r12 where r: "tp_resources t = [r10, r11, r12]" "rs_id r10 = 10" "rs_id r11 = 11" "rs_id r12 = 12"
    by (rule line_resources [OF b])
  have th: "input_thresholds ?inp = default_thresholds"
    by (simp add: input_thresholds_def line_input_def line_policy_def empty_policy_def)
  have nw: "di_now ?inp = now" by (simp add: line_input_def)
  have "{i. i < length (tp_resources t) \<and> cl_saturated (resource_cell (input_thresholds ?inp) (di_now ?inp) c s (tp_resources t ! i))} = {Suc 0}"
    using line_cells [OF b now r(2)] line_cells [OF b now r(3)] line_cells [OF b now r(4)]
    unfolding th nw by (auto simp: r less_Suc_eq nth_Cons')
  with evaluation_components_partition [OF line_facts(1) [OF b], where inp = ?inp and c = c and s = s]
  have u: "\<Union> (set ` set (evaluation_components ?inp t c s)) = {Suc 0}"
    and d: "distinct (concat (evaluation_components ?inp t c s))"
    and ne: "\<And>cmp. cmp \<in> set (evaluation_components ?inp t c s) \<Longrightarrow> sorted_wrt (<) cmp \<and> cmp \<noteq> []" by simp_all
  have one: "cmp = [Suc 0]" if "cmp \<in> set (evaluation_components ?inp t c s)" for cmp
  proof -
    have "set cmp \<subseteq> {Suc 0}" using u that by blast
    moreover have "hd cmp \<in> set cmp" using ne [OF that] by simp
    ultimately have "set cmp = {Suc 0}" by (metis empty_iff subset_singletonD)
    moreover have "distinct cmp" using ne [OF that] by (simp add: strict_sorted_iff)
    ultimately have "length cmp = Suc 0" using distinct_card [of cmp] by simp
    then obtain x where "cmp = [x]" by (cases cmp) auto
    with \<open>set cmp = {Suc 0}\<close> show ?thesis by simp
  qed
  show ?thesis
  proof (cases "evaluation_components ?inp t c s")
    case Nil
    then show ?thesis using u by simp
  next
    case (Cons a as)
    then have "a = [Suc 0]" "\<forall>x \<in> set as. x = [Suc 0]" using one by auto
    then show ?thesis using d Cons by (cases as) auto
  qed
qed

text \<open>The third evaluation of the line, with the history of the first two.\<close>

definition line_third :: "TopologySnapshot \<Rightarrow> CapacitySnapshot \<Rightarrow> SignalSnapshot \<Rightarrow> DecisionInput" where
  "line_third t c s = (line_input t c s 3000)\<lparr>di_tracker := Some (run_series (line_series t c s))\<rparr>"

lemma line_third_fields:
  "input_thresholds (line_third t c s) = default_thresholds" "di_now (line_third t c s) = 3000"
  "di_tracker (line_third t c s) = Some (run_series (line_series t c s))" "policy_live (line_third t c s)"
  by (simp_all add: line_third_def input_thresholds_def policy_live_def line_input_def line_policy_def
      empty_policy_def expired_at_def kNoTime_def elapsed_ms_def kMaxTime_def)

lemma line_history:
  assumes b: "line_built t c s"
  shows "component_history (evaluation_context (line_third t c s) t c s) [Suc 0] = [(11, \<lparr>en_first = 1000, en_last = 3000, en_samples = 3\<rparr>)]"
proof -
  let ?tr = "run_series (line_series t c s)"
  obtain r10 r11 r12 where r: "tp_resources t = [r10, r11, r12]" "rs_id r11 = 11" by (rule line_resources [OF b])
  have "\<forall>x \<in> set (line_series t c s). input_ok x" using line_input_ok [OF b] line_times by (simp add: line_series_def)
  moreover have "streak 11 (line_series t c s) = map (line_input t c s) [2000, 1000]"
    using line_evidence(3) [OF b line_times(1)] line_evidence(3) [OF b line_times(2)] by (simp add: streak_def line_series_def)
  ultimately have "tracker_find ?tr 11 = Some (11, streak_entry (map (line_input t c s) [2000, 1000]))"
    using run_series_exact [of "line_series t c s" 11] by simp
  then have "carry ?tr 11 = \<lparr>en_first = 1000, en_last = 2000, en_samples = 2\<rparr>"
    by (simp add: carry_def streak_entry_def line_input_def kNoTime_def sample_word_def)
  then show ?thesis by (simp add: component_history_def cx_resource_def r entry_state_def line_third_fields)
qed

lemma line_localized:
  assumes b: "line_built t c s"
  shows "hs_scope (make_hotspot (evaluation_context (line_third t c s) t c s) [Suc 0]) = Scope_Localized"
proof -
  define cx where "cx = evaluation_context (line_third t c s) t c s"
  obtain r10 r11 r12 where r: "tp_resources t = [r10, r11, r12]" "rs_id r10 = 10" "rs_id r11 = 11" "rs_id r12 = 12"
    by (rule line_resources [OF b])
  have wf: "topology_wf t" by (rule line_facts(1) [OF b])
  have "set (tp_links t) = set (tp_links line_topology)" by (rule line_facts(20) [OF b])
  then have "10 \<in> set (neighbors t 11)" by (simp add: neighbors_iff [OF wf] line_topology_fields)
  moreover have "index_of_resource t 10 = Some 0" by (simp add: index_of_resource_Some_iff [OF wf] r)
  moreover have "cx_cell cx 0 = resource_cell default_thresholds 3000 c s r10"
    by (simp add: cx_cell_def cx_def line_third_fields scan_cells r)
  ultimately have "10 \<in> set (healthy_neighbors cx [Suc 0])"
    using line_cells(1) [OF b line_times(3) r(2)] by (simp add: healthy_neighbors_def cx_def cx_resource_def r)
  then have healthy: "length (healthy_neighbors cx [Suc 0]) \<noteq> 0" by auto
  have "component_capacity cx [Suc 0] = 100"
    using line_facts(15) [OF b] by (simp add: component_capacity_def cx_def cx_resource_def r cap100_def)
  moreover have "sc_fabric (cx_scan cx) = 300" using line_scan [OF b line_times(3)] by (simp add: cx_def line_third_fields)
  moreover have "ratio_or0 100 300 = 333333"
    using ratio_ppm_total_exact [of 300 100 long_double_ppm] by (simp add: ratio_or0_def ratio_ppm_def unat_mod)
  moreover have "length (component_regions cx [Suc 0]) \<le> 1"
    using sorted_unique_length [of "take kMaxRegions (map (\<lambda>i. rs_region (cx_resource cx i)) [Suc 0])"]
    by (simp add: component_regions_def kMaxRegions_def)
  moreover have "sc_admissible_count (cx_scan cx) = 3" "sc_saturated_count (cx_scan cx) = 1"
    using line_cells [OF b line_times(3) r(2)] line_cells [OF b line_times(3) r(3)] line_cells [OF b line_times(3) r(4)]
    unfolding cx_def evaluation_context_fields scan_def scan_fold(5,6) line_third_fields by (simp_all add: r)
  ultimately show ?thesis unfolding cx_def [symmetric]
    using healthy by (simp add: make_hotspot_persistence classify_scope_def) (simp add: cx_def line_third_fields default_thresholds_def)
qed

lemma line_confirmed:
  assumes b: "line_built t c s"
  shows "\<exists>h. fa_hotspots (fst (detect ((line_input t c s 3000)\<lparr>di_tracker := Some (run_series (line_series t c s))\<rparr>))) = [h] \<and>
    hs_resources h = [11] \<and> hs_remediation h = Rem_Eligible \<and> hs_scope h = Scope_Localized"
proof -
  define cx where "cx = evaluation_context (line_third t c s) t c s"
  obtain r10 r11 r12 where r: "tp_resources t = [r10, r11, r12]" "rs_id r11 = 11" by (rule line_resources [OF b])
  have ev: "evidence_admitted (line_third t c s) t c s" "evidence_sufficient (line_third t c s) t c s"
    using line_evidence [OF b line_times(3)] by (simp_all add: line_third_def)
  have comps: "saturated_components t (cx_scan cx) = [[Suc 0]]"
    using line_components [OF b line_times(3), of "Some (run_series (line_series t c s))"]
    by (simp add: evaluation_components_def cx_def line_third_def)
  have p: "hs_persistent (make_hotspot cx [Suc 0])"
    by (simp add: make_hotspot_persistence cx_def line_history [OF b] history_bounds_def is_persistent_def)
      (simp add: line_third_fields default_thresholds_def elapsed_ms_def kNoTime_def kMaxTime_def)
  have "fa_hotspots (fst (detect (line_third t c s))) = [sealed (fa_authority (fst (detect (line_third t c s)))) (make_hotspot cx [Suc 0])]"
    using detect_evaluation(1) [OF ev cx_def refl] p by (simp add: comps kMaxHotspots_def)
  moreover have "hs_resources (make_hotspot cx [Suc 0]) = [11]"
    by (simp add: make_hotspot_persistence cx_def cx_resource_def r kMaxHotspotResources_def)
  moreover have local: "hs_scope (make_hotspot cx [Suc 0]) = Scope_Localized" unfolding cx_def by (rule line_localized [OF b])
  moreover have "hs_remediation (make_hotspot cx [Suc 0]) = Rem_Eligible"
    using p make_hotspot_persistence(6) [of cx "[Suc 0]"] local by (simp add: remediation_of_def cx_def line_third_fields)
  ultimately show ?thesis by (simp add: line_third_def [symmetric])
qed

section \<open>Properties of detection\<close>

text \<open>C4: UNKNOWN is preserved. Unless the topology is built and fresh, capacity is built, bound to the live
  topology generation and recent enough, signals are bound to both generations, every reference
  resolves and both coverage floors are met, the assessment is UNKNOWN: it reports no hotspot, no
  candidate, no localization and no escalation, and the saturation history is dropped.\<close>

theorem detect_unknown_unless_admitted:
  assumes "\<not> (\<exists>t c s. evidence_admitted inp t c s \<and> (tp_resources t = [] \<or> evidence_sufficient inp t c s))"
  shows "fa_scope (fst (detect inp)) = Scope_Unknown \<and> fa_hotspots (fst (detect inp)) = [] \<and>
    fa_candidates (fst (detect inp)) = [] \<and> \<not> fa_localization_proven (fst (detect inp)) \<and>
    \<not> fa_escalation_required (fst (detect inp)) \<and> snd (detect inp) = map_option (\<lambda>_. []) (di_tracker inp)"
proof -
  from detect_rejects [OF assms] obtain r where "detect inp = reject inp Scope_Unknown r" "blank_result r" by blast
  then show ?thesis using reject_blank [of r inp Scope_Unknown] by (simp add: blank_result_def)
qed

theorem detect_unknown_unless_admitted_witness:
  "fa_scope (fst (detect (line_input empty_topology empty_capacity empty_signals 1000))) = Scope_Unknown"
proof -
  have "\<not> evidence_admitted (line_input empty_topology empty_capacity empty_signals 1000) t c s" for t c s
    by (auto simp: evidence_admitted_def line_input_def empty_topology_def)
  then show ?thesis
    using detect_unknown_unless_admitted [of "line_input empty_topology empty_capacity empty_signals 1000"] by blast
qed

text \<open>C6: persistence is never accumulated across a gap. After any series of evaluations, started with an
  empty tracker, the tracker knows a resource exactly when the latest evaluations found it saturated,
  and its entry is the time of the first and last evaluation of that unbroken run and the run's
  length, saturating at \<open>UINT32_MAX\<close>.\<close>

theorem tracker_history_exact:
  assumes "\<forall>inp \<in> set inps. input_ok inp"
  shows "tracker_find (run_series inps) i =
     (if streak i inps = [] then None else Some (i, streak_entry (streak i inps)))"
  using run_series_exact [OF assms] by simp

theorem tracker_history_exact_witness:
  "\<exists>t c s. line_built t c s \<and> tracker_find (run_series (line_series t c s)) 11 =
     Some (11, \<lparr>en_first = 1000, en_last = 2000, en_samples = 2\<rparr>) \<and>
     tracker_find (run_series (line_series t c s)) 10 = None"
proof -
  obtain t c s where b: "line_built t c s" using line_builds by blast
  have ok: "\<forall>x \<in> set (line_series t c s). input_ok x"
    using line_input_ok [OF b] line_times by (simp add: line_series_def)
  have "streak 11 (line_series t c s) = map (line_input t c s) [2000, 1000]" "streak 10 (line_series t c s) = []"
    using line_evidence(3) [OF b line_times(1)] line_evidence(3) [OF b line_times(2)]
    by (simp_all add: streak_def line_series_def)
  then show ?thesis
    using b tracker_history_exact [OF ok, of 11] tracker_history_exact [OF ok, of 10]
    by (intro exI [of _ t] exI [of _ c] exI [of _ s]) (simp add: streak_entry_def line_input_def sample_word_def)
qed

text \<open>C3: a confirmed hotspot is sustained. Every resource a confirmed hotspot lists was saturated in this and
  in as many directly preceding evaluations as the policy requires samples, and the first of them
  lies at least the persistence window in the past.\<close>

theorem confirmed_hotspot_sustained:
  assumes "\<forall>x \<in> set (inp # earlier). input_ok x \<and> millis_ok (di_now x)"
    and "h \<in> set (fa_hotspots (fst (detect (inp\<lparr>di_tracker := Some (run_series earlier)\<rparr>))))"
    and "i \<in> set (hs_resources h)" and "th_persistence_window_ms (input_thresholds inp) \<noteq> 0"
  shows "unat (th_min_persistence_samples (input_thresholds inp)) \<le> length (streak i (inp # earlier)) \<and>
     di_now (last (streak i (inp # earlier))) + uint (th_persistence_window_ms (input_thresholds inp)) \<le> di_now inp"
  using confirmed_hotspot_streak [OF assms(1-3)] assms(4) unfolding sustained_def by blast

theorem confirmed_hotspot_sustained_witness:
  "\<exists>t c s h. line_built t c s \<and>
     h \<in> set (fa_hotspots (fst (detect ((line_input t c s 3000)\<lparr>di_tracker := Some (run_series (line_series t c s))\<rparr>)))) \<and>
     hs_resources h = [11] \<and> 3 \<le> length (streak 11 (line_input t c s 3000 # line_series t c s))"
proof -
  obtain t c s where b: "line_built t c s" using line_builds by blast
  from line_confirmed [OF b] obtain h where
    hs: "fa_hotspots (fst (detect ((line_input t c s 3000)\<lparr>di_tracker := Some (run_series (line_series t c s))\<rparr>))) = [h]"
       "hs_resources h = [11]" by blast
  then have
    h: "h \<in> set (fa_hotspots (fst (detect ((line_input t c s 3000)\<lparr>di_tracker := Some (run_series (line_series t c s))\<rparr>))))"
       "hs_resources h = [11]" by simp_all
  have ok: "\<forall>x \<in> set (line_input t c s 3000 # line_series t c s). input_ok x \<and> millis_ok (di_now x)"
    using line_input_ok [OF b] line_times by (simp add: line_series_def) (simp add: line_input_def)
  have "3 \<le> length (streak 11 (line_input t c s 3000 # line_series t c s))"
    using confirmed_hotspot_sustained [OF ok h(1), of 11] h(2) by (simp add: default_thresholds_def)
  then show ?thesis using b h by blast
qed

text \<open>C7: hotspots are connected components. On a built topology, the search over the saturated indices returns
  each of them exactly once, in ascending groups, two in one group exactly when a chain of links
  through saturated resources joins them.\<close>

theorem saturated_components_exact:
  assumes "build_topology t0 = Inr t" and "cs = components (neighbor_indices t) sat (length (tp_resources t))"
  shows "distinct (concat cs) \<and> set (concat cs) = {i. i < length (tp_resources t) \<and> sat i} \<and>
    (\<forall>c \<in> set cs. sorted_wrt (<) c \<and> (\<forall>i \<in> set c. set c = (sat_edges (neighbor_indices t) sat)\<^sup>* `` {i})) \<and>
    (\<forall>i j. (i, j) \<in> sat_edges (neighbor_indices t) sat \<longleftrightarrow> sat i \<and> sat j \<and> j < length (tp_resources t) \<and>
       (\<exists>l \<in> set (tp_links t0). {ln_endpoint_a l, ln_endpoint_b l} = {rs_id (tp_resources t ! i), rs_id (tp_resources t ! j)}))"
proof -
  have wf: "topology_wf t" by (rule build_topology_wf(1) [OF assms(1)])
  note p = topology_graph.components_partition [OF wf assms(2)]
  have "(i, j) \<in> sat_edges (neighbor_indices t) sat \<longleftrightarrow> sat i \<and> sat j \<and> j < length (tp_resources t) \<and>
      (\<exists>l \<in> set (tp_links t0). {ln_endpoint_a l, ln_endpoint_b l} = {rs_id (tp_resources t ! i), rs_id (tp_resources t ! j)})" for i j
    by (auto simp: sat_edges_def neighbor_indices_iff [OF wf] neighbors_iff [OF wf] doubleton_eq_iff
        build_topology_wf(4) [OF assms(1)])
  then show ?thesis using p by simp
qed

theorem saturated_components_exact_witness:
  "\<exists>t. build_topology line_topology = Inr t \<and>
     set (concat (components (neighbor_indices t) (\<lambda>i. i = 1) (length (tp_resources t)))) = {1}"
proof -
  obtain t c s where t: "build_topology line_topology = Inr t" using line_snapshots_build by blast
  have "map rs_id (tp_resources t) = [10, 11, 12]" by (simp add: build_topology_wf(3) [OF t] line_topology_fields)
  then have "length (tp_resources t) = 3" by (metis length_map length_Cons list.size(3) numeral_3_eq_3)
  with saturated_components_exact [OF t refl, of "\<lambda>i. i = 1"] t show ?thesis by auto
qed

text \<open>C9: what makes a hotspot actionable. A reported hotspot is eligible for mitigation only if the policy
  is live, it is persistent, and it is localized, or regional within the per-intent budget; a
  localized one has a share below the global threshold, spans at most the permitted regions and has
  healthy neighbours to compare with.\<close>

theorem eligible_hotspot_sound:
  assumes "h \<in> set (fa_hotspots (fst (detect inp)))" and "hs_remediation h = Rem_Eligible"
  shows "policy_live inp \<and> hs_persistent h \<and>
    (hs_scope h = Scope_Localized \<or> hs_scope h = Scope_Regional \<and> hs_share h \<le> bg_max_scope_share_ppm (input_budget inp)) \<and>
    hs_share h < th_global_share_ppm (input_thresholds inp) \<and>
    length (hs_regions h) \<le> unat (th_max_regional_regions (input_thresholds inp)) \<and>
    (hs_scope h = Scope_Localized \<longrightarrow> hs_healthy_count h > 0 \<and>
       length (hs_regions h) \<le> unat (th_max_local_regions (input_thresholds inp)))"
proof -
  from reported_hotspot [OF assms(1)] obtain t c s cmp a where
    h: "h = sealed a (make_hotspot (evaluation_context inp t c s) cmp)" by blast
  let ?g = "make_hotspot (evaluation_context inp t c s) cmp"
  have rem: "remediation_of (policy_live inp) (hs_persistent ?g) (hs_scope ?g) (hs_share ?g) (input_budget inp) = Rem_Eligible"
    using assms(2) make_hotspot_persistence(6) [of "evaluation_context inp t c s" cmp] by (simp add: h)
  have sc: "hs_scope ?g = classify_scope (input_thresholds inp) (scan (input_thresholds inp) (di_now inp) c s (tp_resources t))
      (hs_share ?g) (length (hs_regions ?g)) (hs_healthy_count ?g)"
    using make_hotspot_persistence(8-10) [of "evaluation_context inp t c s" cmp] by simp
  show ?thesis using rem sc unfolding h sealed_fields
    by (auto simp: remediation_of_def classify_scope_def split: if_splits)
qed

theorem eligible_hotspot_sound_witness:
  "\<exists>inp h. h \<in> set (fa_hotspots (fst (detect inp))) \<and> hs_remediation h = Rem_Eligible \<and> policy_live inp"
proof -
  obtain t c s where b: "line_built t c s" using line_builds by blast
  from line_confirmed [OF b] obtain inp h where "fa_hotspots (fst (detect inp)) = [h]" and e: "hs_remediation h = Rem_Eligible"
    by blast
  then have h: "h \<in> set (fa_hotspots (fst (detect inp)))" "hs_remediation h = Rem_Eligible" by simp_all
  from eligible_hotspot_sound [OF this] h show ?thesis by blast
qed

text \<open>The fabric verdict is the widest scope among the confirmed hotspots, with NONE as its floor: when the
  scope of every confirmed hotspot is UNKNOWN, the fabric is reported as NONE.\<close>

lemma fabric_scope_widest:
  "unat (scope_code (fabric_scope hs)) = Max (insert 1 ((\<lambda>h. unat (scope_code (hs_scope h))) ` set hs)) \<and>
   ((\<forall>h \<in> set hs. hs_scope h = Scope_Unknown) \<longrightarrow> fabric_scope hs = Scope_None)"
proof -
  let ?step = "\<lambda>h widest. if scope_code (hs_scope h) > scope_code widest then hs_scope h else widest"
  have "unat (scope_code (fold ?step hs w)) = Max (insert (unat (scope_code w)) ((\<lambda>h. unat (scope_code (hs_scope h))) ` set hs))" for w
  proof (induction hs arbitrary: w)
    case (Cons h hs)
    have "unat (scope_code (?step h w)) = max (unat (scope_code w)) (unat (scope_code (hs_scope h)))"
      by (simp add: word_less_nat_alt)
    then show ?case using Cons.IH [of "?step h w"] by (cases "set hs = {}") (simp_all add: max.assoc)
  qed simp
  moreover have "fold ?step hs Scope_None = Scope_None" if "\<forall>h \<in> set hs. hs_scope h = Scope_Unknown"
    using that by (induction hs) auto
  ultimately show ?thesis by (simp add: fabric_scope_def)
qed

text \<open>The linear merge decides inclusion. On built snapshots \<open>references_resolve\<close> holds for capacity and for
  signals exactly when every entry names a resource of the topology.\<close>

lemma references_resolve_exact:
  assumes "build_topology t0 = Inr t" and "build_capacity c0 = Inr c" and "build_signals s0 = Inr s"
  shows "(capacity_resolves t c \<longleftrightarrow> (\<forall>e \<in> set (cs_entries c0). \<exists>r \<in> set (tp_resources t0). rs_id r = cap_resource e)) \<and>
    (signals_resolve t s \<longleftrightarrow> (\<forall>e \<in> set (ss_records s0). \<exists>r \<in> set (tp_resources t0). rs_id r = sr_resource e))"
proof -
  note tw = build_topology_wf [OF assms(1)] and cw = build_capacity_wf [OF assms(2)] and sw = build_signals_wf [OF assms(3)]
  have "has_resource t i \<longleftrightarrow> (\<exists>r \<in> set (tp_resources t0). rs_id r = i)" for i
    using has_resource_set [OF tw(1), of i] tw(3) by auto
  then show ?thesis
    using capacity_resolves_iff [OF tw(1) cw(1)] signals_resolve_iff [OF tw(1) sw(1)] cw(2) sw(2) by simp
qed

text \<open>The totals a verdict rests on are the capacities of the resources: fabric capacity sums every usable
  resource, saturated capacity those whose believable sample is over a threshold, each capped at
  \<open>UINT64_MAX\<close>, and no inadmissible, stale or contradictory sample counts as saturated.\<close>

lemma scan_totals_exact:
  "unat (sc_fabric (scan th now c s rs)) = min (\<Sum>r\<leftarrow>rs. unat (units_of c r)) (2 ^ 64 - 1) \<and>
   unat (sc_saturated (scan th now c s rs)) = min
     (\<Sum>r\<leftarrow>filter (\<lambda>r. cl_saturated (resource_cell th now c s r)) rs. unat (units_of c r)) (2 ^ 64 - 1) \<and>
   sc_saturated_count (scan th now c s rs) = length (filter cl_saturated (sc_cells (scan th now c s rs))) \<and>
   (\<forall>cell \<in> set (sc_cells (scan th now c s rs)). cl_saturated cell \<longrightarrow>
      cl_admissible cell \<and> \<not> cl_contradictory cell \<and> \<not> cl_stale cell)"
proof -
  have "sc_saturated_count (scan th now c s rs) = length (filter cl_saturated (sc_cells (scan th now c s rs)))"
    by (simp add: scan_cells) (simp add: scan_def scan_fold(6) filter_map comp_def)
  moreover have "cl_admissible cell \<and> \<not> cl_contradictory cell \<and> \<not> cl_stale cell"
    if "cell \<in> set (sc_cells (scan th now c s rs))" "cl_saturated cell" for cell
  proof -
    from that obtain r where r: "cell = resource_cell th now c s r" by (auto simp: scan_cells)
    from resource_cell_saturated [of th now c s r] that(2) r measure_cell_flags(2,3)
    show ?thesis by auto
  qed
  ultimately show ?thesis using scan_totals [of th now c s rs] by blast
qed

end
