(* ===== verification/HGM_Planning.thy ===== *)
theory HGM_Planning
  imports HGM_Detection "HOL-Library.Sublist"
begin

text \<open>
  Bounded mitigation planning (\<^verbatim>\<open>include/hgm/intervention.hpp\<close>, \<^verbatim>\<open>src/intervention.cpp\<close>): the
  early refusals, the escalation branch, and the loop that gives each eligible hotspot at most one
  intent, the first candidate kind that survives every budget check. The lemmas reduce the inner
  loop, which interleaves refusals with the search, to \<open>find\<close> on the candidate list, and show the
  plan invariant. Rationales and refusal reasons are text for operators and are left out.
\<close>

section \<open>Data\<close>

record MitigationIntent =
  mi_id :: InterventionId
  mi_kind :: MitigationKind
  mi_hotspot :: HotspotId
  mi_escalation_hotspot :: HotspotId
  mi_resources :: "ResourceId list"
  mi_paths :: "PathId list"
  mi_flows :: "FlowId list"
  mi_truncated :: bool
  mi_rate_delta :: int
  mi_rate_bounded :: u32
  mi_scope_share :: u32
  mi_severity :: Severity
  mi_hotspot_scope :: CongestionScope
  mi_cause :: SaturationCause
  mi_escalation :: bool
  mi_binding :: EvidenceBinding
  mi_policy_provenance :: Provenance
  mi_authority :: AuthorityVector

record SuppressedAction =
  sa_kind :: MitigationKind
  sa_hotspot :: HotspotId

record InterventionPlan =
  pl_intents :: "MitigationIntent list"
  pl_suppressed :: "SuppressedAction list"
  pl_authority :: AuthorityVector
  pl_binding :: EvidenceBinding
  pl_escalation_required :: bool
  pl_scope_share :: u32
  pl_rejected :: nat

record IntentDraft =
  dr_kind :: MitigationKind
  dr_resources :: "ResourceId list"
  dr_paths :: "PathId list"
  dr_flows :: "FlowId list"
  dr_rate_delta :: int

section \<open>Helpers\<close>

definition note_suppression :: "MitigationKind \<Rightarrow> HotspotId \<Rightarrow> InterventionPlan \<Rightarrow> InterventionPlan" where
  "note_suppression kind hotspot plan =
     (if length (pl_suppressed plan) \<ge> kMaxSuppressedEntries then plan
      else if \<exists>a \<in> set (pl_suppressed plan). sa_kind a = kind \<and> sa_hotspot a = hotspot then plan
      else plan\<lparr>pl_suppressed := pl_suppressed plan @ [\<lparr>sa_kind = kind, sa_hotspot = hotspot\<rparr>]\<rparr>)"

definition reject_intent :: "InterventionPlan \<Rightarrow> InterventionPlan" where
  "reject_intent plan = plan\<lparr>pl_rejected := pl_rejected plan + 1\<rparr>"

definition share_of :: "CapacitySnapshot option \<Rightarrow> ResourceId list \<Rightarrow> u64 \<Rightarrow> u32" where
  "share_of capacity resources fabric =
     (case capacity of
        None \<Rightarrow> 0
      | Some c \<Rightarrow>
          if fabric = 0 then 0
          else ratio_or0 (fold (\<lambda>i total. case find_capacity c i of
                            None \<Rightarrow> total | Some e \<Rightarrow> sat_add total (cap_units e)) resources 0) fabric)"

definition plan_find :: "InterventionPlan \<Rightarrow> InterventionId \<Rightarrow> MitigationIntent option" where
  "plan_find plan i = find (\<lambda>intent. mi_id intent = i) (pl_intents plan)"

text \<open>\<open>std::to_string\<close> of a signed integer.\<close>

definition signed_decimal :: "int \<Rightarrow> string" where
  "signed_decimal z = (if z < 0 then ''-'' @ decimal (nat (- z)) else decimal (nat z))"

text \<open>The candidate kinds for a cause, in priority order.\<close>

definition candidate_kinds :: "SaturationCause \<Rightarrow> MitigationKind list" where
  "candidate_kinds cause =
     (case cause of
        Cause_FanInContention \<Rightarrow> [MK_FlowRelocation, MK_PathRebalance, MK_RatePacingChange, MK_AdmissionReduction]
      | Cause_StructuralConvergence \<Rightarrow> [MK_PathRebalance, MK_AdmissionReduction, MK_RatePacingChange]
      | Cause_CapacityExhaustion \<Rightarrow> [MK_AdmissionReduction, MK_RatePacingChange, MK_FlowRelocation, MK_ResourceIsolation]
      | Cause_QueueBuildup \<Rightarrow> [MK_RatePacingChange, MK_AdmissionReduction, MK_PathRebalance]
      | Cause_BufferExhaustion \<Rightarrow> [MK_AdmissionReduction, MK_ResourceIsolation, MK_RatePacingChange]
      | _ \<Rightarrow> [MK_AdmissionReduction])"

definition plan_attribution_usable :: "Thresholds \<Rightarrow> Hotspot \<Rightarrow> bool" where
  "plan_attribution_usable th h \<longleftrightarrow>
     hs_attribution_confidence h \<ge> th_min_attribution_confidence_ppm th \<and> hs_contributors h \<noteq> []"

section \<open>Drafts\<close>

text \<open>The loop over the healthy neighbours, with its \<open>break\<close>.\<close>

fun push_neighbors :: "ResourceId list \<Rightarrow> ResourceId list \<Rightarrow> ResourceId list" where
  "push_neighbors acc [] = acc"
| "push_neighbors acc (x # xs) =
     (if length acc \<ge> kMaxIntentAffectedResources then acc else push_neighbors (acc @ [x]) xs)"

text \<open>The two loops over the contributors; the accumulators are the flows and the paths.\<close>

fun push_flows :: "FlowId list \<Rightarrow> PathId list \<Rightarrow> Contributor list \<Rightarrow> FlowId list \<times> PathId list" where
  "push_flows flows paths [] = (flows, paths)"
| "push_flows flows paths (c # cs) =
     (if length flows \<ge> kMaxIntentAffectedFlows then (flows, paths)
      else push_flows (flows @ [co_flow c])
             (if length paths < kMaxIntentAffectedPaths then paths @ [co_path c] else paths) cs)"

fun push_paths :: "FlowId list \<Rightarrow> PathId list \<Rightarrow> Contributor list \<Rightarrow> FlowId list \<times> PathId list" where
  "push_paths flows paths [] = (flows, paths)"
| "push_paths flows paths (c # cs) =
     (if length paths \<ge> kMaxIntentAffectedPaths then (flows, paths)
      else push_paths (if length flows < kMaxIntentAffectedFlows then flows @ [co_flow c] else flows)
             (paths @ [co_path c]) cs)"

definition rate_excess :: "Thresholds \<Rightarrow> Hotspot \<Rightarrow> u32" where
  "rate_excess th h =
     (let target = th_saturation_utilization_ppm th;
          excess = (if hs_peak_utilization h > target then hs_peak_utilization h - target else 0)
      in if excess = 0
         then if hs_peak_pressure h > target then hs_peak_pressure h - target else 0
         else excess)"

definition has_drops :: "FabricAssessment \<Rightarrow> bool" where
  "has_drops r \<longleftrightarrow> (\<exists>p \<in> set (fa_pressures r). rp_saturated p \<and> rp_drops p > 0)"

text \<open>The draft of one kind, None where the source refuses it; sorted and without duplicates.\<close>

definition make_draft :: "FabricAssessment \<Rightarrow> PolicySnapshot \<Rightarrow> Hotspot \<Rightarrow> MitigationKind \<Rightarrow> IntentDraft option" where
  "make_draft r policy h kind =
     (let usable = plan_attribution_usable (po_thresholds policy) h;
          draft = \<lparr>dr_kind = kind, dr_resources = hs_resources h, dr_paths = [], dr_flows = [], dr_rate_delta = 0\<rparr>;
          raw = (if kind = MK_FlowRelocation then
                   if bg_require_attribution_for_relocation (po_budget policy) \<and> \<not> usable then None
                   else let d = draft\<lparr>dr_resources := push_neighbors (hs_resources h) (hs_healthy h)\<rparr>
                        in if usable
                           then let (flows, paths) = push_flows [] [] (hs_contributors h)
                                in Some (d\<lparr>dr_flows := flows, dr_paths := paths\<rparr>)
                           else Some d
                 else if kind = MK_PathRebalance then
                   if \<not> usable then None
                   else let (flows, paths) = push_paths [] [] (hs_contributors h)
                        in Some (draft\<lparr>dr_flows := flows, dr_paths := paths\<rparr>)
                 else if kind = MK_RatePacingChange then
                   let excess = rate_excess (po_thresholds policy) h
                   in if excess = 0 then None
                      else Some (draft\<lparr>dr_rate_delta := - uint (min excess (bg_max_rate_delta_ppm (po_budget policy)))\<rparr>)
                 else if kind = MK_ResourceIsolation then
                   if has_drops r then Some draft else None
                 else Some draft)
      in map_option (\<lambda>d. d\<lparr>dr_resources := sorted_unique (dr_resources d), dr_paths := sorted_unique (dr_paths d),
                            dr_flows := sorted_unique (dr_flows d)\<rparr>) raw)"

section \<open>Budgets\<close>

text \<open>
  The checks of one draft against the per-intent budget, the hard bounds, the topology and the
  share budgets. \<open>Inl counted\<close> is a refusal, counted in \<open>rejected_intent_count\<close> or not;
  \<open>Inr (share, projected)\<close> admits it.
\<close>

definition check_draft ::
    "TopologySnapshot \<Rightarrow> CapacitySnapshot option \<Rightarrow> MitigationBudget \<Rightarrow> u64 \<Rightarrow> u32 \<Rightarrow> IntentDraft \<Rightarrow> bool + u32 \<times> u64" where
  "check_draft t capacity budget fabric plan_share d =
     (if length (dr_resources d) > unat (bg_max_affected_resources budget) then Inl False
      else if length (dr_paths d) > unat (bg_max_affected_paths budget) then Inl False
      else if length (dr_flows d) > unat (bg_max_affected_flows budget) then Inl False
      else if length (dr_resources d) > kMaxIntentAffectedResources \<or> length (dr_paths d) > kMaxIntentAffectedPaths
              \<or> length (dr_flows d) > kMaxIntentAffectedFlows then Inl False
      else if \<not> (\<forall>i \<in> set (dr_resources d). has_resource t i) then Inl False
      else let share = share_of capacity (dr_resources d) fabric
           in if share > bg_max_scope_share_ppm budget then Inl False
              else let projected = (ucast plan_share :: u64) + ucast share
                   in if projected > ucast (bg_max_plan_scope_share_ppm budget) then Inl True
                      else Inr (share, projected))"

definition canonical_intent :: "MitigationKind \<Rightarrow> HotspotId \<Rightarrow> ResourceId list \<Rightarrow> int \<Rightarrow> string" where
  "canonical_intent kind hotspot resources delta =
     ''iv1|'' @ decimal (unat (mk_code kind)) @ ''|h'' @ hex64 hotspot @ ''|n'' @ decimal (length resources)
     @ ''|r'' @ concat (map (\<lambda>i. hex64 i @ '','') resources) @ ''|d'' @ signed_decimal delta"

definition make_intent :: "PolicySnapshot \<Rightarrow> AuthorityVector \<Rightarrow> Hotspot \<Rightarrow> u32 \<Rightarrow> IntentDraft \<Rightarrow> MitigationIntent" where
  "make_intent policy authority h share d =
     \<lparr>mi_id = identity_from_bytes (canonical_intent (dr_kind d) (hs_id h) (dr_resources d) (dr_rate_delta d)),
      mi_kind = dr_kind d, mi_hotspot = hs_id h, mi_escalation_hotspot = 0, mi_resources = dr_resources d,
      mi_paths = dr_paths d, mi_flows = dr_flows d, mi_truncated = False, mi_rate_delta = dr_rate_delta d,
      mi_rate_bounded = word_of_int (if dr_rate_delta d < 0 then - dr_rate_delta d else dr_rate_delta d),
      mi_scope_share = share, mi_severity = hs_severity h, mi_hotspot_scope = hs_scope h, mi_cause = hs_cause h,
      mi_escalation = False, mi_binding = hs_binding h, mi_policy_provenance = po_provenance policy,
      mi_authority = seal (auth_grant AD_MitigationBudget authority)\<rparr>"

section \<open>The plan\<close>

text \<open>What the loops of one call share.\<close>

record PlanContext =
  pc_assessment :: FabricAssessment
  pc_topology :: TopologySnapshot
  pc_capacity :: "CapacitySnapshot option"
  pc_policy :: PolicySnapshot

text \<open>One round of the candidate loop; the flag is \<open>emitted_here \<ge> 1\<close>.\<close>

definition try_kind :: "PlanContext \<Rightarrow> Hotspot \<Rightarrow> MitigationKind \<Rightarrow> InterventionPlan \<times> bool \<Rightarrow> InterventionPlan \<times> bool" where
  "try_kind pc h kind st =
     (let (plan, emitted) = st; budget = po_budget (pc_policy pc); refuse = note_suppression kind (hs_id h)
      in if emitted then (refuse plan, True)
         else if \<not> budget_allows budget kind then (refuse plan, False)
         else case make_draft (pc_assessment pc) (pc_policy pc) h kind of
                None \<Rightarrow> (refuse plan, False)
              | Some d \<Rightarrow>
                  (case check_draft (pc_topology pc) (pc_capacity pc) budget (fa_fabric_capacity (pc_assessment pc))
                          (pl_scope_share plan) d of
                     Inl counted \<Rightarrow> (if counted then reject_intent (refuse plan) else refuse plan, False)
                   | Inr (share, projected) \<Rightarrow>
                       (plan\<lparr>pl_scope_share := ucast projected,
                             pl_intents := pl_intents plan @ [make_intent (pc_policy pc) (pl_authority plan) h share d]\<rparr>,
                        True)))"

definition plan_hotspot :: "PlanContext \<Rightarrow> Hotspot \<Rightarrow> InterventionPlan \<Rightarrow> InterventionPlan" where
  "plan_hotspot pc h plan =
     (if hs_remediation h \<noteq> Rem_Eligible then note_suppression MK_AdmissionReduction (hs_id h) plan
      else if length (pl_intents plan) \<ge> unat (bg_max_intents_per_plan (po_budget (pc_policy pc)))
           then reject_intent (note_suppression MK_AdmissionReduction (hs_id h) plan)
      else let (plan', emitted) = fold (try_kind pc h) (candidate_kinds (hs_cause h)) (plan, False)
           in if emitted then plan' else note_suppression MK_None (hs_id h) (reject_intent plan'))"

definition escalation_intent :: "FabricAssessment \<Rightarrow> PolicySnapshot \<Rightarrow> AuthorityVector \<Rightarrow> MitigationIntent" where
  "escalation_intent r policy authority =
     (let hotspot = (if fa_hotspots r = [] then 0 else hs_id (hd (fa_hotspots r)))
      in \<lparr>mi_id = identity_from_bytes (''iv1|esc|'' @ hex64 (eb_topology (fa_binding r)) @ ''|''
              @ decimal (unat (eb_topology_generation (fa_binding r))) @ ''|''
              @ decimal (unat (eb_signals_generation (fa_binding r)))),
          mi_kind = MK_EscalateGlobalCongestion, mi_hotspot = hotspot, mi_escalation_hotspot = hotspot,
          mi_resources = [], mi_paths = [], mi_flows = [], mi_truncated = False, mi_rate_delta = 0,
          mi_rate_bounded = 0, mi_scope_share = 0, mi_severity = Sev_Critical, mi_hotspot_scope = fa_scope r,
          mi_cause = Cause_Unknown, mi_escalation = True, mi_binding = fa_binding r,
          mi_policy_provenance = po_provenance policy,
          mi_authority = seal (auth_grant AD_MitigationBudget authority)\<rparr>)"

definition plan_escalation :: "FabricAssessment \<Rightarrow> PolicySnapshot \<Rightarrow> InterventionPlan \<Rightarrow> InterventionPlan" where
  "plan_escalation r policy plan =
     (let plan1 = fold (\<lambda>h p. if hs_remediation h = Rem_Eligible
                              then note_suppression MK_AdmissionReduction (hs_id h) p else p) (fa_hotspots r) plan
      in if bg_allow_global_escalation (po_budget policy)
         then plan1\<lparr>pl_intents := pl_intents plan1 @ [escalation_intent r policy (pl_authority plan1)]\<rparr>
         else note_suppression MK_EscalateGlobalCongestion 0 plan1)"

definition initial_plan :: "FabricAssessment \<Rightarrow> InterventionPlan" where
  "initial_plan r = \<lparr>pl_intents = [], pl_suppressed = [], pl_authority = fa_authority r, pl_binding = fa_binding r,
     pl_escalation_required = fa_escalation_required r, pl_scope_share = 0, pl_rejected = 0\<rparr>"

definition plan_deny :: "AuthorityDomain \<Rightarrow> InterventionPlan \<Rightarrow> InterventionPlan" where
  "plan_deny d plan = plan\<lparr>pl_authority := seal (auth_deny d (pl_authority plan))\<rparr>"

definition plan_interventions ::
    "FabricAssessment \<Rightarrow> TopologySnapshot option \<Rightarrow> CapacitySnapshot option \<Rightarrow> PolicySnapshot option \<Rightarrow> Millis
       \<Rightarrow> InterventionPlan" where
  "plan_interventions r topology capacity policy now =
     (let plan = initial_plan r in
      case topology of
        None \<Rightarrow> plan_deny AD_Topology plan
      | Some t \<Rightarrow>
          if \<not> tp_built t then plan_deny AD_Topology plan
          else if valid_id (eb_topology (fa_binding r)) \<and> eb_topology (fa_binding r) \<noteq> tp_id t
               then plan_deny AD_Topology plan
          else (case policy of
                  None \<Rightarrow> plan_deny AD_Policy plan
                | Some p \<Rightarrow>
                    if expired_at p now then plan_deny AD_Policy plan
                    else if fa_escalation_required r
                         then let plan1 = plan_escalation r p plan
                              in plan1\<lparr>pl_authority := seal (pl_authority plan1)\<rparr>
                    else let pc = \<lparr>pc_assessment = r, pc_topology = t, pc_capacity = capacity, pc_policy = p\<rparr>;
                             plan1 = fold (plan_hotspot pc) (fa_hotspots r) plan
                         in plan1\<lparr>pl_authority := seal (auth_grant AD_MitigationBudget (pl_authority plan1))\<rparr>))"

section \<open>Refusals leave the intents alone\<close>

lemma note_suppression_fields [simp]:
  "pl_intents (note_suppression k i p) = pl_intents p" "pl_authority (note_suppression k i p) = pl_authority p"
  "pl_scope_share (note_suppression k i p) = pl_scope_share p" "pl_rejected (note_suppression k i p) = pl_rejected p"
  "pl_binding (note_suppression k i p) = pl_binding p"
  by (simp_all add: note_suppression_def)

lemma reject_intent_fields [simp]:
  "pl_intents (reject_intent p) = pl_intents p" "pl_authority (reject_intent p) = pl_authority p"
  "pl_scope_share (reject_intent p) = pl_scope_share p" "pl_suppressed (reject_intent p) = pl_suppressed p"
  "pl_binding (reject_intent p) = pl_binding p"
  by (simp_all add: reject_intent_def)

section \<open>The candidate loop is a search\<close>

text \<open>
  What a kind would emit when the plan has spent \<open>share\<close>; refusals change neither the intents nor
  the spent share, so the loop is a search for the first kind that is admitted.
\<close>

definition admitted ::
    "PlanContext \<Rightarrow> u32 \<Rightarrow> Hotspot \<Rightarrow> MitigationKind \<Rightarrow> (IntentDraft \<times> u32 \<times> u64) option" where
  "admitted pc share h kind =
     (if \<not> budget_allows (po_budget (pc_policy pc)) kind then None
      else case make_draft (pc_assessment pc) (pc_policy pc) h kind of
             None \<Rightarrow> None
           | Some d \<Rightarrow>
               (case check_draft (pc_topology pc) (pc_capacity pc) (po_budget (pc_policy pc))
                       (fa_fabric_capacity (pc_assessment pc)) share d of
                  Inl _ \<Rightarrow> None
                | Inr (s, p) \<Rightarrow> Some (d, s, p)))"

definition chosen_kind :: "PlanContext \<Rightarrow> u32 \<Rightarrow> Hotspot \<Rightarrow> MitigationKind list \<Rightarrow> MitigationKind option" where
  "chosen_kind pc share h kinds = find (\<lambda>k. admitted pc share h k \<noteq> None) kinds"

definition emit :: "PlanContext \<Rightarrow> Hotspot \<Rightarrow> AuthorityVector \<Rightarrow> IntentDraft \<times> u32 \<times> u64 \<Rightarrow> MitigationIntent" where
  "emit pc h authority x = make_intent (pc_policy pc) authority h (fst (snd x)) (fst x)"

lemma try_kind_emitted: "try_kind pc h k (plan, True) = (note_suppression k (hs_id h) plan, True)"
  by (simp add: try_kind_def)

lemma try_kind_refused:
  assumes "admitted pc (pl_scope_share plan) h k = None"
  shows "\<exists>plan'. try_kind pc h k (plan, False) = (plan', False) \<and> pl_intents plan' = pl_intents plan \<and>
     pl_scope_share plan' = pl_scope_share plan \<and> pl_authority plan' = pl_authority plan"
  using assms by (auto simp: try_kind_def admitted_def Let_def split: option.splits sum.splits if_splits)

lemma try_kind_admitted:
  assumes "admitted pc (pl_scope_share plan) h k = Some x"
  shows "try_kind pc h k (plan, False) = (plan\<lparr>pl_scope_share := ucast (snd (snd x)),
     pl_intents := pl_intents plan @ [emit pc h (pl_authority plan) x]\<rparr>, True)"
  using assms by (auto simp: try_kind_def admitted_def emit_def Let_def split: option.splits sum.splits if_splits)

lemma fold_try_emitted:
  "\<exists>plan'. fold (try_kind pc h) ks (plan, True) = (plan', True) \<and> pl_intents plan' = pl_intents plan \<and>
     pl_scope_share plan' = pl_scope_share plan \<and> pl_authority plan' = pl_authority plan"
proof (induction ks arbitrary: plan)
  case (Cons k ks)
  show ?case using Cons.IH [of "note_suppression k (hs_id h) plan"] by (auto simp: try_kind_emitted)
qed simp

lemma fold_try_kind:
  "\<exists>plan' e. fold (try_kind pc h) ks (plan, False) = (plan', e) \<and> pl_authority plan' = pl_authority plan \<and>
     (case chosen_kind pc (pl_scope_share plan) h ks of
        None \<Rightarrow> \<not> e \<and> pl_intents plan' = pl_intents plan \<and> pl_scope_share plan' = pl_scope_share plan
      | Some k \<Rightarrow> e \<and> (let x = the (admitted pc (pl_scope_share plan) h k) in
          pl_intents plan' = pl_intents plan @ [emit pc h (pl_authority plan) x] \<and>
          pl_scope_share plan' = ucast (snd (snd x))))"
proof (induction ks arbitrary: plan)
  case (Cons k ks)
  show ?case
  proof (cases "admitted pc (pl_scope_share plan) h k")
    case None
    obtain p1 where p1: "try_kind pc h k (plan, False) = (p1, False)" "pl_intents p1 = pl_intents plan"
      "pl_scope_share p1 = pl_scope_share plan" "pl_authority p1 = pl_authority plan"
      using try_kind_refused [OF None] by blast
    have "chosen_kind pc (pl_scope_share plan) h (k # ks) = chosen_kind pc (pl_scope_share plan) h ks"
      using None by (simp add: chosen_kind_def)
    then show ?thesis using Cons.IH [of p1] unfolding p1(2-4) by (simp add: p1(1))
  next
    case (Some x)
    then have "chosen_kind pc (pl_scope_share plan) h (k # ks) = Some k" by (cases x) (simp add: chosen_kind_def)
    then show ?thesis
      using fold_try_emitted [of pc h ks "plan\<lparr>pl_scope_share := ucast (snd (snd x)),
         pl_intents := pl_intents plan @ [emit pc h (pl_authority plan) x]\<rparr>"] Some
      by (auto simp: try_kind_admitted [OF Some])
  qed
qed (auto simp: chosen_kind_def)

text \<open>The plan after one hotspot, as far as the intents are concerned.\<close>

definition next_choice :: "PlanContext \<Rightarrow> InterventionPlan \<Rightarrow> Hotspot \<Rightarrow> MitigationKind option" where
  "next_choice pc plan h =
     (if hs_remediation h \<noteq> Rem_Eligible \<or>
         length (pl_intents plan) \<ge> unat (bg_max_intents_per_plan (po_budget (pc_policy pc))) then None
      else chosen_kind pc (pl_scope_share plan) h (candidate_kinds (hs_cause h)))"

lemma plan_hotspot_intents:
  "pl_authority (plan_hotspot pc h plan) = pl_authority plan \<and>
   (case next_choice pc plan h of
      None \<Rightarrow> pl_intents (plan_hotspot pc h plan) = pl_intents plan \<and>
              pl_scope_share (plan_hotspot pc h plan) = pl_scope_share plan
    | Some k \<Rightarrow> (let x = the (admitted pc (pl_scope_share plan) h k) in
        pl_intents (plan_hotspot pc h plan) = pl_intents plan @ [emit pc h (pl_authority plan) x] \<and>
        pl_scope_share (plan_hotspot pc h plan) = ucast (snd (snd x))))"
proof (cases "hs_remediation h \<noteq> Rem_Eligible \<or>
    length (pl_intents plan) \<ge> unat (bg_max_intents_per_plan (po_budget (pc_policy pc)))")
  case True
  then show ?thesis by (auto simp: plan_hotspot_def next_choice_def)
next
  case False
  then have nc: "next_choice pc plan h = chosen_kind pc (pl_scope_share plan) h (candidate_kinds (hs_cause h))"
    by (simp add: next_choice_def)
  obtain plan' e where f: "fold (try_kind pc h) (candidate_kinds (hs_cause h)) (plan, False) = (plan', e)"
    "pl_authority plan' = pl_authority plan"
    "case next_choice pc plan h of
        None \<Rightarrow> \<not> e \<and> pl_intents plan' = pl_intents plan \<and> pl_scope_share plan' = pl_scope_share plan
      | Some k \<Rightarrow> e \<and> (let x = the (admitted pc (pl_scope_share plan) h k) in
          pl_intents plan' = pl_intents plan @ [emit pc h (pl_authority plan) x] \<and>
          pl_scope_share plan' = ucast (snd (snd x)))"
    using fold_try_kind [of pc h "candidate_kinds (hs_cause h)" plan] unfolding nc by blast
  have "plan_hotspot pc h plan = (if e then plan' else note_suppression MK_None (hs_id h) (reject_intent plan'))"
    using False by (simp add: plan_hotspot_def f(1))
  then show ?thesis using f(2,3) by (auto split: option.splits)
qed

section \<open>What an emitted intent satisfies\<close>

text \<open>The contract of one intent for a hotspot under a policy.\<close>

definition intent_within :: "PlanContext \<Rightarrow> Hotspot \<Rightarrow> MitigationIntent \<Rightarrow> bool" where
  "intent_within pc h i \<longleftrightarrow>
     (let budget = po_budget (pc_policy pc); usable = plan_attribution_usable (po_thresholds (pc_policy pc)) h in
      hs_remediation h = Rem_Eligible \<and> mi_hotspot i = hs_id h \<and> \<not> mi_escalation i \<and>
      mi_kind i \<in> set (candidate_kinds (hs_cause h)) \<and> budget_allows budget (mi_kind i) \<and>
      set (hs_resources h) \<subseteq> set (mi_resources i) \<and>
      set (mi_resources i) \<subseteq> set (hs_resources h) \<union> (if mi_kind i = MK_FlowRelocation then set (hs_healthy h) else {}) \<and>
      (\<forall>r \<in> set (mi_resources i). has_resource (pc_topology pc) r) \<and>
      length (mi_resources i) \<le> min (unat (bg_max_affected_resources budget)) kMaxIntentAffectedResources \<and>
      length (mi_paths i) \<le> min (unat (bg_max_affected_paths budget)) kMaxIntentAffectedPaths \<and>
      length (mi_flows i) \<le> min (unat (bg_max_affected_flows budget)) kMaxIntentAffectedFlows \<and>
      sorted_wrt (<) (mi_resources i) \<and>
      mi_scope_share i = share_of (pc_capacity pc) (mi_resources i) (fa_fabric_capacity (pc_assessment pc)) \<and>
      mi_scope_share i \<le> bg_max_scope_share_ppm budget \<and>
      mi_rate_delta i \<le> 0 \<and> - mi_rate_delta i \<le> uint (bg_max_rate_delta_ppm budget) \<and>
      uint (mi_rate_bounded i) = - mi_rate_delta i \<and>
      (mi_kind i = MK_PathRebalance \<or>
       mi_kind i = MK_FlowRelocation \<and> bg_require_attribution_for_relocation budget \<longrightarrow> usable) \<and>
      (mi_flows i \<noteq> [] \<or> mi_paths i \<noteq> [] \<longrightarrow> usable))"

lemma push_neighbors_subset:
  "set acc \<subseteq> set (push_neighbors acc xs) \<and> set (push_neighbors acc xs) \<subseteq> set acc \<union> set xs"
proof (induction xs arbitrary: acc)
  case (Cons x xs)
  show ?case using Cons.IH [of "acc @ [x]"] by auto
qed simp

lemma make_draft_spec:
  assumes "make_draft r policy h kind = Some d"
  shows "dr_kind d = kind" "sorted_wrt (<) (dr_resources d)"
    "set (hs_resources h) \<subseteq> set (dr_resources d)"
    "set (dr_resources d) \<subseteq> set (hs_resources h) \<union> (if kind = MK_FlowRelocation then set (hs_healthy h) else {})"
    "dr_rate_delta d \<le> 0" "- dr_rate_delta d \<le> uint (bg_max_rate_delta_ppm (po_budget policy))"
    "kind = MK_PathRebalance \<or> kind = MK_FlowRelocation \<and> bg_require_attribution_for_relocation (po_budget policy)
       \<Longrightarrow> plan_attribution_usable (po_thresholds policy) h"
    "dr_flows d \<noteq> [] \<or> dr_paths d \<noteq> [] \<Longrightarrow> plan_attribution_usable (po_thresholds policy) h"
proof -
  have m: "uint (min a b) \<le> uint b" for a b :: u32
    by (metis min.cobounded2 word_le_def)
  show "dr_kind d = kind" "sorted_wrt (<) (dr_resources d)" "set (hs_resources h) \<subseteq> set (dr_resources d)"
    "set (dr_resources d) \<subseteq> set (hs_resources h) \<union> (if kind = MK_FlowRelocation then set (hs_healthy h) else {})"
    "dr_rate_delta d \<le> 0" "- dr_rate_delta d \<le> uint (bg_max_rate_delta_ppm (po_budget policy))"
    "kind = MK_PathRebalance \<or> kind = MK_FlowRelocation \<and> bg_require_attribution_for_relocation (po_budget policy)
       \<Longrightarrow> plan_attribution_usable (po_thresholds policy) h"
    "dr_flows d \<noteq> [] \<or> dr_paths d \<noteq> [] \<Longrightarrow> plan_attribution_usable (po_thresholds policy) h"
    using assms push_neighbors_subset [of "hs_resources h" "hs_healthy h"]
    by (auto simp: make_draft_def Let_def strictly_sorted_sorted_unique m case_prod_beta split: if_splits)
qed

lemma check_draft_spec:
  assumes "check_draft t capacity budget fabric spent d = Inr (share, projected)"
  shows "length (dr_resources d) \<le> min (unat (bg_max_affected_resources budget)) kMaxIntentAffectedResources"
    "length (dr_paths d) \<le> min (unat (bg_max_affected_paths budget)) kMaxIntentAffectedPaths"
    "length (dr_flows d) \<le> min (unat (bg_max_affected_flows budget)) kMaxIntentAffectedFlows"
    "\<forall>i \<in> set (dr_resources d). has_resource t i"
    "share = share_of capacity (dr_resources d) fabric" "share \<le> bg_max_scope_share_ppm budget"
    "unat (ucast projected :: u32) = unat spent + unat share"
    "unat spent + unat share \<le> unat (bg_max_plan_scope_share_ppm budget)"
proof -
  have p: "projected = ucast spent + ucast share" "\<not> projected > ucast (bg_max_plan_scope_share_ppm budget)"
    using assms by (auto simp: check_draft_def Let_def split: if_splits)
  have b: "unat (x :: u32) < 2 ^ 32" for x using unat_bound [of x] by simp
  have up: "unat (ucast (x :: u32) :: u64) = unat x" for x
    using b [of x] by (simp add: unsigned_ucast_eq take_bit_nat_eq_self)
  have pu: "unat projected = unat spent + unat share"
    using b [of spent] b [of share] up [of spent] up [of share] unfolding p(1)
    by (subst unat_add_lem [THEN iffD1]) simp_all
  show le: "unat spent + unat share \<le> unat (bg_max_plan_scope_share_ppm budget)"
    using p(2) pu up [of "bg_max_plan_scope_share_ppm budget"] by (simp add: word_less_nat_alt)
  then show "unat (ucast projected :: u32) = unat spent + unat share"
    using pu b [of "bg_max_plan_scope_share_ppm budget"] by (simp add: unsigned_ucast_eq take_bit_nat_eq_self)
  show "length (dr_resources d) \<le> min (unat (bg_max_affected_resources budget)) kMaxIntentAffectedResources"
    "length (dr_paths d) \<le> min (unat (bg_max_affected_paths budget)) kMaxIntentAffectedPaths"
    "length (dr_flows d) \<le> min (unat (bg_max_affected_flows budget)) kMaxIntentAffectedFlows"
    "\<forall>i \<in> set (dr_resources d). has_resource t i"
    "share = share_of capacity (dr_resources d) fabric" "share \<le> bg_max_scope_share_ppm budget"
    using assms by (auto simp: check_draft_def Let_def not_less split: if_splits)
qed

lemma emitted_within:
  assumes adm: "admitted pc spent h k = Some x" and el: "hs_remediation h = Rem_Eligible"
    and k: "k \<in> set (candidate_kinds (hs_cause h))"
  shows "intent_within pc h (emit pc h a x)" "mi_kind (emit pc h a x) = k"
    "unat (ucast (snd (snd x)) :: u32) = unat spent + unat (mi_scope_share (emit pc h a x))"
    "unat spent + unat (mi_scope_share (emit pc h a x)) \<le> unat (bg_max_plan_scope_share_ppm (po_budget (pc_policy pc)))"
proof -
  obtain d s p where x: "x = (d, s, p)" by (cases x)
  have al: "budget_allows (po_budget (pc_policy pc)) k"
    and d: "make_draft (pc_assessment pc) (pc_policy pc) h k = Some d"
    and c: "check_draft (pc_topology pc) (pc_capacity pc) (po_budget (pc_policy pc))
        (fa_fabric_capacity (pc_assessment pc)) spent d = Inr (s, p)"
    using adm by (auto simp: admitted_def x split: if_splits option.splits sum.splits)
  note dr = make_draft_spec [OF d] and ck = check_draft_spec [OF c]
  have e: "emit pc h a x = make_intent (pc_policy pc) a h s d" by (simp add: emit_def x)
  show "mi_kind (emit pc h a x) = k" by (simp add: e make_intent_def dr(1))
  show "unat (ucast (snd (snd x)) :: u32) = unat spent + unat (mi_scope_share (emit pc h a x))"
    "unat spent + unat (mi_scope_share (emit pc h a x)) \<le> unat (bg_max_plan_scope_share_ppm (po_budget (pc_policy pc)))"
    using ck(7,8) unfolding e by (simp_all add: make_intent_def x)
  have "uint (bg_max_rate_delta_ppm (po_budget (pc_policy pc))) < 2 ^ 32"
    using uint_bounded [of "bg_max_rate_delta_ppm (po_budget (pc_policy pc))"] by simp
  then have "uint (word_of_int (- dr_rate_delta d) :: u32) = - dr_rate_delta d"
    using dr(5,6) by (simp add: uint_word_of_int take_bit_int_eq_self del: of_int_minus wi_hom_neg)
  then show "intent_within pc h (emit pc h a x)"
    unfolding intent_within_def Let_def e
    using el k al dr ck(1-6) by (simp add: make_intent_def)
qed

section \<open>The plan invariant\<close>

text \<open>
  After the hotspots \<open>seen\<close>: the intents belong to a subsequence of the eligible ones, in their
  order and one each, each within its contract, and the plan's share is their sum and within budget.
\<close>

definition plan_inv :: "PlanContext \<Rightarrow> Hotspot list \<Rightarrow> InterventionPlan \<Rightarrow> bool" where
  "plan_inv pc seen plan \<longleftrightarrow>
     length (pl_intents plan) \<le> unat (bg_max_intents_per_plan (po_budget (pc_policy pc))) \<and>
     unat (pl_scope_share plan) = (\<Sum>i\<leftarrow>pl_intents plan. unat (mi_scope_share i)) \<and>
     unat (pl_scope_share plan) \<le> unat (bg_max_plan_scope_share_ppm (po_budget (pc_policy pc))) \<and>
     (\<exists>hs. subseq hs seen \<and> list_all2 (intent_within pc) hs (pl_intents plan))"

lemma plan_hotspot_inv:
  assumes "plan_inv pc seen plan"
  shows "plan_inv pc (seen @ [h]) (plan_hotspot pc h plan)"
proof (cases "next_choice pc plan h")
  case None
  then have "pl_intents (plan_hotspot pc h plan) = pl_intents plan"
    "pl_scope_share (plan_hotspot pc h plan) = pl_scope_share plan"
    using plan_hotspot_intents [of pc h plan] by simp_all
  with assms show ?thesis unfolding plan_inv_def by (metis subseq_rev_drop_many)
next
  case (Some k)
  then have el: "hs_remediation h = Rem_Eligible" and k: "k \<in> set (candidate_kinds (hs_cause h))"
    and room: "length (pl_intents plan) < unat (bg_max_intents_per_plan (po_budget (pc_policy pc)))"
    and ne: "admitted pc (pl_scope_share plan) h k \<noteq> None"
    by (auto simp: next_choice_def chosen_kind_def find_Some_iff in_set_conv_nth split: if_splits)
  then obtain x where x: "admitted pc (pl_scope_share plan) h k = Some x" by blast
  let ?i = "emit pc h (pl_authority plan) x"
  note w = emitted_within [OF x el k, of "pl_authority plan"]
  have f: "pl_intents (plan_hotspot pc h plan) = pl_intents plan @ [?i]"
    "pl_scope_share (plan_hotspot pc h plan) = ucast (snd (snd x))"
    using plan_hotspot_intents [of pc h plan] Some x by simp_all
  from assms obtain hs where "subseq hs seen" "list_all2 (intent_within pc) hs (pl_intents plan)"
    by (auto simp: plan_inv_def)
  then have "subseq (hs @ [h]) (seen @ [h])" "list_all2 (intent_within pc) (hs @ [h]) (pl_intents plan @ [?i])"
    using w(1) by (simp_all add: list_all2_appendI)
  then have "\<exists>hs. subseq hs (seen @ [h]) \<and> list_all2 (intent_within pc) hs (pl_intents plan @ [?i])" by blast
  then show ?thesis using assms room w(3,4) unfolding plan_inv_def f by simp
qed

lemma fold_plan_inv:
  "plan_inv pc seen plan \<Longrightarrow> plan_inv pc (seen @ hs) (fold (plan_hotspot pc) hs plan)"
proof (induction hs arbitrary: seen plan)
  case (Cons h hs)
  show ?case using Cons.IH [OF plan_hotspot_inv [OF Cons.prems, of h]] by simp
qed simp

lemma initial_plan_inv: "plan_inv pc [] (initial_plan r)"
  by (simp add: plan_inv_def initial_plan_def)

lemma fold_plan_authority: "pl_authority (fold (plan_hotspot pc) hs plan) = pl_authority plan"
  by (induction hs arbitrary: plan) (simp_all add: plan_hotspot_intents)

text \<open>
  The branches of \<open>plan_interventions\<close>. Past its first gates a call plans under a topology and a live
  policy, either in the loop over the hotspots or in the escalation branch; at a gate it returns an
  empty plan whose authority vector denies the missing domain.
\<close>

definition plans_under :: "FabricAssessment \<Rightarrow> TopologySnapshot option \<Rightarrow> PolicySnapshot option \<Rightarrow> Millis
    \<Rightarrow> TopologySnapshot \<Rightarrow> PolicySnapshot \<Rightarrow> bool" where
  "plans_under r topology policy now t p \<longleftrightarrow>
     topology = Some t \<and> tp_built t \<and> (valid_id (eb_topology (fa_binding r)) \<longrightarrow> eb_topology (fa_binding r) = tp_id t) \<and>
     policy = Some p \<and> \<not> expired_at p now"

lemma plan_interventions_local:
  assumes "plans_under r topology policy now t p" and "\<not> fa_escalation_required r"
  shows "plan_interventions r topology capacity policy now =
     (let pc = \<lparr>pc_assessment = r, pc_topology = t, pc_capacity = capacity, pc_policy = p\<rparr>;
          plan = fold (plan_hotspot pc) (fa_hotspots r) (initial_plan r)
      in plan\<lparr>pl_authority := seal (auth_grant AD_MitigationBudget (fa_authority r))\<rparr>)"
  using assms by (auto simp: plan_interventions_def plans_under_def Let_def fold_plan_authority initial_plan_def)

lemma plan_interventions_escalating:
  assumes "plans_under r topology policy now t p" and "fa_escalation_required r"
  shows "plan_interventions r topology capacity policy now =
     (let plan = plan_escalation r p (initial_plan r) in plan\<lparr>pl_authority := seal (pl_authority plan)\<rparr>)"
  using assms by (auto simp: plan_interventions_def plans_under_def Let_def)

lemma plan_interventions_withheld:
  assumes "\<nexists>t p. plans_under r topology policy now t p"
  shows "\<exists>d \<in> {AD_Topology, AD_Policy}. plan_interventions r topology capacity policy now = plan_deny d (initial_plan r)"
  using assms by (auto simp: plan_interventions_def plans_under_def Let_def split: option.splits)

lemma plan_deny_spec:
  "pl_intents (plan_deny d (initial_plan r)) = []" "pl_suppressed (plan_deny d (initial_plan r)) = []"
  "pl_scope_share (plan_deny d (initial_plan r)) = 0" "\<not> granted (pl_authority (plan_deny d (initial_plan r))) d"
proof -
  show "pl_intents (plan_deny d (initial_plan r)) = []" "pl_suppressed (plan_deny d (initial_plan r)) = []"
    "pl_scope_share (plan_deny d (initial_plan r)) = 0" by (simp_all add: plan_deny_def initial_plan_def)
  show "\<not> granted (pl_authority (plan_deny d (initial_plan r))) d"
    by (simp add: plan_deny_def initial_plan_def granted_seal auth_deny_def last_finding_def)
qed

text \<open>The loop of the escalation branch, which logs the hotspots whose mitigation is withheld.\<close>

abbreviation withhold :: "Hotspot \<Rightarrow> InterventionPlan \<Rightarrow> InterventionPlan" where
  "withhold h plan \<equiv> (if hs_remediation h = Rem_Eligible then note_suppression MK_AdmissionReduction (hs_id h) plan else plan)"

lemma fold_withhold_fields:
  "pl_intents (fold withhold hs plan) = pl_intents plan" "pl_scope_share (fold withhold hs plan) = pl_scope_share plan"
  "pl_authority (fold withhold hs plan) = pl_authority plan"
  by (induction hs arbitrary: plan) simp_all

lemma plan_escalation_intents:
  "pl_intents (plan_escalation r p (initial_plan r)) =
     (if bg_allow_global_escalation (po_budget p) then [escalation_intent r p (fa_authority r)] else [])"
  "pl_scope_share (plan_escalation r p (initial_plan r)) = 0"
  unfolding plan_escalation_def Let_def by (simp_all add: fold_withhold_fields) (simp_all add: initial_plan_def)

section \<open>The refusal log\<close>

text \<open>The intents and the log only grow.\<close>

definition plan_le :: "InterventionPlan \<Rightarrow> InterventionPlan \<Rightarrow> bool" where
  "plan_le p q \<longleftrightarrow> set (pl_intents p) \<subseteq> set (pl_intents q) \<and> set (pl_suppressed p) \<subseteq> set (pl_suppressed q) \<and>
     length (pl_suppressed p) \<le> length (pl_suppressed q)"

definition log_ok :: "InterventionPlan \<Rightarrow> bool" where
  "log_ok p \<longleftrightarrow> length (pl_suppressed p) \<le> kMaxSuppressedEntries \<and> distinct (pl_suppressed p)"

definition log_names :: "MitigationKind \<Rightarrow> HotspotId \<Rightarrow> InterventionPlan \<Rightarrow> bool" where
  "log_names k i p \<longleftrightarrow> \<lparr>sa_kind = k, sa_hotspot = i\<rparr> \<in> set (pl_suppressed p) \<or>
     length (pl_suppressed p) \<ge> kMaxSuppressedEntries"

lemma plan_le_trans: "plan_le p q \<Longrightarrow> plan_le q s \<Longrightarrow> plan_le p s"
  by (auto simp: plan_le_def)

lemma note_suppression_log:
  "plan_le p (note_suppression k i p)" "log_ok p \<Longrightarrow> log_ok (note_suppression k i p)"
  "log_names k i (note_suppression k i p)"
proof -
  show "plan_le p (note_suppression k i p)" by (auto simp: plan_le_def note_suppression_def)
  show "log_ok p \<Longrightarrow> log_ok (note_suppression k i p)" by (auto simp: log_ok_def note_suppression_def)
  show "log_names k i (note_suppression k i p)"
  proof (cases "\<exists>a \<in> set (pl_suppressed p). sa_kind a = k \<and> sa_hotspot a = i")
    case True
    then obtain a where a: "a \<in> set (pl_suppressed p)" "sa_kind a = k" "sa_hotspot a = i" by blast
    have "a = \<lparr>sa_kind = k, sa_hotspot = i\<rparr>" using a(2,3) by (cases a) simp
    with a True show ?thesis by (auto simp: log_names_def note_suppression_def)
  qed (auto simp: log_names_def note_suppression_def)
qed

lemma reject_intent_log [simp]:
  "plan_le p (reject_intent q) = plan_le p q" "plan_le (reject_intent p) q = plan_le p q"
  "log_ok (reject_intent p) = log_ok p" "log_names k i (reject_intent p) = log_names k i p"
  by (simp_all add: plan_le_def log_ok_def log_names_def)

lemma log_names_mono: "log_names k i p \<Longrightarrow> plan_le p q \<Longrightarrow> log_names k i q"
  by (auto simp: log_names_def plan_le_def)

lemma try_kind_log:
  "plan_le p (fst (try_kind pc h k (p, e)))" "log_ok p \<Longrightarrow> log_ok (fst (try_kind pc h k (p, e)))"
proof -
  have "plan_le p (p\<lparr>pl_scope_share := x, pl_intents := pl_intents p @ [i]\<rparr>)"
    "log_ok p \<Longrightarrow> log_ok (p\<lparr>pl_scope_share := x, pl_intents := pl_intents p @ [i]\<rparr>)" for x i
    by (auto simp: plan_le_def log_ok_def)
  then show "plan_le p (fst (try_kind pc h k (p, e)))" "log_ok p \<Longrightarrow> log_ok (fst (try_kind pc h k (p, e)))"
    using note_suppression_log(1,2) [of p k "hs_id h"]
    by (auto simp: try_kind_def Let_def split: option.splits sum.splits)
qed

lemma fold_try_log:
  "plan_le (fst st) (fst (fold (try_kind pc h) ks st)) \<and> (log_ok (fst st) \<longrightarrow> log_ok (fst (fold (try_kind pc h) ks st)))"
proof (induction ks arbitrary: st)
  case (Cons k ks)
  obtain p e where st: "st = (p, e)" by (cases st)
  show ?case using Cons.IH [of "try_kind pc h k st"] try_kind_log [of p pc h k e] plan_le_trans unfolding st
    by auto
qed (simp add: plan_le_def)

lemma plan_hotspot_log:
  "plan_le plan (plan_hotspot pc h plan)" "log_ok plan \<Longrightarrow> log_ok (plan_hotspot pc h plan)"
  "hs_id h \<in> mi_hotspot ` set (pl_intents (plan_hotspot pc h plan)) \<or>
     log_names MK_AdmissionReduction (hs_id h) (plan_hotspot pc h plan) \<or> log_names MK_None (hs_id h) (plan_hotspot pc h plan)"
proof -
  obtain plan' e where f: "fold (try_kind pc h) (candidate_kinds (hs_cause h)) (plan, False) = (plan', e)" by fastforce
  have l: "plan_le plan plan'" "log_ok plan \<Longrightarrow> log_ok plan'"
    using fold_try_log [of "(plan, False)" pc h "candidate_kinds (hs_cause h)"] by (simp_all add: f)
  have b: "plan_hotspot pc h plan =
     (if hs_remediation h \<noteq> Rem_Eligible then note_suppression MK_AdmissionReduction (hs_id h) plan
      else if length (pl_intents plan) \<ge> unat (bg_max_intents_per_plan (po_budget (pc_policy pc)))
           then reject_intent (note_suppression MK_AdmissionReduction (hs_id h) plan)
      else if e then plan' else note_suppression MK_None (hs_id h) (reject_intent plan'))"
    by (simp add: plan_hotspot_def f)
  show "plan_le plan (plan_hotspot pc h plan)" "log_ok plan \<Longrightarrow> log_ok (plan_hotspot pc h plan)"
    using l note_suppression_log(1,2) plan_le_trans [OF l(1), of "note_suppression MK_None (hs_id h) (reject_intent plan')"]
      note_suppression_log(1) [of "reject_intent plan'" MK_None "hs_id h", simplified] by (simp_all add: b)
  have "hs_id h \<in> mi_hotspot ` set (pl_intents plan')" if "e"
    using that fold_try_kind [of pc h "candidate_kinds (hs_cause h)" plan] unfolding f
    by (auto simp: Let_def emit_def make_intent_def split: option.splits)
  then show "hs_id h \<in> mi_hotspot ` set (pl_intents (plan_hotspot pc h plan)) \<or>
     log_names MK_AdmissionReduction (hs_id h) (plan_hotspot pc h plan) \<or> log_names MK_None (hs_id h) (plan_hotspot pc h plan)"
    by (simp add: b note_suppression_log(3))
qed

definition accounted :: "InterventionPlan \<Rightarrow> Hotspot \<Rightarrow> bool" where
  "accounted plan h \<longleftrightarrow> hs_id h \<in> mi_hotspot ` set (pl_intents plan) \<or> hs_id h \<in> sa_hotspot ` set (pl_suppressed plan) \<or>
     length (pl_suppressed plan) = kMaxSuppressedEntries"

lemma fold_plan_log:
  "log_ok plan \<Longrightarrow> plan_le plan (fold (plan_hotspot pc) hs plan) \<and> log_ok (fold (plan_hotspot pc) hs plan) \<and>
     (\<forall>h \<in> set hs. accounted (fold (plan_hotspot pc) hs plan) h)"
proof (induction hs arbitrary: plan)
  case (Cons h hs)
  let ?p = "plan_hotspot pc h plan" and ?q = "fold (plan_hotspot pc) hs (plan_hotspot pc h plan)"
  note l = plan_hotspot_log [where pc = pc and h = h and plan = plan]
  note ih = Cons.IH [OF l(2) [OF Cons.prems]]
  have "accounted ?q h"
  proof -
    have le: "length (pl_suppressed ?q) \<le> kMaxSuppressedEntries" using ih by (simp add: log_ok_def)
    have "hs_id h \<in> mi_hotspot ` set (pl_intents ?q) \<or> log_names MK_AdmissionReduction (hs_id h) ?q \<or> log_names MK_None (hs_id h) ?q"
      using l(3) ih log_names_mono [of _ _ ?p ?q] by (auto simp: plan_le_def)
    then show ?thesis using le by (auto simp: accounted_def log_names_def intro: rev_image_eqI)
  qed
  moreover have "plan_le plan ?q" using plan_le_trans [OF l(1)] ih by blast
  ultimately show ?case using ih by simp
qed (simp add: plan_le_def)

text \<open>The log of the escalation branch: each eligible hotspot, and the escalation itself when the policy forbids it.\<close>

lemma fold_withhold_log:
  "log_ok plan \<Longrightarrow> plan_le plan (fold withhold hs plan) \<and> log_ok (fold withhold hs plan) \<and>
     (\<forall>h \<in> set hs. hs_remediation h = Rem_Eligible \<longrightarrow> log_names MK_AdmissionReduction (hs_id h) (fold withhold hs plan)) \<and>
     set (pl_suppressed (fold withhold hs plan)) \<subseteq> set (pl_suppressed plan) \<union>
       (\<lambda>h. \<lparr>sa_kind = MK_AdmissionReduction, sa_hotspot = hs_id h\<rparr>) ` {h \<in> set hs. hs_remediation h = Rem_Eligible}"
proof (induction hs arbitrary: plan)
  case (Cons h hs)
  let ?p = "withhold h plan" and ?q = "fold withhold hs (withhold h plan)"
  have p: "plan_le plan ?p" "log_ok ?p" using note_suppression_log(1,2) Cons.prems by (simp_all add: plan_le_def)
  note ih = Cons.IH [OF p(2)]
  have "log_names MK_AdmissionReduction (hs_id h) ?p" if "hs_remediation h = Rem_Eligible"
    using that note_suppression_log(3) by simp
  then have "\<forall>x \<in> set (h # hs). hs_remediation x = Rem_Eligible \<longrightarrow> log_names MK_AdmissionReduction (hs_id x) ?q"
    using ih log_names_mono [of MK_AdmissionReduction "hs_id h" ?p ?q] unfolding list.set(2) by blast
  moreover have "set (pl_suppressed ?q) \<subseteq> set (pl_suppressed plan) \<union>
      (\<lambda>h. \<lparr>sa_kind = MK_AdmissionReduction, sa_hotspot = hs_id h\<rparr>) ` {x \<in> set (h # hs). hs_remediation x = Rem_Eligible}"
  proof -
    have "set (pl_suppressed ?p) \<subseteq> set (pl_suppressed plan) \<union>
        (\<lambda>h. \<lparr>sa_kind = MK_AdmissionReduction, sa_hotspot = hs_id h\<rparr>) ` {x \<in> {h}. hs_remediation x = Rem_Eligible}"
      by (auto simp: note_suppression_def)
    with ih show ?thesis by fastforce
  qed
  moreover have "plan_le plan ?q" using plan_le_trans [OF p(1)] ih by blast
  ultimately show ?case using ih unfolding fold_Cons comp_apply by blast
qed (simp add: plan_le_def)

lemma plan_escalation_log:
  assumes "plan = plan_escalation r p (initial_plan r)"
  shows "log_ok plan"
    and "h \<in> set (fa_hotspots r) \<Longrightarrow> hs_remediation h = Rem_Eligible \<Longrightarrow> log_names MK_AdmissionReduction (hs_id h) plan"
    and "\<not> bg_allow_global_escalation (po_budget p) \<Longrightarrow> log_names MK_EscalateGlobalCongestion 0 plan"
    and "a \<in> set (pl_suppressed plan) \<Longrightarrow> a = \<lparr>sa_kind = MK_EscalateGlobalCongestion, sa_hotspot = 0\<rparr> \<and> \<not> bg_allow_global_escalation (po_budget p) \<or>
       (\<exists>h \<in> set (fa_hotspots r). hs_remediation h = Rem_Eligible \<and> a = \<lparr>sa_kind = MK_AdmissionReduction, sa_hotspot = hs_id h\<rparr>)"
proof -
  let ?w = "fold withhold (fa_hotspots r) (initial_plan r)"
  have "log_ok (initial_plan r)" "pl_suppressed (initial_plan r) = []" by (simp_all add: log_ok_def initial_plan_def)
  then have w: "log_ok ?w" "\<forall>h \<in> set (fa_hotspots r). hs_remediation h = Rem_Eligible \<longrightarrow> log_names MK_AdmissionReduction (hs_id h) ?w"
    "set (pl_suppressed ?w) \<subseteq> (\<lambda>h. \<lparr>sa_kind = MK_AdmissionReduction, sa_hotspot = hs_id h\<rparr>) ` {h \<in> set (fa_hotspots r). hs_remediation h = Rem_Eligible}"
    using fold_withhold_log [of "initial_plan r" "fa_hotspots r"] by auto
  have cases: "bg_allow_global_escalation (po_budget p) \<and> pl_suppressed plan = pl_suppressed ?w \<or>
      \<not> bg_allow_global_escalation (po_budget p) \<and> plan = note_suppression MK_EscalateGlobalCongestion 0 ?w"
    unfolding assms plan_escalation_def Let_def by simp
  have le: "plan_le ?w plan" using cases note_suppression_log(1) unfolding assms plan_escalation_def Let_def
    by (auto simp: plan_le_def)
  show "log_ok plan" using cases w(1) note_suppression_log(2) by (auto simp: log_ok_def)
  show "h \<in> set (fa_hotspots r) \<Longrightarrow> hs_remediation h = Rem_Eligible \<Longrightarrow> log_names MK_AdmissionReduction (hs_id h) plan"
    using w(2) log_names_mono [OF _ le] by blast
  show "\<not> bg_allow_global_escalation (po_budget p) \<Longrightarrow> log_names MK_EscalateGlobalCongestion 0 plan"
    using cases note_suppression_log(3) by blast
  show "a \<in> set (pl_suppressed plan) \<Longrightarrow> a = \<lparr>sa_kind = MK_EscalateGlobalCongestion, sa_hotspot = 0\<rparr> \<and> \<not> bg_allow_global_escalation (po_budget p) \<or>
       (\<exists>h \<in> set (fa_hotspots r). hs_remediation h = Rem_Eligible \<and> a = \<lparr>sa_kind = MK_AdmissionReduction, sa_hotspot = hs_id h\<rparr>)"
    using cases w(3) by (auto simp: note_suppression_def split: if_splits)
qed

end
