(* ===== verification/HGM_Engine.thy ===== *)
theory HGM_Engine
  imports HGM_Planning HGM_Persistence
begin

text \<open>
  The decision engine (\<^verbatim>\<open>include/hgm/engine.hpp\<close>, \<^verbatim>\<open>src/engine.cpp\<close>) and its counters
  (\<^verbatim>\<open>include/hgm/metrics.hpp\<close>): one pass from evidence to assessment to plan. The
  explanation it also returns is rendered in \<^verbatim>\<open>HGM_Explanation\<close>. The lemmas join detection and planning: which evidence stands behind an
  intent that \<open>decide\<close> emits.
\<close>

section \<open>Counters\<close>

record Metrics =
  mt_frames_received :: u64
  mt_frames_accepted :: u64
  mt_frames_rejected :: u64
  mt_frames_duplicate :: u64
  mt_frames_stale :: u64
  mt_frames_malformed :: u64
  mt_bytes_received :: u64
  mt_bytes_sent :: u64
  mt_publisher_deaths :: u64
  mt_epoch_advances :: u64
  mt_evaluations :: u64
  mt_hotspots_confirmed :: u64
  mt_candidates_observed :: u64
  mt_interventions_planned :: u64
  mt_interventions_suppressed :: u64
  mt_escalations :: u64
  mt_journal_appends :: u64
  mt_journal_replays :: u64
  mt_recoveries :: u64
  mt_rejected_stale_epoch :: u64
  mt_rejected_stale_generation :: u64
  mt_rejected_stale_incarnation :: u64

definition no_metrics :: Metrics where
  "no_metrics = \<lparr>mt_frames_received = 0, mt_frames_accepted = 0, mt_frames_rejected = 0, mt_frames_duplicate = 0,
     mt_frames_stale = 0, mt_frames_malformed = 0, mt_bytes_received = 0, mt_bytes_sent = 0, mt_publisher_deaths = 0,
     mt_epoch_advances = 0, mt_evaluations = 0, mt_hotspots_confirmed = 0, mt_candidates_observed = 0,
     mt_interventions_planned = 0, mt_interventions_suppressed = 0, mt_escalations = 0, mt_journal_appends = 0,
     mt_journal_replays = 0, mt_recoveries = 0, mt_rejected_stale_epoch = 0, mt_rejected_stale_generation = 0,
     mt_rejected_stale_incarnation = 0\<rparr>"

text \<open>\<open>Metrics::count\<close>, by the update function of the counter.\<close>

definition count_by :: "((u64 \<Rightarrow> u64) \<Rightarrow> Metrics \<Rightarrow> Metrics) \<Rightarrow> u64 \<Rightarrow> Metrics \<Rightarrow> Metrics" where
  "count_by upd delta m = upd (\<lambda>v. sat_add v delta) m"

section \<open>The engine\<close>

record Decision =
  de_assessment :: FabricAssessment
  de_plan :: InterventionPlan
  de_evaluated_at :: Millis
  de_binding :: EvidenceBinding

record Engine =
  eg_tracker :: SaturationTracker
  eg_metrics :: Metrics
  eg_evaluations :: u64

definition new_engine :: Engine where
  "new_engine = \<lparr>eg_tracker = [], eg_metrics = no_metrics, eg_evaluations = 0\<rparr>"

definition engine_reset :: "Engine \<Rightarrow> Engine" where
  "engine_reset e = e\<lparr>eg_tracker := [], eg_evaluations := 0\<rparr>"

definition decision_of :: "DecisionInput \<Rightarrow> Decision" where
  "decision_of inp =
     (let r = fst (detect inp)
      in \<lparr>de_assessment = r,
          de_plan = plan_interventions r (di_topology inp) (di_capacity inp) (di_policy inp) (di_now inp),
          de_evaluated_at = di_now inp, de_binding = fa_binding r\<rparr>)"

definition count_decision :: "Decision \<Rightarrow> Metrics \<Rightarrow> Metrics" where
  "count_decision d m =
     (let m1 = count_by mt_evaluations_update 1 m;
          m2 = count_by mt_hotspots_confirmed_update (word_of_nat (length (fa_hotspots (de_assessment d)))) m1;
          m3 = count_by mt_candidates_observed_update (word_of_nat (length (fa_candidates (de_assessment d)))) m2;
          m4 = count_by mt_interventions_planned_update (word_of_nat (length (pl_intents (de_plan d)))) m3;
          m5 = count_by mt_interventions_suppressed_update (word_of_nat (length (pl_suppressed (de_plan d)))) m4
      in fold (\<lambda>i m. if mi_escalation i then count_by mt_escalations_update 1 m else m) (pl_intents (de_plan d)) m5)"

text \<open>
  \<open>Engine::decide\<close>: the decision, what the input's tracker becomes, and the engine. The tracker
  is an object of the caller, which passes the engine's own by reference.
\<close>

definition decide :: "Engine \<Rightarrow> DecisionInput \<Rightarrow> Decision \<times> SaturationTracker option \<times> Engine" where
  "decide e inp =
     (let d = decision_of inp
      in (d, snd (detect inp),
          e\<lparr>eg_evaluations := eg_evaluations e + 1, eg_metrics := count_decision d (eg_metrics e)\<rparr>))"

text \<open>The call the governor makes: the engine's tracker in, and written back.\<close>

definition engine_step :: "DecisionInput \<Rightarrow> Engine \<Rightarrow> Decision \<times> Engine" where
  "engine_step inp e =
     (let (d, tr, e') = decide e (inp\<lparr>di_tracker := Some (eg_tracker e)\<rparr>)
      in (d, e'\<lparr>eg_tracker := (case tr of None \<Rightarrow> eg_tracker e' | Some t \<Rightarrow> t)\<rparr>))"

text \<open>A series of evaluations from a fresh engine, the latest input first.\<close>

fun engine_run :: "DecisionInput list \<Rightarrow> Engine" where
  "engine_run [] = new_engine"
| "engine_run (inp # earlier) = snd (engine_step inp (engine_run earlier))"

lemma detect_tracker_None_iff: "snd (detect inp) = None \<longleftrightarrow> di_tracker inp = None"
proof -
  have r: "snd (reject inp scope r) = None \<longleftrightarrow> di_tracker inp = None" for scope r by (simp add: reject_def)
  have a: "snd (detect_admitted inp t c s p tr r) = None \<longleftrightarrow> di_tracker inp = None" for t c s p tr r
    by (simp add: detect_admitted_def Let_def r split: option.split)
  show ?thesis by (simp add: detect_def Let_def case_prod_beta r a split: option.split)
qed

lemma engine_run_tracker: "eg_tracker (engine_run inps) = run_series inps"
proof (induction inps)
  case (Cons inp earlier)
  have "snd (detect (inp\<lparr>di_tracker := Some (run_series earlier)\<rparr>)) \<noteq> None"
    by (simp add: detect_tracker_None_iff)
  then show ?case using Cons by (auto simp: engine_step_def decide_def Let_def)
qed (simp add: new_engine_def)

section \<open>The evidence behind a decision\<close>

lemma decision_of_fields:
  "de_assessment (decision_of inp) = fst (detect inp)"
  "de_plan (decision_of inp) =
     plan_interventions (fst (detect inp)) (di_topology inp) (di_capacity inp) (di_policy inp) (di_now inp)"
  by (simp_all add: decision_of_def Let_def)

lemma escalation_evidence:
  assumes "fa_escalation_required (fst (detect inp))"
  shows "\<exists>t c s. evidence_admitted inp t c s \<and> evidence_sufficient inp t c s"
proof (rule ccontr)
  assume n: "\<not> ?thesis"
  show False
  proof (cases "\<exists>t c s. evidence_admitted inp t c s \<and> tp_resources t = []")
    case True
    then obtain t c s where e: "evidence_admitted inp t c s" "tp_resources t = []" by blast
    then have "detect inp = reject inp Scope_None (gated_result inp t)" by (simp add: detect_eq [OF e(1)])
    then show False using assms reject_blank(2) [OF gated_result_fields(1)] by (simp add: blank_result_def)
  next
    case False
    then obtain r where "detect inp = reject inp Scope_Unknown r" "blank_result r"
      using n detect_rejects [of inp] by blast
    then show False using assms reject_blank(2) by (simp add: blank_result_def)
  qed
qed

text \<open>Every intent has a live policy and sufficient evidence behind it.\<close>

lemma intent_evidence:
  assumes i: "i \<in> set (pl_intents (de_plan (decision_of inp)))"
  shows "policy_live inp \<and> (\<exists>t c s. evidence_admitted inp t c s \<and> evidence_sufficient inp t c s) \<and>
    (mi_escalation i \<longrightarrow> fa_escalation_required (fst (detect inp)) \<and> pl_intents (de_plan (decision_of inp)) = [i] \<and>
       (\<exists>p a. i = escalation_intent (fst (detect inp)) p a)) \<and>
    (\<not> mi_escalation i \<longrightarrow> \<not> fa_escalation_required (fst (detect inp)) \<and>
       (\<exists>t p h. di_topology inp = Some t \<and> di_policy inp = Some p \<and> h \<in> set (fa_hotspots (fst (detect inp))) \<and>
         intent_within \<lparr>pc_assessment = fst (detect inp), pc_topology = t, pc_capacity = di_capacity inp, pc_policy = p\<rparr> h i))"
proof -
  have "\<exists>t p. plans_under (fst (detect inp)) (di_topology inp) (di_policy inp) (di_now inp) t p"
  proof (rule ccontr)
    assume "\<nexists>t p. plans_under (fst (detect inp)) (di_topology inp) (di_policy inp) (di_now inp) t p"
    from plan_interventions_withheld [OF this, of "di_capacity inp"] i show False by (auto simp: decision_of_fields plan_deny_spec)
  qed
  then obtain t p where u: "plans_under (fst (detect inp)) (di_topology inp) (di_policy inp) (di_now inp) t p" by blast
  then have live: "policy_live inp" by (simp add: policy_live_def plans_under_def)
  show ?thesis
  proof (cases "fa_escalation_required (fst (detect inp))")
    case False
    let ?pc = "\<lparr>pc_assessment = fst (detect inp), pc_topology = t, pc_capacity = di_capacity inp, pc_policy = p\<rparr>"
    have "plan_inv ?pc (fa_hotspots (fst (detect inp)))
        (fold (plan_hotspot ?pc) (fa_hotspots (fst (detect inp))) (initial_plan (fst (detect inp))))"
      using fold_plan_inv [OF initial_plan_inv] by simp
    moreover have "pl_intents (de_plan (decision_of inp)) =
        pl_intents (fold (plan_hotspot ?pc) (fa_hotspots (fst (detect inp))) (initial_plan (fst (detect inp))))"
      by (simp add: decision_of_fields plan_interventions_local [OF u False] Let_def)
    ultimately obtain hs where hs: "subseq hs (fa_hotspots (fst (detect inp)))"
      "list_all2 (intent_within ?pc) hs (pl_intents (de_plan (decision_of inp)))" by (auto simp: plan_inv_def)
    then obtain h where h: "h \<in> set hs" "intent_within ?pc h i"
      using i by (metis in_set_conv_nth list_all2_conv_all_nth)
    then have hm: "h \<in> set (fa_hotspots (fst (detect inp)))" using hs(1) by (auto dest: list_emb_set)
    have "\<not> mi_escalation i" using h(2) by (simp add: intent_within_def Let_def)
    then show ?thesis using hotspot_evidence [OF hm] h(2) hm u False live unfolding plans_under_def by blast
  next
    case True
    then have e: "pl_intents (de_plan (decision_of inp)) = [escalation_intent (fst (detect inp)) p (fa_authority (fst (detect inp)))]"
      using i by (simp add: decision_of_fields plan_interventions_escalating [OF u True] Let_def plan_escalation_intents split: if_splits)
    then have ie: "i = escalation_intent (fst (detect inp)) p (fa_authority (fst (detect inp)))" using i by simp
    then have "mi_escalation i" by (simp add: escalation_intent_def Let_def)
    then show ?thesis using e ie True live escalation_evidence [OF True] by auto
  qed
qed

text \<open>Escalation is required only when there is a confirmed hotspot.\<close>

lemma escalation_hotspots:
  assumes "fa_escalation_required (fst (detect inp))"
  shows "fa_hotspots (fst (detect inp)) \<noteq> []"
proof -
  obtain t c s where ev: "evidence_admitted inp t c s" "evidence_sufficient inp t c s" using escalation_evidence [OF assms] by blast
  note d = detect_evaluation [OF ev refl refl]
  have "escalation (input_thresholds inp) (input_budget inp) (fst (detect inp))" using assms d(8) by simp
  moreover have "fa_scope (fst (detect inp)) = Scope_None" if "fa_hotspots (fst (detect inp)) = []"
    using that unfolding d(1,4) Let_def by (simp add: kMaxHotspots_def)
  ultimately show ?thesis unfolding escalation_def by force
qed

lemma healthy_not_saturated:
  assumes ok: "input_ok inp" and h: "h \<in> set (fa_hotspots (fst (detect inp)))" and i: "i \<in> set (hs_healthy h)"
  shows "\<not> saturated_in inp i"
proof -
  from reported_hotspot [OF h] obtain t c s cmp where adm: "evidence_admitted inp t c s"
    and hh: "h = sealed (fa_authority (fst (detect inp))) (make_hotspot (evaluation_context inp t c s) cmp)" by blast
  have wf: "topology_wf t" using ok adm by (simp add: input_ok_def evidence_admitted_def)
  have "i \<in> set (healthy_neighbors (evaluation_context inp t c s) cmp)"
    using i unfolding hh by (auto simp: sealed_def make_hotspot_def Let_def take_capped_def case_prod_beta dest!: in_set_takeD)
  then obtain k where k: "index_of_resource t i = Some k" "\<not> cl_saturated (cx_cell (evaluation_context inp t c s) k)"
    by (auto simp: healthy_neighbors_def split: option.splits)
  then have kk: "k < length (tp_resources t)" "rs_id (tp_resources t ! k) = i"
    by (auto simp: index_of_resource_Some_iff [OF wf])
  have "\<not> cl_saturated (resource_cell (input_thresholds inp) (di_now inp) c s (tp_resources t ! k))"
    using k(2) kk(1) by (simp add: cx_cell_def scan_cell_nth)
  then have "\<not> resource_saturated inp t c s i"
    using resource_id_inj [OF wf] kk by (auto simp: resource_saturated_nth)
  then show ?thesis using adm by (auto simp: saturated_in_def evidence_admitted_def)
qed

end
