(* ===== verification/HGM_Decisions.thy ===== *)
theory HGM_Decisions
  imports HGM_Scenario HGM_Engine
begin

text \<open>
  Properties of planning and of the engine: what an emitted intent is bound to, the budgets of a
  plan, the refusal log, and when escalation replaces local mitigation. The instances continue the
  line fabric of \<^verbatim>\<open>HGM_Scenario\<close>: the third evaluation emits one intent on resource 11.
\<close>

section \<open>The decision on the line fabric\<close>

abbreviation line_now :: "TopologySnapshot \<Rightarrow> CapacitySnapshot \<Rightarrow> SignalSnapshot \<Rightarrow> DecisionInput" where
  "line_now t c s \<equiv> (line_input t c s 3000)\<lparr>di_tracker := Some (run_series (line_series t c s))\<rparr>"

lemma line_now_fields:
  "di_topology (line_now t c s) = Some t" "di_capacity (line_now t c s) = Some c"
  "di_policy (line_now t c s) = Some line_policy" "di_now (line_now t c s) = 3000"
  "input_budget (line_now t c s) = po_budget line_policy" "input_thresholds (line_now t c s) = default_thresholds"
  by (simp_all add: line_input_def input_budget_def input_thresholds_def line_policy_def empty_policy_def)

lemma line_policy_live: "\<not> expired_at line_policy 3000"
  by (simp add: line_policy_def empty_policy_def expired_at_def kNoTime_def elapsed_ms_def kMaxTime_def)

lemma line_share: "ratio_or0 100 300 = 333333"
  using ratio_ppm_total_exact [of 300 100 long_double_ppm] by (simp add: ratio_or0_def ratio_ppm_def unat_mod)

lemma line_local:
  assumes b: "line_built t c s"
  shows "plans_under (fst (detect (line_now t c s))) (Some t) (Some line_policy) 3000 t line_policy"
    "fa_fabric_capacity (fst (detect (line_now t c s))) = 300" "\<not> fa_escalation_required (fst (detect (line_now t c s)))"
proof -
  have ev: "evidence_admitted (line_now t c s) t c s" "evidence_sufficient (line_now t c s) t c s"
    using line_evidence [OF b line_times(3)] by simp_all
  note d = detect_evaluation(5-8) [OF ev refl refl]
  obtain h where h: "fa_hotspots (fst (detect (line_now t c s))) = [h]" "hs_scope h = Scope_Localized"
    using line_confirmed [OF b] by blast
  obtain r10 r11 r12 where r: "tp_resources t = [r10, r11, r12]" "rs_id r10 = 10" "rs_id r11 = 11" "rs_id r12 = 12"
    by (rule line_resources [OF b])
  have sc: "cx_scan (evaluation_context (line_now t c s) t c s) = scan default_thresholds 3000 c s (tp_resources t)"
    using line_now_fields by simp
  have "unat (sc_saturated (scan default_thresholds 3000 c s (tp_resources t))) = 100"
    using line_cells [OF b line_times(3) r(2)] line_cells [OF b line_times(3) r(3)] line_cells [OF b line_times(3) r(4)]
    by (simp only: scan_totals) (simp add: r(1))
  then have sat: "sc_saturated (scan default_thresholds 3000 c s (tp_resources t)) = 100" by (simp add: word_unat_eq_iff)
  show fab: "fa_fabric_capacity (fst (detect (line_now t c s))) = 300"
    using d(2) sc line_scan(1) [OF b line_times(3)] by simp
  have share: "fa_global_share (fst (detect (line_now t c s))) = 333333"
    using d(3) sc line_scan(1) [OF b line_times(3)] sat by (simp add: line_share)
  have "fa_scope (fst (detect (line_now t c s))) = Scope_Localized"
  proof -
    have hs: "fa_hotspots (fst (detect (line_now t c s))) = map (sealed (fa_authority (fst (detect (line_now t c s)))))
        (take kMaxHotspots (filter hs_persistent (map (make_hotspot (evaluation_context (line_now t c s) t c s))
          (saturated_components t (cx_scan (evaluation_context (line_now t c s) t c s))))))"
      by (rule detect_evaluation(1) [OF ev refl refl])
    then obtain g where g: "take kMaxHotspots (filter hs_persistent (map (make_hotspot (evaluation_context (line_now t c s) t c s))
          (saturated_components t (cx_scan (evaluation_context (line_now t c s) t c s))))) = [g]" "hs_scope g = Scope_Localized"
      using h by (auto simp: map_eq_Cons_conv)
    then show ?thesis using detect_evaluation(4) [OF ev refl refl]
      by (auto simp: Let_def fabric_scope_def split: if_splits)
  qed
  then show "\<not> fa_escalation_required (fst (detect (line_now t c s)))"
    using d(4) h(1) share unfolding line_now_fields
    by (simp add: escalation_def default_thresholds_def line_policy_def empty_policy_def default_budget_def)
  have "tp_built t" using line_facts(1) [OF b] by (simp add: topology_wf_def)
  then show "plans_under (fst (detect (line_now t c s))) (Some t) (Some line_policy) 3000 t line_policy"
    using d(1) line_policy_live by (simp add: plans_under_def input_binding_def line_input_def)
qed

lemma admission_always_candidate: "MK_AdmissionReduction \<in> set (candidate_kinds cause)"
  by (cases cause) (simp_all add: candidate_kinds_def)

definition line_context :: "TopologySnapshot \<Rightarrow> CapacitySnapshot \<Rightarrow> SignalSnapshot \<Rightarrow> PlanContext" where
  "line_context t c s =
     \<lparr>pc_assessment = fst (detect (line_now t c s)), pc_topology = t, pc_capacity = Some c, pc_policy = line_policy\<rparr>"

lemma line_context_fields [simp]:
  "pc_assessment (line_context t c s) = fst (detect (line_now t c s))" "pc_topology (line_context t c s) = t"
  "pc_capacity (line_context t c s) = Some c" "pc_policy (line_context t c s) = line_policy"
  by (simp_all add: line_context_def)

lemma line_budget: "po_budget line_policy = default_budget\<lparr>bg_max_scope_share_ppm := 400000\<rparr>"
  by (simp add: line_policy_def)

lemma line_choice:
  assumes b: "line_built t c s"
  shows "\<exists>h k. fa_hotspots (fst (detect (line_now t c s))) = [h] \<and> hs_resources h = [11] \<and> hs_remediation h = Rem_Eligible \<and>
    find (\<lambda>k. admitted (line_context t c s) 0 h k \<noteq> None) (candidate_kinds (hs_cause h)) = Some k"
proof -
  define r where "r = fst (detect (line_now t c s))"
  obtain h where h: "fa_hotspots r = [h]" "hs_resources h = [11]" "hs_remediation h = Rem_Eligible"
    using line_confirmed [OF b] unfolding r_def by blast
  have d: "make_draft r line_policy h MK_AdmissionReduction =
      Some \<lparr>dr_kind = MK_AdmissionReduction, dr_resources = [11], dr_paths = [], dr_flows = [], dr_rate_delta = 0\<rparr>"
    by (simp add: make_draft_def Let_def h(2) sorted_unique_def)
  have "11 \<in> set (map rs_id (tp_resources t))" unfolding line_facts(2) [OF b] by simp
  then have "has_resource t 11" using has_resource_set [OF line_facts(1) [OF b], of 11] by simp
  moreover have "share_of (Some c) [11] 300 = 333333"
    using line_facts(15) [OF b] by (simp add: share_of_def cap100_def line_share)
  moreover have "fa_fabric_capacity r = 300" using line_local(2) [OF b] by (simp add: r_def)
  ultimately have "check_draft t (Some c) (po_budget line_policy) (fa_fabric_capacity r) 0
      \<lparr>dr_kind = MK_AdmissionReduction, dr_resources = [11], dr_paths = [], dr_flows = [], dr_rate_delta = 0\<rparr> = Inr (333333, 333333)"
    by (simp add: check_draft_def Let_def line_budget default_budget_def limit_defs)
  then have "admitted (line_context t c s) 0 h MK_AdmissionReduction \<noteq> None"
    unfolding admitted_def line_context_fields r_def [symmetric] d by (simp add: line_budget default_budget_def)
  then have "find (\<lambda>k. admitted (line_context t c s) 0 h k \<noteq> None) (candidate_kinds (hs_cause h)) \<noteq> None"
    using admission_always_candidate [of "hs_cause h"] unfolding find_None_iff by blast
  then show ?thesis using h unfolding r_def by blast
qed

lemma line_emits:
  assumes b: "line_built t c s"
  shows "\<exists>i. pl_intents (de_plan (decision_of (line_now t c s))) = [i] \<and> \<not> mi_escalation i \<and> 11 \<in> set (mi_resources i)"
proof -
  define r where "r = fst (detect (line_now t c s))"
  define pc where "pc = line_context t c s"
  obtain h k where h: "fa_hotspots r = [h]" "hs_resources h = [11]" "hs_remediation h = Rem_Eligible"
    and ck: "chosen_kind pc 0 h (candidate_kinds (hs_cause h)) = Some k"
    using line_choice [OF b] unfolding r_def pc_def chosen_kind_def by blast
  then have k: "next_choice pc (initial_plan r) h = Some k"
    by (simp add: next_choice_def initial_plan_def pc_def line_budget default_budget_def)
  then obtain i where i: "pl_intents (plan_hotspot pc h (initial_plan r)) = [i]"
    using plan_hotspot_intents [of pc h "initial_plan r"] by (auto simp: Let_def initial_plan_def)
  have "pl_intents (de_plan (decision_of (line_now t c s))) = [i]"
    using plan_interventions_local [OF line_local(1,3) [OF b], of "Some c"] i h(1)
    unfolding decision_of_fields line_now_fields r_def [symmetric]
    by (simp add: Let_def pc_def line_context_def r_def)
  moreover have "intent_within pc h i"
  proof -
    have "plan_inv pc [h] (plan_hotspot pc h (initial_plan r))"
      using plan_hotspot_inv [OF initial_plan_inv] by simp
    then obtain hs where "subseq hs [h]" "list_all2 (intent_within pc) hs [i]" by (auto simp: plan_inv_def i)
    then show ?thesis by (cases hs) (auto simp: list_emb_Nil2 split: if_splits)
  qed
  ultimately show ?thesis using h(2) by (auto simp: intent_within_def Let_def)
qed

text \<open>An intent the engine emits after a series of evaluations rests on a hotspot of sustained saturation.\<close>

lemma engine_intent_sustained:
  assumes ok: "\<forall>x \<in> set (inp # earlier). input_ok x \<and> millis_ok (di_now x)"
    and d: "d = fst (engine_step inp (engine_run earlier))" and i: "i \<in> set (pl_intents (de_plan d))"
  shows "policy_live inp \<and>
    (\<exists>h \<in> set (fa_hotspots (de_assessment d)). mi_hotspot i = hs_id h \<and> hs_resources h \<noteq> [] \<and>
       (\<forall>r \<in> set (hs_resources h). sustained inp earlier r) \<and>
       (if mi_escalation i
        then fa_escalation_required (de_assessment d) \<and> pl_intents (de_plan d) = [i] \<and>
          mi_resources i = [] \<and> mi_paths i = [] \<and> mi_flows i = []
        else set (hs_resources h) \<subseteq> set (mi_resources i) \<and>
          (\<forall>r \<in> set (mi_resources i) - set (hs_resources h). r \<in> set (hs_healthy h) \<and> \<not> saturated_in inp r)))"
proof -
  let ?inp = "inp\<lparr>di_tracker := Some (run_series earlier)\<rparr>"
  have dd: "d = decision_of ?inp" by (simp add: d engine_step_def decide_def Let_def engine_run_tracker)
  then have as: "de_assessment d = fst (detect ?inp)" by (simp add: decision_of_fields)
  note ev = intent_evidence [OF i [unfolded dd], folded dd as]
  have "policy_live ?inp" using ev by blast
  then have live: "policy_live inp" by (simp add: policy_live_def split: option.splits)
  have iok: "input_ok ?inp" using ok by simp
  have hot: "hs_resources h \<noteq> [] \<and> (\<forall>r \<in> set (hs_resources h). sustained inp earlier r)" if "h \<in> set (fa_hotspots (de_assessment d))" for h
    using confirmed_hotspot_streak [OF ok that [unfolded as]] reported_resources [OF iok that [unfolded as]] by blast
  show ?thesis
  proof (cases "mi_escalation i")
    case True
    then obtain p a where e: "fa_escalation_required (de_assessment d)" "pl_intents (de_plan d) = [i]"
      "i = escalation_intent (de_assessment d) p a" using ev by blast
    have ne: "fa_hotspots (de_assessment d) \<noteq> []" using escalation_hotspots e(1) as by simp
    then have "mi_hotspot i = hs_id (hd (fa_hotspots (de_assessment d)))" "mi_resources i = []" "mi_paths i = []" "mi_flows i = []"
      by (simp_all add: e(3) escalation_intent_def Let_def)
    then show ?thesis using live hot e(1,2) True ne list.set_sel(1) by fastforce
  next
    case False
    then obtain pc h where h: "h \<in> set (fa_hotspots (de_assessment d))" "intent_within pc h i" using ev by blast
    have "r \<in> set (hs_healthy h) \<and> \<not> saturated_in inp r" if "r \<in> set (mi_resources i) - set (hs_resources h)" for r
    proof -
      have "r \<in> set (hs_healthy h)" using h(2) that by (auto simp: intent_within_def Let_def split: if_splits)
      then show ?thesis using healthy_not_saturated [OF iok h(1) [unfolded as]] by simp
    qed
    moreover have "set (hs_resources h) \<subseteq> set (mi_resources i)" "mi_hotspot i = hs_id h" using h(2) by (simp_all add: intent_within_def Let_def)
    ultimately show ?thesis using live hot [OF h(1)] h(1) False by auto
  qed
qed

section \<open>Properties\<close>

text \<open>C2: mitigation rests on sustained evidence. Every intent the engine emits after a series of evaluations
  is emitted under a live policy and names a confirmed hotspot of the decision's assessment. The hotspot
  lists at least one resource, and each resource it lists is saturated now and was in as many consecutive
  evaluations up to this one as the policy requires, the first of them at least the persistence window ago
  when the policy sets a window. A local intent touches all resources the hotspot lists, and whatever else
  it touches is a healthy neighbour of the hotspot and not saturated. An escalation intent is emitted only
  when escalation is required, stands alone in its plan and touches no resource, path or flow.\<close>

theorem intent_sustained:
  assumes "\<forall>x \<in> set (inp # earlier). input_ok x \<and> millis_ok (di_now x)"
    and "d = fst (engine_step inp (engine_run earlier))" and "i \<in> set (pl_intents (de_plan d))"
  shows "policy_live inp \<and>
    (\<exists>h \<in> set (fa_hotspots (de_assessment d)). mi_hotspot i = hs_id h \<and> hs_resources h \<noteq> [] \<and>
       (\<forall>r \<in> set (hs_resources h). sustained inp earlier r) \<and>
       (if mi_escalation i
        then fa_escalation_required (de_assessment d) \<and> pl_intents (de_plan d) = [i] \<and>
          mi_resources i = [] \<and> mi_paths i = [] \<and> mi_flows i = []
        else set (hs_resources h) \<subseteq> set (mi_resources i) \<and>
          (\<forall>r \<in> set (mi_resources i) - set (hs_resources h). r \<in> set (hs_healthy h) \<and> \<not> saturated_in inp r)))"
  by (rule engine_intent_sustained [OF assms])

theorem intent_sustained_witness:
  "\<exists>t c s d i h. line_built t c s \<and> d = fst (engine_step (line_input t c s 3000) (engine_run (line_series t c s))) \<and>
     i \<in> set (pl_intents (de_plan d)) \<and> h \<in> set (fa_hotspots (de_assessment d)) \<and> mi_hotspot i = hs_id h \<and>
     hs_resources h = [11] \<and> 11 \<in> set (mi_resources i) \<and> 3 \<le> length (streak 11 (line_input t c s 3000 # line_series t c s))"
proof -
  obtain t c s where b: "line_built t c s" using line_builds by blast
  obtain i where i0: "pl_intents (de_plan (decision_of (line_now t c s))) = [i]" and e: "\<not> mi_escalation i"
    using line_emits [OF b] by blast
  obtain h0 where h0: "fa_hotspots (fst (detect (line_now t c s))) = [h0]" "hs_resources h0 = [11]" using line_confirmed [OF b] by blast
  let ?d = "fst (engine_step (line_input t c s 3000) (engine_run (line_series t c s)))"
  have d: "?d = decision_of (line_now t c s)" by (simp add: engine_step_def decide_def Let_def engine_run_tracker)
  have i: "i \<in> set (pl_intents (de_plan ?d))" using i0 by (simp add: d)
  have ok: "\<forall>x \<in> set (line_input t c s 3000 # line_series t c s). input_ok x \<and> millis_ok (di_now x)"
    using line_input_ok [OF b] line_times by (simp add: line_series_def) (simp add: line_input_def)
  from intent_sustained [OF ok refl i] e obtain h where h: "h \<in> set (fa_hotspots (de_assessment ?d))" "mi_hotspot i = hs_id h"
    "\<forall>r \<in> set (hs_resources h). sustained (line_input t c s 3000) (line_series t c s) r" "set (hs_resources h) \<subseteq> set (mi_resources i)"
    by auto
  have "h = h0" using h(1) h0(1) unfolding d decision_of_fields by simp
  then have "3 \<le> length (streak 11 (line_input t c s 3000 # line_series t c s))" "hs_resources h = [11]" "11 \<in> set (mi_resources i)"
    using h(3,4) h0(2) by (simp_all add: sustained_def default_thresholds_def)
  then show ?thesis using b i h(1,2) by blast
qed

text \<open>C8: no action without proof. Whenever the plan of a decision holds any intent, the policy is live and the
  evidence was admitted and sufficient; an escalation intent then stands alone.\<close>

theorem intents_need_evidence:
  assumes "pl_intents (de_plan (decision_of inp)) \<noteq> []"
  shows "policy_live inp \<and> (\<exists>t c s. evidence_admitted inp t c s \<and> evidence_sufficient inp t c s) \<and>
    ((\<exists>i \<in> set (pl_intents (de_plan (decision_of inp))). mi_escalation i) \<longleftrightarrow> fa_escalation_required (fst (detect inp))) \<and>
    (fa_escalation_required (fst (detect inp)) \<longrightarrow> length (pl_intents (de_plan (decision_of inp))) = 1)"
proof -
  obtain i where i: "i \<in> set (pl_intents (de_plan (decision_of inp)))" using assms last_in_set by blast
  note ev = intent_evidence [OF i]
  have "mi_escalation j \<longleftrightarrow> fa_escalation_required (fst (detect inp))" if "j \<in> set (pl_intents (de_plan (decision_of inp)))" for j
    using intent_evidence [OF that] by blast
  moreover have "length (pl_intents (de_plan (decision_of inp))) = 1" if "mi_escalation i"
  proof -
    have "pl_intents (de_plan (decision_of inp)) = [i]" using ev that by blast
    then show ?thesis by simp
  qed
  ultimately show ?thesis using ev i by blast
qed

theorem intents_need_evidence_witness:
  "\<exists>inp. pl_intents (de_plan (decision_of inp)) \<noteq> [] \<and> policy_live inp \<and> \<not> fa_escalation_required (fst (detect inp))"
proof -
  obtain t c s where b: "line_built t c s" using line_builds by blast
  obtain i where i: "pl_intents (de_plan (decision_of (line_now t c s))) = [i]" "\<not> mi_escalation i"
    using line_emits [OF b] by blast
  then have ne: "pl_intents (de_plan (decision_of (line_now t c s))) \<noteq> []" by simp
  from intents_need_evidence [OF this] i have "policy_live (line_now t c s)" "\<not> fa_escalation_required (fst (detect (line_now t c s)))"
    by simp_all
  with ne show ?thesis by blast
qed

text \<open>C5: plans stay within budget, in every branch of the planner. Its share is always the sum of the shares of
  its intents. Outside escalation, under a built topology the assessment is bound to and a live policy,
  the plan holds at most the permitted number of intents, its share is within the whole-plan budget, and
  the intents belong, in order and one each, to hotspots of the assessment, each within its contract: an
  allowed kind among the candidates for the cause, the whole saturated scope and at most healthy
  neighbours besides, known resources only, counts, share and rate change within the per-intent budget,
  attribution where the policy requires it. When escalation is required the plan holds exactly the
  escalation intent if the policy allows escalation and nothing otherwise; that intent touches no
  resource, path or flow, changes no rate and has share 0, and the permitted number of intents is not
  consulted for it. Without such a topology or policy the plan is empty.\<close>

theorem plan_within_budget:
  assumes "plan = plan_interventions r topology capacity policy now"
  shows "unat (pl_scope_share plan) = (\<Sum>i\<leftarrow>pl_intents plan. unat (mi_scope_share i)) \<and>
    (\<forall>t p. plans_under r topology policy now t p \<and> \<not> fa_escalation_required r \<longrightarrow>
       length (pl_intents plan) \<le> unat (bg_max_intents_per_plan (po_budget p)) \<and>
       unat (pl_scope_share plan) \<le> unat (bg_max_plan_scope_share_ppm (po_budget p)) \<and>
       (\<exists>hs. subseq hs (fa_hotspots r) \<and> list_all2 (intent_within
          \<lparr>pc_assessment = r, pc_topology = t, pc_capacity = capacity, pc_policy = p\<rparr>) hs (pl_intents plan))) \<and>
    (\<forall>t p. plans_under r topology policy now t p \<and> fa_escalation_required r \<longrightarrow>
       length (pl_intents plan) = (if bg_allow_global_escalation (po_budget p) then 1 else 0) \<and>
       (\<forall>i \<in> set (pl_intents plan). mi_kind i = MK_EscalateGlobalCongestion \<and> mi_escalation i \<and> mi_resources i = [] \<and>
          mi_paths i = [] \<and> mi_flows i = [] \<and> mi_rate_delta i = 0 \<and> mi_scope_share i = 0)) \<and>
    ((\<nexists>t p. plans_under r topology policy now t p) \<longrightarrow> pl_intents plan = [])"
proof (cases "\<exists>t p. plans_under r topology policy now t p")
  case False
  from plan_interventions_withheld [OF this, of capacity] False show ?thesis by (auto simp: assms plan_deny_spec)
next
  case True
  then obtain t p where u: "plans_under r topology policy now t p" by blast
  then have only: "plans_under r topology policy now t' p' \<longleftrightarrow> t' = t \<and> p' = p" for t' p' by (auto simp: plans_under_def)
  show ?thesis
  proof (cases "fa_escalation_required r")
    case True
    have "pl_scope_share plan = 0" "pl_intents plan = (if bg_allow_global_escalation (po_budget p) then [escalation_intent r p (fa_authority r)] else [])"
      by (simp_all add: assms plan_interventions_escalating [OF u True] Let_def plan_escalation_intents)
    then show ?thesis by (simp add: only True escalation_intent_def Let_def)
  next
    case False
    let ?pc = "\<lparr>pc_assessment = r, pc_topology = t, pc_capacity = capacity, pc_policy = p\<rparr>"
    have "plan_inv ?pc (fa_hotspots r) plan"
      using fold_plan_inv [OF initial_plan_inv [of ?pc r], of "fa_hotspots r"]
      unfolding assms plan_interventions_local [OF u False] by (simp add: plan_inv_def Let_def)
    then show ?thesis by (simp add: only False plan_inv_def)
  qed
qed

theorem plan_within_budget_witness:
  "\<exists>t c s plan. line_built t c s \<and> plan = de_plan (decision_of (line_now t c s)) \<and> length (pl_intents plan) = 1 \<and>
     unat (pl_scope_share plan) \<le> 400000"
proof -
  obtain t c s where b: "line_built t c s" using line_builds by blast
  obtain i where i: "pl_intents (de_plan (decision_of (line_now t c s))) = [i]" using line_emits [OF b] by blast
  have "de_plan (decision_of (line_now t c s)) =
      plan_interventions (fst (detect (line_now t c s))) (Some t) (Some c) (Some line_policy) 3000"
    unfolding decision_of_fields line_now_fields ..
  from plan_within_budget [OF this] line_local(1,3) [OF b] have
    "unat (pl_scope_share (de_plan (decision_of (line_now t c s)))) \<le> unat (bg_max_plan_scope_share_ppm (po_budget line_policy))"
    by blast
  then have "unat (pl_scope_share (de_plan (decision_of (line_now t c s)))) \<le> 400000"
    by (simp add: line_policy_def empty_policy_def default_budget_def)
  with b i show ?thesis by force
qed

text \<open>C19: the highest-priority admissible kind is chosen. For an eligible hotspot, while the plan has room, the
  interleaved candidate loop emits exactly the intent of the first kind of the cause's candidate list
  that the policy allows and every check admits, and emits nothing when there is none.\<close>

theorem first_admissible_kind:
  assumes "hs_remediation h = Rem_Eligible"
    and "length (pl_intents plan) < unat (bg_max_intents_per_plan (po_budget (pc_policy pc)))"
  shows "pl_intents (plan_hotspot pc h plan) = pl_intents plan @
    (case find (\<lambda>k. admitted pc (pl_scope_share plan) h k \<noteq> None) (candidate_kinds (hs_cause h)) of
       None \<Rightarrow> []
     | Some k \<Rightarrow> [emit pc h (pl_authority plan) (the (admitted pc (pl_scope_share plan) h k))])"
  using plan_hotspot_intents [of pc h plan] assms
  by (auto simp: next_choice_def chosen_kind_def Let_def split: option.splits)

theorem first_admissible_kind_witness:
  "\<exists>t c s h k. line_built t c s \<and> fa_hotspots (fst (detect (line_now t c s))) = [h] \<and> k \<in> set (candidate_kinds (hs_cause h)) \<and>
     pl_intents (plan_hotspot (line_context t c s) h (initial_plan (fst (detect (line_now t c s))))) =
       [emit (line_context t c s) h (fa_authority (fst (detect (line_now t c s)))) (the (admitted (line_context t c s) 0 h k))]"
proof -
  obtain t c s where b: "line_built t c s" using line_builds by blast
  obtain h k where h: "fa_hotspots (fst (detect (line_now t c s))) = [h]" "hs_remediation h = Rem_Eligible"
    and k: "find (\<lambda>k. admitted (line_context t c s) 0 h k \<noteq> None) (candidate_kinds (hs_cause h)) = Some k"
    using line_choice [OF b] by blast
  let ?plan = "initial_plan (fst (detect (line_now t c s)))"
  have p: "pl_intents ?plan = []" "pl_scope_share ?plan = 0" "pl_authority ?plan = fa_authority (fst (detect (line_now t c s)))"
    by (simp_all add: initial_plan_def)
  have "length (pl_intents ?plan) < unat (bg_max_intents_per_plan (po_budget (pc_policy (line_context t c s))))"
    by (simp add: p line_budget default_budget_def)
  note first_admissible_kind [OF h(2) this, unfolded p k option.case append_Nil]
  moreover have "k \<in> set (candidate_kinds (hs_cause h))" using k by (metis find_Some_iff nth_mem)
  ultimately show ?thesis using b h(1) by blast
qed

text \<open>C24: which refusals are recorded, in every branch of the planner. The refusal log has no duplicates and at
  most 64 entries. Outside escalation every hotspot of the assessment has an intent, a log entry, or met
  a full log. When escalation is required, every hotspot eligible for mitigation has an entry, and so has
  the escalation itself when the policy forbids it, up to a full log, and nothing else has one: a hotspot
  that is not eligible leaves no entry. Without a built topology that the assessment is bound to, or
  without a live policy, the log and the plan are empty, and the refusal shows as a domain that the
  plan's authority vector does not grant.\<close>

theorem refusals_recorded:
  assumes "plan = plan_interventions r topology capacity policy now"
  shows "length (pl_suppressed plan) \<le> 64 \<and> distinct (pl_suppressed plan) \<and>
    (\<forall>t p. plans_under r topology policy now t p \<and> \<not> fa_escalation_required r \<longrightarrow>
       (\<forall>h \<in> set (fa_hotspots r). hs_id h \<in> mi_hotspot ` set (pl_intents plan) \<or>
          hs_id h \<in> sa_hotspot ` set (pl_suppressed plan) \<or> length (pl_suppressed plan) = 64)) \<and>
    (\<forall>t p. plans_under r topology policy now t p \<and> fa_escalation_required r \<longrightarrow>
       (let withheld = (\<lambda>h. \<lparr>sa_kind = MK_AdmissionReduction, sa_hotspot = hs_id h\<rparr>) ` {h \<in> set (fa_hotspots r). hs_remediation h = Rem_Eligible};
            forbidden = (if bg_allow_global_escalation (po_budget p) then {} else {\<lparr>sa_kind = MK_EscalateGlobalCongestion, sa_hotspot = 0\<rparr>})
        in set (pl_suppressed plan) \<subseteq> withheld \<union> forbidden \<and>
           (withheld \<union> forbidden \<subseteq> set (pl_suppressed plan) \<or> length (pl_suppressed plan) = 64))) \<and>
    ((\<nexists>t p. plans_under r topology policy now t p) \<longrightarrow> pl_suppressed plan = [] \<and> pl_intents plan = [] \<and>
       (\<not> granted (pl_authority plan) AD_Topology \<or> \<not> granted (pl_authority plan) AD_Policy))"
proof (cases "\<exists>t p. plans_under r topology policy now t p")
  case False
  from plan_interventions_withheld [OF this, of capacity] False show ?thesis by (auto simp: assms plan_deny_spec)
next
  case True
  then obtain t p where u: "plans_under r topology policy now t p" by blast
  then have only: "plans_under r topology policy now t' p' \<longleftrightarrow> t' = t \<and> p' = p" for t' p' by (auto simp: plans_under_def)
  show ?thesis
  proof (cases "fa_escalation_required r")
    case False
    have "log_ok (initial_plan r)" by (simp add: log_ok_def initial_plan_def)
    from fold_plan_log [OF this, of "\<lparr>pc_assessment = r, pc_topology = t, pc_capacity = capacity, pc_policy = p\<rparr>" "fa_hotspots r"]
    have "log_ok plan" "\<forall>h \<in> set (fa_hotspots r). accounted plan h"
      unfolding assms plan_interventions_local [OF u False] by (simp_all add: log_ok_def accounted_def Let_def)
    then show ?thesis by (simp add: only False log_ok_def accounted_def kMaxSuppressedEntries_def)
  next
    case True
    have s: "pl_suppressed plan = pl_suppressed (plan_escalation r p (initial_plan r))"
      by (simp add: assms plan_interventions_escalating [OF u True] Let_def)
    note l = plan_escalation_log [OF refl, where r = r and p = p]
    have len: "length (pl_suppressed plan) \<le> 64" "distinct (pl_suppressed plan)" using l(1) by (simp_all add: s log_ok_def kMaxSuppressedEntries_def)
    have full: "\<lparr>sa_kind = k, sa_hotspot = x\<rparr> \<in> set (pl_suppressed plan) \<or> length (pl_suppressed plan) = 64"
      if "log_names k x (plan_escalation r p (initial_plan r))" for k x
      using that len(1) by (auto simp: log_names_def s kMaxSuppressedEntries_def)
    let ?withheld = "(\<lambda>h. \<lparr>sa_kind = MK_AdmissionReduction, sa_hotspot = hs_id h\<rparr>) ` {h \<in> set (fa_hotspots r). hs_remediation h = Rem_Eligible}"
    let ?forbidden = "if bg_allow_global_escalation (po_budget p) then {} else {\<lparr>sa_kind = MK_EscalateGlobalCongestion, sa_hotspot = 0\<rparr>}"
    have "set (pl_suppressed plan) \<subseteq> ?withheld \<union> ?forbidden" using l(4) by (auto simp: s)
    moreover have "?withheld \<subseteq> set (pl_suppressed plan) \<or> length (pl_suppressed plan) = 64" using full l(2) by fastforce
    moreover have "?forbidden \<subseteq> set (pl_suppressed plan) \<or> length (pl_suppressed plan) = 64"
      using full [of MK_EscalateGlobalCongestion 0] l(3) by simp
    ultimately show ?thesis using len by (simp only: only True Let_def) blast
  qed
qed

theorem refusals_recorded_witness:
  "\<exists>t c s plan h. line_built t c s \<and> plan = de_plan (decision_of (line_now t c s)) \<and>
     fa_hotspots (fst (detect (line_now t c s))) = [h] \<and> length (pl_suppressed plan) \<le> 64"
proof -
  obtain t c s where b: "line_built t c s" using line_builds by blast
  obtain h where h: "fa_hotspots (fst (detect (line_now t c s))) = [h]" using line_confirmed [OF b] by blast
  have "de_plan (decision_of (line_now t c s)) =
      plan_interventions (fst (detect (line_now t c s))) (Some t) (Some c) (Some line_policy) 3000"
    unfolding decision_of_fields line_now_fields ..
  from refusals_recorded [OF this] b h show ?thesis by blast
qed

end
