(* ===== verification/HGM_Frame.thy ===== *)
theory HGM_Frame
  imports HGM_Topology HGM_Evidence HGM_Policy
begin

text \<open>
  Frames (\<^verbatim>\<open>include/hgm/frame.hpp\<close>, \<^verbatim>\<open>src/frame.cpp\<close>): the fixed header with its CRC, payload
  verification, and the payload codecs of the six streams and of the control messages. A decoder
  is a parser that returns the value and the bytes left over, or the error code of the first check
  that fails; it builds the snapshot only after the whole payload was read. The lemmas: every
  payload decodes to the snapshot it was encoded from, up to provenance, which is not on the wire,
  and a changed byte of a header or payload is refused.
\<close>

section \<open>Messages\<close>

datatype (plugins only: code) MessageType =
    MT_Unknown | MT_Hello | MT_Welcome | MT_Rejected | MT_Accepted | MT_Goodbye
  | MT_Topology | MT_Capacity | MT_Signals | MT_Paths | MT_Traffic | MT_Policy | MT_Heartbeat
  | MT_Raw u16

primrec mt_code :: "MessageType \<Rightarrow> u16" where
  "mt_code MT_Unknown = 0"
| "mt_code MT_Hello = 1"
| "mt_code MT_Welcome = 2"
| "mt_code MT_Rejected = 3"
| "mt_code MT_Accepted = 4"
| "mt_code MT_Goodbye = 5"
| "mt_code MT_Topology = 10"
| "mt_code MT_Capacity = 11"
| "mt_code MT_Signals = 12"
| "mt_code MT_Paths = 13"
| "mt_code MT_Traffic = 14"
| "mt_code MT_Policy = 15"
| "mt_code MT_Heartbeat = 20"
| "mt_code (MT_Raw v) = v"

definition mt_of :: "u16 \<Rightarrow> MessageType" where
  "mt_of v =
     (if v = 0 then MT_Unknown
      else if v = 1 then MT_Hello
      else if v = 2 then MT_Welcome
      else if v = 3 then MT_Rejected
      else if v = 4 then MT_Accepted
      else if v = 5 then MT_Goodbye
      else if v = 10 then MT_Topology
      else if v = 11 then MT_Capacity
      else if v = 12 then MT_Signals
      else if v = 13 then MT_Paths
      else if v = 14 then MT_Traffic
      else if v = 15 then MT_Policy
      else if v = 20 then MT_Heartbeat
      else MT_Raw v)"

definition mt_ok :: "MessageType \<Rightarrow> bool" where
  "mt_ok k \<longleftrightarrow> mt_of (mt_code k) = k"

definition stream_of :: "MessageType \<Rightarrow> StreamKind" where
  "stream_of type =
     (case type of
        MT_Topology \<Rightarrow> Stream_Topology
      | MT_Capacity \<Rightarrow> Stream_Capacity
      | MT_Signals \<Rightarrow> Stream_Signals
      | MT_Paths \<Rightarrow> Stream_Paths
      | MT_Traffic \<Rightarrow> Stream_Traffic
      | MT_Policy \<Rightarrow> Stream_Policy
      | _ \<Rightarrow> Stream_Unknown)"

section \<open>Header\<close>

definition kFrameMagic :: u32 where "kFrameMagic = 0x464D4748"
definition kFrameProtocolVersion :: u32 where "kFrameProtocolVersion = 1"
definition kFrameHeaderBytes :: nat where "kFrameHeaderBytes = 4 + 2 + 2 + 4 + 4 + (8 * 9)"

record FrameHeader =
  fh_version :: u16
  fh_type :: MessageType
  fh_flags :: u32
  fh_payload_length :: u32
  fh_epoch :: CoordinatorEpoch
  fh_publisher :: PublisherId
  fh_incarnation :: Incarnation
  fh_boot :: BootId
  fh_sequence :: Sequence
  fh_generation :: u64
  fh_emitted_at :: Millis
  fh_payload_crc :: u64
  fh_header_crc :: u64

record Frame =
  fr_header :: FrameHeader
  fr_payload :: bytes

definition wire_size :: "Frame \<Rightarrow> nat" where
  "wire_size frame = kFrameHeaderBytes + unat (fh_payload_length (fr_header frame))"

definition encode_header_fields :: "FrameHeader \<Rightarrow> bytes" where
  "encode_header_fields h =
     w_u32 kFrameMagic @ w_u16 (fh_version h) @ w_u16 (mt_code (fh_type h)) @ w_u32 (fh_flags h)
     @ w_u32 (fh_payload_length h) @ w_u64 (fh_epoch h) @ w_u64 (fh_publisher h) @ w_u64 (fh_incarnation h)
     @ w_u64 (fh_boot h) @ w_u64 (fh_sequence h) @ w_u64 (fh_generation h) @ w_i64 (fh_emitted_at h)
     @ w_u64 (fh_payload_crc h)"

definition encode_header :: "FrameHeader \<Rightarrow> bytes" where
  "encode_header h = (let out = encode_header_fields h in out @ w_u64 (crc64 out))"

type_synonym 'a parser = "bytes \<Rightarrow> ('a \<times> bytes) result"

text \<open>\<open>if (!reader.f(x)) return Status::failure(code)\<close>\<close>

definition parse :: "ErrorCode \<Rightarrow> 'a reader \<Rightarrow> 'a parser" where
  "parse e get bs = of_option e (get bs)"

definition header_part1 :: "(u32 \<times> u16 \<times> u16 \<times> u32 \<times> u32) reader" where
  "header_part1 bs = do {
     (magic, bs) \<leftarrow> rd_u32 bs; (version, bs) \<leftarrow> rd_u16 bs; (type, bs) \<leftarrow> rd_u16 bs;
     (flags, bs) \<leftarrow> rd_u32 bs; (len, bs) \<leftarrow> rd_u32 bs;
     Some ((magic, version, type, flags, len), bs) }"

definition header_part2 :: "(u64 \<times> u64 \<times> u64 \<times> u64 \<times> u64 \<times> u64 \<times> int \<times> u64 \<times> u64) reader" where
  "header_part2 bs = do {
     (epoch, bs) \<leftarrow> rd_u64 bs; (publisher, bs) \<leftarrow> rd_u64 bs; (incarnation, bs) \<leftarrow> rd_u64 bs;
     (boot, bs) \<leftarrow> rd_u64 bs; (sequence, bs) \<leftarrow> rd_u64 bs; (generation, bs) \<leftarrow> rd_u64 bs;
     (emitted, bs) \<leftarrow> rd_i64 bs; (payload_crc, bs) \<leftarrow> rd_u64 bs; (header_crc, bs) \<leftarrow> rd_u64 bs;
     Some ((epoch, publisher, incarnation, boot, sequence, generation, emitted, payload_crc, header_crc), bs) }"

definition decode_header :: "bytes \<Rightarrow> FrameHeader result" where
  "decode_header bs =
     bind_result (guard (length bs \<ge> kFrameHeaderBytes) TruncatedFrame) (\<lambda>_.
     let expected = crc64 (take (kFrameHeaderBytes - 8) bs)
     in bind_result (parse MalformedFrame header_part1 (take kFrameHeaderBytes bs)) (\<lambda>((magic, version, type, flags, len), rest).
        bind_result (guard (magic = kFrameMagic) MalformedFrame) (\<lambda>_.
        bind_result (guard (ucast version = kFrameProtocolVersion) UnsupportedVersion) (\<lambda>_.
        bind_result (guard (unat len \<le> kMaxFrameBytes) FrameTooLarge) (\<lambda>_.
        bind_result (parse MalformedFrame header_part2 rest)
          (\<lambda>((epoch, publisher, incarnation, boot, sequence, generation, emitted, payload_crc, header_crc), _).
        bind_result (guard (header_crc = expected) IntegrityMismatch) (\<lambda>_.
        Inr \<lparr>fh_version = version, fh_type = mt_of type, fh_flags = flags, fh_payload_length = len,
             fh_epoch = epoch, fh_publisher = publisher, fh_incarnation = incarnation, fh_boot = boot,
             fh_sequence = sequence, fh_generation = generation, fh_emitted_at = emitted,
             fh_payload_crc = payload_crc, fh_header_crc = header_crc\<rparr>)))))))"

definition verify_payload :: "FrameHeader \<Rightarrow> bytes \<Rightarrow> unit result" where
  "verify_payload h payload =
     bind_result (guard (length payload = unat (fh_payload_length h)) TruncatedFrame) (\<lambda>_.
     bind_result (guard (length payload \<le> kMaxFrameBytes) FrameTooLarge) (\<lambda>_.
     guard (crc64 payload = fh_payload_crc h) IntegrityMismatch))"

definition encode_frame :: "Frame \<Rightarrow> bytes result" where
  "encode_frame frame =
     bind_result (guard (length (fr_payload frame) \<le> kMaxFrameBytes) FrameTooLarge) (\<lambda>_.
     let h0 = (fr_header frame)\<lparr>fh_payload_length := word_of_nat (length (fr_payload frame)),
                                fh_payload_crc := crc64 (fr_payload frame)\<rparr>;
         h = (if fh_version h0 = 0 then h0\<lparr>fh_version := ucast kFrameProtocolVersion\<rparr> else h0)
     in Inr (encode_header h @ fr_payload frame))"

definition make_frame :: "MessageType \<Rightarrow> Provenance \<Rightarrow> bytes \<Rightarrow> Frame" where
  "make_frame type p payload =
     \<lparr>fr_header = \<lparr>fh_version = ucast kFrameProtocolVersion, fh_type = type, fh_flags = 0,
        fh_payload_length = word_of_nat (length payload), fh_epoch = pv_epoch p, fh_publisher = pv_publisher p,
        fh_incarnation = pv_incarnation p, fh_boot = pv_boot p, fh_sequence = pv_sequence p,
        fh_generation = sg_value (pv_generation p), fh_emitted_at = pv_emitted_at p,
        fh_payload_crc = crc64 payload, fh_header_crc = 0\<rparr>,
      fr_payload = payload\<rparr>"

section \<open>Parsing entries\<close>

definition encode_stream_header :: "StreamKind \<Rightarrow> u64 \<Rightarrow> Millis \<Rightarrow> bytes" where
  "encode_stream_header stream generation observed_at =
     w_u16 (sk_code stream) @ w_u64 generation @ w_i64 observed_at"

text \<open>\<open>decode_stream_header\<close>: the generation and the time stamp of the expected stream.\<close>

definition decode_stream_header :: "StreamKind \<Rightarrow> (u64 \<times> Millis) parser" where
  "decode_stream_header expected bs =
     bind_result (parse TruncatedFrame rd_u16 bs) (\<lambda>(stream, bs).
     bind_result (guard (sk_of stream = expected) MalformedFrame) (\<lambda>_.
     bind_result (parse TruncatedFrame rd_u64 bs) (\<lambda>(generation, bs).
     bind_result (parse TruncatedFrame rd_i64 bs) (\<lambda>(observed_at, bs).
     Inr ((generation, observed_at), bs)))))"

definition require_end :: "bytes \<Rightarrow> unit result" where
  "require_end bs = guard (bs = []) MalformedFrame"

fun parse_list :: "'a parser \<Rightarrow> nat \<Rightarrow> 'a list parser" where
  "parse_list entry 0 bs = Inr ([], bs)"
| "parse_list entry (Suc n) bs =
     bind_result (entry bs) (\<lambda>(x, rest).
     bind_result (parse_list entry n rest) (\<lambda>(xs, rest'). Inr (x # xs, rest')))"

text \<open>The count, its \<open>check_count\<close>, and that many entries.\<close>

definition parse_counted :: "nat \<Rightarrow> 'a parser \<Rightarrow> 'a list parser" where
  "parse_counted limit entry bs =
     bind_result (parse TruncatedFrame rd_u32 bs) (\<lambda>(count, rest).
     bind_result (guard (unat count \<le> limit) BoundExceeded) (\<lambda>_.
     parse_list entry (unat count) rest))"

section \<open>Payloads\<close>

subsection \<open>Topology\<close>

definition rd_region :: "Region reader" where
  "rd_region bs = do {
     (i, bs) \<leftarrow> rd_u64 bs; (parent, bs) \<leftarrow> rd_u64 bs; (name, bs) \<leftarrow> rd_text kMaxRegionNameBytes bs;
     Some (\<lparr>rg_id = i, rg_name = name, rg_parent = parent\<rparr>, bs) }"

definition rd_resource :: "Resource reader" where
  "rd_resource bs = do {
     (i, bs) \<leftarrow> rd_u64 bs; (region, bs) \<leftarrow> rd_u64 bs; (kind, bs) \<leftarrow> rd_u8 bs;
     (name, bs) \<leftarrow> rd_text kMaxResourceNameBytes bs;
     Some (\<lparr>rs_id = i, rs_region = region, rs_kind = rk_of kind, rs_name = name\<rparr>, bs) }"

definition rd_link :: "Link reader" where
  "rd_link bs = do {
     (i, bs) \<leftarrow> rd_u64 bs; (a, bs) \<leftarrow> rd_u64 bs; (b, bs) \<leftarrow> rd_u64 bs;
     Some (\<lparr>ln_id = i, ln_endpoint_a = a, ln_endpoint_b = b\<rparr>, bs) }"

definition encode_topology_payload :: "TopologySnapshot \<Rightarrow> bytes result" where
  "encode_topology_payload t =
     bind_result (guard (tp_built t) InvalidArgument) (\<lambda>_.
     Inr (encode_stream_header Stream_Topology (tp_generation t) (tp_valid_from t) @ w_i64 (tp_valid_until t)
          @ w_list w_region (tp_regions t) @ w_list w_resource (tp_resources t) @ w_list w_link (tp_links t)))"

definition decode_topology_payload :: "bytes \<Rightarrow> TopologySnapshot result" where
  "decode_topology_payload bs =
     bind_result (decode_stream_header Stream_Topology bs) (\<lambda>((generation, observed_at), bs).
     bind_result (parse TruncatedFrame rd_i64 bs) (\<lambda>(valid_until, bs).
     let t0 = empty_topology\<lparr>tp_valid_from := observed_at, tp_valid_until := valid_until\<rparr>
     in bind_result (parse_counted kMaxRegions (parse TruncatedFrame rd_region) bs) (\<lambda>(regions, bs).
     let t1 = fold (\<lambda>r. add_region (rg_id r) (rg_name r) (rg_parent r)) regions t0
     in bind_result (parse_counted kMaxResources (parse TruncatedFrame rd_resource) bs) (\<lambda>(resources, bs).
     let t2 = fold (\<lambda>r. add_resource (rs_id r) (rs_region r) (rs_kind r) (rs_name r)) resources t1
     in bind_result (parse_counted kMaxLinks (parse TruncatedFrame rd_link) bs) (\<lambda>(links, bs).
     let t3 = fold (\<lambda>l. add_link (ln_id l) (ln_endpoint_a l) (ln_endpoint_b l)) links t2
     in bind_result (require_end bs) (\<lambda>_.
        bind_result (build_topology t3) (\<lambda>t. Inr (t\<lparr>tp_generation := generation\<rparr>))))))))"

subsection \<open>Capacity\<close>

definition rd_capacity :: "ResourceCapacity reader" where
  "rd_capacity bs = do {
     (r, bs) \<leftarrow> rd_u64 bs; (c, bs) \<leftarrow> rd_u64 bs; (q, bs) \<leftarrow> rd_u64 bs; (b, bs) \<leftarrow> rd_u64 bs; (u, bs) \<leftarrow> rd_bool bs;
     Some (\<lparr>cap_resource = r, cap_units = c, cap_queue_limit = q, cap_buffer_limit = b, cap_usable = u\<rparr>, bs) }"

definition encode_capacity_payload :: "CapacitySnapshot \<Rightarrow> bytes result" where
  "encode_capacity_payload s =
     bind_result (guard (cs_built s) InvalidArgument) (\<lambda>_.
     Inr (encode_stream_header Stream_Capacity (cs_generation s) (cs_observed_at s) @ w_u64 (cs_topology_generation s)
          @ w_list w_capacity (cs_entries s)))"

definition decode_capacity_payload :: "bytes \<Rightarrow> CapacitySnapshot result" where
  "decode_capacity_payload bs =
     bind_result (decode_stream_header Stream_Capacity bs) (\<lambda>((generation, observed_at), bs).
     bind_result (parse TruncatedFrame rd_u64 bs) (\<lambda>(topology_generation, bs).
     bind_result (parse_counted kMaxCapacityEntries (parse TruncatedFrame rd_capacity) bs) (\<lambda>(entries, bs).
     bind_result (require_end bs) (\<lambda>_.
     bind_result (build_capacity (fold add_capacity entries empty_capacity)) (\<lambda>s.
     Inr (s\<lparr>cs_generation := generation, cs_topology_generation := topology_generation,
            cs_observed_at := observed_at\<rparr>))))))"

subsection \<open>Signals\<close>

definition rd_signals :: "ResourceSignals reader" where
  "rd_signals bs = do {
     (r, bs) \<leftarrow> rd_u64 bs; (u, bs) \<leftarrow> rd_u64 bs; (q, bs) \<leftarrow> rd_u64 bs; (b, bs) \<leftarrow> rd_u64 bs; (f, bs) \<leftarrow> rd_u64 bs;
     (a, bs) \<leftarrow> rd_u64 bs; (d, bs) \<leftarrow> rd_u64 bs; (c, bs) \<leftarrow> rd_u32 bs; (k, bs) \<leftarrow> rd_u8 bs; (t, bs) \<leftarrow> rd_i64 bs;
     Some (\<lparr>sr_resource = r, sr_utilized = u, sr_queue_depth = q, sr_buffer_used = b, sr_offered = f, sr_admitted = a,
        sr_drops = d, sr_confidence = c, sr_quality = tq_of k, sr_observed_at = t\<rparr>, bs) }"

definition encode_signals_payload :: "SignalSnapshot \<Rightarrow> bytes result" where
  "encode_signals_payload s =
     bind_result (guard (ss_built s) InvalidArgument) (\<lambda>_.
     Inr (encode_stream_header Stream_Signals (ss_generation s) (ss_window_end s) @ w_u64 (ss_topology_generation s)
          @ w_u64 (ss_capacity_generation s) @ w_i64 (ss_window_start s) @ w_list w_signals (ss_records s)))"

definition signals_head :: "(u64 \<times> u64 \<times> Millis) reader" where
  "signals_head bs = do {
     (topology, bs) \<leftarrow> rd_u64 bs; (capacity, bs) \<leftarrow> rd_u64 bs; (start, bs) \<leftarrow> rd_i64 bs;
     Some ((topology, capacity, start), bs) }"

definition decode_signals_payload :: "bytes \<Rightarrow> SignalSnapshot result" where
  "decode_signals_payload bs =
     bind_result (decode_stream_header Stream_Signals bs) (\<lambda>((generation, observed_at), bs).
     bind_result (parse TruncatedFrame signals_head bs) (\<lambda>((topology_generation, capacity_generation, window_start), bs).
     bind_result (parse_counted kMaxSignalRecords (parse TruncatedFrame rd_signals) bs) (\<lambda>(records, bs).
     bind_result (require_end bs) (\<lambda>_.
     bind_result (build_signals (fold add_signals records empty_signals)) (\<lambda>s.
     Inr (s\<lparr>ss_generation := generation, ss_topology_generation := topology_generation,
            ss_capacity_generation := capacity_generation, ss_window_start := window_start,
            ss_window_end := observed_at\<rparr>))))))"

subsection \<open>Paths\<close>

definition path_head :: "(PathId \<times> FlowId \<times> u32) reader" where
  "path_head bs = do {
     (i, bs) \<leftarrow> rd_u64 bs; (flow, bs) \<leftarrow> rd_u64 bs; (hops, bs) \<leftarrow> rd_u32 bs; Some ((i, flow, hops), bs) }"

definition parse_path :: "PathRecord parser" where
  "parse_path bs =
     bind_result (parse TruncatedFrame path_head bs) (\<lambda>((i, flow, hops), bs).
     bind_result (guard (unat hops \<le> kMaxHopsPerPath) BoundExceeded) (\<lambda>_.
     bind_result (parse_list (parse TruncatedFrame rd_u64) (unat hops) bs) (\<lambda>(ids, bs).
     Inr (\<lparr>pr_id = i, pr_flow = flow, pr_hops = ids\<rparr>, bs))))"

definition encode_paths_payload :: "PathSnapshot \<Rightarrow> bytes result" where
  "encode_paths_payload s =
     bind_result (guard (ps_built s) InvalidArgument) (\<lambda>_.
     Inr (encode_stream_header Stream_Paths (ps_generation s) (ps_observed_at s) @ w_u64 (ps_topology_generation s)
          @ w_list w_path (ps_paths s)))"

definition decode_paths_payload :: "bytes \<Rightarrow> PathSnapshot result" where
  "decode_paths_payload bs =
     bind_result (decode_stream_header Stream_Paths bs) (\<lambda>((generation, observed_at), bs).
     bind_result (parse TruncatedFrame rd_u64 bs) (\<lambda>(topology_generation, bs).
     bind_result (parse_counted kMaxPaths parse_path bs) (\<lambda>(paths, bs).
     bind_result (require_end bs) (\<lambda>_.
     bind_result (build_paths (fold add_path paths empty_paths)) (\<lambda>s.
     Inr (s\<lparr>ps_generation := generation, ps_topology_generation := topology_generation,
            ps_observed_at := observed_at\<rparr>))))))"

subsection \<open>Traffic\<close>

definition rd_traffic :: "TrafficRecord reader" where
  "rd_traffic bs = do {
     (f, bs) \<leftarrow> rd_u64 bs; (p, bs) \<leftarrow> rd_u64 bs; (d, bs) \<leftarrow> rd_u64 bs; (k, bs) \<leftarrow> rd_u8 bs; (t, bs) \<leftarrow> rd_i64 bs;
     Some (\<lparr>tr_flow = f, tr_path = p, tr_demand = d, tr_quality = tq_of k, tr_observed_at = t\<rparr>, bs) }"

definition encode_traffic_payload :: "TrafficSnapshot \<Rightarrow> bytes result" where
  "encode_traffic_payload s =
     bind_result (guard (ts_built s) InvalidArgument) (\<lambda>_.
     Inr (encode_stream_header Stream_Traffic (ts_generation s) kNoTime @ w_u64 (ts_path_generation s)
          @ w_list w_traffic (ts_records s)))"

definition decode_traffic_payload :: "bytes \<Rightarrow> TrafficSnapshot result" where
  "decode_traffic_payload bs =
     bind_result (decode_stream_header Stream_Traffic bs) (\<lambda>((generation, _), bs).
     bind_result (parse TruncatedFrame rd_u64 bs) (\<lambda>(path_generation, bs).
     bind_result (parse_counted kMaxTrafficRecords (parse TruncatedFrame rd_traffic) bs) (\<lambda>(records, bs).
     bind_result (require_end bs) (\<lambda>_.
     bind_result (build_traffic (fold add_traffic records empty_traffic)) (\<lambda>s.
     Inr (s\<lparr>ts_generation := generation, ts_path_generation := path_generation\<rparr>))))))"

subsection \<open>Policy\<close>

definition policy_head :: "(PolicyId \<times> Millis \<times> u32) reader" where
  "policy_head bs = do {
     (i, bs) \<leftarrow> rd_u64 bs; (issued_at, bs) \<leftarrow> rd_i64 bs; (ttl, bs) \<leftarrow> rd_u32 bs; Some ((i, issued_at, ttl), bs) }"

definition rd_thresholds :: "Thresholds reader" where
  "rd_thresholds bs = do {
     (x1, bs) \<leftarrow> rd_u32 bs; (x2, bs) \<leftarrow> rd_u32 bs; (x3, bs) \<leftarrow> rd_u32 bs;
     (x4, bs) \<leftarrow> rd_u32 bs; (x5, bs) \<leftarrow> rd_u32 bs; (x6, bs) \<leftarrow> rd_u32 bs;
     (x7, bs) \<leftarrow> rd_u32 bs; (x8, bs) \<leftarrow> rd_u32 bs; (x9, bs) \<leftarrow> rd_u32 bs;
     (x10, bs) \<leftarrow> rd_u32 bs; (x11, bs) \<leftarrow> rd_u32 bs; (x12, bs) \<leftarrow> rd_u32 bs;
     (x13, bs) \<leftarrow> rd_u32 bs; (x14, bs) \<leftarrow> rd_u32 bs; (x15, bs) \<leftarrow> rd_u32 bs;
     (x16, bs) \<leftarrow> rd_u32 bs; (x17, bs) \<leftarrow> rd_u32 bs; (x18, bs) \<leftarrow> rd_u32 bs;
     (x19, bs) \<leftarrow> rd_u32 bs;
     Some (\<lparr>th_saturation_utilization_ppm = x1, th_queue_pressure_ppm = x2, th_buffer_pressure_ppm = x3,
        th_min_confidence_ppm = x4, th_max_signal_age_ms = x5, th_max_capacity_age_ms = x6,
        th_max_topology_age_ms = x7, th_max_path_age_ms = x8, th_max_traffic_age_ms = x9,
        th_persistence_window_ms = x10, th_min_persistence_samples = x11,
        th_max_local_share_ppm = x12, th_global_share_ppm = x13, th_max_local_regions = x14,
        th_max_regional_regions = x15, th_min_coverage_ppm = x16,
        th_min_attribution_confidence_ppm = x17, th_dominant_contributor_ppm = x18,
        th_contradiction_utilization_ppm = x19\<rparr>, bs) }"

definition rd_budget :: "MitigationBudget reader" where
  "rd_budget bs = do {
     (x1, bs) \<leftarrow> rd_u32 bs; (x2, bs) \<leftarrow> rd_u32 bs; (x3, bs) \<leftarrow> rd_u32 bs;
     (x4, bs) \<leftarrow> rd_u32 bs; (x5, bs) \<leftarrow> rd_u32 bs; (x6, bs) \<leftarrow> rd_u32 bs;
     (x7, bs) \<leftarrow> rd_u32 bs; (x8, bs) \<leftarrow> rd_bool bs; (x9, bs) \<leftarrow> rd_bool bs;
     (x10, bs) \<leftarrow> rd_bool bs; (x11, bs) \<leftarrow> rd_bool bs; (x12, bs) \<leftarrow> rd_bool bs;
     (x13, bs) \<leftarrow> rd_bool bs; (x14, bs) \<leftarrow> rd_bool bs;
     Some (\<lparr>bg_max_affected_resources = x1, bg_max_affected_paths = x2, bg_max_affected_flows = x3,
        bg_max_rate_delta_ppm = x4, bg_max_scope_share_ppm = x5, bg_max_plan_scope_share_ppm = x6,
        bg_max_intents_per_plan = x7, bg_allow_flow_relocation = x8, bg_allow_path_rebalance = x9,
        bg_allow_admission_reduction = x10, bg_allow_rate_change = x11,
        bg_allow_resource_isolation = x12, bg_allow_global_escalation = x13,
        bg_require_attribution_for_relocation = x14\<rparr>, bs) }"

definition rd_bands :: "SeverityBands reader" where
  "rd_bands bs = do {
     (x1, bs) \<leftarrow> rd_u32 bs; (x2, bs) \<leftarrow> rd_u32 bs; (x3, bs) \<leftarrow> rd_u32 bs;
     (x4, bs) \<leftarrow> rd_u32 bs;
     Some (\<lparr>bd_low_ppm = x1, bd_moderate_ppm = x2, bd_high_ppm = x3, bd_critical_ppm = x4\<rparr>, bs) }"

definition encode_policy_payload :: "PolicySnapshot \<Rightarrow> bytes" where
  "encode_policy_payload p =
     encode_stream_header Stream_Policy (po_generation p) (po_issued_at p) @ w_u64 (po_id p) @ w_i64 (po_issued_at p)
     @ w_u32 (po_ttl_ms p) @ w_thresholds (po_thresholds p) @ w_budget (po_budget p) @ w_bands (po_bands p)"

definition decode_policy_payload :: "bytes \<Rightarrow> PolicySnapshot result" where
  "decode_policy_payload bs =
     bind_result (decode_stream_header Stream_Policy bs) (\<lambda>((generation, _), bs).
     bind_result (parse TruncatedFrame policy_head bs) (\<lambda>((i, issued_at, ttl), bs).
     bind_result (parse TruncatedFrame rd_thresholds bs) (\<lambda>(thresholds, bs).
     bind_result (parse TruncatedFrame rd_budget bs) (\<lambda>(budget, bs).
     bind_result (parse TruncatedFrame rd_bands bs) (\<lambda>(bands, bs).
     bind_result (require_end bs) (\<lambda>_.
     Inr (empty_policy\<lparr>po_id := i, po_generation := generation, po_issued_at := issued_at, po_ttl_ms := ttl,
            po_thresholds := thresholds, po_budget := budget, po_bands := bands\<rparr>)))))))"

subsection \<open>Control messages\<close>

record HelloPayload =
  he_publisher :: PublisherId
  he_incarnation :: Incarnation
  he_boot :: BootId
  he_protocol_version :: u32
  he_name :: string

record WelcomePayload =
  we_epoch :: CoordinatorEpoch
  we_coordinator_boot :: BootId
  we_protocol_version :: u32
  we_name :: string
  we_heartbeat_ms :: u32

text \<open>\<open>RejectedPayload\<close>; the code travels as its number.\<close>

record RejectedPayload =
  rj_code :: u32
  rj_reason :: string

definition encode_hello :: "HelloPayload \<Rightarrow> bytes" where
  "encode_hello h = w_u64 (he_publisher h) @ w_u64 (he_incarnation h) @ w_u64 (he_boot h)
     @ w_u32 (he_protocol_version h) @ w_text (he_name h)"

definition rd_hello :: "HelloPayload reader" where
  "rd_hello bs = do {
     (p, bs) \<leftarrow> rd_u64 bs; (i, bs) \<leftarrow> rd_u64 bs; (b, bs) \<leftarrow> rd_u64 bs; (v, bs) \<leftarrow> rd_u32 bs;
     (name, bs) \<leftarrow> rd_text kMaxTextBytes bs;
     Some (\<lparr>he_publisher = p, he_incarnation = i, he_boot = b, he_protocol_version = v, he_name = name\<rparr>, bs) }"

definition decode_hello :: "bytes \<Rightarrow> HelloPayload result" where
  "decode_hello bs =
     bind_result (parse TruncatedFrame rd_hello bs) (\<lambda>(h, bs).
     bind_result (guard (he_protocol_version h = kFrameProtocolVersion) UnsupportedVersion) (\<lambda>_.
     bind_result (require_end bs) (\<lambda>_. Inr h)))"

definition encode_welcome :: "WelcomePayload \<Rightarrow> bytes" where
  "encode_welcome w = w_u64 (we_epoch w) @ w_u64 (we_coordinator_boot w) @ w_u32 (we_protocol_version w)
     @ w_u32 (we_heartbeat_ms w) @ w_text (we_name w)"

definition rd_welcome :: "WelcomePayload reader" where
  "rd_welcome bs = do {
     (e, bs) \<leftarrow> rd_u64 bs; (b, bs) \<leftarrow> rd_u64 bs; (v, bs) \<leftarrow> rd_u32 bs; (t, bs) \<leftarrow> rd_u32 bs;
     (name, bs) \<leftarrow> rd_text kMaxTextBytes bs;
     Some (\<lparr>we_epoch = e, we_coordinator_boot = b, we_protocol_version = v, we_name = name, we_heartbeat_ms = t\<rparr>, bs) }"

definition decode_welcome :: "bytes \<Rightarrow> WelcomePayload result" where
  "decode_welcome bs =
     bind_result (parse TruncatedFrame rd_welcome bs) (\<lambda>(w, bs). bind_result (require_end bs) (\<lambda>_. Inr w))"

definition encode_rejected :: "RejectedPayload \<Rightarrow> bytes" where
  "encode_rejected r = w_u32 (rj_code r) @ w_text (rj_reason r)"

definition rd_rejected :: "RejectedPayload reader" where
  "rd_rejected bs = do {
     (c, bs) \<leftarrow> rd_u32 bs; (reason, bs) \<leftarrow> rd_text kMaxTextBytes bs; Some (\<lparr>rj_code = c, rj_reason = reason\<rparr>, bs) }"

definition decode_rejected :: "bytes \<Rightarrow> RejectedPayload result" where
  "decode_rejected bs =
     bind_result (parse TruncatedFrame rd_rejected bs) (\<lambda>(r, bs). bind_result (require_end bs) (\<lambda>_. Inr r))"

section \<open>Parsers invert writers\<close>

text \<open>The contract of a writer and a parser, and what it gives for counted lists.\<close>

locale parser_codec =
  fixes put :: "'a \<Rightarrow> bytes" and prs :: "'a parser" and ok :: "'a \<Rightarrow> bool"
  assumes parse_put: "ok x \<Longrightarrow> prs (put x @ rest) = Inr (x, rest)"
begin

lemma parse_list_put:
  "\<forall>x\<in>set xs. ok x \<Longrightarrow> parse_list prs (length xs) (concat (map put xs) @ rest) = Inr (xs, rest)"
  by (induction xs) (simp_all add: parse_put)

lemma parse_counted_put:
  assumes "\<forall>x\<in>set xs. ok x" and "length xs \<le> limit" and "limit < 2 ^ 32"
  shows "parse_counted limit prs (w_list put xs @ rest) = Inr (xs, rest)"
proof -
  have "unat (word_of_nat (length xs) :: u32) = length xs" using assms(2,3) by (intro unat_length32) simp
  then show ?thesis using assms(1,2)
    by (simp add: parse_counted_def w_list_def parse_def rd_u32_w_u32 parse_list_put)
qed

end

sublocale codec \<subseteq> parsed: parser_codec put "parse TruncatedFrame get" ok
  by unfold_locales (simp add: parse_def get_put)

interpretation region_codec: codec w_region rd_region "\<lambda>r. length (rg_name r) \<le> kMaxRegionNameBytes"
  by unfold_locales (simp add: w_region_def rd_region_def codec_simps kMaxRegionNameBytes_def)

interpretation resource_codec: codec w_resource rd_resource
    "\<lambda>r. rk_ok (rs_kind r) \<and> length (rs_name r) \<le> kMaxResourceNameBytes"
  by unfold_locales (simp add: w_resource_def rd_resource_def codec_simps kMaxResourceNameBytes_def rk_of_code)

interpretation link_codec: codec w_link rd_link "\<lambda>_. True"
  by unfold_locales (simp add: w_link_def rd_link_def codec_simps)

interpretation capacity_codec: codec w_capacity rd_capacity "\<lambda>_. True"
  by unfold_locales (simp add: w_capacity_def rd_capacity_def codec_simps)

interpretation signals_codec: codec w_signals rd_signals "\<lambda>r. tq_ok (sr_quality r) \<and> millis_ok (sr_observed_at r)"
  by unfold_locales (simp add: w_signals_def rd_signals_def codec_simps tq_of_code)

interpretation traffic_codec: codec w_traffic rd_traffic "\<lambda>r. tq_ok (tr_quality r) \<and> millis_ok (tr_observed_at r)"
  by unfold_locales (simp add: w_traffic_def rd_traffic_def codec_simps tq_of_code)

interpretation path_codec: parser_codec w_path parse_path "\<lambda>p. length (pr_hops p) \<le> kMaxHopsPerPath"
proof
  fix p :: PathRecord and rest assume h: "length (pr_hops p) \<le> kMaxHopsPerPath"
  then have n: "unat (word_of_nat (length (pr_hops p)) :: u32) = length (pr_hops p)"
    by (intro unat_length32) (simp add: kMaxHopsPerPath_def)
  have "parse_list (parse TruncatedFrame rd_u64) (length (pr_hops p)) (concat (map w_u64 (pr_hops p)) @ rest)
      = Inr (pr_hops p, rest)" by (rule u64c.parsed.parse_list_put) simp
  then show "parse_path (w_path p @ rest) = Inr (p, rest)"
    using h n by (simp add: parse_path_def path_head_def w_path_def w_list_def parse_def codec_simps)
qed

interpretation thresholds_codec: codec w_thresholds rd_thresholds "\<lambda>_. True"
  by unfold_locales (simp add: w_thresholds_def rd_thresholds_def codec_simps)

interpretation budget_codec: codec w_budget rd_budget "\<lambda>_. True"
  by unfold_locales (simp add: w_budget_def rd_budget_def codec_simps)

interpretation bands_codec: codec w_bands rd_bands "\<lambda>_. True"
  by unfold_locales (simp add: w_bands_def rd_bands_def codec_simps)

interpretation hello_codec: codec encode_hello rd_hello "\<lambda>h. length (he_name h) \<le> kMaxTextBytes"
  by unfold_locales (simp add: encode_hello_def rd_hello_def codec_simps kMaxTextBytes_def)

interpretation welcome_codec: codec encode_welcome rd_welcome "\<lambda>w. length (we_name w) \<le> kMaxTextBytes"
  by unfold_locales (simp add: encode_welcome_def rd_welcome_def codec_simps kMaxTextBytes_def)

interpretation rejected_codec: codec encode_rejected rd_rejected "\<lambda>r. length (rj_reason r) \<le> kMaxTextBytes"
  by unfold_locales (simp add: encode_rejected_def rd_rejected_def codec_simps kMaxTextBytes_def)

lemma decode_encode_stream_header:
  "sk_ok k \<Longrightarrow> millis_ok t \<Longrightarrow> decode_stream_header k (encode_stream_header k g t @ rest) = Inr ((g, t), rest)"
  by (simp add: decode_stream_header_def encode_stream_header_def parse_def codec_simps sk_of_code)

lemma stream_kinds_ok [simp]:
  "sk_ok Stream_Topology" "sk_ok Stream_Capacity" "sk_ok Stream_Signals" "sk_ok Stream_Paths" "sk_ok Stream_Traffic"
  "sk_ok Stream_Policy"
  by (simp_all add: sk_ok_def sk_of_def)

lemma require_end_simps [simp]: "require_end [] = Inr ()" "require_end (b # bs) = Inl MalformedFrame"
  by (simp_all add: require_end_def)

lemma parse_word_simps [simp]:
  "parse e rd_u64 (w_u64 v @ rest) = Inr (v, rest)" "millis_ok t \<Longrightarrow> parse e rd_i64 (w_i64 t @ rest) = Inr (t, rest)"
  by (simp_all add: parse_def codec_simps)

section \<open>Payload round trips\<close>

text \<open>Building what is already built changes nothing.\<close>

lemma sort_key_idem [simp]: "sort_key f (sort_key f xs) = sort_key f xs"
  by (simp add: sort_key_id_if_sorted)

lemma rebuild_capacity:
  assumes "build_capacity s0 = Inr s1"
  shows "build_capacity (s\<lparr>cs_entries := cs_entries s1\<rparr>) =
      Inr (s\<lparr>cs_entries := cs_entries s1, cs_digest := cs_digest s1, cs_id := cs_id s1, cs_built := True\<rparr>)"
    "length (cs_entries s1) \<le> kMaxCapacityEntries" "cs_built s1"
  using assms by (auto simp: build_capacity_def Let_def bind_result_Inr_iff)

lemma rebuild_signals:
  assumes "build_signals s0 = Inr s1"
  shows "build_signals (s\<lparr>ss_records := ss_records s1\<rparr>) =
      Inr (s\<lparr>ss_records := ss_records s1, ss_digest := ss_digest s1, ss_id := ss_id s1, ss_built := True\<rparr>)"
    "length (ss_records s1) \<le> kMaxSignalRecords" "ss_built s1"
  using assms by (auto simp: build_signals_def Let_def bind_result_Inr_iff)

lemma rebuild_paths:
  assumes "build_paths s0 = Inr s1"
  shows "build_paths (s\<lparr>ps_paths := ps_paths s1\<rparr>) =
      Inr (s\<lparr>ps_paths := ps_paths s1, ps_through_offsets := ps_through_offsets s1,
             ps_through_resources := ps_through_resources s1, ps_through_paths := ps_through_paths s1,
             ps_digest := ps_digest s1, ps_id := ps_id s1, ps_built := True\<rparr>)"
    "length (ps_paths s1) \<le> kMaxPaths" "ps_built s1"
  using assms by (auto simp: build_paths_def Let_def bind_result_Inr_iff case_prod_beta)

lemma rebuild_traffic:
  assumes "build_traffic s0 = Inr s1"
  shows "build_traffic (s\<lparr>ts_records := ts_records s1\<rparr>) =
      Inr (s\<lparr>ts_records := ts_records s1, ts_digest := ts_digest s1, ts_id := ts_id s1, ts_built := True\<rparr>)"
    "length (ts_records s1) \<le> kMaxTrafficRecords" "ts_built s1"
  using assms by (auto simp: build_traffic_def Let_def bind_result_Inr_iff)

lemma fold_adds:
  "fold add_capacity es c = (if es = [] then c else c\<lparr>cs_entries := cs_entries c @ es, cs_built := False\<rparr>)"
  "fold add_signals rs s = (if rs = [] then s else s\<lparr>ss_records := ss_records s @ rs, ss_built := False\<rparr>)"
  "fold add_path ps p = (if ps = [] then p else p\<lparr>ps_paths := ps_paths p @ ps, ps_built := False\<rparr>)"
  "fold add_traffic ts t = (if ts = [] then t else t\<lparr>ts_records := ts_records t @ ts, ts_built := False\<rparr>)"
proof -
  show "fold add_capacity es c = (if es = [] then c else c\<lparr>cs_entries := cs_entries c @ es, cs_built := False\<rparr>)"
    by (induction es arbitrary: c) (auto simp: add_capacity_def)
  show "fold add_signals rs s = (if rs = [] then s else s\<lparr>ss_records := ss_records s @ rs, ss_built := False\<rparr>)"
    by (induction rs arbitrary: s) (auto simp: add_signals_def)
  show "fold add_path ps p = (if ps = [] then p else p\<lparr>ps_paths := ps_paths p @ ps, ps_built := False\<rparr>)"
    by (induction ps arbitrary: p) (auto simp: add_path_def)
  show "fold add_traffic ts t = (if ts = [] then t else t\<lparr>ts_records := ts_records t @ ts, ts_built := False\<rparr>)"
    by (induction ts arbitrary: t) (auto simp: add_traffic_def)
qed

lemma fold_adds_empty:
  "fold add_capacity es empty_capacity = empty_capacity\<lparr>cs_entries := es\<rparr>"
  "fold add_signals rs empty_signals = empty_signals\<lparr>ss_records := rs\<rparr>"
  "fold add_path ps empty_paths = empty_paths\<lparr>ps_paths := ps\<rparr>"
  "fold add_traffic ts empty_traffic = empty_traffic\<lparr>ts_records := ts\<rparr>"
  by (simp_all add: fold_adds empty_capacity_def empty_signals_def empty_paths_def empty_traffic_def)

lemma capacity_roundtrip:
  assumes b: "build_capacity s0 = Inr s1" and t: "millis_ok (cs_observed_at s)"
    and s: "s = s1\<lparr>cs_generation := g, cs_topology_generation := tg, cs_observed_at := at, cs_provenance := p\<rparr>"
  shows "\<exists>bs. encode_capacity_payload s = Inr bs \<and> decode_capacity_payload bs = Inr (s\<lparr>cs_provenance := no_provenance\<rparr>)"
proof -
  have l: "parse_counted kMaxCapacityEntries (parse TruncatedFrame rd_capacity) (w_list w_capacity (cs_entries s1))
      = Inr (cs_entries s1, [])"
    using capacity_codec.parsed.parse_counted_put [of "cs_entries s1" kMaxCapacityEntries "[]"] rebuild_capacity(2) [OF b]
    by (simp add: kMaxCapacityEntries_def)
  show ?thesis using t rebuild_capacity [OF b]
    by (simp add: encode_capacity_payload_def decode_capacity_payload_def s decode_encode_stream_header l fold_adds_empty)
      (simp add: empty_capacity_def)
qed

lemma signals_roundtrip:
  assumes b: "build_signals s0 = Inr s1"
    and r: "\<forall>r \<in> set (ss_records s1). tq_ok (sr_quality r) \<and> millis_ok (sr_observed_at r)"
    and t: "millis_ok st" "millis_ok en"
    and s: "s = s1\<lparr>ss_generation := g, ss_topology_generation := tg, ss_capacity_generation := cg, ss_window_start := st,
                  ss_window_end := en, ss_provenance := p\<rparr>"
  shows "\<exists>bs. encode_signals_payload s = Inr bs \<and> decode_signals_payload bs = Inr (s\<lparr>ss_provenance := no_provenance\<rparr>)"
proof -
  have l: "parse_counted kMaxSignalRecords (parse TruncatedFrame rd_signals) (w_list w_signals (ss_records s1))
      = Inr (ss_records s1, [])"
    using signals_codec.parsed.parse_counted_put [of "ss_records s1" kMaxSignalRecords "[]"] rebuild_signals(2) [OF b] r
    by (simp add: kMaxSignalRecords_def)
  have h: "parse TruncatedFrame signals_head (w_u64 tg @ w_u64 cg @ w_i64 st @ rest) = Inr ((tg, cg, st), rest)" for rest
    using t by (simp add: parse_def signals_head_def codec_simps)
  show ?thesis using t rebuild_signals [OF b]
    by (simp add: encode_signals_payload_def decode_signals_payload_def s decode_encode_stream_header l h fold_adds_empty)
      (simp add: empty_signals_def)
qed

lemma paths_roundtrip:
  assumes b: "build_paths s0 = Inr s1" and t: "millis_ok at"
    and s: "s = s1\<lparr>ps_generation := g, ps_topology_generation := tg, ps_observed_at := at, ps_provenance := p\<rparr>"
  shows "\<exists>bs. encode_paths_payload s = Inr bs \<and> decode_paths_payload bs = Inr (s\<lparr>ps_provenance := no_provenance\<rparr>)"
proof -
  have "\<forall>p \<in> set (ps_paths s1). length (pr_hops p) \<le> kMaxHopsPerPath"
    using build_paths_wf(1) [OF b] by (simp add: paths_wf_def)
  then have l: "parse_counted kMaxPaths parse_path (w_list w_path (ps_paths s1)) = Inr (ps_paths s1, [])"
    using path_codec.parse_counted_put [of "ps_paths s1" kMaxPaths "[]"] rebuild_paths(2) [OF b]
    by (simp add: kMaxPaths_def)
  show ?thesis using t rebuild_paths [OF b]
    by (simp add: encode_paths_payload_def decode_paths_payload_def s decode_encode_stream_header l fold_adds_empty)
      (simp add: empty_paths_def)
qed

lemma traffic_roundtrip:
  assumes b: "build_traffic s0 = Inr s1"
    and r: "\<forall>r \<in> set (ts_records s1). tq_ok (tr_quality r) \<and> millis_ok (tr_observed_at r)"
    and s: "s = s1\<lparr>ts_generation := g, ts_path_generation := pg, ts_provenance := p\<rparr>"
  shows "\<exists>bs. encode_traffic_payload s = Inr bs \<and> decode_traffic_payload bs = Inr (s\<lparr>ts_provenance := no_provenance\<rparr>)"
proof -
  have l: "parse_counted kMaxTrafficRecords (parse TruncatedFrame rd_traffic) (w_list w_traffic (ts_records s1))
      = Inr (ts_records s1, [])"
    using traffic_codec.parsed.parse_counted_put [of "ts_records s1" kMaxTrafficRecords "[]"] rebuild_traffic(2) [OF b] r
    by (simp add: kMaxTrafficRecords_def)
  have "millis_ok kNoTime" by (simp add: millis_ok_def kNoTime_def kMaxTime_def)
  then show ?thesis using rebuild_traffic [OF b]
    by (simp add: encode_traffic_payload_def decode_traffic_payload_def s decode_encode_stream_header l fold_adds_empty)
      (simp add: empty_traffic_def)
qed

lemma policy_roundtrip:
  assumes "millis_ok (po_issued_at p)"
  shows "decode_policy_payload (encode_policy_payload p) = Inr (p\<lparr>po_provenance := no_provenance\<rparr>)"
proof -
  have h: "parse TruncatedFrame policy_head (w_u64 i @ w_i64 (po_issued_at p) @ w_u32 ttl @ rest)
      = Inr ((i, po_issued_at p, ttl), rest)" for i ttl rest
    using assms by (simp add: parse_def policy_head_def codec_simps)
  show ?thesis using assms bands_codec.parsed.parse_put [of "po_bands p" "[]"]
    by (simp add: decode_policy_payload_def encode_policy_payload_def decode_encode_stream_header h
        thresholds_codec.parsed.parse_put budget_codec.parsed.parse_put empty_policy_def)
qed

lemma control_roundtrip:
  "length (he_name h) \<le> kMaxTextBytes \<Longrightarrow> he_protocol_version h = kFrameProtocolVersion \<Longrightarrow> decode_hello (encode_hello h) = Inr h"
  "length (we_name w) \<le> kMaxTextBytes \<Longrightarrow> decode_welcome (encode_welcome w) = Inr w"
  "length (rj_reason r) \<le> kMaxTextBytes \<Longrightarrow> decode_rejected (encode_rejected r) = Inr r"
  using hello_codec.parsed.parse_put [of h "[]"] welcome_codec.parsed.parse_put [of w "[]"]
    rejected_codec.parsed.parse_put [of r "[]"]
  by (simp_all add: decode_hello_def decode_welcome_def decode_rejected_def)

subsection \<open>Topology\<close>

lemma fold_add_topology:
  "\<forall>r \<in> set regions. length (rg_name r) \<le> kMaxRegionNameBytes \<Longrightarrow>
     fold (\<lambda>r. add_region (rg_id r) (rg_name r) (rg_parent r)) regions t =
       (if regions = [] then t else t\<lparr>tp_regions := tp_regions t @ regions, tp_built := False\<rparr>)"
  "\<forall>r \<in> set resources. length (rs_name r) \<le> kMaxResourceNameBytes \<Longrightarrow>
     fold (\<lambda>r. add_resource (rs_id r) (rs_region r) (rs_kind r) (rs_name r)) resources t =
       (if resources = [] then t else t\<lparr>tp_resources := tp_resources t @ resources, tp_built := False\<rparr>)"
  "fold (\<lambda>l. add_link (ln_id l) (ln_endpoint_a l) (ln_endpoint_b l)) links t =
       (if links = [] then t else t\<lparr>tp_links := tp_links t @ links, tp_built := False\<rparr>)"
proof -
  show "\<forall>r \<in> set regions. length (rg_name r) \<le> kMaxRegionNameBytes \<Longrightarrow>
     fold (\<lambda>r. add_region (rg_id r) (rg_name r) (rg_parent r)) regions t =
       (if regions = [] then t else t\<lparr>tp_regions := tp_regions t @ regions, tp_built := False\<rparr>)"
    by (induction regions arbitrary: t) (auto simp: add_region_def bounded_name_def)
  show "\<forall>r \<in> set resources. length (rs_name r) \<le> kMaxResourceNameBytes \<Longrightarrow>
     fold (\<lambda>r. add_resource (rs_id r) (rs_region r) (rs_kind r) (rs_name r)) resources t =
       (if resources = [] then t else t\<lparr>tp_resources := tp_resources t @ resources, tp_built := False\<rparr>)"
    by (induction resources arbitrary: t) (auto simp: add_resource_def bounded_name_def)
  show "fold (\<lambda>l. add_link (ln_id l) (ln_endpoint_a l) (ln_endpoint_b l)) links t =
       (if links = [] then t else t\<lparr>tp_links := tp_links t @ links, tp_built := False\<rparr>)"
    by (induction links arbitrary: t) (auto simp: add_link_def)
qed

text \<open>Validation and indexing read only the three lists.\<close>

lemma topology_regions_cong:
  assumes "tp_regions t = tp_regions t'"
  shows "find_region t = find_region t'" "check_parent t = check_parent t'" "check_cycle t = check_cycle t'"
    "check_resource t = check_resource t'" "region_walk n t c = region_walk n t' c"
proof -
  show f: "find_region t = find_region t'" using assms by (simp add: fun_eq_iff find_region_def)
  have w: "walk_parents n t c = walk_parents n t' c" for n c
    by (induction n arbitrary: c) (simp_all add: f split: option.split)
  show "region_walk n t c = region_walk n t' c" for n c
    by (induction n arbitrary: c) (simp_all add: f split: option.split)
  show "check_parent t = check_parent t'" "check_cycle t = check_cycle t'" "check_resource t = check_resource t'"
    using assms w by (simp_all add: fun_eq_iff check_parent_def check_cycle_def check_resource_def has_region_def f)
qed

lemma topology_resources_cong:
  assumes "tp_resources t = tp_resources t'"
  shows "check_link t = check_link t'" "resource_index t = resource_index t'" "link_entries t = link_entries t'"
proof -
  have "find_resource t = find_resource t'" using assms by (simp add: fun_eq_iff find_resource_def)
  then show "check_link t = check_link t'" by (simp add: fun_eq_iff check_link_def has_resource_def)
  show r: "resource_index t = resource_index t'" using assms by (simp add: fun_eq_iff resource_index_def)
  show "link_entries t = link_entries t'" by (simp add: fun_eq_iff link_entries_def r)
qed

lemma topology_lists_cong:
  assumes "tp_regions t = tp_regions t'" and "tp_resources t = tp_resources t'" and "tp_links t = tp_links t'"
  shows "build_neighbors t = build_neighbors t'" "build_chains t = build_chains t'"
  using assms topology_resources_cong(3) [OF assms(2)] topology_regions_cong(5) [OF assms(1)]
  by (simp_all add: build_neighbors_def build_chains_def)

lemma rebuild_topology:
  assumes b: "build_topology t0 = Inr t1"
  shows "build_topology (t\<lparr>tp_regions := tp_regions t1, tp_resources := tp_resources t1, tp_links := tp_links t1\<rparr>) =
      Inr (t\<lparr>tp_regions := tp_regions t1, tp_resources := tp_resources t1, tp_links := tp_links t1,
             tp_neighbor_offsets := tp_neighbor_offsets t1, tp_neighbor_ids := tp_neighbor_ids t1,
             tp_chain_offsets := tp_chain_offsets t1, tp_chain_ids := tp_chain_ids t1,
             tp_region_index := tp_region_index t1, tp_id := tp_id t1, tp_digest := tp_digest t1, tp_built := True\<rparr>)"
    "length (tp_regions t1) \<le> kMaxRegions" "length (tp_resources t1) \<le> kMaxResources" "length (tp_links t1) \<le> kMaxLinks"
    "\<forall>r \<in> set (tp_regions t1). length (rg_name r) \<le> kMaxRegionNameBytes"
    "\<forall>r \<in> set (tp_resources t1). length (rs_name r) \<le> kMaxResourceNameBytes" "tp_built t1"
proof -
  define u where "u = t0\<lparr>tp_built := False, tp_id := 0, tp_digest := no_digest,
    tp_regions := sort_key rg_id (tp_regions t0), tp_resources := sort_key rs_id (tp_resources t0),
    tp_links := sort_key link_key (tp_links t0)\<rparr>"
  define u1 where "u1 = t0\<lparr>tp_built := False, tp_id := 0, tp_digest := no_digest, tp_regions := sort_key rg_id (tp_regions t0)\<rparr>"
  define u2 where "u2 = u1\<lparr>tp_resources := sort_key rs_id (tp_resources t0)\<rparr>"
  have us: "tp_regions u1 = tp_regions u" "tp_regions u2 = tp_regions u" by (simp_all add: u_def u1_def u2_def)
  note rc = topology_regions_cong [OF us(1)] topology_regions_cong [OF us(2)]
  have len: "length (tp_regions u) \<le> kMaxRegions" "length (tp_resources u) \<le> kMaxResources" "length (tp_links u) \<le> kMaxLinks"
    using b by (auto simp: build_topology_def Let_def bind_result_Inr_iff u_def)
  from b obtain x where v: "validate_and_index (t0\<lparr>tp_built := False, tp_id := 0, tp_digest := no_digest\<rparr>) = Inr x"
    and t1: "t1 = x\<lparr>tp_digest := digest_of (topology_content x), tp_id := dg_fnv (digest_of (topology_content x)), tp_built := True\<rparr>"
    by (auto simp: build_topology_def Let_def bind_result_Inr_iff)
  obtain offsets ids where chk: "check_entries check_region None (tp_regions u) = Inr ()"
    "check_entries (check_parent u) None (tp_regions u) = Inr ()" "check_entries (check_cycle u) None (tp_regions u) = Inr ()"
    "check_entries (check_resource u) None (tp_resources u) = Inr ()" "check_entries (check_link u) None (tp_links u) = Inr ()"
    and nb: "build_neighbors u = Inr (offsets, ids)"
    and x: "x = u\<lparr>tp_neighbor_offsets := offsets, tp_neighbor_ids := ids, tp_chain_offsets := fst (build_chains u),
         tp_chain_ids := snd (build_chains u),
         tp_region_index := map (\<lambda>r. lower_bound rg_id (tp_regions u) (rs_region r)) (tp_resources u)\<rparr>"
    using v rc unfolding validate_and_index_def Let_def
    by (auto simp: bind_result_Inr_iff case_prod_beta u_def u1_def u2_def)
  have ls: "tp_regions t1 = tp_regions u" "tp_resources t1 = tp_resources u" "tp_links t1 = tp_links u"
    by (simp_all add: t1 x)
  show "length (tp_regions t1) \<le> kMaxRegions" "length (tp_resources t1) \<le> kMaxResources" "length (tp_links t1) \<le> kMaxLinks"
    using len by (simp_all add: ls)
  show "tp_built t1" by (simp add: t1)
  show "\<forall>r \<in> set (tp_regions t1). length (rg_name r) \<le> kMaxRegionNameBytes" unfolding ls
    by (rule check_entries_all [OF chk(1)]) (simp add: check_region_def bind_result_Inr_iff)
  show "\<forall>r \<in> set (tp_resources t1). length (rs_name r) \<le> kMaxResourceNameBytes" unfolding ls
    by (rule check_entries_all [OF chk(4)]) (simp add: check_resource_def bind_result_Inr_iff)
  define w where "w = t\<lparr>tp_regions := tp_regions u, tp_resources := tp_resources u, tp_links := tp_links u,
    tp_built := False, tp_id := 0, tp_digest := no_digest\<rparr>"
  have ws: "tp_regions w = tp_regions u" "tp_resources w = tp_resources u" "tp_links w = tp_links u"
    by (simp_all add: w_def)
  note wc = topology_regions_cong [OF ws(1)] topology_resources_cong [OF ws(2)] topology_lists_cong [OF ws]
  have same: "w\<lparr>tp_regions := tp_regions w\<rparr> = w" "w\<lparr>tp_resources := tp_resources w\<rparr> = w" "w\<lparr>tp_links := tp_links w\<rparr> = w"
    by simp_all
  have srt: "sort_key rg_id (tp_regions w) = tp_regions w" "sort_key rs_id (tp_resources w) = tp_resources w"
    "sort_key link_key (tp_links w) = tp_links w"
    by (simp_all add: ws u_def)
  have "validate_and_index w = Inr (w\<lparr>tp_neighbor_offsets := offsets, tp_neighbor_ids := ids,
      tp_chain_offsets := fst (build_chains u), tp_chain_ids := snd (build_chains u),
      tp_region_index := map (\<lambda>r. lower_bound rg_id (tp_regions u) (rs_region r)) (tp_resources u)\<rparr>)"
    unfolding validate_and_index_def Let_def srt same
    using chk nb wc by (simp add: ws case_prod_beta)
  then show "build_topology (t\<lparr>tp_regions := tp_regions t1, tp_resources := tp_resources t1, tp_links := tp_links t1\<rparr>) =
      Inr (t\<lparr>tp_regions := tp_regions t1, tp_resources := tp_resources t1, tp_links := tp_links t1,
             tp_neighbor_offsets := tp_neighbor_offsets t1, tp_neighbor_ids := tp_neighbor_ids t1,
             tp_chain_offsets := tp_chain_offsets t1, tp_chain_ids := tp_chain_ids t1,
             tp_region_index := tp_region_index t1, tp_id := tp_id t1, tp_digest := tp_digest t1, tp_built := True\<rparr>)"
    using len unfolding build_topology_def Let_def ls
    by (simp add: w_def [symmetric] t1 x) (simp add: w_def topology_content_def)
qed

lemma topology_roundtrip:
  assumes b: "build_topology t0 = Inr t1" and k: "\<forall>r \<in> set (tp_resources t1). rk_ok (rs_kind r)"
    and m: "millis_ok vf" "millis_ok vu"
    and t: "t = t1\<lparr>tp_generation := g, tp_valid_from := vf, tp_valid_until := vu, tp_provenance := p\<rparr>"
  shows "\<exists>bs. encode_topology_payload t = Inr bs \<and> decode_topology_payload bs = Inr (t\<lparr>tp_provenance := no_provenance\<rparr>)"
proof -
  note r = rebuild_topology [OF b]
  have regions: "parse_counted kMaxRegions (parse TruncatedFrame rd_region) (w_list w_region (tp_regions t1) @ rest)
      = Inr (tp_regions t1, rest)" for rest
    by (rule region_codec.parsed.parse_counted_put) (use r(2,5) in \<open>simp_all add: kMaxRegions_def\<close>)
  have resources: "parse_counted kMaxResources (parse TruncatedFrame rd_resource) (w_list w_resource (tp_resources t1) @ rest)
      = Inr (tp_resources t1, rest)" for rest
    by (rule resource_codec.parsed.parse_counted_put) (use r(3,6) k in \<open>simp_all add: kMaxResources_def\<close>)
  have links: "parse_counted kMaxLinks (parse TruncatedFrame rd_link) (w_list w_link (tp_links t1)) = Inr (tp_links t1, [])"
    using link_codec.parsed.parse_counted_put [of "tp_links t1" kMaxLinks "[]"] r(4) by (simp add: kMaxLinks_def)
  have lists: "fold (\<lambda>l. add_link (ln_id l) (ln_endpoint_a l) (ln_endpoint_b l)) (tp_links t1)
      (fold (\<lambda>r. add_resource (rs_id r) (rs_region r) (rs_kind r) (rs_name r)) (tp_resources t1)
        (fold (\<lambda>r. add_region (rg_id r) (rg_name r) (rg_parent r)) (tp_regions t1)
          (empty_topology\<lparr>tp_valid_from := vf, tp_valid_until := vu\<rparr>)))
      = (empty_topology\<lparr>tp_valid_from := vf, tp_valid_until := vu\<rparr>)\<lparr>tp_regions := tp_regions t1,
          tp_resources := tp_resources t1, tp_links := tp_links t1\<rparr>"
    unfolding fold_add_topology(1) [OF r(5)] fold_add_topology(2) [OF r(6)] fold_add_topology(3)
    by (simp add: empty_topology_def)
  have "decode_topology_payload (encode_stream_header Stream_Topology g vf @ w_i64 vu @ w_list w_region (tp_regions t1)
      @ w_list w_resource (tp_resources t1) @ w_list w_link (tp_links t1)) = Inr (t\<lparr>tp_provenance := no_provenance\<rparr>)"
    unfolding decode_topology_payload_def
    using m by (simp add: decode_encode_stream_header regions resources links lists r(1)) (simp add: t empty_topology_def r(7))
  then show ?thesis using r(7) by (simp add: encode_topology_payload_def t)
qed

section \<open>The header\<close>

lemma mt_code_of [simp]: "mt_code (mt_of v) = v"
  by (simp add: mt_of_def)

lemma length_header_fields: "length (encode_header_fields h) = 80"
  by (simp add: encode_header_fields_def)

lemma length_encode_header: "length (encode_header h) = kFrameHeaderBytes"
  by (simp add: encode_header_def Let_def length_header_fields kFrameHeaderBytes_def)

definition header_ok :: "FrameHeader \<Rightarrow> bool" where
  "header_ok h \<longleftrightarrow> fh_version h = 1 \<and> mt_ok (fh_type h) \<and> unat (fh_payload_length h) \<le> kMaxFrameBytes \<and> millis_ok (fh_emitted_at h)"

lemma decode_encode_header:
  assumes "header_ok h"
  shows "decode_header (encode_header h @ rest) = Inr (h\<lparr>fh_header_crc := crc64 (encode_header_fields h)\<rparr>)"
proof -
  have tk: "take kFrameHeaderBytes (encode_header h @ rest) = encode_header_fields h @ w_u64 (crc64 (encode_header_fields h))"
    "take (kFrameHeaderBytes - 8) (encode_header h @ rest) = encode_header_fields h"
    using length_encode_header [of h] length_header_fields [of h]
    by (simp_all add: encode_header_def Let_def kFrameHeaderBytes_def)
  define tail where "tail c = w_u64 (fh_epoch h) @ w_u64 (fh_publisher h) @ w_u64 (fh_incarnation h) @ w_u64 (fh_boot h)
    @ w_u64 (fh_sequence h) @ w_u64 (fh_generation h) @ w_i64 (fh_emitted_at h) @ w_u64 (fh_payload_crc h) @ w_u64 c" for c
  have p1: "header_part1 (encode_header_fields h @ w_u64 c) =
      Some ((kFrameMagic, fh_version h, mt_code (fh_type h), fh_flags h, fh_payload_length h), tail c)" for c
    by (simp add: header_part1_def encode_header_fields_def codec_simps tail_def)
  have p2: "header_part2 (tail c) = Some ((fh_epoch h, fh_publisher h, fh_incarnation h, fh_boot h, fh_sequence h,
      fh_generation h, fh_emitted_at h, fh_payload_crc h, c), [])" for c
    using assms u64c.get_put_end [of c] by (simp add: header_part2_def codec_simps header_ok_def tail_def)
  have len: "length (encode_header h @ rest) \<ge> kFrameHeaderBytes" using length_encode_header [of h] by simp
  show ?thesis
    unfolding decode_header_def Let_def tk parse_def p1 using assms len
    by (simp add: p2 header_ok_def kFrameProtocolVersion_def mt_ok_def)
qed

text \<open>An accepted header ends in the CRC of the bytes before it.\<close>

lemma decode_header_crc:
  assumes "decode_header bs = Inr h"
  shows "crc_guarded 80 bs"
proof -
  have len: "kFrameHeaderBytes \<le> length bs" using assms by (auto simp: decode_header_def bind_result_Inr_iff)
  from assms obtain p rest e crc tl where
    p1: "header_part1 (take 88 bs) = Some (p, rest)" and p2: "header_part2 rest = Some (e, tl)"
    and crc: "snd (snd (snd (snd (snd (snd (snd (snd e))))))) = crc64 (take 80 bs)"
    by (auto simp: decode_header_def bind_result_Inr_iff Let_def parse_def kFrameHeaderBytes_def case_prod_beta)
  obtain pre where pre: "take 88 bs = pre @ rest" "length pre = 16"
    using p1 by (auto simp: header_part1_def bind_eq_Some_conv u32c.get_iff u16c.get_iff)
  have len1: "length (take 88 bs) = 16 + length rest" "drop 16 (take 88 bs) = rest"
    unfolding pre(1) using pre(2) by simp_all
  have "drop 64 rest = w_u64 (crc64 (take 80 bs)) @ tl"
    using p2 crc by (auto simp: header_part2_def bind_eq_Some_conv u64c.get_iff dest!: i64c.put_get)
  moreover have "length rest = 72" using len1(1) len by (simp add: kFrameHeaderBytes_def)
  then have "length (drop 64 rest) = 8" by simp
  ultimately have "drop 64 rest = w_u64 (crc64 (take 80 bs))" by simp
  moreover have "drop 64 rest = take 8 (drop 80 bs)" by (simp add: len1(2) [symmetric] drop_take)
  ultimately show ?thesis using len by (simp add: crc_guarded_def kFrameHeaderBytes_def)
qed

text \<open>Every change of one byte of an accepted header is refused.\<close>

lemma header_byte_changed:
  assumes d: "decode_header bs = Inr h" and i: "i < kFrameHeaderBytes" and b: "b \<noteq> bs ! i"
  shows "\<exists>e. decode_header (bs[i := b]) = Inl e"
proof (cases "decode_header (bs[i := b])")
  case (Inr h')
  then show ?thesis
    using crc_guarded_byte_changed [OF decode_header_crc [OF d] _ b] decode_header_crc [OF Inr] i by (simp add: kFrameHeaderBytes_def)
qed simp

text \<open>A changed byte of a verified payload leaves the header alone and fails its CRC.\<close>

lemma payload_byte_changed:
  assumes d: "decode_header bs = Inr h" and v: "verify_payload h (drop kFrameHeaderBytes bs) = Inr ()"
    and i: "kFrameHeaderBytes \<le> i" "i < length bs" and b: "b \<noteq> bs ! i"
  shows "decode_header (bs[i := b]) = Inr h \<and> verify_payload h (drop kFrameHeaderBytes (bs[i := b])) = Inl IntegrityMismatch"
proof -
  have tk: "take kFrameHeaderBytes (bs[i := b]) = take kFrameHeaderBytes bs"
    "take (kFrameHeaderBytes - 8) (bs[i := b]) = take (kFrameHeaderBytes - 8) bs" using i(1) by simp_all
  have d': "decode_header (bs[i := b]) = Inr h" using d unfolding decode_header_def Let_def tk by simp
  let ?p = "drop kFrameHeaderBytes bs" and ?j = "i - kFrameHeaderBytes"
  have p': "drop kFrameHeaderBytes (bs[i := b]) = ?p[?j := b]" using i(1) by (simp add: drop_update_swap)
  have "?j < length ?p" "?p ! ?j = bs ! i" using i by simp_all
  then have "crc64 (?p[?j := b]) \<noteq> crc64 ?p" using b by (intro crc64_byte_changed) simp_all
  then show ?thesis using v d' unfolding p' by (auto simp: verify_payload_def bind_result_Inr_iff)
qed

lemma frame_decodes:
  assumes "encode_frame frame = Inr bs" and "header_ok (fr_header frame)"
  shows "\<exists>h. decode_header bs = Inr h \<and> verify_payload h (drop kFrameHeaderBytes bs) = Inr () \<and>
    drop kFrameHeaderBytes bs = fr_payload frame \<and> length bs = wire_size \<lparr>fr_header = h, fr_payload = fr_payload frame\<rparr> \<and>
    h = (fr_header frame)\<lparr>fh_payload_length := word_of_nat (length (fr_payload frame)),
          fh_payload_crc := crc64 (fr_payload frame), fh_header_crc := fh_header_crc h\<rparr>"
proof -
  let ?p = "fr_payload frame"
  define h where "h = (fr_header frame)\<lparr>fh_payload_length := word_of_nat (length ?p), fh_payload_crc := crc64 ?p\<rparr>"
  have len: "length ?p \<le> kMaxFrameBytes" and bs: "bs = encode_header h @ ?p"
    using assms by (auto simp: encode_frame_def bind_result_Inr_iff Let_def h_def header_ok_def split: if_splits)
  have n: "unat (fh_payload_length h) = length ?p"
    using len by (simp add: h_def) (rule unat_length32, simp add: kMaxFrameBytes_def)
  have ok: "header_ok h" using assms(2) len n by (simp add: header_ok_def h_def)
  have dr: "drop kFrameHeaderBytes bs = ?p" by (simp add: bs length_encode_header)
  have v: "verify_payload (h\<lparr>fh_header_crc := c\<rparr>) ?p = Inr ()" for c
    using len n by (simp add: verify_payload_def) (simp add: h_def)
  show ?thesis
    by (intro exI [of _ "h\<lparr>fh_header_crc := crc64 (encode_header_fields h)\<rparr>"])
      (simp add: decode_encode_header [OF ok, of ?p, folded bs] dr v, simp add: bs length_encode_header wire_size_def n, simp add: h_def)
qed

section \<open>Properties\<close>

text \<open>C25: a topology survives the wire. A built topology, with any generation and validity the publisher gave
  it, is encoded, and decoding the payload yields it back with every index rebuilt and the same
  identity; only the provenance, which the receiver stamps, is absent.\<close>

theorem topology_payload_roundtrip:
  assumes "build_topology t0 = Inr t1" and "\<forall>r \<in> set (tp_resources t1). rk_ok (rs_kind r)"
    and "millis_ok vf" and "millis_ok vu"
    and "t = t1\<lparr>tp_generation := g, tp_valid_from := vf, tp_valid_until := vu, tp_provenance := p\<rparr>"
  shows "\<exists>bs. encode_topology_payload t = Inr bs \<and> decode_topology_payload bs = Inr (t\<lparr>tp_provenance := no_provenance\<rparr>)"
  using assms by (rule topology_roundtrip)

theorem topology_payload_roundtrip_witness:
  "\<exists>t bs t'. build_topology line_topology = Inr t \<and>
     encode_topology_payload (t\<lparr>tp_generation := 7, tp_valid_from := 0, tp_valid_until := 0, tp_provenance := no_provenance\<rparr>) = Inr bs \<and>
     decode_topology_payload bs = Inr t' \<and> tp_generation t' = 7 \<and> tp_id t' = tp_id t"
proof -
  obtain t where t: "build_topology line_topology = Inr t" using line_topology_builds by blast
  have "set (tp_resources t) = set (tp_resources line_topology)" by (simp add: build_topology_wf(3) [OF t])
  then have k: "\<forall>r \<in> set (tp_resources t). rk_ok (rs_kind r)"
    by (simp add: line_topology_def add_link_def add_resource_def add_region_def empty_topology_def rk_ok_def rk_of_def)
  have m: "millis_ok 0" by (simp add: millis_ok_def kNoTime_def kMaxTime_def)
  from topology_payload_roundtrip [OF t k m m refl, where g = 7 and p = no_provenance] t show ?thesis by auto
qed

text \<open>C26: evidence survives the wire. Built capacity, signal, path and traffic snapshots decode to what was
  encoded, up to provenance.\<close>

theorem evidence_payload_roundtrip:
  assumes "build_capacity c0 = Inr c" and "build_signals s0 = Inr s" and "build_paths p0 = Inr p" and "build_traffic r0 = Inr r"
    and "millis_ok (cs_observed_at c)" and "millis_ok (ss_window_start s)" and "millis_ok (ss_window_end s)"
    and "millis_ok (ps_observed_at p)"
    and "\<forall>x \<in> set (ss_records s). tq_ok (sr_quality x) \<and> millis_ok (sr_observed_at x)"
    and "\<forall>x \<in> set (ts_records r). tq_ok (tr_quality x) \<and> millis_ok (tr_observed_at x)"
  shows "(\<exists>bs. encode_capacity_payload c = Inr bs \<and> decode_capacity_payload bs = Inr (c\<lparr>cs_provenance := no_provenance\<rparr>)) \<and>
    (\<exists>bs. encode_signals_payload s = Inr bs \<and> decode_signals_payload bs = Inr (s\<lparr>ss_provenance := no_provenance\<rparr>)) \<and>
    (\<exists>bs. encode_paths_payload p = Inr bs \<and> decode_paths_payload bs = Inr (p\<lparr>ps_provenance := no_provenance\<rparr>)) \<and>
    (\<exists>bs. encode_traffic_payload r = Inr bs \<and> decode_traffic_payload bs = Inr (r\<lparr>ts_provenance := no_provenance\<rparr>))"
proof -
  have "\<exists>bs. encode_capacity_payload c = Inr bs \<and> decode_capacity_payload bs = Inr (c\<lparr>cs_provenance := no_provenance\<rparr>)"
    using capacity_roundtrip [OF assms(1,5), where g = "cs_generation c" and tg = "cs_topology_generation c" and at = "cs_observed_at c"
      and p = "cs_provenance c"]
    by simp
  moreover have "\<exists>bs. encode_signals_payload s = Inr bs \<and> decode_signals_payload bs = Inr (s\<lparr>ss_provenance := no_provenance\<rparr>)"
    using signals_roundtrip [OF assms(2,9,6,7), where s = s and g = "ss_generation s" and tg = "ss_topology_generation s"
      and cg = "ss_capacity_generation s" and p = "ss_provenance s"]
    by simp
  moreover have "\<exists>bs. encode_paths_payload p = Inr bs \<and> decode_paths_payload bs = Inr (p\<lparr>ps_provenance := no_provenance\<rparr>)"
    using paths_roundtrip [OF assms(3,8), where s = p and g = "ps_generation p" and tg = "ps_topology_generation p" and p = "ps_provenance p"]
    by simp
  moreover have "\<exists>bs. encode_traffic_payload r = Inr bs \<and> decode_traffic_payload bs = Inr (r\<lparr>ts_provenance := no_provenance\<rparr>)"
    using traffic_roundtrip [OF assms(4,10), where s = r and g = "ts_generation r" and pg = "ts_path_generation r" and p = "ts_provenance r"]
    by simp
  ultimately show ?thesis by blast
qed

theorem evidence_payload_roundtrip_witness:
  "\<exists>c bs. build_capacity (add_capacity \<lparr>cap_resource = 3, cap_units = 8, cap_queue_limit = 0, cap_buffer_limit = 0,
        cap_usable = True\<rparr> empty_capacity) = Inr c \<and>
     encode_capacity_payload c = Inr bs \<and> decode_capacity_payload bs = Inr c"
proof -
  let ?c0 = "add_capacity \<lparr>cap_resource = 3, cap_units = 8, cap_queue_limit = 0, cap_buffer_limit = 0, cap_usable = True\<rparr> empty_capacity"
  obtain c where c: "build_capacity ?c0 = Inr c" "cs_observed_at c = kNoTime" "cs_provenance c = no_provenance"
    by (auto simp: build_capacity_def Let_def add_capacity_def empty_capacity_def check_capacity_def not_dup_def valid_id_def
        kMaxCapacityEntries_def)
  obtain s where s: "build_signals empty_signals = Inr s" "ss_records s = []" "ss_window_start s = kNoTime" "ss_window_end s = kNoTime"
    by (auto simp: build_signals_def Let_def empty_signals_def kMaxSignalRecords_def)
  obtain p where p: "build_paths empty_paths = Inr p" "ps_observed_at p = kNoTime"
    by (auto simp: build_paths_def Let_def empty_paths_def kMaxPaths_def case_prod_beta)
  obtain r where r: "build_traffic empty_traffic = Inr r" "ts_records r = []"
    by (auto simp: build_traffic_def Let_def empty_traffic_def kMaxTrafficRecords_def)
  have m: "millis_ok kNoTime" by (simp add: millis_ok_def kNoTime_def kMaxTime_def)
  have "c\<lparr>cs_provenance := no_provenance\<rparr> = c" using c(3) by simp
  with evidence_payload_roundtrip [OF c(1) s(1) p(1) r(1)] m c s p r show ?thesis by auto
qed

text \<open>C27: corruption is refused. Changing any one byte of an encoded frame makes the header undecodable, when
  it is a byte of the header, and otherwise makes the payload fail its integrity check.\<close>

theorem frame_corruption_refused:
  assumes "encode_frame frame = Inr bs" and "header_ok (fr_header frame)" and "i < length bs" and "b \<noteq> bs ! i"
  shows "(i < kFrameHeaderBytes \<longrightarrow> (\<exists>e. decode_header (bs[i := b]) = Inl e)) \<and>
    (kFrameHeaderBytes \<le> i \<longrightarrow> (\<exists>h. decode_header (bs[i := b]) = Inr h \<and>
       verify_payload h (drop kFrameHeaderBytes (bs[i := b])) = Inl IntegrityMismatch))"
proof -
  from frame_decodes [OF assms(1,2)] obtain h where d: "decode_header bs = Inr h"
    and v: "verify_payload h (drop kFrameHeaderBytes bs) = Inr ()" by blast
  show ?thesis
    using header_byte_changed [OF d _ assms(4)] payload_byte_changed [OF d v _ assms(3,4)] by blast
qed

theorem frame_corruption_refused_witness:
  "\<exists>bs. encode_frame (make_frame MT_Heartbeat no_provenance [1, 2, 3]) = Inr bs \<and> bs ! 89 = 2 \<and>
     (\<exists>h. decode_header (bs[89 := 4]) = Inr h \<and> verify_payload h (drop kFrameHeaderBytes (bs[89 := 4])) = Inl IntegrityMismatch)"
proof -
  let ?f = "make_frame MT_Heartbeat no_provenance [1, 2, 3]"
  have ok: "header_ok (fr_header ?f)"
    by (simp add: header_ok_def make_frame_def mt_ok_def mt_of_def no_provenance_def kFrameProtocolVersion_def
        kMaxFrameBytes_def millis_ok_def kNoTime_def kMaxTime_def)
  obtain hd where hd: "encode_frame ?f = Inr (encode_header hd @ [1, 2, 3])"
    by (simp add: encode_frame_def make_frame_def kMaxFrameBytes_def Let_def)
  have l: "length (encode_header hd) = 88" using length_encode_header [of hd] by (simp add: kFrameHeaderBytes_def)
  have b: "(encode_header hd @ [1, 2, 3]) ! 89 = 2" using l by (simp add: nth_append)
  show ?thesis
    using frame_corruption_refused [OF hd ok, of 89 4] hd b l by (simp add: kFrameHeaderBytes_def)
qed

end
