(* ===== verification/HGM_Disk.thy ===== *)
theory HGM_Disk
  imports HGM_Prelude
begin

text \<open>
  The file helpers of the durable store (\<^verbatim>\<open>src/file_io.cpp\<close>) over the three files of its
  directory. What the operating system answers to a call is an input: each helper that touches a
  file takes the next outcome of \<open>dk_io\<close>. \<open>Io_NoOpen\<close> is a call that fails before it changes
  anything, \<open>Io_Partial n\<close> one that fails after \<open>n\<close> bytes reached the file, and an exhausted list
  means that every further call succeeds.

  A process that dies inside a helper leaves the same files as a helper that failed there, because
  every caller returns at the first failure: the files after a crash at any point of an operation
  are the files after the operation with a suitable outcome list, which is how the store's crash
  safety is stated. What a file system may lose of writes that no barrier covers when the machine
  itself loses power is outside the model.
\<close>

datatype (plugins only: code) StoreFile = JournalFile | SnapshotFile | TempFile

datatype (plugins only: code) IoOutcome = Io_Ok | Io_NoOpen | Io_Partial nat

record Disk =
  dk_files :: "StoreFile \<rightharpoonup> bytes"
  dk_io :: "IoOutcome list"

definition next_io :: "Disk \<Rightarrow> IoOutcome \<times> Disk" where
  "next_io d = (case dk_io d of [] \<Rightarrow> (Io_Ok, d) | x # xs \<Rightarrow> (x, d\<lparr>dk_io := xs\<rparr>))"

definition put_file :: "StoreFile \<Rightarrow> bytes \<Rightarrow> Disk \<Rightarrow> Disk" where
  "put_file f bs d = d\<lparr>dk_files := (dk_files d)(f \<mapsto> bs)\<rparr>"

definition file_bytes :: "StoreFile \<Rightarrow> Disk \<Rightarrow> bytes" where
  "file_bytes f d = (case dk_files d f of None \<Rightarrow> [] | Some bs \<Rightarrow> bs)"

definition ensure_directory :: "Disk \<Rightarrow> unit result \<times> Disk" where
  "ensure_directory d0 =
     (let (oc, d) = next_io d0
      in (case oc of Io_Ok \<Rightarrow> (Inr (), d) | _ \<Rightarrow> (Inl PersistenceIoError, d)))"

definition file_exists :: "StoreFile \<Rightarrow> Disk \<Rightarrow> bool" where
  "file_exists f d \<longleftrightarrow> dk_files d f \<noteq> None"

definition write_file_all :: "StoreFile \<Rightarrow> bytes \<Rightarrow> Disk \<Rightarrow> unit result \<times> Disk" where
  "write_file_all f bs d0 =
     (let (oc, d) = next_io d0
      in (case oc of
            Io_Ok \<Rightarrow> (Inr (), put_file f bs d)
          | Io_NoOpen \<Rightarrow> (Inl PersistenceIoError, d)
          | Io_Partial n \<Rightarrow> (Inl PersistenceIoError, put_file f (take n bs) d)))"

definition append_file_all :: "StoreFile \<Rightarrow> bytes \<Rightarrow> Disk \<Rightarrow> unit result \<times> Disk" where
  "append_file_all f bs d0 =
     (let (oc, d) = next_io d0
      in (case oc of
            Io_Ok \<Rightarrow> (Inr (), put_file f (file_bytes f d @ bs) d)
          | Io_NoOpen \<Rightarrow> (Inl PersistenceIoError, d)
          | Io_Partial n \<Rightarrow> (Inl PersistenceIoError, put_file f (file_bytes f d @ take n bs) d)))"

definition fsync_file :: "StoreFile \<Rightarrow> Disk \<Rightarrow> unit result \<times> Disk" where
  "fsync_file f d0 =
     (let (oc, d) = next_io d0
      in (case oc of
            Io_Ok \<Rightarrow> (if file_exists f d then Inr () else Inl PersistenceIoError, d)
          | _ \<Rightarrow> (Inl PersistenceIoError, d)))"

text \<open>\<open>rename(2)\<close> replaces the target in one step or fails without effect.\<close>

definition atomic_replace :: "StoreFile \<Rightarrow> StoreFile \<Rightarrow> Disk \<Rightarrow> unit result \<times> Disk" where
  "atomic_replace from to d0 =
     (let (oc, d) = next_io d0
      in (case (oc, dk_files d from) of
            (Io_Ok, Some bs) \<Rightarrow> (Inr (), d\<lparr>dk_files := (dk_files d)(from := None, to \<mapsto> bs)\<rparr>)
          | _ \<Rightarrow> (Inl PersistenceIoError, d)))"

text \<open>A missing file has size 0 and cannot be opened; a short read is its own code.\<close>

definition read_file_all :: "StoreFile \<Rightarrow> nat \<Rightarrow> Disk \<Rightarrow> bytes result \<times> Disk" where
  "read_file_all f max_bytes d0 =
     (if length (file_bytes f d0) > max_bytes then (Inl DurableGrowthExceeded, d0)
      else let (oc, d) = next_io d0
           in (case (oc, dk_files d f) of
                 (Io_Ok, Some bs) \<Rightarrow> (Inr bs, d)
               | (Io_Partial n, Some bs) \<Rightarrow>
                   (if n < length bs then Inl PersistenceTruncated else Inr bs, d)
               | _ \<Rightarrow> (Inl PersistenceIoError, d)))"

definition truncate_file :: "StoreFile \<Rightarrow> nat \<Rightarrow> Disk \<Rightarrow> unit result \<times> Disk" where
  "truncate_file f len d0 =
     (let (oc, d) = next_io d0
      in (case (oc, dk_files d f) of
            (Io_Ok, Some bs) \<Rightarrow> (Inr (), put_file f (take len bs @ replicate (len - length bs) 0) d)
          | _ \<Rightarrow> (Inl PersistenceIoError, d)))"

definition remove_file :: "StoreFile \<Rightarrow> Disk \<Rightarrow> unit result \<times> Disk" where
  "remove_file f d0 =
     (let (oc, d) = next_io d0
      in (case oc of
            Io_Ok \<Rightarrow> (Inr (), d\<lparr>dk_files := (dk_files d)(f := None)\<rparr>)
          | _ \<Rightarrow> (Inl PersistenceIoError, d)))"

section \<open>Sequencing\<close>

text \<open>\<open>if (!status.ok()) return status\<close> with the state reached so far.\<close>

definition bind_op :: "'a result \<times> 's \<Rightarrow> ('a \<Rightarrow> 's \<Rightarrow> 'b result \<times> 's) \<Rightarrow> 'b result \<times> 's" where
  "bind_op m f = (case m of (Inl e, s) \<Rightarrow> (Inl e, s) | (Inr x, s) \<Rightarrow> f x s)"

lemma bind_op_simps [simp]:
  "bind_op (Inl e, s) f = (Inl e, s)" "bind_op (Inr x, s) f = f x s"
  by (simp_all add: bind_op_def)

lemma put_file_files [simp]:
  "dk_files (put_file f bs d) = (dk_files d)(f \<mapsto> bs)" "dk_io (put_file f bs d) = dk_io d"
  by (simp_all add: put_file_def)

lemma next_io_files [simp]: "dk_files (snd (next_io d)) = dk_files d"
  by (simp add: next_io_def split: list.split)

section \<open>What a helper leaves on the disk\<close>

text \<open>
  Whatever the operating system answers, the files other than the one named are untouched, and the
  named one is left as the cases say.
\<close>

lemma next_io_obtain:
  obtains oc d' where "next_io d = (oc, d')" "dk_files d' = dk_files d"
  using next_io_files [of d] by (cases "next_io d") auto

lemma write_file_all_cases:
  assumes "write_file_all f bs d = (r, d')"
  shows "r = Inr () \<and> dk_files d' = (dk_files d)(f \<mapsto> bs) \<or>
    r = Inl PersistenceIoError \<and> (dk_files d' = dk_files d \<or> (\<exists>n. dk_files d' = (dk_files d)(f \<mapsto> take n bs)))"
  using assms by (cases rule: next_io_obtain [of d]) (auto simp: write_file_all_def split: IoOutcome.splits)

lemma append_file_all_cases:
  assumes "append_file_all f bs d = (r, d')"
  shows "r = Inr () \<and> dk_files d' = (dk_files d)(f \<mapsto> file_bytes f d @ bs) \<or>
    r = Inl PersistenceIoError \<and>
      (dk_files d' = dk_files d \<or> (\<exists>n. dk_files d' = (dk_files d)(f \<mapsto> file_bytes f d @ take n bs)))"
  using assms
  by (cases rule: next_io_obtain [of d]) (auto simp: append_file_all_def file_bytes_def split: IoOutcome.splits)

lemma fsync_file_cases:
  assumes "fsync_file f d = (r, d')"
  shows "dk_files d' = dk_files d \<and> (r = Inr () \<and> file_exists f d \<or> r = Inl PersistenceIoError)"
  using assms
  by (cases rule: next_io_obtain [of d]) (auto simp: fsync_file_def file_exists_def split: IoOutcome.splits if_splits)

lemma atomic_replace_cases:
  assumes "atomic_replace from to d = (r, d')"
  shows "(\<exists>bs. r = Inr () \<and> dk_files d from = Some bs \<and> dk_files d' = (dk_files d)(from := None, to \<mapsto> bs)) \<or>
    r = Inl PersistenceIoError \<and> dk_files d' = dk_files d"
  using assms
  by (cases rule: next_io_obtain [of d]) (auto simp: atomic_replace_def split: IoOutcome.splits option.splits)

end
