(* ===== verification/HGM_Journal.thy ===== *)
theory HGM_Journal
  imports HGM_Types HGM_Disk
begin

text \<open>
  The write-ahead journal (\<^verbatim>\<open>include/hgm/journal.hpp\<close>, \<^verbatim>\<open>src/journal.cpp\<close>): the record
  codec, the scan that \<open>open\<close> and \<open>replay\<close> run over the file, and the operations of the journal
  object over the disk. Offsets, sizes and bounds of files are natural numbers; sequence numbers
  and the record count are 64 bit words. The lemmas: a record decodes from the front of any buffer
  that starts with its encoding, a cut or changed record does not decode, and the scan therefore
  returns exactly the intact prefix of the file.
\<close>

section \<open>Records\<close>

datatype (plugins only: code) JournalRecordType =
    JT_Unknown | JT_BootRecord | JT_EpochAdvance | JT_PolicyCommit | JT_HotspotCommit
  | JT_InterventionCommit | JT_EvaluationCheckpoint | JT_PublisherDeath
  | JT_Raw u32

primrec jt_code :: "JournalRecordType \<Rightarrow> u32" where
  "jt_code JT_Unknown = 0"
| "jt_code JT_BootRecord = 1"
| "jt_code JT_EpochAdvance = 2"
| "jt_code JT_PolicyCommit = 3"
| "jt_code JT_HotspotCommit = 4"
| "jt_code JT_InterventionCommit = 5"
| "jt_code JT_EvaluationCheckpoint = 6"
| "jt_code JT_PublisherDeath = 7"
| "jt_code (JT_Raw v) = v"

definition jt_of :: "u32 \<Rightarrow> JournalRecordType" where
  "jt_of v =
     (if v = 0 then JT_Unknown
      else if v = 1 then JT_BootRecord
      else if v = 2 then JT_EpochAdvance
      else if v = 3 then JT_PolicyCommit
      else if v = 4 then JT_HotspotCommit
      else if v = 5 then JT_InterventionCommit
      else if v = 6 then JT_EvaluationCheckpoint
      else if v = 7 then JT_PublisherDeath
      else JT_Raw v)"

definition jt_ok :: "JournalRecordType \<Rightarrow> bool" where
  "jt_ok k \<longleftrightarrow> jt_of (jt_code k) = k"

definition kJournalMagic :: u32 where "kJournalMagic = 0x314A4748"
definition kDurableFormatVersion :: u32 where "kDurableFormatVersion = 1"
definition kJournalHeaderBytes :: nat where "kJournalHeaderBytes = 48"

record JournalRecord =
  jr_type :: JournalRecordType
  jr_sequence :: Sequence
  jr_at :: Millis
  jr_payload :: bytes

definition journal_header :: "JournalRecord \<Rightarrow> bytes" where
  "journal_header r =
     w_u32 kJournalMagic @ w_u32 kDurableFormatVersion @ w_u32 (jt_code (jr_type r))
     @ w_u32 (word_of_nat (length (jr_payload r))) @ w_u64 (jr_sequence r) @ w_i64 (jr_at r)
     @ w_u64 (crc64 (jr_payload r))"

definition encode_journal_record :: "JournalRecord \<Rightarrow> bytes" where
  "encode_journal_record r = journal_header r @ w_u64 (crc64 (journal_header r)) @ jr_payload r"

definition journal_part1 :: "(u32 \<times> u32 \<times> u32 \<times> u32) reader" where
  "journal_part1 bs = do {
     (magic, bs) \<leftarrow> rd_u32 bs; (version, bs) \<leftarrow> rd_u32 bs; (type, bs) \<leftarrow> rd_u32 bs; (len, bs) \<leftarrow> rd_u32 bs;
     Some ((magic, version, type, len), bs) }"

definition journal_part2 :: "(u64 \<times> int \<times> u64 \<times> u64) reader" where
  "journal_part2 bs = do {
     (sequence, bs) \<leftarrow> rd_u64 bs; (at, bs) \<leftarrow> rd_i64 bs; (payload_crc, bs) \<leftarrow> rd_u64 bs; (record_crc, bs) \<leftarrow> rd_u64 bs;
     Some ((sequence, at, payload_crc, record_crc), bs) }"

text \<open>\<open>None\<close> is the answer 0, \<open>Some (total, record)\<close> the number of bytes consumed and the record.\<close>

definition decode_journal_record :: "bytes \<Rightarrow> (nat \<times> JournalRecord) option" where
  "decode_journal_record bs =
     (if length bs < kJournalHeaderBytes then None
      else do {
        ((magic, version, type, len), rest) \<leftarrow> journal_part1 bs;
        if magic \<noteq> kJournalMagic then None
        else if version \<noteq> kDurableFormatVersion then None
        else if unat len > kMaxJournalRecordBytes then None
        else let total = kJournalHeaderBytes + unat len
             in if length bs < total then None
                else let expected = crc64 (take (kJournalHeaderBytes - 8) bs)
                     in do {
                          ((sequence, at, payload_crc, record_crc), _) \<leftarrow> journal_part2 rest;
                          if record_crc \<noteq> expected then None
                          else let payload = take (unat len) (drop kJournalHeaderBytes bs)
                               in if crc64 payload \<noteq> payload_crc then None
                                  else Some (total, \<lparr>jr_type = jt_of type, jr_sequence = sequence, jr_at = at,
                                                     jr_payload = payload\<rparr>) } })"

lemma decode_journal_record_consumes: "decode_journal_record bs = Some (n, r) \<Longrightarrow> 0 < n \<and> n \<le> length bs"
  by (auto simp: decode_journal_record_def bind_eq_Some_conv Let_def kJournalHeaderBytes_def case_prod_beta split: if_splits)

section \<open>The scan\<close>

text \<open>The loop of \<open>Journal::open\<close>: offset, record count and highest sequence.\<close>

function open_loop :: "bytes \<Rightarrow> nat \<Rightarrow> u64 \<Rightarrow> Sequence \<Rightarrow> nat \<times> u64 \<times> Sequence" where
  "open_loop bs offset records high =
     (if offset < length bs
      then (case decode_journal_record (drop offset bs) of
              None \<Rightarrow> (offset, records, high)
            | Some (consumed, r) \<Rightarrow> open_loop bs (offset + consumed) (records + 1) (max high (jr_sequence r)))
      else (offset, records, high))"
  by pat_completeness auto
termination
  by (relation "measure (\<lambda>(bs, offset, _). length bs - offset)") (auto dest: decode_journal_record_consumes)

text \<open>The loop of \<open>Journal::replay\<close>.\<close>

function replay_loop :: "nat \<Rightarrow> bytes \<Rightarrow> nat \<Rightarrow> JournalRecord list \<Rightarrow> JournalRecord list" where
  "replay_loop max_records bs offset records =
     (if offset < length bs \<and> length records < max_records
      then (case decode_journal_record (drop offset bs) of
              None \<Rightarrow> records
            | Some (consumed, r) \<Rightarrow> replay_loop max_records bs (offset + consumed) (records @ [r]))
      else records)"
  by pat_completeness auto
termination
  by (relation "measure (\<lambda>(_, bs, offset, _). length bs - offset)") (auto dest: decode_journal_record_consumes)

declare open_loop.simps [simp del] replay_loop.simps [simp del]

section \<open>The journal object\<close>

record JournalOpenReport =
  jo_valid_bytes :: nat
  jo_discarded_tail_bytes :: nat
  jo_records :: u64
  jo_last_sequence :: Sequence
  jo_truncated_tail :: bool

record Journal =
  jn_max_bytes :: nat
  jn_bytes :: nat
  jn_last_sequence :: Sequence
  jn_open :: bool
  jn_report :: JournalOpenReport

definition new_journal :: "nat \<Rightarrow> Journal" where
  "new_journal max_bytes = \<lparr>jn_max_bytes = max_bytes, jn_bytes = 0, jn_last_sequence = 0, jn_open = False,
     jn_report = \<lparr>jo_valid_bytes = 0, jo_discarded_tail_bytes = 0, jo_records = 0, jo_last_sequence = 0,
       jo_truncated_tail = False\<rparr>\<rparr>"

type_synonym 'a journal_op = "Journal \<times> Disk \<Rightarrow> 'a result \<times> (Journal \<times> Disk)"

text \<open>A file helper run with the journal at hand.\<close>

definition on_disk :: "(Disk \<Rightarrow> 'a result \<times> Disk) \<Rightarrow> 'a journal_op" where
  "on_disk f js = (case js of (j, d) \<Rightarrow> (case f d of (r, d') \<Rightarrow> (r, (j, d'))))"

definition journal_open :: "unit journal_op" where
  "journal_open js =
     (if jn_open (fst js) then (Inl AlreadyStarted, js)
      else bind_op
        (if file_exists JournalFile (snd js) then on_disk (read_file_all JournalFile (jn_max_bytes (fst js))) js
         else bind_op (on_disk (write_file_all JournalFile []) js) (\<lambda>_ js. (Inr [], js)))
        (\<lambda>bs (j, d).
           let (offset, records, high) = open_loop bs 0 0 0;
               report = \<lparr>jo_valid_bytes = offset, jo_discarded_tail_bytes = length bs - offset, jo_records = records,
                         jo_last_sequence = high, jo_truncated_tail = (offset \<noteq> length bs)\<rparr>;
               js1 = (j\<lparr>jn_report := report\<rparr>, d)
           in bind_op (if jo_truncated_tail report then on_disk (truncate_file JournalFile offset) js1 else (Inr (), js1))
                (\<lambda>_ (j, d). (Inr (), (j\<lparr>jn_bytes := offset, jn_last_sequence := high, jn_open := True\<rparr>, d)))))"

definition journal_close :: "unit journal_op" where
  "journal_close js = (case js of (j, d) \<Rightarrow> (Inr (), (j\<lparr>jn_open := False\<rparr>, d)))"

definition journal_append :: "JournalRecordType \<Rightarrow> bytes \<Rightarrow> Millis \<Rightarrow> unit journal_op" where
  "journal_append type payload at js =
     (if \<not> jn_open (fst js) then (Inl NotStarted, js)
      else if length payload > kMaxJournalRecordBytes then (Inl BoundExceeded, js)
      else let r = \<lparr>jr_type = type, jr_sequence = jn_last_sequence (fst js) + 1, jr_at = at, jr_payload = payload\<rparr>;
               encoded = encode_journal_record r
           in if jn_bytes (fst js) + length encoded > jn_max_bytes (fst js) then (Inl DurableGrowthExceeded, js)
              else bind_op (on_disk (append_file_all JournalFile encoded) js)
                (\<lambda>_ (j, d). (Inr (), (j\<lparr>jn_bytes := jn_bytes j + length encoded,
                                        jn_last_sequence := jr_sequence r\<rparr>, d))))"

definition journal_sync :: "unit journal_op" where
  "journal_sync js = (if \<not> jn_open (fst js) then (Inl NotStarted, js) else on_disk (fsync_file JournalFile) js)"

definition journal_replay :: "nat \<Rightarrow> JournalRecord list journal_op" where
  "journal_replay max_records js =
     (if \<not> file_exists JournalFile (snd js) then (Inr [], js)
      else bind_op (on_disk (read_file_all JournalFile (jn_max_bytes (fst js))) js)
             (\<lambda>bs js. (Inr (replay_loop max_records bs 0 []), js)))"

definition journal_reset :: "unit journal_op" where
  "journal_reset js =
     (if \<not> jn_open (fst js) then (Inl NotStarted, js)
      else bind_op (on_disk (write_file_all JournalFile []) js)
             (\<lambda>_ (j, d). (Inr (), (j\<lparr>jn_bytes := 0\<rparr>, d))))"

section \<open>The record codec\<close>

lemma length_journal_header: "length (journal_header r) = 40"
  by (simp add: journal_header_def)

lemma length_encode_journal_record: "length (encode_journal_record r) = kJournalHeaderBytes + length (jr_payload r)"
  by (simp add: encode_journal_record_def length_journal_header kJournalHeaderBytes_def)

definition journal_record_ok :: "JournalRecord \<Rightarrow> bool" where
  "journal_record_ok r \<longleftrightarrow> jt_ok (jr_type r) \<and> millis_ok (jr_at r) \<and> length (jr_payload r) \<le> kMaxJournalRecordBytes"

lemma decode_encode_journal_record:
  assumes "journal_record_ok r"
  shows "decode_journal_record (encode_journal_record r @ rest) = Some (length (encode_journal_record r), r)"
proof -
  define tail where "tail = w_u64 (jr_sequence r) @ w_i64 (jr_at r) @ w_u64 (crc64 (jr_payload r))
    @ w_u64 (crc64 (journal_header r)) @ jr_payload r @ rest"
  have n: "unat (word_of_nat (length (jr_payload r)) :: u32) = length (jr_payload r)"
    using assms by (intro unat_length32) (simp add: journal_record_ok_def kMaxJournalRecordBytes_def)
  have p1: "journal_part1 (encode_journal_record r @ rest) = Some ((kJournalMagic, kDurableFormatVersion, jt_code (jr_type r),
      word_of_nat (length (jr_payload r))), tail)"
    by (simp add: journal_part1_def encode_journal_record_def journal_header_def codec_simps tail_def)
  have p2: "journal_part2 tail = Some ((jr_sequence r, jr_at r, crc64 (jr_payload r), crc64 (journal_header r)),
      jr_payload r @ rest)"
    using assms by (simp add: journal_part2_def tail_def codec_simps journal_record_ok_def)
  have tk: "take 40 (encode_journal_record r) = journal_header r" "drop 48 (encode_journal_record r) = jr_payload r"
    using length_journal_header [of r] by (simp_all add: encode_journal_record_def)
  show ?thesis using assms
    by (simp add: decode_journal_record_def p1 p2 tk n Let_def length_encode_journal_record kJournalHeaderBytes_def
        journal_record_ok_def jt_ok_def)
qed

text \<open>Conversely every accepted buffer starts with the encoding of the record it gives.\<close>

lemma decode_journal_record_canonical:
  assumes "decode_journal_record bs = Some (n, r)"
  shows "journal_record_ok r" "bs = encode_journal_record r @ drop n bs" "n = length (encode_journal_record r)"
proof -
  from assms obtain type len rest seq at pcrc rest2 where
    p1: "journal_part1 bs = Some ((kJournalMagic, kDurableFormatVersion, type, len), rest)"
    and p2: "journal_part2 rest = Some ((seq, at, pcrc, crc64 (take 40 bs)), rest2)"
    and len: "unat len \<le> kMaxJournalRecordBytes" "48 + unat len \<le> length bs" "n = 48 + unat len"
    and pl: "pcrc = crc64 (take (unat len) (drop 48 bs))"
    and r: "r = \<lparr>jr_type = jt_of type, jr_sequence = seq, jr_at = at, jr_payload = take (unat len) (drop 48 bs)\<rparr>"
    by (auto simp: decode_journal_record_def bind_eq_Some_conv Let_def kJournalHeaderBytes_def split: if_splits)
  have t: "jt_code (jt_of type) = type" "jt_ok (jt_of type)" by (auto simp: jt_ok_def jt_of_def)
  have at: "millis_ok at" using p2 by (auto simp: journal_part2_def bind_eq_Some_conv dest: rd_i64_range)
  have wl: "word_of_nat (length (jr_payload r)) = len" using len(2) by (simp add: r)
  have front: "bs = w_u32 kJournalMagic @ w_u32 kDurableFormatVersion @ w_u32 type @ w_u32 len @ rest"
    using p1 by (auto simp: journal_part1_def bind_eq_Some_conv u32c.get_iff)
  have rear: "rest = w_u64 seq @ w_i64 at @ w_u64 pcrc @ w_u64 (crc64 (take 40 bs)) @ rest2"
    using p2 at by (auto simp: journal_part2_def bind_eq_Some_conv u64c.get_iff i64c.get_iff)
  have bs: "bs = journal_header r @ w_u64 (crc64 (take 40 bs)) @ rest2"
    using front rear wl by (simp add: journal_header_def r pl t)
  have tk: "take 40 bs = journal_header r" by (subst bs) (simp add: length_journal_header)
  have "drop 48 bs = rest2" by (subst bs) (simp add: length_journal_header)
  then have "rest2 = jr_payload r @ drop n bs"
    by (metis append_take_drop_id drop_drop add.commute len(3) r JournalRecord.select_convs(4))
  with bs tk show "bs = encode_journal_record r @ drop n bs" by (simp add: encode_journal_record_def)
  show "journal_record_ok r" using t at len by (simp add: journal_record_ok_def r)
  show "n = length (encode_journal_record r)"
    using len by (simp add: length_encode_journal_record kJournalHeaderBytes_def r)
qed

definition journal_reader :: "JournalRecord reader" where
  "journal_reader bs = map_option (\<lambda>(n, r). (r, drop n bs)) (decode_journal_record bs)"

interpretation journal_codec: canonical_codec encode_journal_record journal_reader journal_record_ok
proof
  show "journal_record_ok r \<Longrightarrow> journal_reader (encode_journal_record r @ rest) = Some (r, rest)" for r rest
    by (simp add: journal_reader_def decode_encode_journal_record)
  show "journal_reader bs = Some (r, rest) \<Longrightarrow> bs = encode_journal_record r @ rest" for bs r rest
    using decode_journal_record_canonical(2) by (auto simp: journal_reader_def)
qed

lemma decode_torn_record:
  assumes ok: "journal_record_ok r" and n: "n < length (encode_journal_record r)"
  shows "decode_journal_record (take n (encode_journal_record r)) = None"
proof (rule ccontr)
  assume "decode_journal_record (take n (encode_journal_record r)) \<noteq> None"
  then obtain m r' where d: "decode_journal_record (take n (encode_journal_record r)) = Some (m, r')" by auto
  note c = decode_journal_record_canonical [OF d]
  have "encode_journal_record r @ [] =
      encode_journal_record r' @ drop m (take n (encode_journal_record r)) @ drop n (encode_journal_record r)"
    by (metis append_Nil2 append.assoc append_take_drop_id c(2))
  then have "r = r'" using journal_codec.put_prefix_free [OF ok c(1)] by blast
  moreover have "m \<le> n" using decode_journal_record_consumes [OF d] by simp
  ultimately show False using n c(3) by simp
qed

lemma w_word_inject [simp]: "w_u32 a = w_u32 b \<longleftrightarrow> a = b" "w_u64 c = w_u64 e \<longleftrightarrow> c = e"
  using u32c.put_inject u64c.put_inject by blast+

lemma journal_header_eq_iff:
  "journal_header r = journal_header r' \<longleftrightarrow>
     jt_code (jr_type r) = jt_code (jr_type r') \<and>
     (word_of_nat (length (jr_payload r)) :: u32) = word_of_nat (length (jr_payload r')) \<and>
     jr_sequence r = jr_sequence r' \<and> w_i64 (jr_at r) = w_i64 (jr_at r') \<and> crc64 (jr_payload r) = crc64 (jr_payload r')"
  by (simp add: journal_header_def)

lemma decode_changed_record:
  assumes ok: "journal_record_ok r" and i: "i < length (encode_journal_record r)" and b: "b \<noteq> encode_journal_record r ! i"
  shows "decode_journal_record ((encode_journal_record r)[i := b] @ rest) = None"
proof (rule ccontr)
  let ?e = "encode_journal_record r"
  assume "decode_journal_record (?e[i := b] @ rest) \<noteq> None"
  then obtain m r' where d: "decode_journal_record (?e[i := b] @ rest) = Some (m, r')" by auto
  note c = decode_journal_record_canonical [OF d]
  have guard: "crc_guarded 40 (encode_journal_record q @ t)" for q t
    by (simp add: crc_guarded_def length_encode_journal_record kJournalHeaderBytes_def)
      (simp add: encode_journal_record_def length_journal_header)
  have upd: "?e[i := b] @ rest = (?e @ rest)[i := b]" using i by (simp add: list_update_append)
  show False
  proof (cases "i < 48")
    case True
    then have "\<not> crc_guarded 40 (?e[i := b] @ rest)"
      using crc_guarded_byte_changed [OF guard, of i b r rest] b i by (simp add: upd nth_append)
    then show False using guard c(2) by metis
  next
    case False
    then have h: "take 48 (?e[i := b] @ rest) = take 48 ?e" by (simp add: length_encode_journal_record kJournalHeaderBytes_def)
    have split48: "take 40 (take 48 (encode_journal_record q @ t)) = journal_header q"
      "take 48 (encode_journal_record q) = take 48 (encode_journal_record q @ t)" for q t
      by (simp_all add: encode_journal_record_def length_journal_header)
    have "journal_header r' = journal_header r"
      using h c(2) split48(1) [of r' "drop m (?e[i := b] @ rest)"] split48 [of r "[]"] by (metis append_Nil2)
    then have eq: "crc64 (jr_payload r') = crc64 (jr_payload r)"
      "(word_of_nat (length (jr_payload r')) :: u32) = word_of_nat (length (jr_payload r))"
      by (simp_all add: journal_header_eq_iff)
    have lens: "length (jr_payload q) < 2 ^ 32" if "journal_record_ok q" for q
      using that by (simp add: journal_record_ok_def kMaxJournalRecordBytes_def)
    have len: "length (jr_payload r') = length (jr_payload r)"
      using eq(2) lens [OF ok] lens [OF c(1)] by (metis unat_length32)
    have pd: "take (length (jr_payload q)) (drop 48 (encode_journal_record q @ t)) = jr_payload q" for q t
      by (simp add: encode_journal_record_def length_journal_header)
    have "jr_payload r' = take (length (jr_payload r)) (drop 48 (?e[i := b] @ rest))"
      using pd [of r' "drop m (?e[i := b] @ rest)"] c(2) len by metis
    also have "\<dots> = (jr_payload r)[i - 48 := b]"
      using False i pd [of r "[]"] by (simp add: drop_update_swap length_encode_journal_record kJournalHeaderBytes_def)
    finally have "jr_payload r' = (jr_payload r)[i - 48 := b]" .
    moreover have "jr_payload r ! (i - 48) = ?e ! i"
      using False by (auto simp: encode_journal_record_def nth_append length_journal_header)
    moreover have "i - 48 < length (jr_payload r)"
      using False i by (simp add: length_encode_journal_record kJournalHeaderBytes_def)
    ultimately show False using crc64_byte_changed [of "i - 48" "jr_payload r" b] b eq(1) by simp
  qed
qed

section \<open>The scan returns the intact prefix\<close>

text \<open>A damaged tail: what is left of a record that was cut short, or a record with a changed byte.\<close>

inductive damaged_tail :: "bytes \<Rightarrow> bool" where
  torn: "journal_record_ok r \<Longrightarrow> n < length (encode_journal_record r) \<Longrightarrow> damaged_tail (take n (encode_journal_record r))"
| changed: "journal_record_ok r \<Longrightarrow> i < length (encode_journal_record r) \<Longrightarrow> b \<noteq> encode_journal_record r ! i \<Longrightarrow>
    damaged_tail ((encode_journal_record r)[i := b] @ rest)"

lemma damaged_tail_undecodable: "damaged_tail t \<Longrightarrow> decode_journal_record t = None"
  by (induction rule: damaged_tail.induct) (simp_all add: decode_torn_record decode_changed_record)

lemma decode_Nil [simp]: "decode_journal_record [] = None"
  by (simp add: decode_journal_record_def kJournalHeaderBytes_def)

abbreviation journal_image :: "JournalRecord list \<Rightarrow> bytes" where
  "journal_image rs \<equiv> concat (map encode_journal_record rs)"

lemma encode_journal_record_nonempty [simp]: "encode_journal_record r \<noteq> []"
  using length_encode_journal_record [of r] by (auto simp: kJournalHeaderBytes_def)

lemma open_loop_image:
  assumes "\<forall>r \<in> set rs. journal_record_ok r" and "decode_journal_record tail = None"
  shows "open_loop (pre @ journal_image rs @ tail) (length pre) k h =
    (length pre + length (journal_image rs), k + word_of_nat (length rs), fold (\<lambda>r h. max h (jr_sequence r)) rs h)"
  using assms(1)
proof (induction rs arbitrary: pre k h)
  case Nil
  then show ?case using assms(2) by (subst open_loop.simps) simp
next
  case (Cons r rs)
  have "open_loop ((pre @ encode_journal_record r) @ journal_image rs @ tail) (length (pre @ encode_journal_record r)) (k + 1)
      (max h (jr_sequence r)) = (length (pre @ encode_journal_record r) + length (journal_image rs),
        k + 1 + word_of_nat (length rs), fold (\<lambda>r h. max h (jr_sequence r)) rs (max h (jr_sequence r)))"
    using Cons by (intro Cons.IH) simp
  then show ?case using Cons.prems
    by (subst open_loop.simps) (simp add: decode_encode_journal_record add.assoc)
qed

lemma replay_loop_image:
  assumes "\<forall>r \<in> set rs. journal_record_ok r" and "decode_journal_record tail = None"
  shows "replay_loop m (pre @ journal_image rs @ tail) (length pre) acc = acc @ take (m - length acc) rs"
  using assms(1)
proof (induction rs arbitrary: pre acc)
  case Nil
  then show ?case using assms(2) by (subst replay_loop.simps) simp
next
  case (Cons r rs)
  have "replay_loop m ((pre @ encode_journal_record r) @ journal_image rs @ tail) (length (pre @ encode_journal_record r))
      (acc @ [r]) = (acc @ [r]) @ take (m - length (acc @ [r])) rs"
    using Cons by (intro Cons.IH) simp
  then show ?case using Cons.prems
    by (subst replay_loop.simps) (auto simp: decode_encode_journal_record take_Cons' add.assoc)
qed

lemma replay_image:
  "\<forall>r \<in> set rs. journal_record_ok r \<Longrightarrow> decode_journal_record tail = None \<Longrightarrow>
    replay_loop m (journal_image rs @ tail) 0 [] = take m rs"
  using replay_loop_image [of rs tail m "[]" "[]"] by simp

lemma open_image:
  "\<forall>r \<in> set rs. journal_record_ok r \<Longrightarrow> decode_journal_record tail = None \<Longrightarrow>
    open_loop (journal_image rs @ tail) 0 0 0 =
      (length (journal_image rs), word_of_nat (length rs), fold (\<lambda>r h. max h (jr_sequence r)) rs 0)"
  using open_loop_image [of rs tail "[]" 0 0] by simp

text \<open>Opening a journal file without input or output failures.\<close>

lemma journal_open_image:
  assumes "\<forall>r \<in> set rs. journal_record_ok r" and "decode_journal_record tail = None"
    and "dk_files d JournalFile = Some (journal_image rs @ tail)" and "dk_io d = []" and "\<not> jn_open j"
    and "length (journal_image rs @ tail) \<le> jn_max_bytes j"
  shows "\<exists>j' d'. journal_open (j, d) = (Inr (), (j', d')) \<and> jn_open j' \<and> jn_max_bytes j' = jn_max_bytes j \<and>
    jn_bytes j' = length (journal_image rs) \<and> jn_last_sequence j' = fold (\<lambda>r h. max h (jr_sequence r)) rs 0 \<and>
    jo_discarded_tail_bytes (jn_report j') = length tail \<and>
    dk_files d' = (dk_files d)(JournalFile \<mapsto> journal_image rs) \<and> dk_io d' = []"
proof -
  have read: "read_file_all JournalFile (jn_max_bytes j) d = (Inr (journal_image rs @ tail), d)"
    using assms(3-6) by (simp add: read_file_all_def file_bytes_def next_io_def)
  have trunc: "truncate_file JournalFile (length (journal_image rs)) d =
      (Inr (), put_file JournalFile (journal_image rs) d)"
    using assms(3,4) by (simp add: truncate_file_def next_io_def)
  have same: "(dk_files d)(JournalFile \<mapsto> journal_image rs) = dk_files d" if "tail = []"
    using assms(3) that by (simp add: map_upd_triv)
  show ?thesis using assms(3-5)
    by (cases "tail = []")
      (use open_image [OF assms(1,2)] in \<open>simp_all add: journal_open_def file_exists_def on_disk_def read Let_def trunc same\<close>)
qed

text \<open>C28: the journal recovers exactly its intact prefix. Whatever whole records the file holds,
  followed by nothing, by a torn record or by a record with a changed byte and anything after it,
  opening it truncates the file to the whole records, and replaying returns those records, up to
  the bound on their number, and no other.\<close>

theorem journal_recovers_intact_prefix:
  assumes "\<forall>r \<in> set rs. journal_record_ok r" and "tail = [] \<or> damaged_tail tail"
    and "dk_files d JournalFile = Some (journal_image rs @ tail)" and "dk_io d = []"
    and "length (journal_image rs @ tail) \<le> max_bytes"
  shows "\<exists>j d'. journal_open (new_journal max_bytes, d) = (Inr (), (j, d')) \<and>
    dk_files d' = (dk_files d)(JournalFile \<mapsto> journal_image rs) \<and>
    jo_discarded_tail_bytes (jn_report j) = length tail \<and>
    jn_last_sequence j = fold (\<lambda>r h. max h (jr_sequence r)) rs 0 \<and>
    journal_replay m (j, d') = (Inr (take m rs), (j, d'))"
proof -
  have t: "decode_journal_record tail = None" using assms(2) damaged_tail_undecodable by auto
  have "\<not> jn_open (new_journal max_bytes)" "length (journal_image rs @ tail) \<le> jn_max_bytes (new_journal max_bytes)"
    using assms(5) by (simp_all add: new_journal_def)
  from journal_open_image [OF assms(1) t assms(3,4) this] obtain j d' where
    o: "journal_open (new_journal max_bytes, d) = (Inr (), (j, d'))" "jn_max_bytes j = max_bytes"
    "jn_last_sequence j = fold (\<lambda>r h. max h (jr_sequence r)) rs 0"
    "jo_discarded_tail_bytes (jn_report j) = length tail"
    and f: "dk_files d' = (dk_files d)(JournalFile \<mapsto> journal_image rs)" "dk_io d' = []"
    by (auto simp: new_journal_def)
  have "read_file_all JournalFile max_bytes d' = (Inr (journal_image rs), d')"
    using f assms(5) by (simp add: read_file_all_def file_bytes_def next_io_def)
  then have "journal_replay m (j, d') = (Inr (take m rs), (j, d'))"
    using f o(2) replay_image [OF assms(1), of "[]"] by (simp add: journal_replay_def file_exists_def on_disk_def)
  with o f show ?thesis by blast
qed

theorem journal_recovers_intact_prefix_witness:
  "\<exists>j d'. journal_open (new_journal 1000, \<lparr>dk_files = [JournalFile \<mapsto>
        encode_journal_record \<lparr>jr_type = JT_PublisherDeath, jr_sequence = 4, jr_at = 7, jr_payload = [1, 2]\<rparr>
        @ take 9 (encode_journal_record \<lparr>jr_type = JT_PublisherDeath, jr_sequence = 5, jr_at = 8, jr_payload = [3]\<rparr>)], dk_io = []\<rparr>)
      = (Inr (), (j, d')) \<and> jo_discarded_tail_bytes (jn_report j) = 9 \<and>
    journal_replay 10 (j, d') = (Inr [\<lparr>jr_type = JT_PublisherDeath, jr_sequence = 4, jr_at = 7, jr_payload = [1, 2]\<rparr>], (j, d'))"
proof -
  let ?r = "\<lparr>jr_type = JT_PublisherDeath, jr_sequence = 4, jr_at = 7, jr_payload = [1, 2]\<rparr>"
  let ?t = "\<lparr>jr_type = JT_PublisherDeath, jr_sequence = 5, jr_at = 8, jr_payload = [3]\<rparr>"
  have ok: "journal_record_ok ?r" "journal_record_ok ?t"
    by (simp_all add: journal_record_ok_def jt_ok_def jt_of_def millis_ok_def kNoTime_def kMaxTime_def kMaxJournalRecordBytes_def)
  have l: "length (encode_journal_record ?r) = 50" "length (encode_journal_record ?t) = 49"
    by (simp_all add: length_encode_journal_record kJournalHeaderBytes_def)
  have "damaged_tail (take 9 (encode_journal_record ?t))" using ok(2) l(2) by (intro torn) simp_all
  then show ?thesis
    using journal_recovers_intact_prefix [of "[?r]" "take 9 (encode_journal_record ?t)"
        "\<lparr>dk_files = [JournalFile \<mapsto> encode_journal_record ?r @ take 9 (encode_journal_record ?t)], dk_io = []\<rparr>" 1000 10] ok l
    by auto
qed

end
