(* ===== verification/HGM_Store.thy ===== *)
theory HGM_Store
  imports HGM_Journal
begin

text \<open>
  The durable store (\<^verbatim>\<open>include/hgm/store.hpp\<close>, \<^verbatim>\<open>src/store.cpp\<close>): the codec of the committed
  state, the snapshot file with its guarded header, and open, commit and recover over the disk and
  the journal. The notes of a recovery are texts for operators and are left out; the flags that
  say what a restart never restores are constants of the type and are left out too.
\<close>

section \<open>The committed state\<close>

record DurableHotspot =
  dh_id :: HotspotId
  dh_key :: string
  dh_scope :: CongestionScope
  dh_severity :: Severity
  dh_cause :: SaturationCause
  dh_persistence_ms :: Millis
  dh_last_observed :: Millis
  dh_resource_count :: u64

record DurableIntervention =
  dv_id :: InterventionId
  dv_kind :: MitigationKind
  dv_hotspot :: HotspotId
  dv_at :: Millis
  dv_scope_share_ppm :: u32
  dv_escalation :: bool

record DurableState =
  ds_format_version :: u32
  ds_written_by_boot :: BootId
  ds_epoch :: CoordinatorEpoch
  ds_evaluations :: u64
  ds_journal_sequence :: Sequence
  ds_written_at :: Millis
  ds_hotspots :: "DurableHotspot list"
  ds_interventions :: "DurableIntervention list"

definition no_durable :: DurableState where
  "no_durable = \<lparr>ds_format_version = 1, ds_written_by_boot = 0, ds_epoch = 0, ds_evaluations = 0,
     ds_journal_sequence = 0, ds_written_at = kNoTime, ds_hotspots = [], ds_interventions = []\<rparr>"

definition validate_state :: "DurableState \<Rightarrow> unit result" where
  "validate_state s =
     bind_result (guard (length (ds_hotspots s) \<le> kMaxHotspots) BoundExceeded) (\<lambda>_.
     bind_result (guard (length (ds_interventions s) \<le> kMaxHotspots * 4) BoundExceeded) (\<lambda>_.
     guard (list_all (\<lambda>h. length (dh_key h) \<le> kMaxTextBytes) (ds_hotspots s)) BoundExceeded))"

definition w_durable_hotspot :: "DurableHotspot \<Rightarrow> bytes" where
  "w_durable_hotspot h = w_u64 (dh_id h) @ w_text (dh_key h) @ w_u8 (scope_code (dh_scope h)) @ w_u8 (sev_code (dh_severity h))
     @ w_u8 (cause_code (dh_cause h)) @ w_i64 (dh_persistence_ms h) @ w_i64 (dh_last_observed h) @ w_u64 (dh_resource_count h)"

definition w_durable_intervention :: "DurableIntervention \<Rightarrow> bytes" where
  "w_durable_intervention i = w_u64 (dv_id i) @ w_u8 (mk_code (dv_kind i)) @ w_u64 (dv_hotspot i) @ w_i64 (dv_at i)
     @ w_u32 (dv_scope_share_ppm i) @ w_bool (dv_escalation i)"

definition encode_durable_state :: "DurableState \<Rightarrow> bytes" where
  "encode_durable_state s = w_u32 (ds_format_version s) @ w_u64 (ds_written_by_boot s) @ w_u64 (ds_epoch s)
     @ w_u64 (ds_evaluations s) @ w_u64 (ds_journal_sequence s) @ w_i64 (ds_written_at s)
     @ w_list w_durable_hotspot (ds_hotspots s) @ w_list w_durable_intervention (ds_interventions s)"

definition durable_head :: "(u32 \<times> u64 \<times> u64 \<times> u64 \<times> u64 \<times> int) reader" where
  "durable_head bs = do {
     (version, bs) \<leftarrow> rd_u32 bs; (boot, bs) \<leftarrow> rd_u64 bs; (epoch, bs) \<leftarrow> rd_u64 bs; (evaluations, bs) \<leftarrow> rd_u64 bs;
     (sequence, bs) \<leftarrow> rd_u64 bs; (written_at, bs) \<leftarrow> rd_i64 bs;
     Some ((version, boot, epoch, evaluations, sequence, written_at), bs) }"

definition rd_durable_hotspot :: "DurableHotspot reader" where
  "rd_durable_hotspot bs = do {
     (i, bs) \<leftarrow> rd_u64 bs; (key, bs) \<leftarrow> rd_text kMaxTextBytes bs; (scope, bs) \<leftarrow> rd_u8 bs; (severity, bs) \<leftarrow> rd_u8 bs;
     (cause, bs) \<leftarrow> rd_u8 bs; (persistence, bs) \<leftarrow> rd_i64 bs; (observed, bs) \<leftarrow> rd_i64 bs; (count, bs) \<leftarrow> rd_u64 bs;
     Some (\<lparr>dh_id = i, dh_key = key, dh_scope = scope_of scope, dh_severity = sev_of severity, dh_cause = cause_of cause,
            dh_persistence_ms = persistence, dh_last_observed = observed, dh_resource_count = count\<rparr>, bs) }"

definition rd_durable_intervention :: "DurableIntervention reader" where
  "rd_durable_intervention bs = do {
     (i, bs) \<leftarrow> rd_u64 bs; (kind, bs) \<leftarrow> rd_u8 bs; (hotspot, bs) \<leftarrow> rd_u64 bs; (at, bs) \<leftarrow> rd_i64 bs;
     (share, bs) \<leftarrow> rd_u32 bs; (escalation, bs) \<leftarrow> rd_bool bs;
     Some (\<lparr>dv_id = i, dv_kind = mk_of kind, dv_hotspot = hotspot, dv_at = at, dv_scope_share_ppm = share,
            dv_escalation = escalation\<rparr>, bs) }"

text \<open>A count, its bound and that many entries.\<close>

definition rd_counted :: "nat \<Rightarrow> 'a reader \<Rightarrow> bytes \<Rightarrow> ('a list \<times> bytes) result" where
  "rd_counted limit entry bs =
     bind_result (of_option PersistenceTruncated (rd_u32 bs)) (\<lambda>(count, bs).
     bind_result (guard (unat count \<le> limit) PersistenceCorrupt) (\<lambda>_.
     of_option PersistenceTruncated (rd_list entry (unat count) bs)))"

definition decode_durable_state :: "bytes \<Rightarrow> DurableState result" where
  "decode_durable_state bs =
     bind_result (of_option PersistenceTruncated (durable_head bs)) (\<lambda>((version, boot, epoch, evaluations, sequence, written_at), bs).
     bind_result (rd_counted kMaxHotspots rd_durable_hotspot bs) (\<lambda>(hotspots, bs).
     bind_result (rd_counted (kMaxHotspots * 4) rd_durable_intervention bs) (\<lambda>(interventions, bs).
     bind_result (guard (bs = []) PersistenceCorrupt) (\<lambda>_.
     Inr \<lparr>ds_format_version = version, ds_written_by_boot = boot, ds_epoch = epoch, ds_evaluations = evaluations,
          ds_journal_sequence = sequence, ds_written_at = written_at, ds_hotspots = hotspots,
          ds_interventions = interventions\<rparr>))))"

section \<open>The snapshot file\<close>

definition kSnapshotMagic :: u32 where "kSnapshotMagic = 0x31534748"
definition kSnapshotHeaderBytes :: nat where "kSnapshotHeaderBytes = 32"

definition snapshot_header :: "bytes \<Rightarrow> bytes" where
  "snapshot_header body = w_u32 kSnapshotMagic @ w_u32 kDurableFormatVersion @ w_u32 (word_of_nat (length body))
     @ w_u32 0 @ w_u64 (crc64 body)"

definition snapshot_image :: "bytes \<Rightarrow> bytes" where
  "snapshot_image body = snapshot_header body @ w_u64 (crc64 (snapshot_header body)) @ body"

definition snapshot_head :: "(u32 \<times> u32 \<times> u32 \<times> u32 \<times> u64 \<times> u64) reader" where
  "snapshot_head bs = do {
     (magic, bs) \<leftarrow> rd_u32 bs; (version, bs) \<leftarrow> rd_u32 bs; (body_length, bs) \<leftarrow> rd_u32 bs; (reserved, bs) \<leftarrow> rd_u32 bs;
     (body_crc, bs) \<leftarrow> rd_u64 bs; (header_crc, bs) \<leftarrow> rd_u64 bs;
     Some ((magic, version, body_length, reserved, body_crc, header_crc), bs) }"

text \<open>The checks of \<open>read_snapshot\<close> on the bytes of the file, up to the body.\<close>

definition snapshot_body :: "bytes \<Rightarrow> bytes result" where
  "snapshot_body bs =
     bind_result (guard (length bs \<ge> kSnapshotHeaderBytes) PersistenceTruncated) (\<lambda>_.
     bind_result (of_option PersistenceTruncated (snapshot_head bs)) (\<lambda>((magic, version, body_length, _, body_crc, header_crc), _).
     bind_result (guard (magic = kSnapshotMagic) PersistenceCorrupt) (\<lambda>_.
     bind_result (guard (version = kDurableFormatVersion) PersistenceVersionUnsupported) (\<lambda>_.
     bind_result (guard (header_crc = crc64 (take (kSnapshotHeaderBytes - 8) bs)) PersistenceCorrupt) (\<lambda>_.
     bind_result (guard (unat body_length = length bs - kSnapshotHeaderBytes) PersistenceTruncated) (\<lambda>_.
     let body = take (unat body_length) (drop kSnapshotHeaderBytes bs)
     in bind_result (guard (crc64 body = body_crc) PersistenceCorrupt) (\<lambda>_. Inr body)))))))"

section \<open>The store object\<close>

record Store =
  st_max_bytes :: nat
  st_max_journal_records :: nat
  st_journal :: Journal
  st_disk :: Disk
  st_opened :: bool

definition new_store :: "nat \<Rightarrow> nat \<Rightarrow> Disk \<Rightarrow> Store" where
  "new_store max_bytes max_records d = \<lparr>st_max_bytes = max_bytes, st_max_journal_records = max_records,
     st_journal = new_journal max_bytes, st_disk = d, st_opened = False\<rparr>"

type_synonym 'a store_op = "Store \<Rightarrow> 'a result \<times> Store"

definition on_journal :: "'a journal_op \<Rightarrow> 'a store_op" where
  "on_journal f st = (case f (st_journal st, st_disk st) of (r, (j, d)) \<Rightarrow> (r, st\<lparr>st_journal := j, st_disk := d\<rparr>))"

definition on_file :: "(Disk \<Rightarrow> 'a result \<times> Disk) \<Rightarrow> 'a store_op" where
  "on_file f st = (case f (st_disk st) of (r, d) \<Rightarrow> (r, st\<lparr>st_disk := d\<rparr>))"

definition store_journal_sequence :: "Store \<Rightarrow> Sequence" where
  "store_journal_sequence st = jn_last_sequence (st_journal st)"

definition store_open :: "unit store_op" where
  "store_open st =
     (if st_opened st then (Inl AlreadyStarted, st)
      else bind_op (on_file ensure_directory st) (\<lambda>_ st.
           bind_op (on_journal journal_open st) (\<lambda>_ st.
           let st1 = (if file_exists TempFile (st_disk st) then snd (on_file (remove_file TempFile) st) else st)
           in (Inr (), st1\<lparr>st_opened := True\<rparr>))))"

definition store_close :: "unit store_op" where
  "store_close st =
     (if \<not> st_opened st then (Inr (), st)
      else case on_journal journal_close st of (r, st) \<Rightarrow> (r, st\<lparr>st_opened := False\<rparr>))"

definition write_snapshot :: "DurableState \<Rightarrow> unit store_op" where
  "write_snapshot state st =
     (let body = encode_durable_state state;
          framed = snapshot_image body
      in if length body > st_max_bytes st then (Inl DurableGrowthExceeded, st)
         else if length framed \<noteq> kSnapshotHeaderBytes + length body then (Inl Internal, st)
         else bind_op (on_file (write_file_all TempFile framed) st) (\<lambda>_ st.
              bind_op (on_file (fsync_file TempFile) st) (\<lambda>_ st.
              on_file (atomic_replace TempFile SnapshotFile) st)))"

text \<open>\<open>read_snapshot\<close>: the state, the bytes read and the bytes discarded.\<close>

definition read_snapshot :: "Store \<Rightarrow> (DurableState result \<times> nat \<times> nat) \<times> Store" where
  "read_snapshot st =
     (if \<not> file_exists SnapshotFile (st_disk st) then ((Inl MissingEvidence, 0, 0), st)
      else case on_file (read_file_all SnapshotFile (st_max_bytes st)) st of
             (Inl e, st) \<Rightarrow> ((Inl e, 0, 0), st)
           | (Inr bs, st) \<Rightarrow>
               (case snapshot_body bs of
                  Inl e \<Rightarrow> ((Inl e, length bs, if e = PersistenceTruncated then length bs else 0), st)
                | Inr body \<Rightarrow> ((decode_durable_state body, length bs, 0), st)))"

fun append_records :: "JournalRecord list \<Rightarrow> unit journal_op" where
  "append_records [] js = (Inr (), js)"
| "append_records (r # rs) js =
     bind_op (journal_append (jr_type r) (jr_payload r) (jr_at r) js) (\<lambda>_. append_records rs)"

definition store_commit :: "DurableState \<Rightarrow> JournalRecord list \<Rightarrow> unit store_op" where
  "store_commit state records st =
     (if \<not> st_opened st then (Inl NotStarted, st)
      else bind_op (validate_state state, st) (\<lambda>_ st.
           bind_op (on_journal (append_records records) st) (\<lambda>_ st.
           bind_op (on_journal journal_sync st) (\<lambda>_ st.
           bind_op (write_snapshot state st) (\<lambda>_ st.
           bind_op (on_journal journal_reset st) (\<lambda>_ st.
           on_journal journal_sync st))))))"

section \<open>Recovery\<close>

record RecoveredState =
  rc_recovered :: bool
  rc_format_supported :: bool
  rc_format_version :: u32
  rc_outcome :: "unit result"
  rc_snapshot_bytes :: nat
  rc_discarded_tail_bytes :: nat
  rc_applied_journal_records :: u64
  rc_journal_sequence :: Sequence
  rc_last_epoch :: CoordinatorEpoch
  rc_previous_boot :: BootId
  rc_written_at :: Millis
  rc_state :: DurableState
  rc_discarded_live_authority :: u32

definition no_recovery :: RecoveredState where
  "no_recovery = \<lparr>rc_recovered = False, rc_format_supported = True, rc_format_version = 0, rc_outcome = Inr (),
     rc_snapshot_bytes = 0, rc_discarded_tail_bytes = 0, rc_applied_journal_records = 0, rc_journal_sequence = 0,
     rc_last_epoch = 0, rc_previous_boot = 0, rc_written_at = kNoTime, rc_state = no_durable,
     rc_discarded_live_authority = 0\<rparr>"

text \<open>One journal record on top of the snapshot's sequence: the epoch, the highest sequence, the count.\<close>

definition replay_record :: "Sequence \<Rightarrow> JournalRecord \<Rightarrow> CoordinatorEpoch \<times> Sequence \<times> u64 \<Rightarrow> CoordinatorEpoch \<times> Sequence \<times> u64" where
  "replay_record base r acc =
     (case acc of (epoch, highest, applied) \<Rightarrow>
        if jr_sequence r \<le> base then acc
        else ((case jr_type r of
                 JT_EpochAdvance \<Rightarrow>
                   (if length (jr_payload r) \<ge> 8
                    then (case rd_u64 (jr_payload r) of Some (e, _) \<Rightarrow> if e > epoch then e else epoch | None \<Rightarrow> epoch)
                    else epoch)
               | _ \<Rightarrow> epoch),
              max highest (jr_sequence r), applied + 1))"

definition store_recover :: "RecoveredState store_op" where
  "store_recover st =
     (if \<not> st_opened st then (Inl NotStarted, st)
      else let rc0 = no_recovery\<lparr>rc_format_version := kDurableFormatVersion, rc_discarded_live_authority := 5\<rparr>
           in if \<not> file_exists SnapshotFile (st_disk st) then (Inr (rc0\<lparr>rc_outcome := Inl MissingEvidence\<rparr>), st)
              else case read_snapshot st of
                ((Inl e, bytes, discarded), st) \<Rightarrow>
                  (Inr (rc0\<lparr>rc_outcome := Inl e, rc_discarded_tail_bytes := discarded, rc_snapshot_bytes := bytes,
                            rc_format_supported := (e \<noteq> PersistenceVersionUnsupported)\<rparr>), st)
              | ((Inr state, bytes, discarded), st) \<Rightarrow>
                  let rc1 = rc0\<lparr>rc_snapshot_bytes := bytes, rc_format_version := ds_format_version state,
                                rc_last_epoch := ds_epoch state, rc_previous_boot := ds_written_by_boot state,
                                rc_written_at := ds_written_at state, rc_journal_sequence := ds_journal_sequence state\<rparr>
                  in (case on_journal (journal_replay (st_max_journal_records st)) st of
                        (Inl e, st) \<Rightarrow> (Inr (rc1\<lparr>rc_outcome := Inl e, rc_state := state, rc_recovered := True\<rparr>), st)
                      | (Inr records, st) \<Rightarrow>
                          let (epoch, highest, applied) =
                                fold (replay_record (ds_journal_sequence state)) records (ds_epoch state, ds_journal_sequence state, 0)
                          in (Inr (rc1\<lparr>rc_last_epoch := epoch, rc_applied_journal_records := applied,
                                rc_journal_sequence := highest,
                                rc_discarded_tail_bytes := jo_discarded_tail_bytes (jn_report (st_journal st)),
                                rc_state := state\<lparr>ds_journal_sequence := highest\<rparr>, rc_recovered := True,
                                rc_outcome := Inr ()\<rparr>), st)))"

section \<open>Round trip of the committed state\<close>

definition durable_ok :: "DurableState \<Rightarrow> bool" where
  "durable_ok s \<longleftrightarrow> validate_state s = Inr () \<and> millis_ok (ds_written_at s) \<and>
     (\<forall>h \<in> set (ds_hotspots s). scope_ok (dh_scope h) \<and> sev_ok (dh_severity h) \<and> cause_ok (dh_cause h) \<and>
        millis_ok (dh_persistence_ms h) \<and> millis_ok (dh_last_observed h)) \<and>
     (\<forall>i \<in> set (ds_interventions s). mk_ok (dv_kind i) \<and> millis_ok (dv_at i))"

lemma validate_state_ok:
  "validate_state s = Inr () \<longleftrightarrow> length (ds_hotspots s) \<le> kMaxHotspots \<and> length (ds_interventions s) \<le> kMaxHotspots * 4 \<and>
     (\<forall>h \<in> set (ds_hotspots s). length (dh_key h) \<le> kMaxTextBytes)"
  by (auto simp: validate_state_def bind_result_Inr_iff guard_def list_all_iff)

interpretation durable_hotspot_codec: codec w_durable_hotspot rd_durable_hotspot
    "\<lambda>h. length (dh_key h) \<le> kMaxTextBytes \<and> scope_ok (dh_scope h) \<and> sev_ok (dh_severity h) \<and> cause_ok (dh_cause h) \<and>
        millis_ok (dh_persistence_ms h) \<and> millis_ok (dh_last_observed h)"
  by unfold_locales (simp add: w_durable_hotspot_def rd_durable_hotspot_def codec_simps kMaxTextBytes_def scope_ok_def sev_ok_def
      cause_ok_def)

interpretation durable_intervention_codec: codec w_durable_intervention rd_durable_intervention
    "\<lambda>i. mk_ok (dv_kind i) \<and> millis_ok (dv_at i)"
  by unfold_locales (simp add: w_durable_intervention_def rd_durable_intervention_def codec_simps mk_ok_def)

context codec
begin

lemma rd_counted_put:
  assumes "\<forall>x \<in> set xs. ok x" and "length xs \<le> limit" and "limit < 2 ^ 32"
  shows "rd_counted limit get (w_list put xs @ rest) = Inr (xs, rest)"
proof -
  have "unat (word_of_nat (length xs) :: u32) = length xs" using assms(2,3) by (intro unat_length32) simp
  then show ?thesis using assms(1,2) by (simp add: rd_counted_def w_list_def rd_u32_w_u32 get_list_put)
qed

end

lemma decode_encode_durable_state:
  assumes "durable_ok s"
  shows "decode_durable_state (encode_durable_state s) = Inr s"
proof -
  have "durable_head (encode_durable_state s) = Some ((ds_format_version s, ds_written_by_boot s, ds_epoch s, ds_evaluations s,
      ds_journal_sequence s, ds_written_at s), w_list w_durable_hotspot (ds_hotspots s) @ w_list w_durable_intervention (ds_interventions s))"
    using assms by (simp add: durable_head_def encode_durable_state_def codec_simps durable_ok_def)
  moreover have "rd_counted kMaxHotspots rd_durable_hotspot (w_list w_durable_hotspot (ds_hotspots s) @ rest) = Inr (ds_hotspots s, rest)" for rest
    using assms by (intro durable_hotspot_codec.rd_counted_put) (auto simp: durable_ok_def validate_state_ok kMaxHotspots_def)
  moreover have "rd_counted (kMaxHotspots * 4) rd_durable_intervention (w_list w_durable_intervention (ds_interventions s) @ []) =
      Inr (ds_interventions s, [])"
    using assms by (intro durable_intervention_codec.rd_counted_put) (auto simp: durable_ok_def validate_state_ok kMaxHotspots_def)
  ultimately show ?thesis by (simp add: decode_durable_state_def)
qed

lemma length_snapshot_header: "length (snapshot_header body) = 24"
  by (simp add: snapshot_header_def)

lemma length_snapshot_image: "length (snapshot_image body) = kSnapshotHeaderBytes + length body"
  by (simp add: snapshot_image_def length_snapshot_header kSnapshotHeaderBytes_def)

lemma snapshot_body_image:
  assumes "length body < 2 ^ 32"
  shows "snapshot_body (snapshot_image body) = Inr body"
proof -
  have n: "unat (word_of_nat (length body) :: u32) = length body" using assms by (rule unat_length32)
  have h: "snapshot_head (snapshot_image body) = Some ((kSnapshotMagic, kDurableFormatVersion, word_of_nat (length body), 0,
      crc64 body, crc64 (snapshot_header body)), body)"
    by (simp add: snapshot_head_def snapshot_image_def snapshot_header_def codec_simps)
  have tk: "take 24 (snapshot_image body) = snapshot_header body" "drop 32 (snapshot_image body) = body"
    using length_snapshot_header [of body] by (simp_all add: snapshot_image_def)
  show ?thesis
    by (simp add: snapshot_body_def h length_snapshot_image tk n Let_def kSnapshotHeaderBytes_def)
qed

section \<open>What a commit leaves on the disk\<close>

text \<open>The records as the journal numbers them.\<close>

fun stamped :: "Sequence \<Rightarrow> JournalRecord list \<Rightarrow> JournalRecord list" where
  "stamped last_sequence [] = []"
| "stamped last_sequence (r # rs) = r\<lparr>jr_sequence := last_sequence + 1\<rparr> # stamped (last_sequence + 1) rs"

lemma restamp: "\<lparr>jr_type = jr_type r, jr_sequence = q, jr_at = jr_at r, jr_payload = jr_payload r\<rparr> = r\<lparr>jr_sequence := q\<rparr>"
  by simp

lemma journal_record_ok_stamp [simp]: "journal_record_ok (r\<lparr>jr_sequence := q\<rparr>) = journal_record_ok r"
  by (simp add: journal_record_ok_def)

lemma stamped_ok:
  assumes "list_all journal_record_ok rs"
  shows "list_all journal_record_ok (stamped s rs)"
  using assms by (induction rs arbitrary: s) simp_all

text \<open>
  The journal file after appends that may fail anywhere: what was there, the first records whole,
  and a rest that no scan reads as a record. The other files keep their contents.
\<close>

definition journal_grown :: "Disk \<Rightarrow> Disk \<Rightarrow> JournalRecord list \<Rightarrow> bool" where
  "journal_grown d d' rs \<longleftrightarrow> (\<exists>tail. decode_journal_record tail = None \<and>
     file_bytes JournalFile d' = file_bytes JournalFile d @ journal_image rs @ tail \<and>
     (\<forall>f. f \<noteq> JournalFile \<longrightarrow> dk_files d' f = dk_files d f) \<and>
     (dk_files d JournalFile \<noteq> None \<longrightarrow> dk_files d' JournalFile \<noteq> None))"

lemma journal_grown_none: "journal_grown d d []"
  by (auto simp: journal_grown_def intro!: exI [of _ "[]"])

lemma append_encoded_cases:
  assumes f: "append_file_all JournalFile (encode_journal_record r) d = (res, d')" and ok: "journal_record_ok r"
  shows "(res = Inr () \<and> dk_files d' = (dk_files d)(JournalFile \<mapsto> file_bytes JournalFile d @ encode_journal_record r)) \<or>
    (\<exists>e. res = Inl e) \<and> (journal_grown d d' [] \<or> journal_grown d d' [r]) \<and>
      length (file_bytes JournalFile d') \<le> length (file_bytes JournalFile d) + length (encode_journal_record r)"
proof -
  from append_file_all_cases [OF f] consider
      "res = Inr ()" "dk_files d' = (dk_files d)(JournalFile \<mapsto> file_bytes JournalFile d @ encode_journal_record r)"
    | "res = Inl PersistenceIoError" "dk_files d' = dk_files d"
    | n where "res = Inl PersistenceIoError"
        "dk_files d' = (dk_files d)(JournalFile \<mapsto> file_bytes JournalFile d @ take n (encode_journal_record r))"
    by blast
  then show ?thesis
  proof cases
    case 2
    then show ?thesis by (auto simp: journal_grown_def file_bytes_def intro!: exI [of _ "[]"])
  next
    case (3 n)
    then show ?thesis
    proof (cases "n < length (encode_journal_record r)")
      case True
      then have "journal_grown d d' []"
        using 3 decode_torn_record [OF ok] unfolding journal_grown_def
        by (intro exI [of _ "take n (encode_journal_record r)"]) (simp add: file_bytes_def)
      then show ?thesis using 3 by (simp add: file_bytes_def)
    next
      case False
      then have "journal_grown d d' [r]" using 3 unfolding journal_grown_def by (intro exI [of _ "[]"]) (simp add: file_bytes_def)
      then show ?thesis using 3 by (simp add: file_bytes_def)
    qed
  qed blast
qed

lemma journal_append_cases:
  assumes a: "journal_append type payload at (j, d) = (res, (j', d'))" and ok: "jt_ok type" "millis_ok at"
    and len: "length (file_bytes JournalFile d) \<le> jn_bytes j" "jn_bytes j \<le> jn_max_bytes j"
  defines "r \<equiv> \<lparr>jr_type = type, jr_sequence = jn_last_sequence j + 1, jr_at = at, jr_payload = payload\<rparr>"
  shows "(res = Inr () \<and> j' = j\<lparr>jn_bytes := jn_bytes j + length (encode_journal_record r), jn_last_sequence := jr_sequence r\<rparr> \<and>
      dk_files d' = (dk_files d)(JournalFile \<mapsto> file_bytes JournalFile d @ encode_journal_record r) \<and>
      jn_bytes j + length (encode_journal_record r) \<le> jn_max_bytes j \<and> journal_record_ok r) \<or>
    (\<exists>e. res = Inl e) \<and> j' = j \<and> (journal_grown d d' [] \<or> journal_grown d d' [r] \<and> journal_record_ok r) \<and>
      length (file_bytes JournalFile d') \<le> jn_max_bytes j"
proof (cases "\<not> jn_open j \<or> length payload > kMaxJournalRecordBytes \<or>
    jn_bytes j + length (encode_journal_record r) > jn_max_bytes j")
  case True
  then have "(\<exists>e. res = Inl e) \<and> j' = j \<and> d' = d"
    using a by (auto simp: journal_append_def Let_def r_def split: if_splits)
  then show ?thesis using len journal_grown_none by auto
next
  case False
  then have rok: "journal_record_ok r" using ok by (simp add: journal_record_ok_def r_def)
  obtain res1 d1 where f: "append_file_all JournalFile (encode_journal_record r) d = (res1, d1)" by fastforce
  have "(res, (j', d')) = bind_op (res1, (j, d1)) (\<lambda>_ (j, d). (Inr (), (j\<lparr>jn_bytes := jn_bytes j + length (encode_journal_record r),
      jn_last_sequence := jr_sequence r\<rparr>, d)))"
    using a False f by (simp add: journal_append_def Let_def r_def on_disk_def)
  with append_encoded_cases [OF f rok] False len rok show ?thesis by (elim disjE) auto
qed

lemma journal_grown_Cons:
  assumes "dk_files d1 = (dk_files d)(JournalFile \<mapsto> file_bytes JournalFile d @ encode_journal_record r)"
    and "journal_grown d1 d' rs"
  shows "journal_grown d d' (r # rs)"
  using assms by (auto simp: journal_grown_def file_bytes_def)

lemma append_records_cases:
  assumes "append_records rs (j, d) = (res, (j', d'))" and "list_all journal_record_ok rs"
    and "length (file_bytes JournalFile d) \<le> jn_bytes j" and "jn_bytes j \<le> jn_max_bytes j"
  shows "(\<exists>k. journal_grown d d' (take k (stamped (jn_last_sequence j) rs))) \<and>
    length (file_bytes JournalFile d') \<le> jn_max_bytes j \<and> jn_open j' = jn_open j \<and> jn_max_bytes j' = jn_max_bytes j"
  using assms
proof (induction rs arbitrary: j d)
  case Nil
  then show ?case using journal_grown_none by auto
next
  case (Cons r rs)
  let ?r = "r\<lparr>jr_sequence := jn_last_sequence j + 1\<rparr>"
  obtain res1 j1 d1 where a: "journal_append (jr_type r) (jr_payload r) (jr_at r) (j, d) = (res1, (j1, d1))"
    by (metis prod_cases3)
  have "jt_ok (jr_type r)" "millis_ok (jr_at r)" using Cons.prems(2) by (simp_all add: journal_record_ok_def)
  from journal_append_cases [OF a this Cons.prems(3,4), unfolded restamp] consider
    (appended) "res1 = Inr ()" "j1 = j\<lparr>jn_bytes := jn_bytes j + length (encode_journal_record ?r), jn_last_sequence := jr_sequence ?r\<rparr>"
      "dk_files d1 = (dk_files d)(JournalFile \<mapsto> file_bytes JournalFile d @ encode_journal_record ?r)"
      "jn_bytes j + length (encode_journal_record ?r) \<le> jn_max_bytes j"
    | (failed) e where "res1 = Inl e" "j1 = j" "journal_grown d d1 [] \<or> journal_grown d d1 [?r]"
      "length (file_bytes JournalFile d1) \<le> jn_max_bytes j" by blast
  then show ?case
  proof cases
    case appended
    have e: "append_records rs (j1, d1) = (res, (j', d'))" using Cons.prems(1) a appended(1) by simp
    have l: "length (file_bytes JournalFile d1) \<le> jn_bytes j1" "jn_bytes j1 \<le> jn_max_bytes j1"
      using appended Cons.prems(3) by (simp_all add: file_bytes_def)
    obtain k where k: "journal_grown d1 d' (take k (stamped (jn_last_sequence j1) rs))"
      and q: "length (file_bytes JournalFile d') \<le> jn_max_bytes j1" "jn_open j' = jn_open j1" "jn_max_bytes j' = jn_max_bytes j1"
      using Cons.IH [OF e _ l] Cons.prems(2) by auto
    have "journal_grown d d' (take (Suc k) (stamped (jn_last_sequence j) (r # rs)))"
      using journal_grown_Cons [OF appended(3) k] appended(2) by simp
    then have "\<exists>k. journal_grown d d' (take k (stamped (jn_last_sequence j) (r # rs)))" by blast
    then show ?thesis using q appended(2) by simp
  next
    case failed
    then have e: "j' = j" "d' = d1" using Cons.prems(1) a by simp_all
    have "\<exists>k. journal_grown d d1 (take k (stamped (jn_last_sequence j) (r # rs)))"
      using failed(3) by (auto intro: exI [of _ 0] exI [of _ 1])
    then show ?thesis using failed e by simp
  qed
qed

lemma write_snapshot_cases:
  assumes "write_snapshot state st = (res, st')"
  shows "\<exists>d'. st' = st\<lparr>st_disk := d'\<rparr> \<and>
    (res = Inr () \<and> dk_files d' = (dk_files (st_disk st))(TempFile := None, SnapshotFile \<mapsto> snapshot_image (encode_durable_state state)) \<or>
     (\<exists>e. res = Inl e) \<and> (\<forall>f. f \<noteq> TempFile \<longrightarrow> dk_files d' f = dk_files (st_disk st) f))"
proof (cases "length (encode_durable_state state) > st_max_bytes st")
  case True
  then have "st' = st\<lparr>st_disk := st_disk st\<rparr>" "res = Inl DurableGrowthExceeded"
    using assms by (simp_all add: write_snapshot_def Let_def)
  then show ?thesis by blast
next
  case False
  let ?i = "snapshot_image (encode_durable_state state)"
  obtain r1 d1 where w: "write_file_all TempFile ?i (st_disk st) = (r1, d1)" by fastforce
  obtain r2 d2 where y: "fsync_file TempFile d1 = (r2, d2)" by fastforce
  obtain r3 d3 where v: "atomic_replace TempFile SnapshotFile d2 = (r3, d3)" by fastforce
  have "write_snapshot state st = (case r1 of Inl e \<Rightarrow> (Inl e, st\<lparr>st_disk := d1\<rparr>) | Inr _ \<Rightarrow>
      (case r2 of Inl e \<Rightarrow> (Inl e, st\<lparr>st_disk := d2\<rparr>) | Inr _ \<Rightarrow> (r3, st\<lparr>st_disk := d3\<rparr>)))"
    using False by (cases r1; cases r2) (simp_all add: write_snapshot_def Let_def length_snapshot_image on_file_def w y v)
  note eq = this [unfolded assms]
  show ?thesis
  proof (cases r1)
    case (Inl e)
    then have "\<forall>f. f \<noteq> TempFile \<longrightarrow> dk_files d1 f = dk_files (st_disk st) f" using write_file_all_cases [OF w] by auto
    then show ?thesis using eq Inl by auto
  next
    case (Inr u)
    then have f1: "dk_files d1 = (dk_files (st_disk st))(TempFile \<mapsto> ?i)" using write_file_all_cases [OF w] by auto
    have f2: "dk_files d2 = dk_files d1" using fsync_file_cases [OF y] by simp
    show ?thesis
    proof (cases r2)
      case (Inl e)
      then show ?thesis using eq Inr f1 f2 by auto
    next
      case (Inr u')
      have "(res, st') = (r3, st\<lparr>st_disk := d3\<rparr>)" using eq Inr \<open>r1 = Inr u\<close> by simp
      moreover have "r3 = Inr () \<and> dk_files d3 = (dk_files (st_disk st))(TempFile := None, SnapshotFile \<mapsto> ?i) \<or>
          r3 = Inl PersistenceIoError \<and> dk_files d3 = dk_files d1"
        using atomic_replace_cases [OF v] f1 f2 by auto
      ultimately show ?thesis using f1 by auto
    qed
  qed
qed

section \<open>Crash safety\<close>

text \<open>
  A store at rest: open, its journal empty, and its snapshot file, if there is one, holding a
  committed state. Every successful commit ends in such a state, and so does opening a directory
  after a clean shutdown.
\<close>

definition store_rests :: "DurableState option \<Rightarrow> Store \<Rightarrow> bool" where
  "store_rests old st \<longleftrightarrow> st_opened st \<and> jn_open (st_journal st) \<and> jn_max_bytes (st_journal st) = st_max_bytes st \<and>
     jn_bytes (st_journal st) = 0 \<and> dk_files (st_disk st) JournalFile = Some [] \<and>
     dk_files (st_disk st) SnapshotFile = map_option (\<lambda>s. snapshot_image (encode_durable_state s)) old \<and>
     (\<forall>s. old = Some s \<longrightarrow> durable_ok s \<and> kSnapshotHeaderBytes + length (encode_durable_state s) \<le> st_max_bytes st)"

text \<open>
  More generally, a store that holds a snapshot and the records \<open>left\<close> in its journal. Opening a
  directory leads to such a state whatever a crash left behind: a torn tail is cut off, and whole records of
  a commit that was not acknowledged stay in the journal until the next commit retires them.
\<close>

definition store_holds :: "DurableState option \<Rightarrow> JournalRecord list \<Rightarrow> Store \<Rightarrow> bool" where
  "store_holds old left st \<longleftrightarrow> st_opened st \<and> jn_open (st_journal st) \<and> jn_max_bytes (st_journal st) = st_max_bytes st \<and>
     jn_bytes (st_journal st) = length (journal_image left) \<and> length (journal_image left) \<le> st_max_bytes st \<and>
     list_all journal_record_ok left \<and> dk_files (st_disk st) JournalFile = Some (journal_image left) \<and>
     dk_files (st_disk st) SnapshotFile = map_option (\<lambda>s. snapshot_image (encode_durable_state s)) old \<and>
     (\<forall>s. old = Some s \<longrightarrow> durable_ok s \<and> kSnapshotHeaderBytes + length (encode_durable_state s) \<le> st_max_bytes st)"

lemma store_rests_holds: "store_rests old st \<longleftrightarrow> store_holds old [] st"
  by (auto simp: store_rests_def store_holds_def)

text \<open>The journal as a later scan reads it.\<close>

definition journal_holds :: "JournalRecord list \<Rightarrow> nat \<Rightarrow> Disk \<Rightarrow> bool" where
  "journal_holds rs max_bytes d \<longleftrightarrow> (\<exists>tail. decode_journal_record tail = None \<and>
     dk_files d JournalFile = Some (journal_image rs @ tail) \<and> length (journal_image rs @ tail) \<le> max_bytes)"

lemma store_commit_unfold:
  assumes "st_opened st" and "validate_state state = Inr ()"
    and "append_records records (st_journal st, st_disk st) = (r1, (j1, d1))" and "fsync_file JournalFile d1 = (r2, d2)"
    and "jn_open j1"
    and "write_snapshot state (st\<lparr>st_journal := j1, st_disk := d2\<rparr>) = (r3, st3)"
    and "st_journal st3 = j1" and "write_file_all JournalFile [] (st_disk st3) = (r4, d4)"
    and "fsync_file JournalFile d4 = (r5, d5)"
  shows "store_commit state records st =
    (case r1 of Inl e \<Rightarrow> (Inl e, st\<lparr>st_journal := j1, st_disk := d1\<rparr>) | Inr _ \<Rightarrow>
    (case r2 of Inl e \<Rightarrow> (Inl e, st\<lparr>st_journal := j1, st_disk := d2\<rparr>) | Inr _ \<Rightarrow>
    (case r3 of Inl e \<Rightarrow> (Inl e, st3) | Inr _ \<Rightarrow>
    (case r4 of Inl e \<Rightarrow> (Inl e, st3\<lparr>st_disk := d4\<rparr>) | Inr _ \<Rightarrow>
      (r5, st3\<lparr>st_journal := j1\<lparr>jn_bytes := 0\<rparr>, st_disk := d5\<rparr>)))))"
proof -
  have s3: "st3\<lparr>st_journal := j1\<rparr> = st3" using assms(7) by (metis Store.surjective Store.update_convs(3) Store.select_convs(3))
  show ?thesis using assms s3
    by (cases r1; cases r2; cases r3; cases r4)
      (simp_all add: store_commit_def on_journal_def journal_sync_def journal_reset_def on_disk_def)
qed

lemma store_commit_refused:
  assumes "st_opened st" and "validate_state state = Inl e"
  shows "store_commit state records st = (Inl e, st)"
  using assms by (simp add: store_commit_def)

text \<open>
  A commit cut before it resets the journal leaves there the records it found and whole records of its own,
  perhaps with a torn one behind them.
\<close>

definition commit_journal :: "JournalRecord list \<Rightarrow> JournalRecord list \<Rightarrow> Store \<Rightarrow> Disk \<Rightarrow> bool" where
  "commit_journal left records st d \<longleftrightarrow>
     (\<exists>k. journal_holds (left @ take k (stamped (jn_last_sequence (st_journal st)) records)) (st_max_bytes st) d)"

lemma journal_holds_image: "dk_files d JournalFile = Some (journal_image rs) \<Longrightarrow> length (journal_image rs) \<le> m \<Longrightarrow> journal_holds rs m d"
  by (simp add: journal_holds_def)

lemma commit_journal_none:
  "dk_files d JournalFile = Some (journal_image left) \<Longrightarrow> length (journal_image left) \<le> st_max_bytes st \<Longrightarrow> commit_journal left records st d"
  unfolding commit_journal_def by (intro exI [of _ 0]) (simp add: journal_holds_image)

lemma commit_journal_cong:
  "dk_files d' JournalFile = dk_files d JournalFile \<Longrightarrow> commit_journal left records st d' = commit_journal left records st d"
  by (simp add: commit_journal_def journal_holds_def)

lemma append_stage:
  assumes q: "store_holds old left st" and rs: "list_all journal_record_ok records"
    and a: "append_records records (st_journal st, st_disk st) = (r, (j, d))"
  shows "commit_journal left records st d \<and> (\<forall>f. f \<noteq> JournalFile \<longrightarrow> dk_files d f = dk_files (st_disk st) f) \<and>
    jn_open j \<and> jn_max_bytes j = st_max_bytes st"
proof -
  have l: "length (file_bytes JournalFile (st_disk st)) \<le> jn_bytes (st_journal st)" "jn_bytes (st_journal st) \<le> jn_max_bytes (st_journal st)"
    "file_bytes JournalFile (st_disk st) = journal_image left" using q by (simp_all add: store_holds_def file_bytes_def)
  from append_records_cases [OF a rs l(1,2)] obtain k where
    g: "journal_grown (st_disk st) d (take k (stamped (jn_last_sequence (st_journal st)) records))"
      "length (file_bytes JournalFile d) \<le> st_max_bytes st"
    and j: "jn_open j" "jn_max_bytes j = st_max_bytes st" using q by (auto simp: store_holds_def)
  have "journal_holds (left @ take k (stamped (jn_last_sequence (st_journal st)) records)) (st_max_bytes st) d"
    "\<forall>f. f \<noteq> JournalFile \<longrightarrow> dk_files d f = dk_files (st_disk st) f"
    using g q l(3) by (auto simp: journal_holds_def journal_grown_def store_holds_def file_bytes_def)
  then show ?thesis using j unfolding commit_journal_def by blast
qed

lemma reset_stage:
  assumes "write_file_all JournalFile [] d = (r, d1)" and "fsync_file JournalFile d1 = (r', d2)"
  shows "dk_files d1 SnapshotFile = dk_files d SnapshotFile \<and> dk_files d2 = dk_files d1 \<and>
    (dk_files d1 JournalFile = dk_files d JournalFile \<or> dk_files d1 JournalFile = Some []) \<and>
    (r = Inr () \<longrightarrow> dk_files d1 JournalFile = Some [])"
  using write_file_all_cases [OF assms(1)] fsync_file_cases assms(2) by fastforce

text \<open>
  Every outcome of a commit: refused or failed with the old snapshot in place and every record the
  journal held before, or with the new snapshot in place and the journal reset or not; an acknowledged
  commit ends at rest.
\<close>

definition commit_outcome :: "JournalRecord list \<Rightarrow> DurableState \<Rightarrow> JournalRecord list \<Rightarrow> Store \<Rightarrow> unit result \<Rightarrow> Store \<Rightarrow> bool" where
  "commit_outcome left state records st res st' \<longleftrightarrow>
     st_max_bytes st' = st_max_bytes st \<and> st_max_journal_records st' = st_max_journal_records st \<and>
     ((\<exists>e. res = Inl e) \<and> commit_journal left records st (st_disk st') \<and>
        dk_files (st_disk st') SnapshotFile = dk_files (st_disk st) SnapshotFile \<or>
      (commit_journal left records st (st_disk st') \<or> dk_files (st_disk st') JournalFile = Some []) \<and>
        dk_files (st_disk st') SnapshotFile = Some (snapshot_image (encode_durable_state state)) \<and> validate_state state = Inr () \<and>
        (res = Inr () \<longrightarrow> st_opened st' \<and> jn_open (st_journal st') \<and> jn_max_bytes (st_journal st') = st_max_bytes st' \<and>
           jn_bytes (st_journal st') = 0 \<and> dk_files (st_disk st') JournalFile = Some []))"

text \<open>Once the snapshot is in place only the reset of the journal is left.\<close>

lemma commit_replaced:
  assumes snap: "dk_files d SnapshotFile = Some (snapshot_image (encode_durable_state state))" and j: "commit_journal left records st d"
    and z: "write_file_all JournalFile [] d = (r, d1)" and y: "fsync_file JournalFile d1 = (r', d2)"
    and v: "validate_state state = Inr ()" and jn: "jn_open j1" "jn_max_bytes j1 = st_max_bytes st" and o: "st_opened st"
    and c: "(case r of Inl e \<Rightarrow> (Inl e, st\<lparr>st_journal := j1, st_disk := d1\<rparr>)
      | Inr _ \<Rightarrow> (r', st\<lparr>st_journal := j1\<lparr>jn_bytes := 0\<rparr>, st_disk := d2\<rparr>)) = (res, st')"
  shows "commit_outcome left state records st res st'"
proof -
  note f = reset_stage [OF z y]
  have "commit_journal left records st d1 \<or> dk_files d1 JournalFile = Some []" using f j commit_journal_cong by blast
  moreover have "commit_journal left records st d2 = commit_journal left records st d1" by (rule commit_journal_cong) (simp add: f)
  moreover have "dk_files d2 SnapshotFile = dk_files d SnapshotFile" "dk_files d1 SnapshotFile = dk_files d SnapshotFile" using f by simp_all
  ultimately show ?thesis using c snap v jn o f by (cases r) (auto simp: commit_outcome_def)
qed

lemma store_commit_cases:
  assumes q: "store_holds old left st" and rs: "list_all journal_record_ok records"
    and c: "store_commit state records st = (res, st')"
  shows "commit_outcome left state records st res st'"
proof (cases "validate_state state")
  case (Inl e)
  have "st' = st" "res = Inl e" using c q store_commit_refused [OF _ Inl] by (simp_all add: store_holds_def)
  then show ?thesis using q commit_journal_none by (simp add: commit_outcome_def store_holds_def)
next
  case (Inr u)
  obtain r1 j1 d1 where a: "append_records records (st_journal st, st_disk st) = (r1, (j1, d1))" by (metis prod_cases3)
  obtain r2 d2 where y: "fsync_file JournalFile d1 = (r2, d2)" by fastforce
  obtain r3 st3 where w: "write_snapshot state (st\<lparr>st_journal := j1, st_disk := d2\<rparr>) = (r3, st3)" by fastforce
  from write_snapshot_cases [OF w] obtain d3 where st3: "st3 = st\<lparr>st_journal := j1, st_disk := d3\<rparr>"
    and f3: "r3 = Inr () \<and> dk_files d3 = (dk_files d2)(TempFile := None, SnapshotFile \<mapsto> snapshot_image (encode_durable_state state)) \<or>
      (\<exists>e. r3 = Inl e) \<and> (\<forall>f. f \<noteq> TempFile \<longrightarrow> dk_files d3 f = dk_files d2 f)" by auto
  obtain r4 d4 where z: "write_file_all JournalFile [] d3 = (r4, d4)" by fastforce
  obtain r5 d5 where y5: "fsync_file JournalFile d4 = (r5, d5)" by fastforce
  have v: "validate_state state = Inr ()" and o: "st_opened st" using Inr q by (simp_all add: store_holds_def)
  note j1 = append_stage [OF q rs a]
  have f2: "dk_files d2 = dk_files d1" using fsync_file_cases y by blast
  have J2: "commit_journal left records st d2" using j1 commit_journal_cong [of d2 d1] f2 by simp
  have J3: "commit_journal left records st d3" using J2 commit_journal_cong [of d3 d2] f3 by auto
  have "jn_open j1" "st_journal st3 = j1" "write_file_all JournalFile [] (st_disk st3) = (r4, d4)" using j1 z by (simp_all add: st3)
  note eq = store_commit_unfold [OF o v a y this(1) w this(2,3) y5, unfolded c]
  show ?thesis
  proof (cases "\<exists>e. r1 = Inl e \<or> r2 = Inl e \<or> r3 = Inl e")
    case True
    then have res: "\<exists>e. res = Inl e" and st': "st' = st\<lparr>st_journal := j1, st_disk := d1\<rparr> \<or> st' = st\<lparr>st_journal := j1, st_disk := d2\<rparr> \<or>
        st' = st\<lparr>st_journal := j1, st_disk := d3\<rparr> \<and> (\<exists>e. r3 = Inl e)" using eq st3 by (auto split: sum.splits)
    have "dk_files d3 SnapshotFile = dk_files d1 SnapshotFile" if "\<exists>e. r3 = Inl e" using f3 that unfolding f2 by blast
    then show ?thesis using res st' j1 J2 J3 f2 by (elim disjE) (simp_all add: commit_outcome_def)
  next
    case False
    have unit: "r = Inr ()" if "\<nexists>e. r = Inl e" for r :: "unit result" using that by (cases r) auto
    have r: "r1 = Inr ()" "r2 = Inr ()" "r3 = Inr ()" using False unit by blast+
    show ?thesis by (rule commit_replaced [OF _ J3 z y5 v _ _ o]) (use eq r f3 j1 in \<open>auto simp: st3 split: sum.splits\<close>)
  qed
qed

text \<open>A restart: a new store object over the same files, with input and output that work.\<close>

definition reboot :: "Store \<Rightarrow> Store" where
  "reboot st = new_store (st_max_bytes st) (st_max_journal_records st) \<lparr>dk_files = dk_files (st_disk st), dk_io = []\<rparr>"

definition reopen :: "RecoveredState store_op" where
  "reopen st = bind_op (store_open (reboot st)) (\<lambda>_ st. store_recover st)"

text \<open>The history a recovery presents: the committed state, up to the journal's numbering.\<close>

definition without_sequence :: "DurableState \<Rightarrow> DurableState" where
  "without_sequence s = s\<lparr>ds_journal_sequence := 0\<rparr>"

definition recovered_history :: "RecoveredState \<Rightarrow> DurableState option" where
  "recovered_history rc = (if rc_recovered rc then Some (without_sequence (rc_state rc)) else None)"

text \<open>The epoch a recovery finds in a snapshot and the records of a journal.\<close>

definition replayed_epoch :: "DurableState \<Rightarrow> JournalRecord list \<Rightarrow> CoordinatorEpoch" where
  "replayed_epoch s rs = fst (fold (replay_record (ds_journal_sequence s)) rs (ds_epoch s, ds_journal_sequence s, 0))"

lemma replayed_epoch_Nil [simp]: "replayed_epoch s [] = ds_epoch s"
  by (simp add: replayed_epoch_def)

lemma reopen_cases:
  assumes j: "journal_holds rs (st_max_bytes st) (st_disk st)" and rs: "list_all journal_record_ok rs"
    and s: "dk_files (st_disk st) SnapshotFile = map_option (\<lambda>s. snapshot_image (encode_durable_state s)) old"
    and old: "\<forall>s. old = Some s \<longrightarrow> durable_ok s \<and> kSnapshotHeaderBytes + length (encode_durable_state s) \<le> st_max_bytes st"
    and m: "st_max_bytes st \<le> kMaxDurableBytes"
  shows "\<exists>rc st'. reopen st = (Inr rc, st') \<and> recovered_history rc = map_option without_sequence old \<and>
    store_holds old rs st' \<and>
    rc_last_epoch rc = (case old of None \<Rightarrow> 0 | Some s \<Rightarrow> replayed_epoch s (take (st_max_journal_records st) rs))"
proof -
  from j obtain tail where t: "decode_journal_record tail = None"
    "dk_files (st_disk st) JournalFile = Some (journal_image rs @ tail)" "length (journal_image rs @ tail) \<le> st_max_bytes st"
    by (auto simp: journal_holds_def)
  have rs': "\<forall>r \<in> set rs. journal_record_ok r" using rs by (simp add: list_all_iff)
  let ?d0 = "\<lparr>dk_files = dk_files (st_disk st), dk_io = []\<rparr>"
  have "dk_files ?d0 JournalFile = Some (journal_image rs @ tail)" "dk_io ?d0 = []" "\<not> jn_open (new_journal (st_max_bytes st))"
    "length (journal_image rs @ tail) \<le> jn_max_bytes (new_journal (st_max_bytes st))" using t by (simp_all add: new_journal_def)
  from journal_open_image [OF rs' t(1) this] obtain j1 d1 where
    jo: "journal_open (new_journal (st_max_bytes st), ?d0) = (Inr (), (j1, d1))" "jn_max_bytes j1 = st_max_bytes st"
      "jn_open j1" "jn_bytes j1 = length (journal_image rs)"
    and f1: "dk_files d1 = (dk_files (st_disk st))(JournalFile \<mapsto> journal_image rs)" "dk_io d1 = []"
    by (auto simp: new_journal_def)
  define d2 where "d2 = (if file_exists TempFile d1 then d1\<lparr>dk_files := (dk_files d1)(TempFile := None)\<rparr> else d1)"
  define st1 where "st1 = (reboot st)\<lparr>st_journal := j1, st_disk := d2, st_opened := True\<rparr>"
  have open1: "store_open (reboot st) = (Inr (), st1)"
    using jo(1) f1(2) by (simp add: store_open_def reboot_def new_store_def on_file_def on_journal_def ensure_directory_def next_io_def
        Let_def remove_file_def st1_def d2_def)
  have f2: "dk_files d2 SnapshotFile = dk_files (st_disk st) SnapshotFile" "dk_files d2 JournalFile = Some (journal_image rs)" "dk_io d2 = []"
    using f1 by (simp_all add: d2_def)
  have cfg: "st_max_bytes st1 = st_max_bytes st" "st_max_journal_records st1 = st_max_journal_records st" "st_opened st1"
    "st_journal st1 = j1" "st_disk st1 = d2" by (simp_all add: st1_def reboot_def new_store_def)
  have st1d: "st1\<lparr>st_journal := j1, st_disk := d2\<rparr> = st1" "st1\<lparr>st_disk := d2\<rparr> = st1" by (simp_all add: st1_def)
  have holds: "store_holds old rs st1" using cfg jo(2-4) f2 t(3) rs s old by (simp add: store_holds_def)
  have rd: "read_file_all f (st_max_bytes st) d2 = (Inr bs, d2)" if "dk_files d2 f = Some bs" "length bs \<le> st_max_bytes st" for f bs
    using that f2(3) by (simp add: read_file_all_def file_bytes_def next_io_def)
  show ?thesis
  proof (cases old)
    case None
    then have "\<not> file_exists SnapshotFile d2" using s f2(1) by (simp add: file_exists_def)
    then show ?thesis using None holds by (simp add: reopen_def open1 store_recover_def cfg Let_def recovered_history_def no_recovery_def)
  next
    case (Some s0)
    let ?i = "snapshot_image (encode_durable_state s0)"
    have ok: "durable_ok s0" "kSnapshotHeaderBytes + length (encode_durable_state s0) \<le> st_max_bytes st" using old Some by simp_all
    have sf: "dk_files d2 SnapshotFile = Some ?i" using s f2(1) Some by simp
    have "length (encode_durable_state s0) < 2 ^ 32" using ok(2) m by (simp add: kMaxDurableBytes_def kSnapshotHeaderBytes_def)
    then have body: "snapshot_body ?i = Inr (encode_durable_state s0)" by (rule snapshot_body_image)
    have "read_snapshot st1 = ((Inr s0, length ?i, 0), st1)"
      using sf rd [OF sf] ok(2)
      by (simp add: read_snapshot_def cfg file_exists_def on_file_def st1d body length_snapshot_image decode_encode_durable_state [OF ok(1)])
    moreover have "journal_replay n (j1, d2) = (Inr (take n rs), (j1, d2))" for n
      using rd [OF f2(2)] t(3) f2(2) jo(2) replay_image [OF rs', of "[]" n]
      by (simp add: journal_replay_def file_exists_def on_disk_def)
    ultimately show ?thesis using Some sf holds
      by (simp add: reopen_def open1 store_recover_def cfg Let_def on_journal_def st1d file_exists_def case_prod_beta
          recovered_history_def without_sequence_def replayed_epoch_def)
  qed
qed

section \<open>Commits that complete\<close>

lemma append_records_completes:
  assumes "jn_open j" and "dk_io d = []" and "list_all journal_record_ok rs"
    and "jn_bytes j + length (journal_image (stamped (jn_last_sequence j) rs)) \<le> jn_max_bytes j"
  shows "\<exists>j' d'. append_records rs (j, d) = (Inr (), (j', d')) \<and> jn_open j' \<and> dk_io d' = [] \<and>
    (dk_files d JournalFile \<noteq> None \<longrightarrow> dk_files d' JournalFile \<noteq> None)"
  using assms
proof (induction rs arbitrary: j d)
  case (Cons r rs)
  let ?r = "r\<lparr>jr_sequence := jn_last_sequence j + 1\<rparr>"
  let ?j = "j\<lparr>jn_bytes := jn_bytes j + length (encode_journal_record ?r), jn_last_sequence := jn_last_sequence j + 1\<rparr>"
  let ?d = "put_file JournalFile (file_bytes JournalFile d @ encode_journal_record ?r) d"
  have "journal_append (jr_type r) (jr_payload r) (jr_at r) (j, d) = (Inr (), (?j, ?d))"
    using Cons.prems
    by (simp add: journal_append_def Let_def on_disk_def append_file_all_def next_io_def journal_record_ok_def restamp)
  moreover have "\<exists>j' d'. append_records rs (?j, ?d) = (Inr (), (j', d')) \<and> jn_open j' \<and> dk_io d' = [] \<and>
      (dk_files ?d JournalFile \<noteq> None \<longrightarrow> dk_files d' JournalFile \<noteq> None)"
    using Cons.prems by (intro Cons.IH) (simp_all add: add.assoc)
  ultimately show ?case by auto
qed simp

lemma store_commit_completes:
  assumes q: "store_rests old st" and io: "dk_io (st_disk st) = []" and v: "validate_state state = Inr ()"
    and b: "length (encode_durable_state state) \<le> st_max_bytes st" and rs: "list_all journal_record_ok records"
    and l: "length (journal_image (stamped (jn_last_sequence (st_journal st)) records)) \<le> st_max_bytes st"
  shows "\<exists>st'. store_commit state records st = (Inr (), st')"
proof -
  have "jn_open (st_journal st)" "jn_bytes (st_journal st) + length (journal_image (stamped (jn_last_sequence (st_journal st)) records))
      \<le> jn_max_bytes (st_journal st)" and o: "st_opened st" and f: "dk_files (st_disk st) JournalFile \<noteq> None"
    using q l by (simp_all add: store_rests_def)
  from append_records_completes [OF this(1) io rs this(2)] obtain j1 d1 where
    a: "append_records records (st_journal st, st_disk st) = (Inr (), (j1, d1))" "jn_open j1" "dk_io d1 = []"
    "dk_files d1 JournalFile \<noteq> None" using f by auto
  define d3 where "d3 = d1\<lparr>dk_files := (dk_files d1)(TempFile := None, SnapshotFile \<mapsto> snapshot_image (encode_durable_state state))\<rparr>"
  have y: "fsync_file JournalFile d1 = (Inr (), d1)" using a by (simp add: fsync_file_def next_io_def file_exists_def)
  have w: "write_snapshot state (st\<lparr>st_journal := j1, st_disk := d1\<rparr>) = (Inr (), st\<lparr>st_journal := j1, st_disk := d3\<rparr>)"
    using a(3) b by (simp add: write_snapshot_def Let_def length_snapshot_image on_file_def write_file_all_def fsync_file_def
        next_io_def atomic_replace_def file_exists_def d3_def put_file_def)
  have z: "write_file_all JournalFile [] d3 = (Inr (), put_file JournalFile [] d3)"
    using a(3) by (simp add: write_file_all_def next_io_def d3_def)
  have y5: "fsync_file JournalFile (put_file JournalFile [] d3) = (Inr (), put_file JournalFile [] d3)"
    using a(3) by (simp add: fsync_file_def next_io_def file_exists_def d3_def)
  show ?thesis using store_commit_unfold [OF o v a(1) y a(2) w, of "Inr ()" "put_file JournalFile [] d3"] z y5 by simp
qed

lemma store_commit_atomic:
  assumes q: "store_holds old left st" and recs: "list_all journal_record_ok records" and ok: "durable_ok state"
    and len: "kSnapshotHeaderBytes + length (encode_durable_state state) \<le> st_max_bytes st" and mb: "st_max_bytes st \<le> kMaxDurableBytes"
    and c: "store_commit state records st = (res, st')"
  shows "\<exists>rc st'' k. reopen st' = (Inr rc, st'') \<and>
    (let js = left @ take k (stamped (jn_last_sequence (st_journal st)) records) in
     (\<exists>e. res = Inl e) \<and> recovered_history rc = map_option without_sequence old \<and> store_holds old js st'' \<and>
       rc_last_epoch rc = (case old of None \<Rightarrow> 0 | Some s \<Rightarrow> replayed_epoch s (take (st_max_journal_records st) js)) \<or>
     recovered_history rc = Some (without_sequence state) \<and>
       (store_holds (Some state) [] st'' \<and> rc_last_epoch rc = ds_epoch state \<or>
        (\<exists>e. res = Inl e) \<and> store_holds (Some state) js st'' \<and>
          rc_last_epoch rc = replayed_epoch state (take (st_max_journal_records st) js)) \<and>
       (res = Inr () \<longrightarrow> store_holds (Some state) [] st'))"
proof -
  have m: "st_max_bytes st' = st_max_bytes st" "st_max_journal_records st' = st_max_journal_records st"
    using store_commit_cases [OF q recs c] by (auto simp: commit_outcome_def)
  have rs: "list_all journal_record_ok (left @ take k (stamped (jn_last_sequence (st_journal st)) records))" for k
    using stamped_ok [OF recs] q by (auto simp: store_holds_def list_all_iff dest: in_set_takeD)
  have old: "\<forall>s. old = Some s \<longrightarrow> durable_ok s \<and> kSnapshotHeaderBytes + length (encode_durable_state s) \<le> st_max_bytes st'"
    and new: "\<forall>s. Some state = Some s \<longrightarrow> durable_ok s \<and> kSnapshotHeaderBytes + length (encode_durable_state s) \<le> st_max_bytes st'"
    using q ok len m by (simp_all add: store_holds_def)
  have mb': "st_max_bytes st' \<le> kMaxDurableBytes" using m mb by simp
  from store_commit_cases [OF q recs c] consider
      (kept) e where "res = Inl e" "commit_journal left records st (st_disk st')"
        "dk_files (st_disk st') SnapshotFile = map_option (\<lambda>s. snapshot_image (encode_durable_state s)) old"
    | (replaced) e where "res = Inl e" "commit_journal left records st (st_disk st')"
        "dk_files (st_disk st') SnapshotFile = map_option (\<lambda>s. snapshot_image (encode_durable_state s)) (Some state)"
    | (reset) "dk_files (st_disk st') JournalFile = Some []"
        "dk_files (st_disk st') SnapshotFile = map_option (\<lambda>s. snapshot_image (encode_durable_state s)) (Some state)"
        "res = Inr () \<longrightarrow> store_holds (Some state) [] st'"
    using q ok len m by (cases res) (auto simp: commit_outcome_def store_holds_def)
  then show ?thesis
  proof cases
    case kept
    then obtain k where j: "journal_holds (left @ take k (stamped (jn_last_sequence (st_journal st)) records)) (st_max_bytes st') (st_disk st')"
      by (auto simp: commit_journal_def m)
    from reopen_cases [OF j rs kept(3) old mb'] kept(1) show ?thesis unfolding Let_def m by blast
  next
    case replaced
    then obtain k where j: "journal_holds (left @ take k (stamped (jn_last_sequence (st_journal st)) records)) (st_max_bytes st') (st_disk st')"
      by (auto simp: commit_journal_def m)
    from reopen_cases [OF j rs replaced(3) new mb'] replaced(1) show ?thesis unfolding Let_def m by auto
  next
    case reset
    then have j: "journal_holds [] (st_max_bytes st') (st_disk st')" by (simp add: journal_holds_image)
    from reopen_cases [OF j _ reset(2) new mb'] reset(3) show ?thesis unfolding Let_def m by auto
  qed
qed

section \<open>Damaged snapshots\<close>

lemma snapshot_body_guarded:
  assumes "snapshot_body bs = Inr body"
  shows "crc_guarded 24 bs"
proof -
  define crc where "crc = crc64 (take 24 bs)"
  from assms obtain a b c e f rest where len: "32 \<le> length bs" and "snapshot_head bs = Some ((a, b, c, e, f, crc), rest)"
    by (auto simp: snapshot_body_def bind_result_Inr_iff kSnapshotHeaderBytes_def Let_def crc_def)
  then have "bs = w_u32 a @ w_u32 b @ w_u32 c @ w_u32 e @ w_u64 f @ w_u64 crc @ rest"
    by (auto simp: snapshot_head_def bind_eq_Some_conv u32c.get_iff u64c.get_iff)
  then have "drop 24 bs = w_u64 crc @ rest" by simp
  then show ?thesis using len by (simp add: crc_guarded_def crc_def)
qed

lemma snapshot_byte_changed:
  assumes len: "length body < 2 ^ 32" and i: "i < length (snapshot_image body)" and b: "b \<noteq> snapshot_image body ! i"
  shows "\<exists>e. snapshot_body ((snapshot_image body)[i := b]) = Inl e"
proof (cases "i < 32")
  case True
  have "crc_guarded 24 (snapshot_image body)"
    by (simp add: crc_guarded_def length_snapshot_image kSnapshotHeaderBytes_def) (simp add: snapshot_image_def length_snapshot_header)
  then have "\<not> crc_guarded 24 ((snapshot_image body)[i := b])" using crc_guarded_byte_changed True b by simp
  then show ?thesis using snapshot_body_guarded by (cases "snapshot_body ((snapshot_image body)[i := b])") auto
next
  case False
  let ?b = "body[i - 32 := b]"
  have img: "(snapshot_image body)[i := b] = snapshot_header body @ w_u64 (crc64 (snapshot_header body)) @ ?b"
    using False by (auto simp: snapshot_image_def list_update_append length_snapshot_header)
  have n: "unat (word_of_nat (length body) :: u32) = length body" using len by (rule unat_length32)
  have "\<not> i - 24 < 8" using False by simp
  then have "b \<noteq> body ! (i - 32)" "i - 32 < length body"
    using False i b by (simp_all add: snapshot_image_def nth_append length_snapshot_header)
  then have "crc64 ?b \<noteq> crc64 body" by (intro crc64_byte_changed)
  moreover have "snapshot_head (snapshot_header body @ w_u64 (crc64 (snapshot_header body)) @ ?b) = Some ((kSnapshotMagic,
      kDurableFormatVersion, word_of_nat (length body), 0, crc64 body, crc64 (snapshot_header body)), ?b)"
    by (simp add: snapshot_head_def snapshot_header_def codec_simps)
  ultimately show ?thesis unfolding img
    by (simp add: snapshot_body_def n Let_def kSnapshotHeaderBytes_def length_snapshot_header)
qed

text \<open>
  The bound is checked on the body and the reader checks the file, which is 32 bytes longer: a
  snapshot in between is written successfully and cannot be read back.
\<close>

lemma oversized_snapshot_unreadable:
  assumes "dk_io (st_disk st) = []" and "length (encode_durable_state s) \<le> st_max_bytes st"
    and "st_max_bytes st < kSnapshotHeaderBytes + length (encode_durable_state s)"
  shows "\<exists>st'. write_snapshot s st = (Inr (), st') \<and> fst (fst (read_snapshot st')) = Inl DurableGrowthExceeded"
  using assms
  by (simp add: write_snapshot_def Let_def length_snapshot_image on_file_def write_file_all_def fsync_file_def next_io_def
      atomic_replace_def file_exists_def put_file_def read_snapshot_def read_file_all_def file_bytes_def)

section \<open>Properties\<close>

text \<open>C29: the snapshot file carries the committed state. A committed state is read back from
  its snapshot file exactly, and the file with any one byte changed is refused.\<close>

theorem snapshot_roundtrip:
  assumes "durable_ok s" and "length (encode_durable_state s) < 2 ^ 32"
  shows "bind_result (snapshot_body (snapshot_image (encode_durable_state s))) decode_durable_state = Inr s \<and>
    (\<forall>i b. i < length (snapshot_image (encode_durable_state s)) \<longrightarrow> b \<noteq> snapshot_image (encode_durable_state s) ! i \<longrightarrow>
      (\<exists>e. snapshot_body ((snapshot_image (encode_durable_state s))[i := b]) = Inl e))"
  using snapshot_body_image [OF assms(2)] decode_encode_durable_state [OF assms(1)] snapshot_byte_changed [OF assms(2)] by simp

theorem snapshot_roundtrip_witness:
  "bind_result (snapshot_body (snapshot_image (encode_durable_state (no_durable\<lparr>ds_epoch := 3\<rparr>)))) decode_durable_state
     = Inr (no_durable\<lparr>ds_epoch := 3\<rparr>) \<and>
   (\<exists>e. snapshot_body ((snapshot_image (encode_durable_state (no_durable\<lparr>ds_epoch := 3\<rparr>)))[0 := 0]) = Inl e)"
proof -
  let ?s = "no_durable\<lparr>ds_epoch := 3\<rparr>"
  have ok: "durable_ok ?s" by (simp add: durable_ok_def validate_state_ok no_durable_def millis_ok_def kNoTime_def kMaxTime_def)
  have l: "length (encode_durable_state ?s) < 2 ^ 32" by (simp add: encode_durable_state_def no_durable_def w_list_def)
  have "snapshot_image b ! 0 = 0x48" for b
    by (simp add: snapshot_image_def snapshot_header_def kSnapshotMagic_def w_u32_def put_le_def nth_append upt_rec)
  then show ?thesis
    using snapshot_roundtrip [OF ok l] by (simp add: length_snapshot_image kSnapshotHeaderBytes_def)
qed

text \<open>C11: a commit is atomic across a crash. The commit starts from a store that holds a readable snapshot or
  none and any whole records a crash left in its journal, as every restart and every acknowledged commit
  leave it; the state is valid and leaves room for the 32 bytes of the snapshot header below the bound
  \<open>max_bytes\<close>, which is at most 4 GiB. Whatever input and output failures the commit meets, and hence
  wherever the process dies in it, a restart succeeds and recovers one of two things. Either, when the commit
  was not acknowledged, the state before it, with all records the journal held and the first \<open>k\<close> records of
  this commit, and the epoch replayed from that snapshot and those records; or the new state, with its
  epoch, or, when the commit was not acknowledged, with the epoch replayed from the new state and the
  records not retired yet. An acknowledged commit recovers the new state with its epoch and leaves the
  journal empty. The restarted store is again one to commit from.\<close>

theorem commit_crash_atomic:
  assumes "store_holds old left st" and "list_all journal_record_ok records" and "durable_ok state"
    and "kSnapshotHeaderBytes + length (encode_durable_state state) \<le> st_max_bytes st" and "st_max_bytes st \<le> kMaxDurableBytes"
    and "store_commit state records st = (res, st')"
  shows "\<exists>rc st'' k. reopen st' = (Inr rc, st'') \<and>
    (let js = left @ take k (stamped (jn_last_sequence (st_journal st)) records) in
     (\<exists>e. res = Inl e) \<and> recovered_history rc = map_option without_sequence old \<and> store_holds old js st'' \<and>
       rc_last_epoch rc = (case old of None \<Rightarrow> 0 | Some s \<Rightarrow> replayed_epoch s (take (st_max_journal_records st) js)) \<or>
     recovered_history rc = Some (without_sequence state) \<and>
       (store_holds (Some state) [] st'' \<and> rc_last_epoch rc = ds_epoch state \<or>
        (\<exists>e. res = Inl e) \<and> store_holds (Some state) js st'' \<and>
          rc_last_epoch rc = replayed_epoch state (take (st_max_journal_records st) js)) \<and>
       (res = Inr () \<longrightarrow> store_holds (Some state) [] st'))"
  using assms by (rule store_commit_atomic)

theorem commit_crash_atomic_witness:
  "\<exists>st' rc st''. store_commit (no_durable\<lparr>ds_epoch := 3\<rparr>) []
      \<lparr>st_max_bytes = 1000, st_max_journal_records = 10, st_journal = (new_journal 1000)\<lparr>jn_open := True\<rparr>,
       st_disk = \<lparr>dk_files = [JournalFile \<mapsto> []], dk_io = []\<rparr>, st_opened = True\<rparr> = (Inr (), st') \<and>
     reopen st' = (Inr rc, st'') \<and> rc_recovered rc \<and> rc_last_epoch rc = 3"
proof -
  let ?s = "no_durable\<lparr>ds_epoch := 3\<rparr>"
  let ?st = "\<lparr>st_max_bytes = 1000, st_max_journal_records = 10, st_journal = (new_journal 1000)\<lparr>jn_open := True\<rparr>,
       st_disk = \<lparr>dk_files = [JournalFile \<mapsto> []], dk_io = []\<rparr>, st_opened = True\<rparr>"
  have ok: "durable_ok ?s" by (simp add: durable_ok_def validate_state_ok no_durable_def millis_ok_def kNoTime_def kMaxTime_def)
  have l: "length (encode_durable_state ?s) = 52" by (simp add: encode_durable_state_def no_durable_def w_list_def)
  have q: "store_rests None ?st" by (simp add: store_rests_def new_journal_def)
  have "validate_state ?s = Inr ()" using ok by (simp add: durable_ok_def)
  then obtain st' where c: "store_commit ?s [] ?st = (Inr (), st')" using store_commit_completes [OF q, of ?s "[]"] l by auto
  from commit_crash_atomic [OF q [unfolded store_rests_holds] _ ok _ _ c] l obtain rc st'' where "reopen st' = (Inr rc, st'')"
    "recovered_history rc = Some (without_sequence ?s)" "rc_last_epoch rc = 3"
    by (auto simp: kSnapshotHeaderBytes_def kMaxDurableBytes_def Let_def)
  with c show ?thesis by (auto simp: recovered_history_def split: if_splits)
qed

text \<open>C30: a commit completes. When the operating system serves every call and the state and the
  records fit their bounds, a commit from rest is acknowledged.\<close>

theorem commit_completes:
  assumes "store_rests old st" and "dk_io (st_disk st) = []" and "durable_ok state"
    and "length (encode_durable_state state) \<le> st_max_bytes st" and "list_all journal_record_ok records"
    and "length (journal_image (stamped (jn_last_sequence (st_journal st)) records)) \<le> st_max_bytes st"
  shows "\<exists>st'. store_commit state records st = (Inr (), st')"
  using store_commit_completes [OF assms(1,2) _ assms(4-6)] assms(3) by (simp add: durable_ok_def)

theorem commit_completes_witness:
  "\<exists>st'. store_commit (no_durable\<lparr>ds_epoch := 3\<rparr>) [\<lparr>jr_type = JT_EvaluationCheckpoint, jr_sequence = 0, jr_at = 5, jr_payload = []\<rparr>]
      \<lparr>st_max_bytes = 1000, st_max_journal_records = 10, st_journal = (new_journal 1000)\<lparr>jn_open := True\<rparr>,
       st_disk = \<lparr>dk_files = [JournalFile \<mapsto> []], dk_io = []\<rparr>, st_opened = True\<rparr> = (Inr (), st')"
proof -
  let ?s = "no_durable\<lparr>ds_epoch := 3\<rparr>"
  have "durable_ok ?s" by (simp add: durable_ok_def validate_state_ok no_durable_def millis_ok_def kNoTime_def kMaxTime_def)
  moreover have "length (encode_durable_state ?s) = 52" by (simp add: encode_durable_state_def no_durable_def w_list_def)
  ultimately show ?thesis
    by (intro commit_completes [where old = None])
      (simp_all add: store_rests_def new_journal_def journal_record_ok_def jt_ok_def jt_of_def millis_ok_def kNoTime_def kMaxTime_def
        length_encode_journal_record kJournalHeaderBytes_def)
qed

end
