(* ===== verification/HGM_Governor.thy ===== *)
theory HGM_Governor
  imports HGM_Engine HGM_Frame HGM_Store
begin

text \<open>
  The governor (\<^verbatim>\<open>include/hgm/governor.hpp\<close>, \<^verbatim>\<open>src/governor.cpp\<close>): epochs, the publisher
  registry, admission of frames, evaluation and durable commits. Every operation runs under the
  one mutex of the object, so it is a function of the whole state; operations of several threads
  are sequences of these functions. The process id and the boot counter that enter a boot identity
  and the time are arguments. Texts that accompany a status and rendered explanations are left out.
\<close>

section \<open>State\<close>

record GovernorConfig =
  gc_node_name :: string
  gc_initial_epoch :: CoordinatorEpoch
  gc_worker_threads :: nat
  gc_queue_capacity :: nat
  gc_store :: "(nat \<times> nat) option"
  gc_drop_evidence_on_publisher_death :: bool
  gc_max_history :: nat

record PublisherState =
  pb_id :: PublisherId
  pb_incarnation :: Incarnation
  pb_boot :: BootId
  pb_epoch :: CoordinatorEpoch
  pb_last_sequence :: Sequence
  pb_generation :: StreamGeneration
  pb_stream_generations :: "u64 list"
  pb_first_seen :: Millis
  pb_last_seen :: Millis
  pb_died_at :: Millis
  pb_alive :: bool
  pb_accepted :: u64
  pb_rejected :: u64

definition no_generations :: "u64 list" where
  "no_generations = replicate kStreamCount 0"

text \<open>\<open>code\<close> is \<open>None\<close> for \<open>ErrorCode::Ok\<close>.\<close>

record AdmissionReport =
  ar_accepted :: bool
  ar_code :: "ErrorCode option"
  ar_stream :: StreamKind
  ar_generation :: u64
  ar_sequence :: Sequence
  ar_duplicate :: bool
  ar_stale :: bool
  ar_records :: nat

record Snapshots =
  sn_topology :: "TopologySnapshot option"
  sn_capacity :: "CapacitySnapshot option"
  sn_signals :: "SignalSnapshot option"
  sn_paths :: "PathSnapshot option"
  sn_traffic :: "TrafficSnapshot option"
  sn_policy :: "PolicySnapshot option"

definition no_snapshots :: Snapshots where
  "no_snapshots = \<lparr>sn_topology = None, sn_capacity = None, sn_signals = None, sn_paths = None, sn_traffic = None,
     sn_policy = None\<rparr>"

record Governor =
  gv_config :: GovernorConfig
  gv_engine :: Engine
  gv_snapshots :: Snapshots
  gv_publishers :: "PublisherState list"
  gv_epoch :: CoordinatorEpoch
  gv_boot :: BootId
  gv_metrics :: Metrics
  gv_durable :: DurableState
  gv_recovery :: RecoveredState
  gv_verified_topology :: u64
  gv_verified_capacity :: u64
  gv_verified_signals :: u64
  gv_verified_paths :: u64
  gv_store :: "Store option"

definition new_governor :: "GovernorConfig \<Rightarrow> Governor" where
  "new_governor config = \<lparr>gv_config = config, gv_engine = new_engine, gv_snapshots = no_snapshots, gv_publishers = [],
     gv_epoch = 0, gv_boot = 0, gv_metrics = no_metrics,
     gv_durable = no_durable\<lparr>ds_format_version := kDurableFormatVersion\<rparr>, gv_recovery = no_recovery,
     gv_verified_topology = 0, gv_verified_capacity = 0, gv_verified_signals = 0, gv_verified_paths = 0,
     gv_store = None\<rparr>"

type_synonym 'a governor_op = "Governor \<Rightarrow> 'a result \<times> Governor"

text \<open>One count of each of the named counters.\<close>

definition counted :: "((u64 \<Rightarrow> u64) \<Rightarrow> Metrics \<Rightarrow> Metrics) list \<Rightarrow> Governor \<Rightarrow> Governor" where
  "counted cs g = g\<lparr>gv_metrics := fold (\<lambda>c. count_by c 1) cs (gv_metrics g)\<rparr>"

section \<open>Lifecycle and authority\<close>

definition make_boot_id :: "nat \<Rightarrow> nat \<Rightarrow> Millis \<Rightarrow> GovernorConfig \<Rightarrow> BootId" where
  "make_boot_id pid counter now config =
     identity_from_bytes (gc_node_name config @ '':'' @ decimal pid @ '':'' @ decimal (unat (word_of_int now :: u64))
       @ '':'' @ decimal counter)"

text \<open>
  \<open>recover\<close> over the files of the configured directory. When opening or recovering the store fails
  the store object is destroyed.
\<close>

definition governor_recover :: "nat \<Rightarrow> nat \<Rightarrow> Disk \<Rightarrow> Millis \<Rightarrow> unit governor_op" where
  "governor_recover pid counter disk now g0 =
     (let c = gv_config g0;
          g = g0\<lparr>gv_boot := make_boot_id pid counter now c,
                 gv_epoch := (if valid_id (gc_initial_epoch c) then gc_initial_epoch c else 1)\<rparr>
      in case gc_store c of
           None \<Rightarrow> (Inr (), g\<lparr>gv_recovery := no_recovery\<rparr>)
         | Some (max_bytes, max_records) \<Rightarrow>
             (case store_open (new_store max_bytes max_records disk) of
                (Inl e, _) \<Rightarrow> (Inl e, g\<lparr>gv_store := None\<rparr>)
              | (Inr _, st) \<Rightarrow>
                  (case store_recover st of
                     (Inl e, st) \<Rightarrow>
                       (if e = MissingEvidence then (Inr (), g\<lparr>gv_store := Some st, gv_recovery := no_recovery\<rparr>)
                        else (Inl e, g\<lparr>gv_store := None\<rparr>))
                   | (Inr rc, st) \<Rightarrow>
                       let g1 = counted [mt_recoveries_update] (g\<lparr>gv_store := Some st, gv_recovery := rc\<rparr>);
                           g2 = (if valid_id (rc_last_epoch rc)
                                 then counted [mt_epoch_advances_update] (g1\<lparr>gv_epoch := next_id (rc_last_epoch rc)\<rparr>) else g1)
                       in (Inr (), g2\<lparr>gv_durable := (rc_state rc)\<lparr>ds_written_by_boot := gv_boot g2, ds_epoch := gv_epoch g2\<rparr>,
                                     gv_publishers := [], gv_snapshots := no_snapshots,
                                     gv_engine := engine_reset (gv_engine g2)\<rparr>))))"

text \<open>
  The durable step that \<open>install_epoch\<close>, \<open>note_publisher_death\<close> and \<open>commit_durable\<close> share: the
  committed state with the fields of this write, and it becomes current only when it is on disk.
\<close>

definition durable_candidate :: "BootId \<Rightarrow> CoordinatorEpoch \<Rightarrow> Millis \<Rightarrow> Store \<Rightarrow> Governor \<Rightarrow> DurableState" where
  "durable_candidate boot epoch now st g =
     (gv_durable g)\<lparr>ds_format_version := kDurableFormatVersion, ds_written_by_boot := boot, ds_epoch := epoch,
       ds_evaluations := eg_evaluations (gv_engine g), ds_written_at := now,
       ds_journal_sequence := store_journal_sequence st\<rparr>"

definition commit_candidate :: "BootId \<Rightarrow> CoordinatorEpoch \<Rightarrow> Millis \<Rightarrow> JournalRecordType \<Rightarrow> bytes \<Rightarrow> unit governor_op" where
  "commit_candidate boot epoch now type payload g =
     (case gv_store g of
        None \<Rightarrow> (Inr (), g)
      | Some st \<Rightarrow>
          let candidate = durable_candidate boot epoch now st g
          in (case store_commit candidate [\<lparr>jr_type = type, jr_sequence = 0, jr_at = now, jr_payload = payload\<rparr>] st of
                (Inl e, st) \<Rightarrow> (Inl e, g\<lparr>gv_store := Some st\<rparr>)
              | (Inr _, st) \<Rightarrow> (Inr (), g\<lparr>gv_store := Some st, gv_durable := candidate\<rparr>)))"

definition fence_publisher :: "CoordinatorEpoch \<Rightarrow> Millis \<Rightarrow> PublisherState \<Rightarrow> PublisherState" where
  "fence_publisher epoch now p =
     (if pb_epoch p \<noteq> epoch
      then p\<lparr>pb_alive := False, pb_died_at := now, pb_generation := no_stream_generation,
             pb_stream_generations := no_generations, pb_last_sequence := 0\<rparr>
      else p)"

definition install_epoch :: "CoordinatorEpoch \<Rightarrow> BootId \<Rightarrow> Millis \<Rightarrow> unit governor_op" where
  "install_epoch epoch coordinator_boot now g =
     (if \<not> valid_id epoch then (Inl InvalidArgument, g)
      else if valid_id (gv_epoch g) \<and> epoch < gv_epoch g then (Inl StaleEpoch, counted [mt_rejected_stale_epoch_update] g)
      else let next_boot = (if valid_id coordinator_boot then coordinator_boot else gv_boot g)
           in bind_op (commit_candidate next_boot epoch now JT_EpochAdvance (w_u64 epoch @ w_u64 next_boot @ w_i64 now) g) (\<lambda>_ g.
                let g1 = (if gv_epoch g \<noteq> epoch then counted [mt_epoch_advances_update] g else g)
                in (Inr (), g1\<lparr>gv_epoch := epoch, gv_boot := next_boot,
                              gv_publishers := map (fence_publisher epoch now) (gv_publishers g)\<rparr>)))"

section \<open>The registry\<close>

definition find_publisher :: "PublisherState list \<Rightarrow> PublisherId \<Rightarrow> PublisherState option" where
  "find_publisher ps i = find_sorted pb_id ps i"

text \<open>A write through the pointer \<open>find_publisher\<close> returns.\<close>

definition set_publisher :: "PublisherState \<Rightarrow> PublisherState list \<Rightarrow> PublisherState list" where
  "set_publisher p ps = ps[lower_bound pb_id ps (pb_id p) := p]"

definition insert_publisher :: "PublisherState \<Rightarrow> PublisherState list \<Rightarrow> PublisherState list" where
  "insert_publisher p ps = (let i = lower_bound pb_id ps (pb_id p) in take i ps @ p # drop i ps)"

definition refreshed :: "CoordinatorEpoch \<Rightarrow> Millis \<Rightarrow> PublisherState \<Rightarrow> PublisherState" where
  "refreshed epoch now p = p\<lparr>pb_alive := True, pb_epoch := epoch, pb_last_seen := now\<rparr>"

definition superseded :: "HelloPayload \<Rightarrow> CoordinatorEpoch \<Rightarrow> Millis \<Rightarrow> PublisherState \<Rightarrow> PublisherState" where
  "superseded hello epoch now p =
     p\<lparr>pb_incarnation := he_incarnation hello, pb_boot := he_boot hello, pb_epoch := epoch, pb_last_sequence := 0,
       pb_generation := no_stream_generation, pb_stream_generations := no_generations, pb_alive := True,
       pb_first_seen := now, pb_last_seen := now, pb_died_at := kNoTime\<rparr>"

definition fresh_publisher :: "HelloPayload \<Rightarrow> CoordinatorEpoch \<Rightarrow> Millis \<Rightarrow> PublisherState" where
  "fresh_publisher hello epoch now =
     \<lparr>pb_id = he_publisher hello, pb_incarnation = he_incarnation hello, pb_boot = he_boot hello, pb_epoch = epoch,
      pb_last_sequence = 0, pb_generation = no_stream_generation, pb_stream_generations = no_generations,
      pb_first_seen = now, pb_last_seen = now, pb_died_at = kNoTime, pb_alive = True, pb_accepted = 0, pb_rejected = 0\<rparr>"

definition welcome_of :: "Governor \<Rightarrow> WelcomePayload" where
  "welcome_of g = \<lparr>we_epoch = gv_epoch g, we_coordinator_boot = gv_boot g, we_protocol_version = kFrameProtocolVersion,
     we_name = take kMaxTextBytes (gc_node_name (gv_config g)), we_heartbeat_ms = 1000\<rparr>"

definition register_publisher :: "HelloPayload \<Rightarrow> Millis \<Rightarrow> WelcomePayload governor_op" where
  "register_publisher hello now g =
     (if \<not> valid_id (he_publisher hello) then (Inl InvalidArgument, g)
      else if \<not> valid_id (he_incarnation hello) then (Inl InvalidArgument, g)
      else if \<not> valid_id (he_boot hello) then (Inl InvalidArgument, g)
      else if \<not> valid_id (gv_epoch g) then (Inl NotStarted, g)
      else case find_publisher (gv_publishers g) (he_publisher hello) of
        Some p \<Rightarrow>
          (if he_incarnation hello < pb_incarnation p
           then (Inl StaleIncarnation, counted [mt_rejected_stale_incarnation_update] g)
           else if he_incarnation hello = pb_incarnation p
           then (if he_boot hello \<noteq> pb_boot p
                 then (Inl StaleIncarnation, counted [mt_rejected_stale_incarnation_update] g)
                 else (Inr (welcome_of g), g\<lparr>gv_publishers := set_publisher (refreshed (gv_epoch g) now p) (gv_publishers g)\<rparr>))
           else (Inr (welcome_of g),
                 g\<lparr>gv_publishers := set_publisher (superseded hello (gv_epoch g) now p) (gv_publishers g)\<rparr>))
      | None \<Rightarrow>
          (if length (gv_publishers g) \<ge> kMaxPublishers then (Inl BoundExceeded, g)
           else (Inr (welcome_of g),
                 g\<lparr>gv_publishers := insert_publisher (fresh_publisher hello (gv_epoch g) now) (gv_publishers g)\<rparr>)))"

text \<open>The evidence a dead publisher owned.\<close>

definition drop_owned :: "PublisherId \<Rightarrow> ('a \<Rightarrow> Provenance) \<Rightarrow> 'a option \<Rightarrow> 'a option" where
  "drop_owned publisher prov s = (case s of Some x \<Rightarrow> if pv_publisher (prov x) = publisher then None else Some x | None \<Rightarrow> None)"

definition drop_evidence :: "PublisherId \<Rightarrow> Snapshots \<Rightarrow> Snapshots" where
  "drop_evidence publisher s =
     \<lparr>sn_topology = drop_owned publisher tp_provenance (sn_topology s),
      sn_capacity = drop_owned publisher cs_provenance (sn_capacity s),
      sn_signals = drop_owned publisher ss_provenance (sn_signals s),
      sn_paths = drop_owned publisher ps_provenance (sn_paths s),
      sn_traffic = drop_owned publisher ts_provenance (sn_traffic s),
      sn_policy = drop_owned publisher po_provenance (sn_policy s)\<rparr>"

definition note_publisher_death :: "PublisherId \<Rightarrow> Millis \<Rightarrow> unit governor_op" where
  "note_publisher_death publisher now g =
     (case find_publisher (gv_publishers g) publisher of
        None \<Rightarrow> (Inl UnknownPublisher, g)
      | Some p \<Rightarrow>
          bind_op (commit_candidate (gv_boot g) (gv_epoch g) now JT_PublisherDeath (w_u64 publisher @ w_i64 now) g) (\<lambda>_ g.
            if \<not> pb_alive p then (Inr (), g)
            else let g1 = counted [mt_publisher_deaths_update]
                       (g\<lparr>gv_publishers := set_publisher (p\<lparr>pb_alive := False, pb_died_at := now\<rparr>) (gv_publishers g)\<rparr>)
                 in (Inr (), if gc_drop_evidence_on_publisher_death (gv_config g1)
                             then g1\<lparr>gv_snapshots := drop_evidence publisher (gv_snapshots g1)\<rparr> else g1)))"

section \<open>Admission\<close>

definition verify_references :: "Snapshots \<Rightarrow> unit result" where
  "verify_references s =
     (case sn_topology s of
        None \<Rightarrow> Inr ()
      | Some t \<Rightarrow>
          bind_result (guard (case sn_capacity s of Some c \<Rightarrow> capacity_resolves t c | None \<Rightarrow> True) UnknownResource) (\<lambda>_.
          bind_result (guard (case sn_signals s of Some x \<Rightarrow> signals_resolve t x | None \<Rightarrow> True) UnknownResource) (\<lambda>_.
          guard (case sn_paths s of Some p \<Rightarrow> paths_resolve t p | None \<Rightarrow> True) UnknownResource)))"

definition frame_provenance :: "FrameHeader \<Rightarrow> Provenance" where
  "frame_provenance h =
     no_provenance\<lparr>pv_publisher := fh_publisher h, pv_incarnation := fh_incarnation h, pv_boot := fh_boot h,
       pv_epoch := fh_epoch h, pv_sequence := fh_sequence h,
       pv_generation := \<lparr>sg_stream = stream_of (fh_type h), sg_value = fh_generation h\<rparr>,
       pv_emitted_at := fh_emitted_at h\<rparr>"

text \<open>The decode switch: the number of records and the snapshots with the new one in place.\<close>

definition install_payload :: "Frame \<Rightarrow> Snapshots \<Rightarrow> (nat \<times> Snapshots) result" where
  "install_payload frame s =
     (let h = fr_header frame; payload = fr_payload frame; prov = frame_provenance h
      in case fh_type h of
        MT_Topology \<Rightarrow>
          bind_result (decode_topology_payload payload) (\<lambda>t.
          bind_result (guard (case sn_topology s of Some live \<Rightarrow> tp_generation live < tp_generation t | None \<Rightarrow> True) StaleGeneration) (\<lambda>_.
          Inr (length (tp_resources t), s\<lparr>sn_topology := Some (t\<lparr>tp_provenance := prov\<rparr>)\<rparr>)))
      | MT_Capacity \<Rightarrow>
          bind_result (decode_capacity_payload payload) (\<lambda>c.
          Inr (length (cs_entries c), s\<lparr>sn_capacity := Some (c\<lparr>cs_provenance := prov\<rparr>)\<rparr>))
      | MT_Signals \<Rightarrow>
          bind_result (decode_signals_payload payload) (\<lambda>x.
          Inr (length (ss_records x), s\<lparr>sn_signals := Some (x\<lparr>ss_provenance := prov\<rparr>)\<rparr>))
      | MT_Paths \<Rightarrow>
          bind_result (decode_paths_payload payload) (\<lambda>p.
          Inr (length (ps_paths p), s\<lparr>sn_paths := Some (p\<lparr>ps_provenance := prov\<rparr>)\<rparr>))
      | MT_Traffic \<Rightarrow>
          bind_result (decode_traffic_payload payload) (\<lambda>r.
          Inr (length (ts_records r), s\<lparr>sn_traffic := Some (r\<lparr>ts_provenance := prov\<rparr>)\<rparr>))
      | MT_Policy \<Rightarrow>
          bind_result (decode_policy_payload payload) (\<lambda>p.
          Inr (0, s\<lparr>sn_policy := Some (p\<lparr>po_provenance := prov\<rparr>)\<rparr>))
      | _ \<Rightarrow> Inl MalformedFrame)"

text \<open>A refusal with its code, counted under the named counters and as a rejected frame.\<close>

definition refuse :: "ErrorCode \<Rightarrow> ((u64 \<Rightarrow> u64) \<Rightarrow> Metrics \<Rightarrow> Metrics) list \<Rightarrow> 'a governor_op" where
  "refuse e cs g = (Inl e, counted (cs @ [mt_frames_rejected_update]) g)"

definition accept :: "Frame \<Rightarrow> nat \<Rightarrow> AdmissionReport governor_op" where
  "accept frame records g =
     (let h = fr_header frame; g1 = counted [mt_frames_accepted_update] g
      in (Inr \<lparr>ar_accepted = True, ar_code = None, ar_stream = stream_of (fh_type h), ar_generation = fh_generation h,
              ar_sequence = fh_sequence h, ar_duplicate = False, ar_stale = False, ar_records = records\<rparr>,
          g1\<lparr>gv_metrics := count_by mt_bytes_received_update
                (word_of_nat (length (fr_payload frame)) + word_of_nat kFrameHeaderBytes) (gv_metrics g1)\<rparr>))"

definition admit_heartbeat :: "Frame \<Rightarrow> Millis \<Rightarrow> AdmissionReport governor_op" where
  "admit_heartbeat frame now g =
     (let h = fr_header frame
      in case find_publisher (gv_publishers g) (fh_publisher h) of
        None \<Rightarrow> refuse UnknownPublisher [] g
      | Some p \<Rightarrow>
          (if fh_incarnation h \<noteq> pb_incarnation p \<or> fh_boot h \<noteq> pb_boot p
           then refuse StaleIncarnation [mt_rejected_stale_incarnation_update] g
           else if \<not> pb_alive p then refuse UnknownPublisher [] g
           else if fh_sequence h \<noteq> 0 \<and> fh_sequence h \<le> pb_last_sequence p
           then refuse (if fh_sequence h = pb_last_sequence p then DuplicateFrame else OutOfOrderSequence) [] g
           else let p1 = (if fh_sequence h \<noteq> 0 then p\<lparr>pb_last_sequence := fh_sequence h\<rparr> else p)
                in accept frame 0 (g\<lparr>gv_publishers := set_publisher (p1\<lparr>pb_last_seen := now\<rparr>) (gv_publishers g)\<rparr>)))"

text \<open>The guards of a stream frame up to the decode: the registered publisher, with the bookkeeping of
  another epoch cleared, or the refusal.\<close>

definition admitted_publisher :: "FrameHeader \<Rightarrow> PublisherState governor_op" where
  "admitted_publisher h g =
     (if stream_of (fh_type h) = Stream_Unknown then refuse MalformedFrame [] g
      else if \<not> valid_id (gv_epoch g) then refuse NotStarted [] g
      else if fh_epoch h < gv_epoch g then refuse StaleEpoch [mt_rejected_stale_epoch_update, mt_frames_stale_update] g
      else if fh_epoch h > gv_epoch g then refuse UnknownEpoch [] g
      else case find_publisher (gv_publishers g) (fh_publisher h) of
        None \<Rightarrow> refuse UnknownPublisher [] g
      | Some p \<Rightarrow>
          (if fh_incarnation h \<noteq> pb_incarnation p \<or> fh_boot h \<noteq> pb_boot p
           then refuse StaleIncarnation [mt_rejected_stale_incarnation_update] g
           else if \<not> pb_alive p then refuse UnknownPublisher [] g
           else let p1 = (if pb_epoch p \<noteq> gv_epoch g
                          then p\<lparr>pb_epoch := gv_epoch g, pb_last_sequence := 0, pb_generation := no_stream_generation,
                                 pb_stream_generations := no_generations\<rparr> else p);
                    g1 = g\<lparr>gv_publishers := set_publisher p1 (gv_publishers g)\<rparr>;
                    live = pb_stream_generations p1 ! stream_index (stream_of (fh_type h))
                in if fh_sequence h = pb_last_sequence p1 then refuse DuplicateFrame [mt_frames_duplicate_update] g1
                   else if fh_sequence h < pb_last_sequence p1 then refuse OutOfOrderSequence [] g1
                   else if fh_generation h = 0 then refuse InvalidArgument [] g1
                   else if fh_generation h = live then refuse DuplicateFrame [mt_frames_duplicate_update] g1
                   else if fh_generation h < live
                   then refuse StaleGeneration [mt_rejected_stale_generation_update, mt_frames_stale_update] g1
                   else (Inr p1, g1)))"

definition option_id :: "('a \<Rightarrow> u64) \<Rightarrow> 'a option \<Rightarrow> u64" where
  "option_id f x = (case x of Some y \<Rightarrow> f y | None \<Rightarrow> 0)"

definition admit_stream :: "Frame \<Rightarrow> Millis \<Rightarrow> AdmissionReport governor_op" where
  "admit_stream frame now g0 =
     (let h = fr_header frame; stream = stream_of (fh_type h)
      in bind_op (admitted_publisher h g0) (\<lambda>p g.
         case install_payload frame (gv_snapshots g) of
           Inl e \<Rightarrow> (Inl e, counted ([mt_frames_rejected_update] @ (if is_integrity e then [mt_frames_malformed_update] else [])
                              @ (if is_stale e then [mt_frames_stale_update] else [])) g)
         | Inr (records, s) \<Rightarrow>
             let g1 = g\<lparr>gv_snapshots := s\<rparr>
             in (case verify_references s of
                   Inl e \<Rightarrow> refuse e [] g1
                 | Inr _ \<Rightarrow>
                     accept frame records (g1\<lparr>gv_verified_topology := option_id tp_id (sn_topology s),
                       gv_verified_capacity := option_id cs_id (sn_capacity s),
                       gv_verified_signals := option_id ss_id (sn_signals s),
                       gv_verified_paths := option_id ps_id (sn_paths s),
                       gv_publishers := set_publisher (p\<lparr>pb_last_sequence := fh_sequence h,
                           pb_generation := \<lparr>sg_stream = stream, sg_value = fh_generation h\<rparr>,
                           pb_stream_generations := (pb_stream_generations p)[stream_index stream := fh_generation h],
                           pb_last_seen := now, pb_alive := True, pb_accepted := sat_add (pb_accepted p) 1\<rparr>) (gv_publishers g1)\<rparr>))))"

definition admit :: "Frame \<Rightarrow> Millis \<Rightarrow> AdmissionReport governor_op" where
  "admit frame now g0 =
     (let g = counted [mt_frames_received_update] g0
      in case verify_payload (fr_header frame) (fr_payload frame) of
           Inl e \<Rightarrow> refuse e [mt_frames_malformed_update] g
         | Inr _ \<Rightarrow>
             if fh_type (fr_header frame) = MT_Heartbeat then admit_heartbeat frame now g
             else admit_stream frame now g)"

section \<open>Evaluation and durability\<close>

definition evaluation_input :: "Millis \<Rightarrow> Governor \<Rightarrow> DecisionInput" where
  "evaluation_input now g =
     (let s = gv_snapshots g
      in \<lparr>di_topology = sn_topology s, di_capacity = sn_capacity s, di_signals = sn_signals s, di_paths = sn_paths s,
          di_traffic = sn_traffic s, di_policy = sn_policy s, di_now = now, di_epoch = gv_epoch g, di_boot = gv_boot g,
          di_tracker = Some (eg_tracker (gv_engine g)),
          di_preverified =
            (case sn_topology s of
               None \<Rightarrow> False
             | Some t \<Rightarrow> gv_verified_topology g = tp_id t \<and> gv_verified_capacity g = option_id cs_id (sn_capacity s) \<and>
                 gv_verified_signals g = option_id ss_id (sn_signals s) \<and> gv_verified_paths g = option_id ps_id (sn_paths s))\<rparr>)"

definition record_hotspot :: "Millis \<Rightarrow> nat \<Rightarrow> Hotspot \<Rightarrow> DurableHotspot list \<Rightarrow> DurableHotspot list" where
  "record_hotspot now max_history h hs =
     (let entry = \<lparr>dh_id = hs_id h, dh_key = hs_key h, dh_scope = hs_scope h, dh_severity = hs_severity h,
                   dh_cause = hs_cause h, dh_persistence_ms = hs_persistence_ms h, dh_last_observed = now,
                   dh_resource_count = word_of_nat (hs_saturated_count h)\<rparr>;
          i = length (takeWhile (\<lambda>x. dh_id x \<noteq> hs_id h) hs)
      in if i < length hs then hs[i := entry]
         else (if length hs \<ge> min max_history kMaxHotspots then tl hs else hs) @ [entry])"

definition record_intent :: "Millis \<Rightarrow> MitigationIntent \<Rightarrow> DurableIntervention" where
  "record_intent now i = \<lparr>dv_id = mi_id i, dv_kind = mi_kind i, dv_hotspot = mi_hotspot i, dv_at = now,
     dv_scope_share_ppm = mi_scope_share i, dv_escalation = mi_escalation i\<rparr>"

definition record_decision :: "Decision \<Rightarrow> Millis \<Rightarrow> Governor \<Rightarrow> Governor" where
  "record_decision d now g =
     (let hs = fold (record_hotspot now (gc_max_history (gv_config g))) (fa_hotspots (de_assessment d)) (ds_hotspots (gv_durable g));
          vs = ds_interventions (gv_durable g) @ map (record_intent now) (pl_intents (de_plan d));
          max_interventions = kMaxHotspots * 4
      in g\<lparr>gv_durable := (gv_durable g)\<lparr>ds_hotspots := hs, ds_interventions := drop (length vs - max_interventions) vs\<rparr>\<rparr>)"

definition evaluate :: "Millis \<Rightarrow> Governor \<Rightarrow> Decision \<times> Governor" where
  "evaluate now g =
     (let (d, e) = engine_step (evaluation_input now g) (gv_engine g)
      in (d, record_decision d now (g\<lparr>gv_engine := e\<rparr>)))"

definition commit_durable :: "Millis \<Rightarrow> unit governor_op" where
  "commit_durable now g =
     (if gv_store g = None then (Inl NotStarted, g)
      else bind_op (commit_candidate (gv_boot g) (gv_epoch g) now JT_EvaluationCheckpoint [] g) (\<lambda>_ g.
        (Inr (), g\<lparr>gv_metrics := count_by mt_journal_appends_update (sat_add 1 1) (gv_metrics g)\<rparr>)))"

text \<open>\<open>metrics\<close>: the engine's counters with the governor's own.\<close>

definition merged_metrics :: "Governor \<Rightarrow> Metrics" where
  "merged_metrics g =
     (let m = gv_metrics g
      in (eg_metrics (gv_engine g))\<lparr>mt_frames_received := mt_frames_received m, mt_frames_accepted := mt_frames_accepted m,
           mt_frames_rejected := mt_frames_rejected m, mt_frames_duplicate := mt_frames_duplicate m,
           mt_frames_stale := mt_frames_stale m, mt_frames_malformed := mt_frames_malformed m,
           mt_bytes_received := mt_bytes_received m, mt_bytes_sent := mt_bytes_sent m,
           mt_publisher_deaths := mt_publisher_deaths m, mt_epoch_advances := mt_epoch_advances m,
           mt_journal_appends := mt_journal_appends m, mt_journal_replays := mt_journal_replays m,
           mt_recoveries := mt_recoveries m, mt_rejected_stale_epoch := mt_rejected_stale_epoch m,
           mt_rejected_stale_generation := mt_rejected_stale_generation m,
           mt_rejected_stale_incarnation := mt_rejected_stale_incarnation m\<rparr>)"

text \<open>What the governor reports of the history of a resource: a default entry when it is not tracked.\<close>

definition history_entry :: "ResourceId \<Rightarrow> Governor \<Rightarrow> Entry" where
  "history_entry i g = (case tracker_find (eg_tracker (gv_engine g)) i of Some (_, e) \<Rightarrow> e | None \<Rightarrow> no_entry)"

definition tracked_saturations :: "Governor \<Rightarrow> nat" where
  "tracked_saturations g = length (eg_tracker (gv_engine g))"

end
