(* ===== verification/HGM_Fencing.thy ===== *)
theory HGM_Fencing
  imports HGM_Governor
begin

text \<open>
  What the governor guarantees: the invariant of every reachable governor, the authority behind an
  accepted frame, what a refused frame may change, and the epochs across restarts.
\<close>

section \<open>The registry as a map\<close>

interpretation registry: sorted_index "\<lambda>ps. ps" pb_id "\<lambda>_. True" "strictly_sorted_by pb_id" find_publisher
  by unfold_locales (simp_all add: find_publisher_def)

lemma find_publisher_index:
  assumes s: "strictly_sorted_by pb_id ps" and f: "find_publisher ps i = Some q"
  shows "lower_bound pb_id ps i < length ps" "ps ! lower_bound pb_id ps i = q"
proof -
  from f have "q \<in> set ps" "pb_id q = i" by (simp_all add: registry.lookup_Some_iff [OF s])
  then obtain k where "k < length ps" "ps ! k = q" by (auto simp: in_set_conv_nth)
  moreover from this have "lower_bound pb_id ps i = k" using lower_bound_nth [OF s, of k] \<open>pb_id q = i\<close> by simp
  ultimately show "lower_bound pb_id ps i < length ps" "ps ! lower_bound pb_id ps i = q" by simp_all
qed

text \<open>Writing through the pointer keeps every identity in place and changes one entry.\<close>

lemma set_publisher_registry:
  assumes s: "strictly_sorted_by pb_id ps" and f: "find_publisher ps (pb_id p) = Some q"
  shows "map pb_id (set_publisher p ps) = map pb_id ps" "length (set_publisher p ps) = length ps"
    "set (set_publisher p ps) \<subseteq> insert p (set ps)"
    "find_publisher (set_publisher p ps) j = (if j = pb_id p then Some p else find_publisher ps j)"
proof -
  let ?i = "lower_bound pb_id ps (pb_id p)"
  note i = find_publisher_index [OF s f]
  have q: "pb_id q = pb_id p" using f by (simp add: registry.lookup_Some_iff [OF s])
  show m: "map pb_id (set_publisher p ps) = map pb_id ps"
    using i q by (simp add: set_publisher_def map_update list_update_same_conv)
  then have s': "strictly_sorted_by pb_id (set_publisher p ps)" using s by simp
  show "length (set_publisher p ps) = length ps" by (simp add: set_publisher_def)
  show "set (set_publisher p ps) \<subseteq> insert p (set ps)" by (simp add: set_publisher_def set_update_subset_insert)
  have p: "p \<in> set (set_publisher p ps)" using i(1) by (simp add: set_publisher_def set_update_memI)
  have "x \<in> set (set_publisher p ps) \<longleftrightarrow> x \<in> set ps" if "pb_id x \<noteq> pb_id p" for x
  proof -
    have "ps[?i := p] ! k = x \<longleftrightarrow> ps ! k = x" if "k < length ps" for k
      using i q \<open>pb_id x \<noteq> pb_id p\<close> by (metis nth_list_update_eq nth_list_update_neq that)
    then show ?thesis by (auto simp: set_publisher_def in_set_conv_nth)
  qed
  then have "find_publisher (set_publisher p ps) j = Some x \<longleftrightarrow> (if j = pb_id p then Some p else find_publisher ps j) = Some x" for x
    using p registry.entries_unique [OF s' p]
    by (auto simp: registry.lookup_Some_iff [OF s] registry.lookup_Some_iff [OF s'])
  then show "find_publisher (set_publisher p ps) j = (if j = pb_id p then Some p else find_publisher ps j)"
    by (metis not_Some_eq)
qed

lemma insert_publisher_registry:
  assumes s: "strictly_sorted_by pb_id ps" and f: "find_publisher ps (pb_id p) = None"
  shows "strictly_sorted_by pb_id (insert_publisher p ps)" "length (insert_publisher p ps) = Suc (length ps)"
    "set (insert_publisher p ps) = insert p (set ps)"
proof -
  let ?i = "lower_bound pb_id ps (pb_id p)"
  have i: "?i \<le> length ps" by (rule lower_bound_le)
  have out: "pb_id p \<notin> pb_id ` set ps" using f by (simp add: registry.lookup_None_iff [OF s])
  have t: "take ?i ps = takeWhile (\<lambda>e. pb_id e < pb_id p) ps" "drop ?i ps = dropWhile (\<lambda>e. pb_id e < pb_id p) ps"
    unfolding lower_bound_def by (rule takeWhile_eq_take [symmetric], rule dropWhile_eq_drop [symmetric])
  have lo: "\<forall>x \<in> set (take ?i ps). pb_id x < pb_id p" unfolding t by (auto dest: set_takeWhileD)
  have hi: "\<forall>x \<in> set (drop ?i ps). pb_id p < pb_id x"
  proof
    fix x assume x: "x \<in> set (drop ?i ps)"
    then have ne: "drop ?i ps \<noteq> []" by auto
    have h: "\<not> pb_id (hd (drop ?i ps)) < pb_id p" using ne hd_dropWhile unfolding t by blast
    have "strictly_sorted_by pb_id (drop ?i ps)" using s by (metis append_take_drop_id map_append sorted_wrt_append)
    then have "pb_id (hd (drop ?i ps)) \<le> pb_id x" using x ne by (cases "drop ?i ps") auto
    moreover have "pb_id x \<noteq> pb_id p" using x out by (metis image_eqI in_set_dropD)
    ultimately show "pb_id p < pb_id x" using h by auto
  qed
  show "strictly_sorted_by pb_id (insert_publisher p ps)"
  proof -
    have "strictly_sorted_by pb_id (take ?i ps @ drop ?i ps)" using s by simp
    then show ?thesis unfolding insert_publisher_def Let_def map_append sorted_wrt_append list.map(2) using lo hi by auto
  qed
  show "length (insert_publisher p ps) = Suc (length ps)" using i by (simp add: insert_publisher_def Let_def)
  show "set (insert_publisher p ps) = insert p (set ps)"
    by (simp add: insert_publisher_def Let_def) (metis append_take_drop_id set_append)
qed

section \<open>The invariant\<close>

definition publisher_ok :: "CoordinatorEpoch \<Rightarrow> PublisherState \<Rightarrow> bool" where
  "publisher_ok epoch p \<longleftrightarrow> valid_id (pb_id p) \<and> valid_id (pb_incarnation p) \<and> valid_id (pb_boot p) \<and>
     length (pb_stream_generations p) = kStreamCount \<and> (pb_alive p \<longrightarrow> pb_epoch p = epoch)"

definition registry_ok :: "CoordinatorEpoch \<Rightarrow> PublisherState list \<Rightarrow> bool" where
  "registry_ok epoch ps \<longleftrightarrow> strictly_sorted_by pb_id ps \<and> length ps \<le> kMaxPublishers \<and> (\<forall>p \<in> set ps. publisher_ok epoch p)"

definition snapshots_ok :: "Snapshots \<Rightarrow> bool" where
  "snapshots_ok s \<longleftrightarrow>
     (\<forall>t. sn_topology s = Some t \<longrightarrow> tp_built t \<and> topology_wf t \<and> length (tp_resources t) \<le> kMaxResources) \<and>
     (\<forall>c. sn_capacity s = Some c \<longrightarrow> capacity_wf c) \<and> (\<forall>x. sn_signals s = Some x \<longrightarrow> signals_wf x) \<and>
     (\<forall>p. sn_paths s = Some p \<longrightarrow> paths_wf p)"

definition durable_bounded :: "DurableState \<Rightarrow> bool" where
  "durable_bounded d \<longleftrightarrow> length (ds_hotspots d) \<le> kMaxHotspots \<and> length (ds_interventions d) \<le> kMaxHotspots * 4"

definition governor_ok :: "Governor \<Rightarrow> bool" where
  "governor_ok g \<longleftrightarrow> registry_ok (gv_epoch g) (gv_publishers g) \<and> snapshots_ok (gv_snapshots g) \<and>
     durable_bounded (gv_durable g)"

lemma counted_fields [simp]:
  "gv_config (counted cs g) = gv_config g" "gv_engine (counted cs g) = gv_engine g" "gv_snapshots (counted cs g) = gv_snapshots g"
  "gv_publishers (counted cs g) = gv_publishers g" "gv_epoch (counted cs g) = gv_epoch g" "gv_boot (counted cs g) = gv_boot g"
  "gv_durable (counted cs g) = gv_durable g" "gv_store (counted cs g) = gv_store g" "gv_recovery (counted cs g) = gv_recovery g"
  "gv_verified_topology (counted cs g) = gv_verified_topology g" "gv_verified_capacity (counted cs g) = gv_verified_capacity g"
  "gv_verified_signals (counted cs g) = gv_verified_signals g" "gv_verified_paths (counted cs g) = gv_verified_paths g"
  by (simp_all add: counted_def)

lemma governor_ok_fields:
  assumes "gv_epoch g' = gv_epoch g" and "gv_publishers g' = gv_publishers g" and "gv_snapshots g' = gv_snapshots g"
    and "gv_durable g' = gv_durable g"
  shows "governor_ok g' = governor_ok g"
  using assms by (simp add: governor_ok_def)

subsection \<open>Decoded evidence is well formed\<close>

lemma decoded_topology_ok:
  assumes "decode_topology_payload bs = Inr t"
  shows "tp_built t \<and> topology_wf t \<and> length (tp_resources t) \<le> kMaxResources"
proof -
  from assms obtain t0 t1 g where b: "build_topology t0 = Inr t1" and t: "t = t1\<lparr>tp_generation := g\<rparr>"
    by (auto simp: decode_topology_payload_def bind_result_Inr_iff Let_def)
  have "topology_wf t1" "length (tp_resources t1) \<le> kMaxResources"
    using build_topology_wf(1) [OF b] rebuild_topology(3) [OF b] by simp_all
  then show ?thesis by (simp add: t) (simp add: topology_wf_def)
qed

lemma decoded_evidence_ok:
  "decode_capacity_payload bs = Inr c \<Longrightarrow> capacity_wf c" "decode_signals_payload bs = Inr x \<Longrightarrow> signals_wf x"
  "decode_paths_payload bs = Inr p \<Longrightarrow> paths_wf p"
  by (auto simp: decode_capacity_payload_def decode_signals_payload_def decode_paths_payload_def bind_result_Inr_iff Let_def
      capacity_wf_def signals_wf_def paths_wf_def
      dest!: build_capacity_wf(1) build_signals_wf(1) build_paths_wf(1))

lemma install_payload_cases:
  assumes "install_payload frame s = Inr (n, s')"
  obtains (topology) t where "decode_topology_payload (fr_payload frame) = Inr t"
      "s' = s\<lparr>sn_topology := Some (t\<lparr>tp_provenance := frame_provenance (fr_header frame)\<rparr>)\<rparr>"
  | (capacity) c where "decode_capacity_payload (fr_payload frame) = Inr c"
      "s' = s\<lparr>sn_capacity := Some (c\<lparr>cs_provenance := frame_provenance (fr_header frame)\<rparr>)\<rparr>"
  | (signals) x where "decode_signals_payload (fr_payload frame) = Inr x"
      "s' = s\<lparr>sn_signals := Some (x\<lparr>ss_provenance := frame_provenance (fr_header frame)\<rparr>)\<rparr>"
  | (paths) p where "decode_paths_payload (fr_payload frame) = Inr p"
      "s' = s\<lparr>sn_paths := Some (p\<lparr>ps_provenance := frame_provenance (fr_header frame)\<rparr>)\<rparr>"
  | (traffic) r where "s' = s\<lparr>sn_traffic := Some (r\<lparr>ts_provenance := frame_provenance (fr_header frame)\<rparr>)\<rparr>"
  | (policy) p where "s' = s\<lparr>sn_policy := Some (p\<lparr>po_provenance := frame_provenance (fr_header frame)\<rparr>)\<rparr>"
  using assms by (cases "fh_type (fr_header frame)") (auto simp: install_payload_def Let_def bind_result_Inr_iff)

lemma install_payload_ok:
  assumes "install_payload frame s = Inr (n, s')" and "snapshots_ok s"
  shows "snapshots_ok s'"
  using assms(1)
proof (cases rule: install_payload_cases)
  case (topology t)
  then show ?thesis using assms(2) decoded_topology_ok by (simp add: snapshots_ok_def)
next
  case (capacity c)
  then show ?thesis using assms(2) decoded_evidence_ok(1) by (simp add: snapshots_ok_def capacity_wf_def)
next
  case (signals x)
  then show ?thesis using assms(2) decoded_evidence_ok(2) by (simp add: snapshots_ok_def signals_wf_def)
next
  case (paths p)
  then show ?thesis using assms(2) decoded_evidence_ok(3) by (simp add: snapshots_ok_def paths_wf_def)
qed (use assms(2) in \<open>simp_all add: snapshots_ok_def\<close>)

subsection \<open>Every operation keeps the invariant\<close>

lemma commit_candidate_effect:
  assumes "commit_candidate boot epoch now type payload g = (r, g')"
  shows "\<exists>st d. g' = g\<lparr>gv_store := st, gv_durable := d\<rparr> \<and> ds_hotspots d = ds_hotspots (gv_durable g) \<and>
    ds_interventions d = ds_interventions (gv_durable g)"
proof (cases "gv_store g")
  case None
  then have "g' = g\<lparr>gv_store := None, gv_durable := gv_durable g\<rparr>" using assms by (simp add: commit_candidate_def)
  then show ?thesis by blast
next
  case (Some st)
  obtain r1 st1 where c: "store_commit (durable_candidate boot epoch now st g)
      [\<lparr>jr_type = type, jr_sequence = 0, jr_at = now, jr_payload = payload\<rparr>] st = (r1, st1)" by fastforce
  have "g' = g\<lparr>gv_store := Some st1, gv_durable := gv_durable g\<rparr> \<or>
      g' = g\<lparr>gv_store := Some st1, gv_durable := durable_candidate boot epoch now st g\<rparr>"
    using assms Some c by (cases r1) (auto simp: commit_candidate_def Let_def)
  moreover have "ds_hotspots (durable_candidate boot epoch now st g) = ds_hotspots (gv_durable g)"
    "ds_interventions (durable_candidate boot epoch now st g) = ds_interventions (gv_durable g)" by (simp_all add: durable_candidate_def)
  ultimately show ?thesis by blast
qed

lemma commit_candidate_keeps:
  assumes "commit_candidate boot epoch now type payload g = (r, g')"
  shows "governor_ok g' = governor_ok g" "gv_epoch g' = gv_epoch g" "gv_publishers g' = gv_publishers g"
    "gv_snapshots g' = gv_snapshots g" "gv_boot g' = gv_boot g" "gv_config g' = gv_config g"
  using commit_candidate_effect [OF assms] by (auto simp: governor_ok_def durable_bounded_def)

lemma set_publisher_ok:
  assumes "registry_ok epoch ps" and "find_publisher ps (pb_id p) = Some q" and "publisher_ok epoch p"
  shows "registry_ok epoch (set_publisher p ps)"
proof -
  have s: "strictly_sorted_by pb_id ps" using assms(1) by (simp add: registry_ok_def)
  from set_publisher_registry [OF s assms(2)] assms show ?thesis by (auto simp: registry_ok_def)
qed

lemma found_publisher_ok:
  assumes "registry_ok epoch ps" and "find_publisher ps i = Some p"
  shows "publisher_ok epoch p" "pb_id p = i"
  using assms registry.lookup_Some_iff [of ps i p] by (auto simp: registry_ok_def)

lemma registry_ok_insert:
  assumes "registry_ok epoch ps" and "find_publisher ps (pb_id p) = None" and "publisher_ok epoch p" and "length ps < kMaxPublishers"
  shows "registry_ok epoch (insert_publisher p ps)"
proof -
  have s: "strictly_sorted_by pb_id ps" using assms(1) by (simp add: registry_ok_def)
  from insert_publisher_registry [OF s assms(2)] assms show ?thesis by (simp add: registry_ok_def)
qed

text \<open>An epoch that is not refused is committed first and then installed.\<close>

lemma install_epoch_commit:
  assumes "valid_id epoch" and "valid_id (gv_epoch g) \<Longrightarrow> gv_epoch g \<le> epoch"
    and nb: "nb = (if valid_id boot then boot else gv_boot g)"
    and c: "commit_candidate nb epoch now JT_EpochAdvance (w_u64 epoch @ w_u64 nb @ w_i64 now) g = (r1, g1)"
  shows "install_epoch epoch boot now g =
    (r1, if r1 = Inr () then (if gv_epoch g1 \<noteq> epoch then counted [mt_epoch_advances_update] g1 else g1)
        \<lparr>gv_epoch := epoch, gv_boot := nb, gv_publishers := map (fence_publisher epoch now) (gv_publishers g1)\<rparr> else g1)"
proof -
  have "\<not> (valid_id (gv_epoch g) \<and> epoch < gv_epoch g)" using assms(2) by auto
  then show ?thesis using assms(1) c unfolding install_epoch_def Let_def nb [symmetric]
    by (cases r1) (simp_all only: not_True_eq_False if_False if_True bind_op_simps, simp_all)
qed

lemma install_epoch_ok:
  assumes "install_epoch epoch boot now g = (r, g')" and "governor_ok g"
  shows "governor_ok g'"
proof -
  have fence: "registry_ok epoch (map (fence_publisher epoch now) ps)" if "registry_ok old ps" for old ps
  proof -
    have "map pb_id (map (fence_publisher epoch now) ps) = map pb_id ps" by (simp add: fence_publisher_def)
    moreover have "publisher_ok epoch (fence_publisher epoch now p)" if "publisher_ok old p" for p
      using that by (auto simp: publisher_ok_def fence_publisher_def no_generations_def)
    ultimately show ?thesis using that unfolding registry_ok_def by (auto simp del: map_map)
  qed
  show ?thesis
  proof (cases "\<not> valid_id epoch \<or> valid_id (gv_epoch g) \<and> epoch < gv_epoch g")
    case True
    then have "g' = g \<or> g' = counted [mt_rejected_stale_epoch_update] g" using assms(1) by (auto simp: install_epoch_def split: if_splits)
    then show ?thesis using assms(2) by (auto simp: governor_ok_def)
  next
    case False
    define nb where "nb = (if valid_id boot then boot else gv_boot g)"
    obtain r1 g1 where c: "commit_candidate nb epoch now JT_EpochAdvance (w_u64 epoch @ w_u64 nb @ w_i64 now) g = (r1, g1)" by fastforce
    have eq: "install_epoch epoch boot now g = (r1, if r1 = Inr () then (if gv_epoch g1 \<noteq> epoch then counted [mt_epoch_advances_update] g1 else g1)
        \<lparr>gv_epoch := epoch, gv_boot := nb, gv_publishers := map (fence_publisher epoch now) (gv_publishers g1)\<rparr> else g1)"
      using False by (intro install_epoch_commit [OF _ _ nb_def c]) auto
    note k = commit_candidate_keeps [OF c]
    show ?thesis
    proof (cases r1)
      case (Inl e)
      then have "g' = g1" using assms(1) eq by simp
      then show ?thesis using k assms(2) by simp
    next
      case (Inr u)
      then have "gv_epoch g' = epoch" "gv_publishers g' = map (fence_publisher epoch now) (gv_publishers g1)"
        "gv_snapshots g' = gv_snapshots g1" "gv_durable g' = gv_durable g1"
        using assms(1) eq by auto
      then show ?thesis using k(1) assms(2) fence [of "gv_epoch g1"] by (simp add: governor_ok_def)
    qed
  qed
qed

lemma register_publisher_ok:
  assumes "register_publisher hello now g = (r, g')" and ok: "governor_ok g"
  shows "governor_ok g'"
proof -
  let ?ps = "gv_publishers g" and ?e = "gv_epoch g"
  have reg: "registry_ok ?e ?ps" using ok by (simp add: governor_ok_def)
  have upd: "governor_ok (g\<lparr>gv_publishers := ps\<rparr>)" if "registry_ok ?e ps" for ps using that ok by (simp add: governor_ok_def)
  have keep: "governor_ok (counted cs g)" for cs using ok by (simp add: governor_ok_def)
  show ?thesis
  proof (cases "valid_id (he_publisher hello) \<and> valid_id (he_incarnation hello) \<and> valid_id (he_boot hello) \<and> valid_id ?e")
    case False
    then show ?thesis using assms by (auto simp: register_publisher_def split: if_splits)
  next
    case valid: True
    show ?thesis
    proof (cases "find_publisher ?ps (he_publisher hello)")
      case None
      have "publisher_ok ?e (fresh_publisher hello ?e now)"
        using valid by (simp add: publisher_ok_def fresh_publisher_def no_generations_def)
      moreover have "find_publisher ?ps (pb_id (fresh_publisher hello ?e now)) = None" using None by (simp add: fresh_publisher_def)
      ultimately show ?thesis
        using assms(1) valid None ok upd registry_ok_insert [OF reg] by (auto simp: register_publisher_def split: if_splits)
    next
      case (Some p)
      note p = found_publisher_ok [OF reg Some]
      have "publisher_ok ?e (refreshed ?e now p)" "publisher_ok ?e (superseded hello ?e now p)"
        using p valid by (simp_all add: publisher_ok_def refreshed_def superseded_def no_generations_def)
      moreover have "pb_id (refreshed ?e now p) = he_publisher hello" "pb_id (superseded hello ?e now p) = he_publisher hello"
        using p by (simp_all add: refreshed_def superseded_def)
      ultimately have "registry_ok ?e (set_publisher (refreshed ?e now p) ?ps)" "registry_ok ?e (set_publisher (superseded hello ?e now p) ?ps)"
        using set_publisher_ok [OF reg] Some by simp_all
      then show ?thesis using assms(1) valid Some upd keep by (auto simp: register_publisher_def split: if_splits)
    qed
  qed
qed

lemma drop_evidence_ok: "snapshots_ok s \<Longrightarrow> snapshots_ok (drop_evidence i s)"
  by (auto simp: snapshots_ok_def drop_evidence_def drop_owned_def split: option.splits if_splits)

lemma note_publisher_death_ok:
  assumes "note_publisher_death i now g = (r, g')" and ok: "governor_ok g"
  shows "governor_ok g'"
proof (cases "find_publisher (gv_publishers g) i")
  case None
  then show ?thesis using assms by (simp add: note_publisher_death_def)
next
  case (Some p)
  obtain r1 g1 where c: "commit_candidate (gv_boot g) (gv_epoch g) now JT_PublisherDeath (w_u64 i @ w_i64 now) g = (r1, g1)" by fastforce
  note k = commit_candidate_keeps [OF c]
  have ok1: "governor_ok g1" using k ok by simp
  have reg: "registry_ok (gv_epoch g1) (gv_publishers g1)" using ok1 by (simp add: governor_ok_def)
  let ?p = "p\<lparr>pb_alive := False, pb_died_at := now\<rparr>"
  have f: "find_publisher (gv_publishers g1) i = Some p" using Some k by simp
  then have "registry_ok (gv_epoch g1) (set_publisher ?p (gv_publishers g1))"
    using set_publisher_ok [OF reg, of ?p p] found_publisher_ok [OF reg f] by (simp add: publisher_ok_def)
  then have "governor_ok (counted cs (g1\<lparr>gv_publishers := set_publisher ?p (gv_publishers g1)\<rparr>))"
    "governor_ok ((counted cs (g1\<lparr>gv_publishers := set_publisher ?p (gv_publishers g1)\<rparr>))
       \<lparr>gv_snapshots := drop_evidence i (gv_snapshots g1)\<rparr>)" for cs
    using ok1 drop_evidence_ok by (simp_all add: governor_ok_def)
  then show ?thesis
    using assms(1) Some c ok1 by (cases r1) (auto simp: note_publisher_death_def Let_def split: if_splits)
qed

subsection \<open>Admission\<close>

lemma counted_metrics: "\<exists>m. counted cs g = g\<lparr>gv_metrics := m\<rparr>"
  by (auto simp: counted_def)

lemma refuse_cases: "refuse e cs g = (r, g') \<Longrightarrow> r = Inl e \<and> (\<exists>m. g' = g\<lparr>gv_metrics := m\<rparr>)"
  by (auto simp: refuse_def counted_def)

lemma accept_metrics:
  "\<exists>rep m. accept frame n g = (Inr rep, g\<lparr>gv_metrics := m\<rparr>) \<and> ar_accepted rep \<and> ar_records rep = n \<and>
     ar_sequence rep = fh_sequence (fr_header frame) \<and> ar_generation rep = fh_generation (fr_header frame)"
  by (auto simp: accept_def counted_def Let_def)

lemma set_publisher_same:
  assumes "strictly_sorted_by pb_id ps" and "find_publisher ps i = Some p"
  shows "set_publisher p ps = ps"
proof -
  have "pb_id p = i" using assms by (simp add: registry.lookup_Some_iff)
  then show ?thesis using find_publisher_index [OF assms] by (simp add: set_publisher_def list_update_same_conv)
qed

text \<open>The authority a stream frame needs.\<close>

definition frame_authorised :: "FrameHeader \<Rightarrow> Governor \<Rightarrow> PublisherState \<Rightarrow> bool" where
  "frame_authorised h g p \<longleftrightarrow> stream_of (fh_type h) \<noteq> Stream_Unknown \<and> valid_id (gv_epoch g) \<and> fh_epoch h = gv_epoch g \<and>
     find_publisher (gv_publishers g) (fh_publisher h) = Some p \<and> pb_alive p \<and> pb_epoch p = gv_epoch g \<and>
     fh_incarnation h = pb_incarnation p \<and> fh_boot h = pb_boot p \<and> pb_last_sequence p < fh_sequence h \<and>
     pb_stream_generations p ! stream_index (stream_of (fh_type h)) < fh_generation h"

lemma refuse_some: "\<exists>e' cs'. refuse e cs g = refuse e' cs' g"
  by blast

lemma admitted_publisher_refuses:
  assumes "stream_of (fh_type h) = Stream_Unknown \<or> \<not> valid_id (gv_epoch g) \<or> fh_epoch h \<noteq> gv_epoch g \<or>
    find_publisher (gv_publishers g) (fh_publisher h) = None"
  shows "\<exists>e cs. admitted_publisher h g = refuse e cs g"
proof (cases "fh_epoch h = gv_epoch g")
  case True
  then show ?thesis using assms refuse_some by (auto simp: admitted_publisher_def)
next
  case False
  then have "fh_epoch h < gv_epoch g \<or> fh_epoch h > gv_epoch g" by (rule linorder_neq_iff [THEN iffD1])
  then show ?thesis using refuse_some by (auto simp: admitted_publisher_def)
qed

lemma admitted_publisher_registered:
  assumes s: "stream_of (fh_type h) \<noteq> Stream_Unknown" "valid_id (gv_epoch g)" "fh_epoch h = gv_epoch g"
    and f: "find_publisher (gv_publishers g) (fh_publisher h) = Some p"
    and same: "set_publisher p (gv_publishers g) = gv_publishers g" and alive: "pb_alive p \<Longrightarrow> pb_epoch p = gv_epoch g"
  shows "frame_authorised h g p \<and> admitted_publisher h g = (Inr p, g) \<or> (\<exists>e cs. admitted_publisher h g = refuse e cs g)"
proof (cases "fh_incarnation h \<noteq> pb_incarnation p \<or> fh_boot h \<noteq> pb_boot p \<or> \<not> pb_alive p")
  case True
  then show ?thesis using s f refuse_some by (auto simp: admitted_publisher_def)
next
  case False
  let ?live = "pb_stream_generations p ! stream_index (stream_of (fh_type h))"
  have eq: "admitted_publisher h g =
      (if fh_sequence h = pb_last_sequence p then refuse DuplicateFrame [mt_frames_duplicate_update] g
       else if fh_sequence h < pb_last_sequence p then refuse OutOfOrderSequence [] g
       else if fh_generation h = 0 then refuse InvalidArgument [] g
       else if fh_generation h = ?live then refuse DuplicateFrame [mt_frames_duplicate_update] g
       else if fh_generation h < ?live
       then refuse StaleGeneration [mt_rejected_stale_generation_update, mt_frames_stale_update] g
       else (Inr p, g))"
    using False s f same alive by (simp add: admitted_publisher_def Let_def)
  show ?thesis
  proof (cases "pb_last_sequence p < fh_sequence h \<and> ?live < fh_generation h")
    case True
    then have "fh_generation h \<noteq> 0" by auto
    then show ?thesis using True False s f alive by (auto simp: eq frame_authorised_def)
  next
    case no: False
    then have "fh_sequence h = pb_last_sequence p \<or> fh_sequence h < pb_last_sequence p \<or> fh_generation h = ?live \<or> fh_generation h < ?live"
      by auto
    then show ?thesis unfolding eq using refuse_some by auto
  qed
qed

lemma frame_authorised_admitted:
  assumes "governor_ok g" and "frame_authorised h g p"
  shows "admitted_publisher h g = (Inr p, g)"
proof -
  have f: "find_publisher (gv_publishers g) (fh_publisher h) = Some p" using assms(2) by (simp add: frame_authorised_def)
  then have "set_publisher p (gv_publishers g) = gv_publishers g"
    using assms(1) set_publisher_same by (simp add: governor_ok_def registry_ok_def)
  moreover have "fh_generation h \<noteq> 0" using assms(2) by (auto simp: frame_authorised_def)
  ultimately show ?thesis using assms(2) by (auto simp: admitted_publisher_def frame_authorised_def Let_def)
qed

lemma admitted_publisher_cases:
  assumes a: "admitted_publisher h g = (r, g')" and ok: "governor_ok g"
  shows "(\<exists>p. r = Inr p \<and> g' = g \<and> frame_authorised h g p) \<or> (\<exists>e m. r = Inl e \<and> g' = g\<lparr>gv_metrics := m\<rparr>)"
proof -
  have reg: "registry_ok (gv_epoch g) (gv_publishers g)" using ok by (simp add: governor_ok_def)
  have "(\<exists>p. frame_authorised h g p \<and> admitted_publisher h g = (Inr p, g)) \<or> (\<exists>e cs. admitted_publisher h g = refuse e cs g)"
  proof (cases "stream_of (fh_type h) = Stream_Unknown \<or> \<not> valid_id (gv_epoch g) \<or> fh_epoch h \<noteq> gv_epoch g \<or>
      find_publisher (gv_publishers g) (fh_publisher h) = None")
    case True
    then show ?thesis using admitted_publisher_refuses by blast
  next
    case False
    then obtain p where f: "find_publisher (gv_publishers g) (fh_publisher h) = Some p" by auto
    have "set_publisher p (gv_publishers g) = gv_publishers g" using f reg set_publisher_same by (simp add: registry_ok_def)
    moreover have "pb_alive p \<Longrightarrow> pb_epoch p = gv_epoch g" using found_publisher_ok [OF reg f] by (simp add: publisher_ok_def)
    ultimately show ?thesis using admitted_publisher_registered [OF _ _ _ f] False by blast
  qed
  then show ?thesis using a refuse_cases by (metis prod.inject)
qed

text \<open>The bookkeeping of the publisher of an accepted frame.\<close>

definition advanced :: "FrameHeader \<Rightarrow> Millis \<Rightarrow> PublisherState \<Rightarrow> PublisherState" where
  "advanced h now p = p\<lparr>pb_last_sequence := fh_sequence h,
     pb_generation := \<lparr>sg_stream = stream_of (fh_type h), sg_value = fh_generation h\<rparr>,
     pb_stream_generations := (pb_stream_generations p)[stream_index (stream_of (fh_type h)) := fh_generation h],
     pb_last_seen := now, pb_alive := True, pb_accepted := sat_add (pb_accepted p) 1\<rparr>"

lemma admit_stream_cases:
  assumes a: "admit_stream frame now g = (r, g')" and ok: "governor_ok g"
  obtains (refused) e m where "r = Inl e" "g' = g\<lparr>gv_metrics := m\<rparr>"
  | (unresolved) e n s m where "r = Inl e" "install_payload frame (gv_snapshots g) = Inr (n, s)" "verify_references s = Inl e"
      "g' = g\<lparr>gv_snapshots := s, gv_metrics := m\<rparr>"
  | (accepted) rep p n s m where "r = Inr rep" "frame_authorised (fr_header frame) g p"
      "install_payload frame (gv_snapshots g) = Inr (n, s)" "verify_references s = Inr ()"
      "g' = g\<lparr>gv_snapshots := s, gv_verified_topology := option_id tp_id (sn_topology s),
         gv_verified_capacity := option_id cs_id (sn_capacity s), gv_verified_signals := option_id ss_id (sn_signals s),
         gv_verified_paths := option_id ps_id (sn_paths s),
         gv_publishers := set_publisher (advanced (fr_header frame) now p) (gv_publishers g), gv_metrics := m\<rparr>"
proof -
  obtain r1 g1 where p: "admitted_publisher (fr_header frame) g = (r1, g1)" by fastforce
  from admitted_publisher_cases [OF p ok] consider (ok) q where "r1 = Inr q" "g1 = g" "frame_authorised (fr_header frame) g q"
    | (no) e m where "r1 = Inl e" "g1 = g\<lparr>gv_metrics := m\<rparr>" by blast
  then show thesis
  proof cases
    case no
    then show thesis using a p refused [of e m] by (auto simp: admit_stream_def Let_def)
  next
    case (ok q)
    show thesis
    proof (cases "install_payload frame (gv_snapshots g)")
      case (Inl e)
      then have "r = Inl e \<and> (\<exists>cs. g' = counted cs g)" using a p ok by (auto simp: admit_stream_def Let_def)
      then show thesis using refused counted_metrics by metis
    next
      case (Inr x)
      then obtain n s where x: "install_payload frame (gv_snapshots g) = Inr (n, s)" by (cases x) auto
      show thesis
      proof (cases "verify_references s")
        case (Inl e)
        then have "refuse e [] (g\<lparr>gv_snapshots := s\<rparr>) = (r, g')" using a p ok x by (simp add: admit_stream_def Let_def)
        then show thesis using unresolved [OF _ x Inl] by (auto dest: refuse_cases)
      next
        case (Inr u)
        then have v: "verify_references s = Inr ()" by simp
        define g2 where "g2 = g\<lparr>gv_snapshots := s, gv_verified_topology := option_id tp_id (sn_topology s),
         gv_verified_capacity := option_id cs_id (sn_capacity s), gv_verified_signals := option_id ss_id (sn_signals s),
         gv_verified_paths := option_id ps_id (sn_paths s),
         gv_publishers := set_publisher (advanced (fr_header frame) now q) (gv_publishers g)\<rparr>"
        have "admit_stream frame now g = accept frame n g2"
          using p ok x v by (simp add: admit_stream_def Let_def g2_def advanced_def)
        then show thesis using a accept_metrics [of frame n g2] accepted [OF _ ok(3) x v] by (auto simp: g2_def)
      qed
    qed
  qed
qed

lemma admit_heartbeat_cases:
  assumes a: "admit_heartbeat frame now g = (r, g')"
  obtains (refused) e m where "r = Inl e" "g' = g\<lparr>gv_metrics := m\<rparr>"
  | (accepted) rep p m where "r = Inr rep" "find_publisher (gv_publishers g) (fh_publisher (fr_header frame)) = Some p" "pb_alive p"
      "fh_incarnation (fr_header frame) = pb_incarnation p" "fh_boot (fr_header frame) = pb_boot p"
      "fh_sequence (fr_header frame) = 0 \<or> pb_last_sequence p < fh_sequence (fr_header frame)"
      "g' = g\<lparr>gv_publishers := set_publisher (p\<lparr>pb_last_sequence := (if fh_sequence (fr_header frame) = 0 then pb_last_sequence p
           else fh_sequence (fr_header frame)), pb_last_seen := now\<rparr>) (gv_publishers g), gv_metrics := m\<rparr>"
proof -
  let ?h = "fr_header frame"
  have no: thesis if "(r, g') = refuse e cs g" for e cs using refuse_cases [OF that [symmetric]] refused by auto
  show thesis
  proof (cases "find_publisher (gv_publishers g) (fh_publisher ?h)")
    case None
    then have "(r, g') = refuse UnknownPublisher [] g" using a by (simp add: admit_heartbeat_def)
    then show thesis by (rule no)
  next
    case (Some p)
    show thesis
    proof (cases "fh_incarnation ?h = pb_incarnation p \<and> fh_boot ?h = pb_boot p \<and> pb_alive p \<and>
        (fh_sequence ?h = 0 \<or> pb_last_sequence p < fh_sequence ?h)")
      case True
      then have "admit_heartbeat frame now g = accept frame 0 (g\<lparr>gv_publishers := set_publisher (p\<lparr>pb_last_sequence :=
          (if fh_sequence ?h = 0 then pb_last_sequence p else fh_sequence ?h), pb_last_seen := now\<rparr>) (gv_publishers g)\<rparr>)"
        using Some by (auto simp: admit_heartbeat_def Let_def)
      then show thesis using a True Some accepted
          accept_metrics [of frame 0 "g\<lparr>gv_publishers := set_publisher (p\<lparr>pb_last_sequence :=
            (if fh_sequence ?h = 0 then pb_last_sequence p else fh_sequence ?h), pb_last_seen := now\<rparr>) (gv_publishers g)\<rparr>"] by auto
    next
      case False
      then have "\<exists>e cs. admit_heartbeat frame now g = refuse e cs g"
        using Some refuse_some by (auto simp: admit_heartbeat_def Let_def not_less)
      then show thesis using a no by metis
    qed
  qed
qed

lemma admit_ok:
  assumes "admit frame now g0 = (r, g')" and "governor_ok g0"
  shows "governor_ok g'"
proof -
  define g where "g = counted [mt_frames_received_update] g0"
  have ok: "governor_ok g" using assms(2) by (simp add: g_def governor_ok_def)
  have m: "governor_ok (g\<lparr>gv_metrics := m\<rparr>)" for m using ok by (simp add: governor_ok_def)
  have reg: "registry_ok (gv_epoch g) (gv_publishers g)" "snapshots_ok (gv_snapshots g)" using ok by (simp_all add: governor_ok_def)
  show ?thesis
  proof (cases "verify_payload (fr_header frame) (fr_payload frame)")
    case (Inl e)
    then have "(r, g') = refuse e [mt_frames_malformed_update] g" using assms(1) by (simp add: admit_def Let_def g_def)
    then show ?thesis using m by (auto dest: refuse_cases [OF sym])
  next
    case (Inr u)
    show ?thesis
    proof (cases "fh_type (fr_header frame) = MT_Heartbeat")
      case True
      then have "admit_heartbeat frame now g = (r, g')" using assms(1) Inr by (simp add: admit_def Let_def g_def)
      then show ?thesis
      proof (cases rule: admit_heartbeat_cases)
        case (accepted rep p m)
        let ?p = "p\<lparr>pb_last_sequence := (if fh_sequence (fr_header frame) = 0 then pb_last_sequence p
           else fh_sequence (fr_header frame)), pb_last_seen := now\<rparr>"
        note p = found_publisher_ok [OF reg(1) accepted(2)]
        have "registry_ok (gv_epoch g) (set_publisher ?p (gv_publishers g))"
          using set_publisher_ok [OF reg(1), of ?p p] p accepted(2) by (simp add: publisher_ok_def)
        then show ?thesis using accepted(7) ok by (simp add: governor_ok_def)
      qed (simp add: m)
    next
      case False
      then have "admit_stream frame now g = (r, g')" using assms(1) Inr by (simp add: admit_def Let_def g_def)
      then show ?thesis using ok
      proof (cases rule: admit_stream_cases)
        case (unresolved e n s m)
        then show ?thesis using ok install_payload_ok [OF unresolved(2) reg(2)] by (simp add: governor_ok_def)
      next
        case (accepted rep p n s m)
        have f: "find_publisher (gv_publishers g) (fh_publisher (fr_header frame)) = Some p" "pb_epoch p = gv_epoch g"
          using accepted(2) by (simp_all add: frame_authorised_def)
        note p = found_publisher_ok [OF reg(1) f(1)]
        have "registry_ok (gv_epoch g) (set_publisher (advanced (fr_header frame) now p) (gv_publishers g))"
          using set_publisher_ok [OF reg(1), of "advanced (fr_header frame) now p" p] p f by (simp add: publisher_ok_def advanced_def)
        then show ?thesis using accepted ok install_payload_ok [OF accepted(3) reg(2)] by (simp add: governor_ok_def)
      qed (simp add: m)
    qed
  qed
qed

subsection \<open>Evaluation, commits and recovery\<close>

lemma record_hotspot_bounded:
  "length hs \<le> kMaxHotspots \<Longrightarrow> length (record_hotspot now n h hs) \<le> kMaxHotspots"
  by (auto simp: record_hotspot_def Let_def kMaxHotspots_def)

lemma record_decision_ok:
  assumes "governor_ok g"
  shows "governor_ok (record_decision d now g)"
proof -
  have "length (fold (record_hotspot now n) hs xs) \<le> kMaxHotspots" if "length xs \<le> kMaxHotspots" for n hs xs
    using that by (induction hs arbitrary: xs) (simp_all add: record_hotspot_bounded)
  then show ?thesis using assms by (simp add: governor_ok_def record_decision_def Let_def durable_bounded_def)
qed

lemma evaluate_ok: "evaluate now g = (d, g') \<Longrightarrow> governor_ok g \<Longrightarrow> governor_ok g'"
  by (auto simp: evaluate_def Let_def case_prod_beta intro!: record_decision_ok) (simp add: governor_ok_def)

lemma commit_durable_ok:
  assumes "commit_durable now g = (r, g')" and "governor_ok g"
  shows "governor_ok g'"
proof -
  obtain r1 g1 where c: "commit_candidate (gv_boot g) (gv_epoch g) now JT_EvaluationCheckpoint [] g = (r1, g1)" by fastforce
  have "governor_ok (g1\<lparr>gv_metrics := m\<rparr>)" for m using commit_candidate_keeps(1) [OF c] assms(2) by (simp add: governor_ok_def)
  then show ?thesis using assms c commit_candidate_keeps(1) [OF c]
    by (cases r1) (auto simp: commit_durable_def split: if_splits)
qed

lemma rd_list_length: "rd_list get n bs = Some (xs, rest) \<Longrightarrow> length xs = n"
  by (induction n arbitrary: bs xs) (auto simp: bind_eq_Some_conv)

lemma rd_counted_length:
  assumes "rd_counted limit get bs = Inr (xs, rest)"
  shows "length xs \<le> limit"
proof -
  from assms obtain count :: u32 and b where "unat count \<le> limit" "rd_list get (unat count) b = Some (xs, rest)"
    by (auto simp: rd_counted_def bind_result_Inr_iff of_option_def guard_def split: option.splits if_splits)
  then show ?thesis using rd_list_length [of get "unat count" b xs rest] by simp
qed

lemma decoded_state_bounded: "decode_durable_state bs = Inr s \<Longrightarrow> durable_bounded s"
  by (auto simp: decode_durable_state_def bind_result_Inr_iff durable_bounded_def dest: rd_counted_length)

lemma recovered_state_bounded:
  assumes "store_recover st = (Inr rc, st')"
  shows "durable_bounded (rc_state rc)"
proof -
  have none: "durable_bounded (rc_state (no_recovery\<lparr>rc_format_version := a, rc_discarded_live_authority := b\<rparr>))" for a b
    by (simp add: no_recovery_def no_durable_def durable_bounded_def)
  obtain r n m st1 where rs: "read_snapshot st = ((r, n, m), st1)" by (metis prod_cases3 prod.exhaust)
  have ok: "durable_bounded s" if "r = Inr s" for s
    using rs that decoded_state_bounded by (auto simp: read_snapshot_def split: if_splits prod.splits sum.splits)
  show ?thesis
  proof (cases "\<not> st_opened st \<or> \<not> file_exists SnapshotFile (st_disk st)")
    case True
    then show ?thesis using assms none by (auto simp: store_recover_def Let_def split: if_splits)
  next
    case False
    show ?thesis
    proof (cases r)
      case (Inl e)
      then show ?thesis using assms False rs none by (auto simp: store_recover_def Let_def)
    next
      case (Inr s)
      note b = ok [OF Inr]
      obtain r2 st2 where "on_journal (journal_replay (st_max_journal_records st1)) st1 = (r2, st2)" by fastforce
      then show ?thesis using assms False rs Inr b
        by (cases r2) (auto simp: store_recover_def Let_def durable_bounded_def split: prod.splits)
    qed
  qed
qed

lemma governor_ok_blank:
  "gv_publishers g = [] \<Longrightarrow> gv_snapshots g = no_snapshots \<Longrightarrow> durable_bounded (gv_durable g) \<Longrightarrow> governor_ok g"
  by (simp add: governor_ok_def registry_ok_def snapshots_ok_def no_snapshots_def)

lemma new_governor_ok: "governor_ok (new_governor c)"
  by (rule governor_ok_blank) (simp_all add: new_governor_def durable_bounded_def no_durable_def)

text \<open>A recovered governor: blank authority, and the epoch after the last one on record.\<close>

lemma governor_recover_cases:
  assumes "governor_recover pid counter disk now (new_governor c) = (Inr (), g)"
  shows "gv_publishers g = [] \<and> gv_snapshots g = no_snapshots \<and> durable_bounded (gv_durable g) \<and>
    (\<forall>mb mr st1 rc st2. gc_store c = Some (mb, mr) \<longrightarrow> store_open (new_store mb mr disk) = (Inr (), st1) \<longrightarrow>
       store_recover st1 = (Inr rc, st2) \<longrightarrow>
       gv_store g = Some st2 \<and> gv_recovery g = rc \<and>
       gv_epoch g = (if valid_id (rc_last_epoch rc) then next_id (rc_last_epoch rc)
                     else if valid_id (gc_initial_epoch c) then gc_initial_epoch c else 1))"
proof (cases "gc_store c")
  case None
  then show ?thesis using assms
    by (auto simp: governor_recover_def Let_def new_governor_def durable_bounded_def no_durable_def)
next
  case (Some mr)
  obtain r1 st1 where o: "store_open (new_store (fst mr) (snd mr) disk) = (r1, st1)" by fastforce
  obtain r2 st2 where v: "store_recover st1 = (r2, st2)" by fastforce
  have new: "gv_publishers (new_governor c) = []" "gv_snapshots (new_governor c) = no_snapshots" "gv_config (new_governor c) = c"
    "durable_bounded (gv_durable (new_governor c))" by (simp_all add: new_governor_def durable_bounded_def no_durable_def)
  have r1: "r1 = Inr ()" using assms Some o new by (cases r1) (auto simp: governor_recover_def Let_def case_prod_beta)
  show ?thesis
  proof (cases r2)
    case (Inl e)
    then show ?thesis using assms Some o v r1 new
      by (auto simp: governor_recover_def Let_def case_prod_beta split: if_splits)
  next
    case (Inr rc)
    have "durable_bounded (rc_state rc)" using recovered_state_bounded v Inr by blast
    then show ?thesis using assms Some o v r1 Inr new
      by (auto simp: governor_recover_def Let_def case_prod_beta durable_bounded_def split: if_splits)
  qed
qed

section \<open>Reachable governors\<close>

text \<open>
  A governor's life: created, recovered once, and then operations in any order from any threads,
  each run whole under the mutex.
\<close>

inductive governor_step :: "Governor \<Rightarrow> Governor \<Rightarrow> bool" where
  step_install: "install_epoch epoch boot now g = (r, g') \<Longrightarrow> governor_step g g'"
| step_register: "register_publisher hello now g = (r', g') \<Longrightarrow> governor_step g g'"
| step_death: "note_publisher_death i now g = (r, g') \<Longrightarrow> governor_step g g'"
| step_admit: "admit frame now g = (r'', g') \<Longrightarrow> governor_step g g'"
| step_evaluate: "evaluate now g = (d, g') \<Longrightarrow> governor_step g g'"
| step_commit: "commit_durable now g = (r, g') \<Longrightarrow> governor_step g g'"

inductive governor_reachable :: "Governor \<Rightarrow> bool" where
  created: "governor_reachable (new_governor c)"
| recovered: "governor_recover pid counter disk now (new_governor c) = (Inr (), g) \<Longrightarrow> governor_reachable g"
| steps: "governor_reachable g \<Longrightarrow> governor_step g g' \<Longrightarrow> governor_reachable g'"

lemma governor_step_ok: "governor_step g g' \<Longrightarrow> governor_ok g \<Longrightarrow> governor_ok g'"
  by (induction rule: governor_step.induct)
    (blast dest: install_epoch_ok register_publisher_ok note_publisher_death_ok admit_ok evaluate_ok commit_durable_ok)+

lemma governor_reachable_ok: "governor_reachable g \<Longrightarrow> governor_ok g"
proof (induction rule: governor_reachable.induct)
  case created
  show ?case by (rule new_governor_ok)
next
  case (recovered pid counter disk now c g)
  then show ?case using governor_recover_cases governor_ok_blank by blast
next
  case (steps g g')
  then show ?case by (blast dest: governor_step_ok)
qed

section \<open>What admission may change\<close>

text \<open>The two frames of a stream admission, with the received counter in front.\<close>

lemma admit_stream_frame:
  assumes "fh_type (fr_header frame) \<noteq> MT_Heartbeat" and "verify_payload (fr_header frame) (fr_payload frame) = Inr ()"
  shows "admit frame now g = admit_stream frame now (counted [mt_frames_received_update] g)"
  using assms by (simp add: admit_def Let_def)

lemma frame_authorised_counted [simp]: "frame_authorised h (counted cs g) p = frame_authorised h g p"
  by (simp add: frame_authorised_def)

lemma governor_ok_counted [simp]: "governor_ok (counted cs g) = governor_ok g"
  by (simp add: governor_ok_def)

lemma advanced_fields [simp]:
  "pb_id (advanced h now p) = pb_id p" "pb_incarnation (advanced h now p) = pb_incarnation p" "pb_boot (advanced h now p) = pb_boot p"
  "pb_epoch (advanced h now p) = pb_epoch p" "pb_alive (advanced h now p)" "pb_last_sequence (advanced h now p) = fh_sequence h"
  by (simp_all add: advanced_def)

lemma admit_accepted:
  assumes ok: "governor_ok g" and a: "admit frame now g = (Inr rep, g')" and t: "fh_type (fr_header frame) \<noteq> MT_Heartbeat"
  obtains p n s where "frame_authorised (fr_header frame) g p" "verify_payload (fr_header frame) (fr_payload frame) = Inr ()"
    "install_payload frame (gv_snapshots g) = Inr (n, s)" "verify_references s = Inr ()" "gv_snapshots g' = s"
    "gv_publishers g' = set_publisher (advanced (fr_header frame) now p) (gv_publishers g)" "gv_epoch g' = gv_epoch g"
proof -
  have v: "verify_payload (fr_header frame) (fr_payload frame) = Inr ()"
    using a by (cases "verify_payload (fr_header frame) (fr_payload frame)") (auto simp: admit_def Let_def dest: refuse_cases)
  have "admit_stream frame now (counted [mt_frames_received_update] g) = (Inr rep, g')" using a admit_stream_frame [OF t v] by simp
  then show thesis
    by (rule admit_stream_cases) (use ok that v in auto)
qed

text \<open>A frame that was accepted is refused as a duplicate when it comes again.\<close>

lemma replayed_frame_refused:
  assumes ok: "governor_ok g" and a: "admit frame now g = (Inr rep, g')" and t: "fh_type (fr_header frame) \<noteq> MT_Heartbeat"
  shows "\<exists>g''. admit frame now' g' = (Inl DuplicateFrame, g'')"
proof -
  let ?h = "fr_header frame"
  from admit_accepted [OF assms] obtain p where p: "frame_authorised ?h g p" "verify_payload ?h (fr_payload frame) = Inr ()"
    and g': "gv_publishers g' = set_publisher (advanced ?h now p) (gv_publishers g)" "gv_epoch g' = gv_epoch g" by metis
  have s: "strictly_sorted_by pb_id (gv_publishers g)" using ok by (simp add: governor_ok_def registry_ok_def)
  have f: "find_publisher (gv_publishers g) (fh_publisher ?h) = Some p" using p by (simp add: frame_authorised_def)
  then have "pb_id p = fh_publisher ?h" using registry.lookup_Some_iff [OF s] by blast
  then have f': "find_publisher (gv_publishers g') (fh_publisher ?h) = Some (advanced ?h now p)"
    using set_publisher_registry(4) [OF s, of "advanced ?h now p" p] f g' by simp
  have "admitted_publisher ?h (counted cs g') = refuse DuplicateFrame [mt_frames_duplicate_update]
      ((counted cs g')\<lparr>gv_publishers := set_publisher (advanced ?h now p) (gv_publishers g')\<rparr>)" for cs
    using p f' g' by (simp add: admitted_publisher_def frame_authorised_def Let_def)
  then show ?thesis using admit_stream_frame [OF t p(2)] by (simp add: admit_stream_def Let_def refuse_def)
qed

text \<open>
  Authority only advances. No operation lowers the epoch; under one epoch no operation forgets a publisher or
  goes back to an earlier incarnation, and none lowers the last sequence of an incarnation that the epoch
  has taken over, whether it dies, shakes hands again or sends frames.
\<close>

definition publisher_advances :: "CoordinatorEpoch \<Rightarrow> PublisherState \<Rightarrow> PublisherState \<Rightarrow> bool" where
  "publisher_advances epoch p p' \<longleftrightarrow> pb_incarnation p < pb_incarnation p' \<or>
     pb_incarnation p = pb_incarnation p' \<and> (pb_epoch p = epoch \<longrightarrow> pb_epoch p' = epoch \<and> pb_last_sequence p \<le> pb_last_sequence p')"

definition authority_advances :: "Governor \<Rightarrow> Governor \<Rightarrow> bool" where
  "authority_advances g g' \<longleftrightarrow> gv_epoch g < gv_epoch g' \<or>
     gv_epoch g = gv_epoch g' \<and> (\<forall>i p. find_publisher (gv_publishers g) i = Some p \<longrightarrow>
       (\<exists>p'. find_publisher (gv_publishers g') i = Some p' \<and> publisher_advances (gv_epoch g) p p'))"

lemma publisher_advances_refl: "publisher_advances e p p"
  by (simp add: publisher_advances_def)

lemma publisher_advances_trans: "publisher_advances e p q \<Longrightarrow> publisher_advances e q r \<Longrightarrow> publisher_advances e p r"
  by (auto simp: publisher_advances_def)

lemma authority_advances_same: "gv_epoch g' = gv_epoch g \<Longrightarrow> gv_publishers g' = gv_publishers g \<Longrightarrow> authority_advances g g'"
  by (simp add: authority_advances_def publisher_advances_refl)

lemma authority_advances_trans: "authority_advances g g' \<Longrightarrow> authority_advances g' g'' \<Longrightarrow> authority_advances g g''"
proof (cases "gv_epoch g = gv_epoch g' \<and> gv_epoch g' = gv_epoch g''")
  case True
  moreover assume "authority_advances g g'" "authority_advances g' g''"
  ultimately show ?thesis using publisher_advances_trans unfolding authority_advances_def by (metis less_irrefl)
next
  case False
  moreover assume "authority_advances g g'" "authority_advances g' g''"
  ultimately show ?thesis unfolding authority_advances_def by (metis order.strict_trans)
qed

lemma authority_advances_set:
  assumes ok: "governor_ok g" and f: "find_publisher (gv_publishers g) (pb_id p') = Some p" and a: "publisher_advances (gv_epoch g) p p'"
    and g': "gv_epoch g' = gv_epoch g" "gv_publishers g' = set_publisher p' (gv_publishers g)"
  shows "authority_advances g g'"
proof -
  have s: "strictly_sorted_by pb_id (gv_publishers g)" using ok by (simp add: governor_ok_def registry_ok_def)
  show ?thesis using a f unfolding authority_advances_def g' set_publisher_registry(4) [OF s f] by (simp add: publisher_advances_refl)
qed

lemma install_epoch_advances:
  assumes "install_epoch epoch boot now g = (r, g')" and ok: "governor_ok g"
  shows "authority_advances g g'"
proof (cases "\<not> valid_id epoch \<or> valid_id (gv_epoch g) \<and> epoch < gv_epoch g")
  case True
  then show ?thesis using assms(1) by (intro authority_advances_same) (auto simp: install_epoch_def split: if_splits)
next
  case False
  then have le: "gv_epoch g \<le> epoch" by (auto simp: valid_id_def)
  define nb where "nb = (if valid_id boot then boot else gv_boot g)"
  obtain r1 g1 where c: "commit_candidate nb epoch now JT_EpochAdvance (w_u64 epoch @ w_u64 nb @ w_i64 now) g = (r1, g1)" by fastforce
  note k = commit_candidate_keeps [OF c]
  have eq: "install_epoch epoch boot now g = (r1, if r1 = Inr () then (if gv_epoch g1 \<noteq> epoch then counted [mt_epoch_advances_update] g1 else g1)
      \<lparr>gv_epoch := epoch, gv_boot := nb, gv_publishers := map (fence_publisher epoch now) (gv_publishers g1)\<rparr> else g1)"
    using False by (intro install_epoch_commit [OF _ _ nb_def c]) auto
  have s: "strictly_sorted_by pb_id (gv_publishers g)" using ok by (simp add: governor_ok_def registry_ok_def)
  show ?thesis
  proof (cases "r1 = Inr () \<and> gv_epoch g = epoch")
    case True
    have "find_publisher (map (fence_publisher epoch now) (gv_publishers g)) i = Some (fence_publisher epoch now p)"
      if "find_publisher (gv_publishers g) i = Some p" for i p
    proof -
      have m: "map pb_id (map (fence_publisher epoch now) (gv_publishers g)) = map pb_id (gv_publishers g)" by (simp add: fence_publisher_def)
      then have "strictly_sorted_by pb_id (map (fence_publisher epoch now) (gv_publishers g))" using s by (simp only: m)
      from registry.lookup_Some_iff [OF this] that registry.lookup_Some_iff [OF s] show ?thesis by (auto simp: fence_publisher_def)
    qed
    moreover have "publisher_advances epoch p (fence_publisher epoch now p)" for p by (simp add: publisher_advances_def fence_publisher_def)
    ultimately show ?thesis using True eq assms(1) k by (auto simp: authority_advances_def)
  next
    case False
    then show ?thesis using eq assms(1) k le authority_advances_same [of g1 g] by (auto simp: authority_advances_def)
  qed
qed

lemma register_publisher_advances:
  assumes "register_publisher hello now g = (r, g')" and ok: "governor_ok g"
  shows "authority_advances g g'"
proof (cases "find_publisher (gv_publishers g) (he_publisher hello)")
  case None
  have s: "strictly_sorted_by pb_id (gv_publishers g)" using ok by (simp add: governor_ok_def registry_ok_def)
  let ?p = "fresh_publisher hello (gv_epoch g) now"
  have f: "find_publisher (gv_publishers g) (pb_id ?p) = None" using None by (simp add: fresh_publisher_def)
  note ins = insert_publisher_registry [OF s f]
  have "find_publisher (insert_publisher ?p (gv_publishers g)) i = Some q" if "find_publisher (gv_publishers g) i = Some q" for i q
    using that registry.lookup_Some_iff [OF s] registry.lookup_Some_iff [OF ins(1)] ins(3) by auto
  then have "authority_advances g (g\<lparr>gv_publishers := insert_publisher ?p (gv_publishers g)\<rparr>)"
    using publisher_advances_refl by (auto simp: authority_advances_def)
  then show ?thesis using assms(1) None authority_advances_same [of g g] by (auto simp: register_publisher_def split: if_splits)
next
  case (Some p)
  have "pb_id p = he_publisher hello" using Some ok registry.lookup_Some_iff by (auto simp: governor_ok_def registry_ok_def)
  then have "authority_advances g (g\<lparr>gv_publishers := set_publisher (refreshed (gv_epoch g) now p) (gv_publishers g)\<rparr>)"
    "pb_incarnation p < he_incarnation hello \<Longrightarrow>
       authority_advances g (g\<lparr>gv_publishers := set_publisher (superseded hello (gv_epoch g) now p) (gv_publishers g)\<rparr>)"
    using Some authority_advances_set [OF ok, of "refreshed (gv_epoch g) now p" p] authority_advances_set [OF ok, of "superseded hello (gv_epoch g) now p" p]
    by (simp_all add: refreshed_def superseded_def publisher_advances_def)
  then show ?thesis using assms(1) Some authority_advances_same
    by (auto simp: register_publisher_def not_less order_le_less split: if_splits)
qed

lemma note_publisher_death_advances:
  assumes "note_publisher_death i now g = (r, g')" and ok: "governor_ok g"
  shows "authority_advances g g'"
proof (cases "find_publisher (gv_publishers g) i")
  case None
  then show ?thesis using assms(1) authority_advances_same [of g g] by (simp add: note_publisher_death_def)
next
  case (Some p)
  obtain r1 g1 where c: "commit_candidate (gv_boot g) (gv_epoch g) now JT_PublisherDeath (w_u64 i @ w_i64 now) g = (r1, g1)" by fastforce
  note k = commit_candidate_keeps [OF c]
  let ?p = "p\<lparr>pb_alive := False, pb_died_at := now\<rparr>"
  have f: "find_publisher (gv_publishers g) (pb_id ?p) = Some p"
    using Some ok registry.lookup_Some_iff by (auto simp: governor_ok_def registry_ok_def)
  have "gv_epoch g' = gv_epoch g \<and> (gv_publishers g' = gv_publishers g \<or> gv_publishers g' = set_publisher ?p (gv_publishers g))"
    using assms(1) Some c k by (cases r1) (auto simp: note_publisher_death_def Let_def split: if_splits)
  then show ?thesis using authority_advances_same [of g' g] authority_advances_set [OF ok f, of g']
    by (auto simp: publisher_advances_def)
qed

lemma admit_advances:
  assumes a: "admit frame now g = (r, g')" and ok: "governor_ok g"
  shows "authority_advances g g'"
proof (cases "verify_payload (fr_header frame) (fr_payload frame)")
  case (Inl e)
  then show ?thesis using a by (intro authority_advances_same) (auto simp: admit_def Let_def refuse_def)
next
  case (Inr u)
  let ?g = "counted [mt_frames_received_update] g"
  have s: "strictly_sorted_by pb_id (gv_publishers g)" using ok by (simp add: governor_ok_def registry_ok_def)
  show ?thesis
  proof (cases "fh_type (fr_header frame) = MT_Heartbeat")
    case True
    then have "admit_heartbeat frame now ?g = (r, g')" using a Inr by (simp add: admit_def Let_def)
    then show ?thesis
    proof (cases rule: admit_heartbeat_cases)
      case (accepted rep p m)
      then have "find_publisher (gv_publishers g) (pb_id p) = Some p" using registry.lookup_Some_iff [OF s] by auto
      then show ?thesis using accepted(6,7)
        by (intro authority_advances_set [OF ok, of "p\<lparr>pb_last_sequence := (if fh_sequence (fr_header frame) = 0 then pb_last_sequence p
          else fh_sequence (fr_header frame)), pb_last_seen := now\<rparr>" p]) (auto simp: publisher_advances_def)
    qed (simp add: authority_advances_same)
  next
    case False
    then have "admit_stream frame now ?g = (r, g')" using a Inr by (simp add: admit_def Let_def)
    moreover have "governor_ok ?g" using ok by simp
    ultimately show ?thesis
    proof (cases rule: admit_stream_cases)
      case (accepted rep p n x m)
      then have "find_publisher (gv_publishers g) (pb_id p) = Some p" "pb_last_sequence p < fh_sequence (fr_header frame)"
        using registry.lookup_Some_iff [OF s] by (auto simp: frame_authorised_def)
      then show ?thesis using accepted(5)
        by (intro authority_advances_set [OF ok, of "advanced (fr_header frame) now p" p]) (auto simp: publisher_advances_def)
    qed (simp_all add: authority_advances_same)
  qed
qed

lemma evaluate_advances: "evaluate now g = (d, g') \<Longrightarrow> authority_advances g g'"
  by (rule authority_advances_same) (auto simp: evaluate_def record_decision_def Let_def case_prod_beta)

lemma commit_durable_advances:
  assumes "commit_durable now g = (r, g')"
  shows "authority_advances g g'"
proof -
  obtain r1 g1 where c: "commit_candidate (gv_boot g) (gv_epoch g) now JT_EvaluationCheckpoint [] g = (r1, g1)" by fastforce
  show ?thesis using assms c commit_candidate_keeps [OF c]
    by (intro authority_advances_same) (cases r1; auto simp: commit_durable_def split: if_splits)+
qed

lemma governor_step_advances: "governor_step g g' \<Longrightarrow> governor_ok g \<Longrightarrow> authority_advances g g'"
  by (induction rule: governor_step.induct)
    (blast dest: install_epoch_advances register_publisher_advances note_publisher_death_advances admit_advances
      evaluate_advances commit_durable_advances)+

lemma governor_steps_advance:
  assumes "governor_step\<^sup>*\<^sup>* g g'" and "governor_ok g"
  shows "governor_ok g' \<and> authority_advances g g'"
  using assms
proof (induction rule: rtranclp_induct)
  case base
  then show ?case by (simp add: authority_advances_same)
next
  case (step g1 g2)
  then show ?case using governor_step_ok governor_step_advances authority_advances_trans by blast
qed

text \<open>Therefore an accepted frame is refused in every later state of the governor.\<close>

lemma accepted_frame_refused_later:
  assumes ok: "governor_ok g" and a: "admit frame now g = (Inr rep, g')" and t: "fh_type (fr_header frame) \<noteq> MT_Heartbeat"
    and run: "governor_step\<^sup>*\<^sup>* g' g''"
  shows "\<exists>e g3. admit frame later g'' = (Inl e, g3)"
proof (rule ccontr)
  let ?h = "fr_header frame"
  assume no: "\<not> ?thesis"
  obtain x g3 where "admit frame later g'' = (x, g3)" by fastforce
  with no obtain rep' where a': "admit frame later g'' = (Inr rep', g3)" by (cases x) auto
  from admit_accepted [OF ok a t] obtain p where p: "frame_authorised ?h g p"
    and g': "gv_publishers g' = set_publisher (advanced ?h now p) (gv_publishers g)" "gv_epoch g' = gv_epoch g" by metis
  have s: "strictly_sorted_by pb_id (gv_publishers g)" using ok by (simp add: governor_ok_def registry_ok_def)
  have f: "find_publisher (gv_publishers g) (fh_publisher ?h) = Some p" using p by (simp add: frame_authorised_def)
  then have "pb_id p = fh_publisher ?h" using registry.lookup_Some_iff [OF s] by blast
  then have f': "find_publisher (gv_publishers g') (fh_publisher ?h) = Some (advanced ?h now p)"
    using set_publisher_registry(4) [OF s, of "advanced ?h now p" p] f g' by simp
  have "governor_ok g'" using admit_ok [OF a ok] .
  from governor_steps_advance [OF run this] have ok'': "governor_ok g''" and adv: "authority_advances g' g''" by blast+
  from admit_accepted [OF ok'' a' t] obtain q where q: "frame_authorised ?h g'' q" by metis
  then have "gv_epoch g'' = gv_epoch g'" using p g'(2) by (simp add: frame_authorised_def)
  then have "publisher_advances (gv_epoch g') (advanced ?h now p) q"
    using adv f' q by (fastforce simp: authority_advances_def frame_authorised_def)
  then show False using p q g'(2) by (auto simp: publisher_advances_def frame_authorised_def)
qed

lemma admit_refused:
  assumes ok: "governor_ok g" and a: "admit frame now g = (Inl e, g')"
  shows "\<exists>m s. g' = g\<lparr>gv_snapshots := s, gv_metrics := m\<rparr> \<and>
    (s = gv_snapshots g \<or> (\<exists>n. install_payload frame (gv_snapshots g) = Inr (n, s) \<and> verify_references s = Inl e))"
proof -
  let ?g = "counted [mt_frames_received_update] g"
  have undo: "?g\<lparr>gv_metrics := m\<rparr> = g\<lparr>gv_snapshots := gv_snapshots g, gv_metrics := m\<rparr>"
    "?g\<lparr>gv_snapshots := s, gv_metrics := m\<rparr> = g\<lparr>gv_snapshots := s, gv_metrics := m\<rparr>" for m s
    by (simp_all add: counted_def)
  have kept: ?thesis if "g' = ?g\<lparr>gv_metrics := m\<rparr>" for m using that undo(1) by blast
  show ?thesis
  proof (cases "verify_payload (fr_header frame) (fr_payload frame)")
    case (Inl x)
    then have "(refuse x [mt_frames_malformed_update] ?g :: AdmissionReport result \<times> Governor) = (Inl e, g')" using a by (simp add: admit_def Let_def)
    then show ?thesis using kept by (blast dest: refuse_cases)
  next
    case (Inr u)
    show ?thesis
    proof (cases "fh_type (fr_header frame) = MT_Heartbeat")
      case True
      then have "admit_heartbeat frame now ?g = (Inl e, g')" using a Inr by (simp add: admit_def Let_def)
      then show ?thesis by (rule admit_heartbeat_cases) (use kept in auto)
    next
      case False
      then have "admit_stream frame now ?g = (Inl e, g')" using a Inr by (simp add: admit_def Let_def)
      from this governor_ok_counted [THEN iffD2, OF ok] show ?thesis
      proof (cases rule: admit_stream_cases)
        case (refused x m)
        then show ?thesis using kept by blast
      next
        case (unresolved x n s m)
        then have "g' = g\<lparr>gv_snapshots := s, gv_metrics := m\<rparr>" "install_payload frame (gv_snapshots g) = Inr (n, s)"
          "verify_references s = Inl e" using undo(2) by simp_all
        then show ?thesis by blast
      qed simp
    qed
  qed
qed

text \<open>
  A frame whose snapshot does not resolve against the live topology is refused, but its snapshot
  has already replaced the live one.
\<close>

lemma refused_snapshot_installed:
  assumes "governor_ok g" and "frame_authorised (fr_header frame) g p" and "fh_type (fr_header frame) \<noteq> MT_Heartbeat"
    and "verify_payload (fr_header frame) (fr_payload frame) = Inr ()"
    and "install_payload frame (gv_snapshots g) = Inr (n, s)" and "verify_references s = Inl e"
  shows "\<exists>g'. admit frame now g = (Inl e, g') \<and> gv_snapshots g' = s"
proof -
  let ?g = "counted [mt_frames_received_update] g"
  have "admitted_publisher (fr_header frame) ?g = (Inr p, ?g)" using assms(1,2) by (intro frame_authorised_admitted) simp_all
  then have "admit frame now g = refuse e [] (?g\<lparr>gv_snapshots := s\<rparr>)"
    using assms(3-6) by (simp add: admit_stream_frame admit_stream_def Let_def)
  then show ?thesis by (simp add: refuse_def)
qed

section \<open>Epochs across restarts\<close>

lemma length_w_list: "length (w_list put xs) = 4 + sum_list (map (length \<circ> put) xs)"
  by (simp add: w_list_def length_concat)

lemma durable_candidate_encoding:
  "length (encode_durable_state (durable_candidate boot epoch now st g)) = length (encode_durable_state (gv_durable g))"
  "durable_ok (gv_durable g) \<Longrightarrow> millis_ok now \<Longrightarrow> durable_ok (durable_candidate boot epoch now st g)"
  by (simp_all add: encode_durable_state_def durable_candidate_def length_w_list durable_ok_def validate_state_ok)

lemma next_id_above: "i \<noteq> - 1 \<Longrightarrow> i < next_id i"
proof -
  assume i: "i \<noteq> - 1"
  have "unat (- 1 :: u64) = 2 ^ 64 - 1" by (simp add: unsigned_minus_1_eq_mask mask_eq_exp_minus_1)
  then have "unat i + 1 < 2 ^ 64" using i unat_bound [of i] by (simp add: word_unat_eq_iff)
  then show "i < next_id i" using i by (simp add: next_id_def word_less_nat_alt unat_word_ariths)
qed

text \<open>The store that acknowledged an epoch recovers it.\<close>

lemma installed_epoch_durable:
  assumes i: "install_epoch epoch boot now g = (Inr (), g')" and st: "gv_store g = Some st" and q: "store_holds old left st"
    and d: "durable_ok (gv_durable g)" "millis_ok now"
    and l: "kSnapshotHeaderBytes + length (encode_durable_state (gv_durable g)) \<le> st_max_bytes st" "st_max_bytes st \<le> kMaxDurableBytes"
  shows "\<exists>st' rc st''. gv_store g' = Some st' \<and> st_max_bytes st' = st_max_bytes st \<and>
    st_max_journal_records st' = st_max_journal_records st \<and> reopen st' = (Inr rc, st'') \<and> rc_last_epoch rc = epoch \<and> valid_id epoch"
proof -
  have v: "valid_id epoch" and ord: "valid_id (gv_epoch g) \<Longrightarrow> gv_epoch g \<le> epoch"
    using i by (auto simp: install_epoch_def split: if_splits)
  define nb where "nb = (if valid_id boot then boot else gv_boot g)"
  define cand where "cand = durable_candidate nb epoch now st g"
  define recs where "recs = [\<lparr>jr_type = JT_EpochAdvance, jr_sequence = 0, jr_at = now, jr_payload = w_u64 epoch @ w_u64 nb @ w_i64 now\<rparr>]"
  obtain r st' where c: "store_commit cand recs st = (r, st')" by fastforce
  have cc: "commit_candidate nb epoch now JT_EpochAdvance (w_u64 epoch @ w_u64 nb @ w_i64 now) g =
      (r, if r = Inr () then g\<lparr>gv_store := Some st', gv_durable := cand\<rparr> else g\<lparr>gv_store := Some st'\<rparr>)"
    using st c by (cases r) (simp_all add: commit_candidate_def Let_def cand_def recs_def)
  from install_epoch_commit [OF v ord nb_def cc] i have r: "r = Inr ()" and g': "gv_store g' = Some st'"
    by (auto simp: counted_def split: if_splits)
  have recs: "list_all journal_record_ok recs"
    using d(2) by (simp add: recs_def journal_record_ok_def jt_ok_def jt_of_def kMaxJournalRecordBytes_def)
  have "durable_ok cand" "kSnapshotHeaderBytes + length (encode_durable_state cand) \<le> st_max_bytes st"
    using durable_candidate_encoding d l(1) by (simp_all add: cand_def)
  from store_commit_atomic [OF q recs this l(2) c] r obtain rc st'' where
    "reopen st' = (Inr rc, st'')" "rc_last_epoch rc = ds_epoch cand" by (auto simp: Let_def)
  then show ?thesis using g' v store_commit_cases [OF q recs c] by (auto simp: cand_def durable_candidate_def commit_outcome_def)
qed

lemma recover_reopened:
  assumes c: "gc_store c = Some (st_max_bytes st, st_max_journal_records st)" and o: "reopen st = (Inr rc, st'')"
  shows "\<exists>g. governor_recover pid counter \<lparr>dk_files = dk_files (st_disk st), dk_io = []\<rparr> now (new_governor c) = (Inr (), g) \<and>
    gv_publishers g = [] \<and> gv_snapshots g = no_snapshots \<and>
    (valid_id (rc_last_epoch rc) \<longrightarrow> gv_epoch g = next_id (rc_last_epoch rc))"
proof -
  let ?d = "\<lparr>dk_files = dk_files (st_disk st), dk_io = []\<rparr>"
  obtain r1 st1 where s: "store_open (new_store (st_max_bytes st) (st_max_journal_records st) ?d) = (r1, st1)" by fastforce
  then have r1: "r1 = Inr ()" and v: "store_recover st1 = (Inr rc, st'')"
    using o by (cases r1; simp add: reopen_def reboot_def)+
  obtain g where g: "governor_recover pid counter ?d now (new_governor c) = (Inr (), g)"
    using s r1 v c by (simp add: governor_recover_def Let_def new_governor_def)
  from governor_recover_cases [OF g] c s r1 v show ?thesis using g by auto
qed

text \<open>
  A snapshot that is there but cannot be read does not stop a restart: the governor starts at its
  configured epoch, below the epochs the damaged file recorded.
\<close>

lemma unreadable_snapshot_restarts:
  assumes "gc_store c = Some (mb, mr)" and "store_open (new_store mb mr disk) = (Inr (), st)"
    and "file_exists SnapshotFile (st_disk st)" and "read_snapshot st = ((Inl e, n, m), st')"
  shows "\<exists>g. governor_recover pid counter disk now (new_governor c) = (Inr (), g) \<and>
    gv_epoch g = (if valid_id (gc_initial_epoch c) then gc_initial_epoch c else 1)"
proof -
  have "st_opened st" using assms(2)
    by (auto simp: store_open_def bind_op_def Let_def new_store_def split: if_splits prod.splits sum.splits)
  then show ?thesis using assms
    by (simp add: governor_recover_def Let_def store_recover_def no_recovery_def valid_id_def new_governor_def counted_def)
qed

section \<open>Properties\<close>

text \<open>C31: the governor's invariant. Whatever operations ran in whatever order, the registry is
  strictly sorted and bounded, a live publisher belongs to the installed epoch, the durable history
  is within its bounds, and the evidence an evaluation would use is well formed, so that the
  guarantees of detection and planning apply to every decision of the governor.\<close>

theorem governor_invariant:
  assumes "governor_reachable g"
  shows "strictly_sorted_by pb_id (gv_publishers g) \<and> length (gv_publishers g) \<le> kMaxPublishers \<and>
    (\<forall>p \<in> set (gv_publishers g). valid_id (pb_id p) \<and> (pb_alive p \<longrightarrow> pb_epoch p = gv_epoch g)) \<and>
    length (ds_hotspots (gv_durable g)) \<le> kMaxHotspots \<and> length (ds_interventions (gv_durable g)) \<le> kMaxHotspots * 4 \<and>
    (\<forall>now. now \<noteq> kNoTime \<longrightarrow> input_ok (evaluation_input now g))"
  using governor_reachable_ok [OF assms]
  by (auto simp: governor_ok_def registry_ok_def publisher_ok_def durable_bounded_def snapshots_ok_def input_ok_def
      evaluation_input_def Let_def)

text \<open>A governor with one live publisher, for the examples.\<close>

definition example_config :: GovernorConfig where
  "example_config = \<lparr>gc_node_name = ''edge'', gc_initial_epoch = 0, gc_worker_threads = 2, gc_queue_capacity = 256,
     gc_store = None, gc_drop_evidence_on_publisher_death = False, gc_max_history = 4096\<rparr>"

definition example_hello :: HelloPayload where
  "example_hello = \<lparr>he_publisher = 7, he_incarnation = 2, he_boot = 9, he_protocol_version = 1, he_name = ''edge''\<rparr>"

definition example_governor :: Governor where
  "example_governor = snd (register_publisher example_hello 20 (snd (install_epoch 1 5 10 (new_governor example_config))))"

lemma example_governor_publishers:
  "gv_publishers example_governor = [fresh_publisher example_hello 1 20]" "gv_epoch example_governor = 1"
  "gv_snapshots example_governor = no_snapshots"
  by (simp_all add: example_governor_def install_epoch_def commit_candidate_def new_governor_def example_config_def example_hello_def
      valid_id_def register_publisher_def find_publisher_def find_sorted_def lower_bound_def insert_publisher_def kMaxPublishers_def
      counted_def Let_def)

lemma example_governor_reachable: "governor_reachable example_governor"
proof -
  obtain r g where i: "install_epoch 1 5 10 (new_governor example_config) = (r, g)" by fastforce
  obtain r' g' where e: "register_publisher example_hello 20 g = (r', g')" by fastforce
  have "governor_reachable g'" using steps [OF steps [OF created step_install [OF i]] step_register [OF e]] .
  then show ?thesis using i e by (simp add: example_governor_def)
qed

theorem governor_invariant_witness:
  "length (gv_publishers example_governor) = 1 \<and> input_ok (evaluation_input 30 example_governor)"
  using governor_invariant [OF example_governor_reachable] example_governor_publishers(1) by (simp add: kNoTime_def)

text \<open>C10: an accepted frame has authority, and has it once. A stream frame is accepted only from the
  registered, live incarnation of its publisher under the installed epoch, with a payload that
  verifies, a sequence above the last one and a generation above the live one of its stream. The
  acceptance advances exactly that publisher's bookkeeping. The same frame is a duplicate directly
  afterwards, and it is refused in every state the governor reaches from there, whatever epochs,
  handshakes, deaths, frames, evaluations and commits lie between.\<close>

theorem accepted_frame_fenced:
  assumes "governor_reachable g" and "admit frame now g = (Inr rep, g')" and "fh_type (fr_header frame) \<noteq> MT_Heartbeat"
  shows "\<exists>p. find_publisher (gv_publishers g) (fh_publisher (fr_header frame)) = Some p \<and> pb_alive p \<and>
    fh_epoch (fr_header frame) = gv_epoch g \<and> pb_epoch p = gv_epoch g \<and>
    fh_incarnation (fr_header frame) = pb_incarnation p \<and> fh_boot (fr_header frame) = pb_boot p \<and>
    pb_last_sequence p < fh_sequence (fr_header frame) \<and>
    pb_stream_generations p ! stream_index (stream_of (fh_type (fr_header frame))) < fh_generation (fr_header frame) \<and>
    verify_payload (fr_header frame) (fr_payload frame) = Inr () \<and>
    gv_epoch g' = gv_epoch g \<and> gv_publishers g' = set_publisher (advanced (fr_header frame) now p) (gv_publishers g) \<and>
    (\<forall>later. \<exists>g''. admit frame later g' = (Inl DuplicateFrame, g'')) \<and>
    (\<forall>g'' later. governor_step\<^sup>*\<^sup>* g' g'' \<longrightarrow> (\<exists>e g3. admit frame later g'' = (Inl e, g3)))"
proof -
  note ok = governor_reachable_ok [OF assms(1)]
  from admit_accepted [OF ok assms(2,3)] obtain p where "frame_authorised (fr_header frame) g p"
    "verify_payload (fr_header frame) (fr_payload frame) = Inr ()"
    "gv_publishers g' = set_publisher (advanced (fr_header frame) now p) (gv_publishers g)" "gv_epoch g' = gv_epoch g" by metis
  then show ?thesis using replayed_frame_refused [OF ok assms(2,3)] accepted_frame_refused_later [OF ok assms(2,3)]
    by (auto simp: frame_authorised_def)
qed

definition example_frame :: Frame where
  "example_frame = make_frame MT_Policy (no_provenance\<lparr>pv_publisher := 7, pv_incarnation := 2, pv_boot := 9, pv_epoch := 1,
     pv_sequence := 4, pv_generation := \<lparr>sg_stream = Stream_Policy, sg_value = 6\<rparr>\<rparr>) (encode_policy_payload empty_policy)"

lemma example_frame_authorised: "frame_authorised (fr_header example_frame) example_governor (fresh_publisher example_hello 1 20)"
  using example_governor_publishers
  by (simp add: frame_authorised_def example_frame_def make_frame_def stream_of_def valid_id_def find_publisher_def find_sorted_def
      lower_bound_def fresh_publisher_def example_hello_def no_generations_def kStreamCount_def stream_index_def)

lemma example_frame_admitted: "\<exists>rep g'. admit example_frame 30 example_governor = (Inr rep, g')"
proof -
  let ?p = "encode_policy_payload empty_policy"
  have "length ?p = 165" by (simp add: encode_policy_payload_def encode_stream_header_def w_thresholds_def w_budget_def w_bands_def)
  then have v: "verify_payload (fr_header example_frame) (fr_payload example_frame) = Inr ()"
    by (simp add: verify_payload_def example_frame_def make_frame_def kMaxFrameBytes_def)
  have "millis_ok (po_issued_at empty_policy)" by (simp add: empty_policy_def millis_ok_def kNoTime_def kMaxTime_def)
  from policy_roundtrip [OF this] obtain s where i: "install_payload example_frame no_snapshots = Inr (0, s)" "sn_topology s = None"
    by (auto simp: install_payload_def example_frame_def make_frame_def no_snapshots_def)
  have "verify_references s = Inr ()" using i(2) by (simp add: verify_references_def)
  moreover have t: "fh_type (fr_header example_frame) \<noteq> MT_Heartbeat" by (simp add: example_frame_def make_frame_def)
  moreover have "admitted_publisher (fr_header example_frame) (counted cs example_governor) =
      (Inr (fresh_publisher example_hello 1 20), counted cs example_governor)" for cs
    using governor_reachable_ok [OF example_governor_reachable] example_frame_authorised by (intro frame_authorised_admitted) simp_all
  ultimately show ?thesis
    using i(1) admit_stream_frame [OF t v] by (simp add: admit_stream_def Let_def example_governor_publishers accept_def)
qed

text \<open>The same incarnation dies and shakes hands again: its old frame is still refused.\<close>

theorem accepted_frame_fenced_witness:
  "\<exists>rep g' d r. admit example_frame 30 example_governor = (Inr rep, g') \<and> (\<exists>g''. admit example_frame 31 g' = (Inl DuplicateFrame, g'')) \<and>
     d = snd (note_publisher_death 7 40 g') \<and> r = snd (register_publisher example_hello 50 d) \<and>
     (\<exists>e g3. admit example_frame 60 r = (Inl e, g3))"
proof -
  obtain rep g' where a: "admit example_frame 30 example_governor = (Inr rep, g')" using example_frame_admitted by blast
  have t: "fh_type (fr_header example_frame) \<noteq> MT_Heartbeat" by (simp add: example_frame_def make_frame_def)
  obtain x d where d: "note_publisher_death 7 40 g' = (x, d)" by fastforce
  obtain y r where r: "register_publisher example_hello 50 d = (y, r)" by fastforce
  have "governor_step\<^sup>*\<^sup>* g' r" using step_death [OF d] step_register [OF r] by auto
  with accepted_frame_fenced [OF example_governor_reachable a t] a d r show ?thesis by (metis snd_conv)
qed

text \<open>C32: a refused frame changes no authority. Whatever the reason of the refusal, only counters
  change, and the evidence only when the frame's own snapshot was decoded but names a resource
  outside the live topology.\<close>

theorem refused_frame_inert:
  assumes "governor_reachable g" and "admit frame now g = (Inl e, g')"
  shows "gv_publishers g' = gv_publishers g \<and> gv_epoch g' = gv_epoch g \<and> gv_boot g' = gv_boot g \<and> gv_engine g' = gv_engine g \<and>
    gv_durable g' = gv_durable g \<and> gv_store g' = gv_store g \<and> gv_verified_topology g' = gv_verified_topology g \<and>
    gv_verified_capacity g' = gv_verified_capacity g \<and> gv_verified_signals g' = gv_verified_signals g \<and>
    gv_verified_paths g' = gv_verified_paths g \<and>
    (gv_snapshots g' = gv_snapshots g \<or>
     (\<exists>n. install_payload frame (gv_snapshots g) = Inr (n, gv_snapshots g') \<and> verify_references (gv_snapshots g') = Inl e))"
  using admit_refused [OF governor_reachable_ok [OF assms(1)] assms(2)] by auto

theorem refused_frame_inert_witness:
  "\<exists>g' g''. admit example_frame 31 g' = (Inl DuplicateFrame, g'') \<and> gv_publishers g'' = gv_publishers g'"
proof -
  obtain rep g' where a: "admit example_frame 30 example_governor = (Inr rep, g')" using example_frame_admitted by blast
  then have r: "governor_reachable g'" using example_governor_reachable step_admit steps by blast
  have "fh_type (fr_header example_frame) \<noteq> MT_Heartbeat" by (simp add: example_frame_def make_frame_def)
  from replayed_frame_refused [OF governor_reachable_ok [OF example_governor_reachable] a this] obtain g'' where
    d: "admit example_frame 31 g' = (Inl DuplicateFrame, g'')" by blast
  from refused_frame_inert [OF r d] d show ?thesis by blast
qed

text \<open>C33: a restart fences every earlier epoch. The governor's store holds a readable snapshot or none and any
  whole records a crash left in its journal, as every restart and every acknowledged commit leave it, and
  the durable state leaves room for the 32 bytes of the snapshot header below the store's bound. Then an
  epoch that was installed and acknowledged is on disk: a governor recovered from those files starts with
  an empty registry and no evidence at the next epoch, above the acknowledged one unless that is the last
  of the 64-bit epochs, where the increment saturates.\<close>

theorem restart_advances_epoch:
  assumes "install_epoch epoch boot now g = (Inr (), g')" and "gv_store g = Some st" and "store_holds old left st"
    and "durable_ok (gv_durable g)" and "millis_ok now"
    and "kSnapshotHeaderBytes + length (encode_durable_state (gv_durable g)) \<le> st_max_bytes st" and "st_max_bytes st \<le> kMaxDurableBytes"
    and "gc_store c = Some (st_max_bytes st, st_max_journal_records st)"
  shows "\<exists>st' g2. gv_store g' = Some st' \<and>
    governor_recover pid counter \<lparr>dk_files = dk_files (st_disk st'), dk_io = []\<rparr> later (new_governor c) = (Inr (), g2) \<and>
    gv_epoch g2 = next_id epoch \<and> (epoch \<noteq> - 1 \<longrightarrow> epoch < gv_epoch g2) \<and> gv_publishers g2 = [] \<and> gv_snapshots g2 = no_snapshots"
proof -
  from installed_epoch_durable [OF assms(1-7)] obtain st' rc st'' where s: "gv_store g' = Some st'" "st_max_bytes st' = st_max_bytes st"
    "st_max_journal_records st' = st_max_journal_records st" "reopen st' = (Inr rc, st'')" "rc_last_epoch rc = epoch" "valid_id epoch" by blast
  have "gc_store c = Some (st_max_bytes st', st_max_journal_records st')" using assms(8) s(2,3) by simp
  from recover_reopened [OF this s(4), of pid counter later] s(1,5,6) next_id_above [of epoch] show ?thesis by auto
qed

theorem restart_advances_epoch_witness:
  "\<exists>g' st' g2. install_epoch 3 5 10 ((new_governor example_config)\<lparr>gv_epoch := 2,
       gv_store := Some \<lparr>st_max_bytes = 1000, st_max_journal_records = 10, st_journal = (new_journal 1000)\<lparr>jn_open := True\<rparr>,
         st_disk = \<lparr>dk_files = [JournalFile \<mapsto> []], dk_io = []\<rparr>, st_opened = True\<rparr>\<rparr>) = (Inr (), g') \<and> gv_store g' = Some st' \<and>
     governor_recover 1 1 \<lparr>dk_files = dk_files (st_disk st'), dk_io = []\<rparr> 99
       (new_governor (example_config\<lparr>gc_store := Some (1000, 10)\<rparr>)) = (Inr (), g2) \<and> gv_epoch g2 = 4"
proof -
  let ?st = "\<lparr>st_max_bytes = 1000, st_max_journal_records = 10, st_journal = (new_journal 1000)\<lparr>jn_open := True\<rparr>,
         st_disk = \<lparr>dk_files = [JournalFile \<mapsto> []], dk_io = []\<rparr>, st_opened = True\<rparr>"
  let ?g = "(new_governor example_config)\<lparr>gv_epoch := 2, gv_store := Some ?st\<rparr>"
  have q: "store_rests None ?st" by (simp add: store_rests_def new_journal_def)
  have d: "durable_ok (gv_durable ?g)"
    by (simp add: new_governor_def durable_ok_def validate_state_ok no_durable_def millis_ok_def kNoTime_def kMaxTime_def)
  have l: "length (encode_durable_state (gv_durable ?g)) = 52" by (simp add: new_governor_def encode_durable_state_def no_durable_def w_list_def)
  have m: "millis_ok 10" by (simp add: millis_ok_def kNoTime_def kMaxTime_def)
  let ?c = "durable_candidate 5 3 10 ?st ?g"
  let ?r = "[\<lparr>jr_type = JT_EpochAdvance, jr_sequence = 0, jr_at = 10, jr_payload = w_u64 3 @ w_u64 5 @ w_i64 10\<rparr>]"
  have "\<exists>st'. store_commit ?c ?r ?st = (Inr (), st')"
    using q durable_candidate_encoding(2) [OF d m, of 5 3 ?st] durable_candidate_encoding(1) [of 5 3 10 ?st ?g] l m
    by (intro store_commit_completes [where old = None])
      (simp_all add: durable_ok_def journal_record_ok_def jt_ok_def jt_of_def kMaxJournalRecordBytes_def length_encode_journal_record
        kJournalHeaderBytes_def)
  then obtain g1 where "commit_candidate 5 3 10 JT_EpochAdvance (w_u64 3 @ w_u64 5 @ w_i64 10) ?g = (Inr (), g1)"
    by (auto simp: commit_candidate_def Let_def)
  from install_epoch_commit [OF _ _ _ this, of 5] obtain g' where i: "install_epoch 3 5 10 ?g = (Inr (), g')"
    by (auto simp: valid_id_def)
  from restart_advances_epoch [OF i _ q [unfolded store_rests_holds] d m, of "example_config\<lparr>gc_store := Some (1000, 10)\<rparr>" 1 1 99] l i show ?thesis
    by (auto simp: kSnapshotHeaderBytes_def kMaxDurableBytes_def next_id_def)
qed

end
