(* ===== verification/HGM_Transport.thy ===== *)
theory HGM_Transport
  imports HGM_Frame HGM_Disk
begin

text \<open>
  Framing over sockets (\<^verbatim>\<open>include/hgm/transport.hpp\<close>, \<^verbatim>\<open>src/transport.cpp\<close>): \<open>send_bytes\<close>,
  \<open>send_frame\<close>, \<open>recv_exact\<close> and \<open>receive_frame\<close>. What the operating system answers to each
  \<open>send\<close> and \<open>recv\<close> call is an input, kept in the socket: a stream socket may cut the bytes
  anywhere, time out or fail at any call. Sockets and listeners as
  owners of handles are the subject of \<^verbatim>\<open>HGM_Handles\<close>.
\<close>

section \<open>Sockets\<close>

text \<open>
  An answer to \<open>recv\<close>: bytes, where none is an end of file, a time-out or an error. A \<open>recv\<close>
  never takes more than it asked for; the bytes it leaves answer the next call. After the recorded
  answers nothing more arrives within the receive time-out.
\<close>

datatype RecvAnswer = RA_Bytes bytes | RA_WouldBlock | RA_Error

text \<open>An answer to \<open>send\<close>: how many bytes it takes, at least one and at most what is offered, or a failure.\<close>

datatype SendAnswer = SA_Took nat | SA_WouldBlock | SA_Error

record Socket =
  sk_open :: bool
  sk_incoming :: "RecvAnswer list"
  sk_answers :: "SendAnswer list"
  sk_sent :: bytes

definition socket_close :: "Socket \<Rightarrow> Socket" where
  "socket_close s = s\<lparr>sk_open := False\<rparr>"

definition sock_recv :: "nat \<Rightarrow> Socket \<Rightarrow> RecvAnswer \<times> Socket" where
  "sock_recv amount s =
     (case sk_incoming s of
        [] \<Rightarrow> (RA_WouldBlock, s)
      | RA_Bytes bs # as \<Rightarrow>
          (if length bs \<le> amount then (RA_Bytes bs, s\<lparr>sk_incoming := as\<rparr>)
           else (RA_Bytes (take amount bs), s\<lparr>sk_incoming := RA_Bytes (drop amount bs) # as\<rparr>))
      | a # as \<Rightarrow> (a, s\<lparr>sk_incoming := as\<rparr>))"

definition kSocketChunk :: nat where "kSocketChunk = 2 ^ 20"

section \<open>Sending\<close>

function send_loop :: "bytes \<Rightarrow> Socket \<Rightarrow> unit result \<times> Socket" where
  "send_loop bytes s =
     (if bytes = [] then (Inr (), s)
      else case sk_answers s of
        [] \<Rightarrow> (Inl Timeout, s)
      | SA_WouldBlock # as \<Rightarrow> (Inl Timeout, s\<lparr>sk_answers := as\<rparr>)
      | SA_Error # as \<Rightarrow> (Inl ConnectionClosed, s\<lparr>sk_answers := as\<rparr>)
      | SA_Took n # as \<Rightarrow>
          let written = min (max 1 n) (min (length bytes) kSocketChunk)
          in send_loop (drop written bytes) (s\<lparr>sk_answers := as, sk_sent := sk_sent s @ take written bytes\<rparr>))"
  by pat_completeness auto
termination by (relation "measure (\<lambda>(_, s). length (sk_answers s))") auto

declare send_loop.simps [simp del]

definition send_bytes :: "bytes \<Rightarrow> Socket \<Rightarrow> unit result \<times> Socket" where
  "send_bytes bytes s = (if \<not> sk_open s then (Inl NotConnected, s) else send_loop bytes s)"

definition send_frame :: "Frame \<Rightarrow> Socket \<Rightarrow> unit result \<times> Socket" where
  "send_frame frame s = (case encode_frame frame of Inl e \<Rightarrow> (Inl e, s) | Inr bytes \<Rightarrow> send_bytes bytes s)"

section \<open>Receiving\<close>

lemma sock_recv_length: "sock_recv amount s = (RA_Bytes bs, s') \<Longrightarrow> length bs \<le> amount"
  by (auto simp: sock_recv_def split: list.splits RecvAnswer.splits if_splits)

text \<open>The bytes read into the buffer of the wanted size; on a failure what was read is lost with the buffer.\<close>

function recv_exact :: "nat \<Rightarrow> Socket \<Rightarrow> bytes result \<times> Socket" where
  "recv_exact wanted s =
     (if wanted = 0 then (Inr [], s)
      else case sock_recv (min wanted kSocketChunk) s of
        (RA_Bytes [], s) \<Rightarrow> (Inl ConnectionClosed, s)
      | (RA_Bytes (b # bs), s) \<Rightarrow>
          bind_op (recv_exact (wanted - length (b # bs)) s) (\<lambda>rest s. (Inr ((b # bs) @ rest), s))
      | (RA_WouldBlock, s) \<Rightarrow> (Inl Timeout, s)
      | (RA_Error, s) \<Rightarrow> (Inl IoError, s))"
  by pat_completeness auto
termination by (relation "measure fst") auto

declare recv_exact.simps [simp del]

definition receive_frame :: "Socket \<Rightarrow> Frame result \<times> Socket" where
  "receive_frame s =
     (if \<not> sk_open s then (Inl NotConnected, s)
      else bind_op (recv_exact kFrameHeaderBytes s) (\<lambda>header_bytes s.
        case decode_header header_bytes of
          Inl e \<Rightarrow> (Inl e, s)
        | Inr h \<Rightarrow>
            bind_op (if fh_payload_length h = 0 then (Inr [], s) else recv_exact (unat (fh_payload_length h)) s) (\<lambda>payload s.
            case verify_payload h payload of
              Inl e \<Rightarrow> (Inl e, s)
            | Inr _ \<Rightarrow> (Inr \<lparr>fr_header = h, fr_payload = payload\<rparr>, s))))"

section \<open>What arrives\<close>

text \<open>The next bytes of the stream, cut anywhere, and what comes after them.\<close>

definition delivers :: "Socket \<Rightarrow> bytes \<Rightarrow> RecvAnswer list \<Rightarrow> bool" where
  "delivers s bs rest \<longleftrightarrow> (\<exists>cs. sk_incoming s = map RA_Bytes cs @ rest \<and> [] \<notin> set cs \<and> concat cs = bs)"

lemma delivers_recv:
  assumes "delivers s bs rest" and "bs \<noteq> []" and "0 < n"
  obtains got s' where "sock_recv n s = (RA_Bytes got, s')" "got \<noteq> []" "length got \<le> n" "delivers s' (drop (length got) bs) rest"
    "take (length got) bs = got" "s' = s\<lparr>sk_incoming := sk_incoming s'\<rparr>"
proof -
  obtain c cs where c: "sk_incoming s = RA_Bytes c # map RA_Bytes cs @ rest" "c \<noteq> []" "[] \<notin> set cs" "bs = c @ concat cs"
    using assms(1,2) unfolding delivers_def by (metis (no_types, lifting) append_Cons concat.simps list.exhaust list.set_intros(1,2) list.simps(8,9))
  show thesis
  proof (cases "length c \<le> n")
    case True
    show thesis
      by (rule that [of c "s\<lparr>sk_incoming := map RA_Bytes cs @ rest\<rparr>"]) (use True c in \<open>auto simp: sock_recv_def delivers_def\<close>)
  next
    case False
    have "delivers (s\<lparr>sk_incoming := RA_Bytes (drop n c) # map RA_Bytes cs @ rest\<rparr>) (drop n bs) rest"
      unfolding delivers_def using False c by (intro exI [of _ "drop n c # cs"]) auto
    then show thesis
      by (intro that [of "take n c" "s\<lparr>sk_incoming := RA_Bytes (drop n c) # map RA_Bytes cs @ rest\<rparr>"])
         (use False c assms(3) in \<open>auto simp: sock_recv_def\<close>)
  qed
qed

lemma recv_exact_delivers:
  assumes "delivers s (xs @ later) rest"
  shows "\<exists>as. recv_exact (length xs) s = (Inr xs, s\<lparr>sk_incoming := as\<rparr>) \<and> delivers (s\<lparr>sk_incoming := as\<rparr>) later rest"
  using assms
proof (induction "length xs" arbitrary: xs s rule: less_induct)
  case less
  show ?case
  proof (cases "xs = []")
    case True
    then show ?thesis using less.prems by (intro exI [of _ "sk_incoming s"]) (simp add: recv_exact.simps [of 0])
  next
    case False
    have pos: "0 < min (length xs) kSocketChunk" using False by (simp add: kSocketChunk_def)
    obtain got s' where r: "sock_recv (min (length xs) kSocketChunk) s = (RA_Bytes got, s')" "got \<noteq> []"
      "length got \<le> min (length xs) kSocketChunk" "delivers s' (drop (length got) (xs @ later)) rest"
      "take (length got) (xs @ later) = got" "s' = s\<lparr>sk_incoming := sk_incoming s'\<rparr>"
      using delivers_recv [OF less.prems _ pos] False by (metis Nil_is_append_conv)
    let ?ys = "drop (length got) xs"
    have xs: "got @ ?ys = xs" using r(3,5) by (metis append_take_drop_id min.boundedE take_append diff_is_0_eq' take_0 append_Nil2)
    have "delivers s' (?ys @ later) rest" using r(3,4) by simp
    then obtain as where as: "recv_exact (length ?ys) s' = (Inr ?ys, s'\<lparr>sk_incoming := as\<rparr>)"
        "delivers (s'\<lparr>sk_incoming := as\<rparr>) later rest"
      using less.hyps [of ?ys s'] r(2) False by auto
    have s': "s'\<lparr>sk_incoming := as\<rparr> = s\<lparr>sk_incoming := as\<rparr>" by (subst r(6)) simp
    obtain b bs where got: "got = b # bs" using r(2) by (cases got) auto
    have "recv_exact (length xs) s = (Inr (got @ ?ys), s\<lparr>sk_incoming := as\<rparr>)"
      using False as(1) r(1) by (subst recv_exact.simps) (simp add: got s')
    then show ?thesis using as(2) xs s' by auto
  qed
qed

section \<open>Frames over a stream\<close>

text \<open>The frame the other side sees: the header as \<open>encode_frame\<close> fills it in.\<close>

definition as_sent :: "Frame \<Rightarrow> Frame" where
  "as_sent frame =
     (let h = (fr_header frame)\<lparr>fh_version := 1, fh_payload_length := word_of_nat (length (fr_payload frame)),
                fh_payload_crc := crc64 (fr_payload frame)\<rparr>
      in \<lparr>fr_header = h\<lparr>fh_header_crc := crc64 (encode_header_fields h)\<rparr>, fr_payload = fr_payload frame\<rparr>)"

definition sendable :: "Frame \<Rightarrow> bool" where
  "sendable frame \<longleftrightarrow> fh_version (fr_header frame) \<in> {0, 1} \<and> mt_ok (fh_type (fr_header frame)) \<and>
     millis_ok (fh_emitted_at (fr_header frame))"

lemma send_loop_ok: "send_loop bs s = (Inr (), s') \<Longrightarrow> sk_sent s' = sk_sent s @ bs \<and> sk_open s' = sk_open s"
proof (induction bs s rule: send_loop.induct)
  case (1 bs s)
  show ?case
  proof (cases "bs = [] \<or> sk_answers s = []")
    case True
    then show ?thesis using "1.prems" by (auto simp: send_loop.simps [of bs] split: if_splits)
  next
    case False
    then obtain a as where a: "sk_answers s = a # as" "bs \<noteq> []" by (cases "sk_answers s") auto
    show ?thesis
    proof (cases a)
      case (SA_Took n)
      then show ?thesis using "1.prems" "1.IH" [OF a(2) a(1)] a by (simp add: send_loop.simps [of bs] Let_def)
    qed (use "1.prems" a in \<open>simp_all add: send_loop.simps [of bs]\<close>)
  qed
qed

lemma send_frame_ok:
  assumes "send_frame frame s = (Inr (), s')"
  obtains bs where "encode_frame frame = Inr bs" "sk_sent s' = sk_sent s @ bs" "sk_open s'"
proof -
  obtain bs where bs: "encode_frame frame = Inr bs" "send_bytes bs s = (Inr (), s')"
    using assms by (auto simp: send_frame_def split: sum.splits)
  then have "sk_open s" "send_loop bs s = (Inr (), s')" by (auto simp: send_bytes_def split: if_splits)
  with send_loop_ok show thesis using that bs(1) by blast
qed

text \<open>Reading a frame from any cutting of its bytes.\<close>

lemma receive_frame_delivers:
  assumes enc: "encode_frame frame = Inr bs" and ok: "sendable frame" and op: "sk_open s" and d: "delivers s (bs @ later) rest"
  shows "\<exists>as. receive_frame s = (Inr (as_sent frame), s\<lparr>sk_incoming := as\<rparr>) \<and> delivers (s\<lparr>sk_incoming := as\<rparr>) later rest"
proof -
  let ?p = "fr_payload frame"
  define h where "h = (fr_header frame)\<lparr>fh_version := 1, fh_payload_length := word_of_nat (length ?p), fh_payload_crc := crc64 ?p\<rparr>"
  have len: "length ?p \<le> kMaxFrameBytes" and bs: "bs = encode_header h @ ?p"
    using enc ok by (cases "fr_header frame";
        auto simp: encode_frame_def bind_result_Inr_iff Let_def h_def sendable_def kFrameProtocolVersion_def split: if_splits)+
  have n: "unat (fh_payload_length h) = length ?p"
    using len by (simp add: h_def) (rule unat_length32, simp add: kMaxFrameBytes_def)
  have hok: "header_ok h" using ok len n by (simp add: header_ok_def h_def sendable_def)
  let ?h = "h\<lparr>fh_header_crc := crc64 (encode_header_fields h)\<rparr>"
  have sent: "as_sent frame = \<lparr>fr_header = ?h, fr_payload = ?p\<rparr>" by (simp add: as_sent_def h_def Let_def)
  have v: "verify_payload ?h ?p = Inr ()" using len n by (simp add: verify_payload_def) (simp add: h_def)
  obtain as where a: "recv_exact kFrameHeaderBytes s = (Inr (encode_header h), s\<lparr>sk_incoming := as\<rparr>)"
    "delivers (s\<lparr>sk_incoming := as\<rparr>) (?p @ later) rest"
    using recv_exact_delivers [of s "encode_header h"] d by (auto simp: bs length_encode_header)
  have dec: "decode_header (encode_header h) = Inr ?h" using decode_encode_header [OF hok, of "[]"] by simp
  obtain as' where a': "recv_exact (length ?p) (s\<lparr>sk_incoming := as\<rparr>) = (Inr ?p, s\<lparr>sk_incoming := as'\<rparr>)"
    "delivers (s\<lparr>sk_incoming := as'\<rparr>) later rest"
    using recv_exact_delivers [OF a(2)] by auto
  have pay: "(if fh_payload_length ?h = 0 then (Inr [], s\<lparr>sk_incoming := as\<rparr>)
      else recv_exact (unat (fh_payload_length ?h)) (s\<lparr>sk_incoming := as\<rparr>)) = (Inr ?p, s\<lparr>sk_incoming := as'\<rparr>)"
  proof (cases "?p = []")
    case True
    then show ?thesis using a'(1) by (simp add: h_def recv_exact.simps [of 0])
  next
    case False
    then have "fh_payload_length h \<noteq> 0" using n by (metis length_0_conv unat_0)
    then show ?thesis using a'(1) n by simp
  qed
  have "receive_frame s = (Inr (as_sent frame), s\<lparr>sk_incoming := as'\<rparr>)"
    unfolding receive_frame_def sent using op a(1) dec pay v by simp
  then show ?thesis using a'(2) by blast
qed

text \<open>The frames of one sender, and the receiver's loop over them.\<close>

fun send_frames :: "Frame list \<Rightarrow> Socket \<Rightarrow> unit result \<times> Socket" where
  "send_frames [] s = (Inr (), s)"
| "send_frames (f # fs) s = bind_op (send_frame f s) (\<lambda>_ s. send_frames fs s)"

fun receive_frames :: "nat \<Rightarrow> Socket \<Rightarrow> Frame list result \<times> Socket" where
  "receive_frames 0 s = (Inr [], s)"
| "receive_frames (Suc n) s = bind_op (receive_frame s) (\<lambda>f s. bind_op (receive_frames n s) (\<lambda>fs s. (Inr (f # fs), s)))"

lemma send_frames_ok:
  "send_frames fs s = (Inr (), s') \<Longrightarrow> \<exists>bss. list_all2 (\<lambda>f bs. encode_frame f = Inr bs) fs bss \<and> sk_sent s' = sk_sent s @ concat bss"
proof (induction fs arbitrary: s)
  case (Cons f fs)
  then obtain s1 where s1: "send_frame f s = (Inr (), s1)" "send_frames fs s1 = (Inr (), s')"
    by (cases "send_frame f s") (auto simp: bind_op_def split: sum.splits)
  from send_frame_ok [OF s1(1)] obtain bs where "encode_frame f = Inr bs" "sk_sent s1 = sk_sent s @ bs" by blast
  moreover obtain bss where "list_all2 (\<lambda>f bs. encode_frame f = Inr bs) fs bss" "sk_sent s' = sk_sent s1 @ concat bss"
    using Cons.IH [OF s1(2)] by blast
  ultimately show ?case by (intro exI [of _ "bs # bss"]) simp
qed simp

lemma receive_frames_delivers:
  assumes "list_all2 (\<lambda>f bs. encode_frame f = Inr bs) fs bss" and "list_all sendable fs" and "sk_open s"
    and "delivers s (concat bss @ later) rest"
  shows "\<exists>as. receive_frames (length fs) s = (Inr (map as_sent fs), s\<lparr>sk_incoming := as\<rparr>) \<and> delivers (s\<lparr>sk_incoming := as\<rparr>) later rest"
  using assms
proof (induction fs bss arbitrary: s rule: list_all2_induct)
  case Nil
  then show ?case by (intro exI [of _ "sk_incoming s"]) simp
next
  case (Cons f fs bs bss)
  obtain as where as: "receive_frame s = (Inr (as_sent f), s\<lparr>sk_incoming := as\<rparr>)" "delivers (s\<lparr>sk_incoming := as\<rparr>) (concat bss @ later) rest"
    using receive_frame_delivers [of f bs s "concat bss @ later"] Cons by auto
  from Cons.IH [OF _ _ as(2)] obtain as' where
    "receive_frames (length fs) (s\<lparr>sk_incoming := as\<rparr>) = (Inr (map as_sent fs), s\<lparr>sk_incoming := as'\<rparr>)"
    "delivers (s\<lparr>sk_incoming := as'\<rparr>) later rest" using Cons.prems by auto
  then show ?case using as(1) by auto
qed

text \<open>
  A time-out inside a frame loses what was read of it: the next read starts in the middle of the
  frame.
\<close>

lemma timeout_inside_header:
  assumes "sk_open s" and "bs \<noteq> []" and "length bs < kFrameHeaderBytes" and "sk_incoming s = RA_Bytes bs # RA_WouldBlock # rest"
  shows "receive_frame s = (Inl Timeout, s\<lparr>sk_incoming := rest\<rparr>)"
proof -
  obtain b cs where bs: "bs = b # cs" using assms(2) by (cases bs) auto
  have 1: "sock_recv (min kFrameHeaderBytes kSocketChunk) s = (RA_Bytes bs, s\<lparr>sk_incoming := RA_WouldBlock # rest\<rparr>)"
    using assms by (simp add: sock_recv_def kSocketChunk_def kFrameHeaderBytes_def)
  have 2: "recv_exact n (s\<lparr>sk_incoming := RA_WouldBlock # rest\<rparr>) = (Inl Timeout, s\<lparr>sk_incoming := rest\<rparr>)" if "0 < n" for n
    using that by (subst recv_exact.simps) (simp add: sock_recv_def)
  have "recv_exact kFrameHeaderBytes s = (Inl Timeout, s\<lparr>sk_incoming := rest\<rparr>)"
    using 1 2 assms(3) by (subst recv_exact.simps) (simp add: bs kFrameHeaderBytes_def)
  then show ?thesis using assms(1) by (simp add: receive_frame_def)
qed

section \<open>Properties\<close>

text \<open>C35: frames survive the stream. However the network cuts the bytes, a receiver that reads while
  they arrive gets exactly the frames a sender has sent, in order, with the header as \<open>encode_frame\<close>
  filled it in, and has consumed exactly their bytes: what follows on the stream is untouched.\<close>

theorem frames_over_stream:
  assumes "send_frames fs a = (Inr (), a')" and "sk_sent a = []" and "list_all sendable fs"
    and "sk_open b" and "sk_incoming b = map RA_Bytes cs @ rest" and "[] \<notin> set cs" and "concat cs = sk_sent a' @ later"
  shows "\<exists>ds. receive_frames (length fs) b = (Inr (map as_sent fs), b\<lparr>sk_incoming := map RA_Bytes ds @ rest\<rparr>) \<and>
    [] \<notin> set ds \<and> concat ds = later"
proof -
  obtain bss where bss: "list_all2 (\<lambda>f bs. encode_frame f = Inr bs) fs bss" "sk_sent a' = concat bss"
    using send_frames_ok [OF assms(1)] assms(2) by auto
  have "delivers b (concat bss @ later) rest" using assms(5-7) bss(2) unfolding delivers_def by metis
  from receive_frames_delivers [OF bss(1) assms(3,4) this] show ?thesis by (auto simp: delivers_def)
qed

theorem frames_over_stream_witness:
  "\<exists>fs a' b. send_frames fs \<lparr>sk_open = True, sk_incoming = [], sk_answers = [SA_Took 30, SA_Took 200], sk_sent = []\<rparr> = (Inr (), a') \<and>
     length (sk_incoming b) = 89 \<and> receive_frames 1 b = (Inr (map as_sent fs), b\<lparr>sk_incoming := []\<rparr>)"
proof -
  let ?f = "make_frame MT_Heartbeat no_provenance [5]"
  let ?a = "\<lparr>sk_open = True, sk_incoming = [], sk_answers = [SA_Took 30, SA_Took 200], sk_sent = []\<rparr>"
  define bs where "bs = encode_header (fr_header ?f) @ [5]"
  have len: "length bs = 89" by (simp add: bs_def length_encode_header kFrameHeaderBytes_def)
  have enc: "encode_frame ?f = Inr bs"
    by (simp add: encode_frame_def make_frame_def kMaxFrameBytes_def Let_def bs_def kFrameProtocolVersion_def)
  have sent: "send_frames [?f] ?a = (Inr (), ?a\<lparr>sk_answers := [], sk_sent := bs\<rparr>)"
    using len by (simp add: send_frame_def send_bytes_def enc send_loop.simps kSocketChunk_def flip: length_greater_0_conv)
  let ?cs = "map (\<lambda>b. [b]) bs"
  have cut: "concat ?cs = bs" by (induction bs) auto
  have ok: "list_all sendable [?f]"
    by (simp add: sendable_def make_frame_def kFrameProtocolVersion_def mt_ok_def mt_of_def no_provenance_def
        millis_ok_def kNoTime_def kMaxTime_def)
  have "\<exists>ds. receive_frames (length [?f]) (?a\<lparr>sk_incoming := map RA_Bytes ?cs\<rparr>) =
      (Inr (map as_sent [?f]), ?a\<lparr>sk_incoming := map RA_Bytes ?cs\<rparr>\<lparr>sk_incoming := map RA_Bytes ds @ []\<rparr>) \<and>
      [] \<notin> set ds \<and> concat ds = []"
    by (rule frames_over_stream [OF sent _ ok, where cs = ?cs]) (use cut in auto)
  then obtain ds where ds: "receive_frames 1 (?a\<lparr>sk_incoming := map RA_Bytes ?cs\<rparr>) =
      (Inr (map as_sent [?f]), ?a\<lparr>sk_incoming := map RA_Bytes ds\<rparr>)" "[] \<notin> set ds" "concat ds = []" by auto
  have "ds = []" using ds(2,3) by (cases ds) auto
  then show ?thesis using sent ds(1) len by (intro exI [of _ "[?f]"] exI [of _ "?a\<lparr>sk_incoming := map RA_Bytes ?cs\<rparr>"] exI) auto
qed

end
