(* ===== verification/HGM_Coordinator.thy ===== *)
theory HGM_Coordinator
  imports HGM_Fencing HGM_Transport "HOL-Library.AList"
begin

text \<open>
  The coordinator (\<^verbatim>\<open>include/hgm/coordinator.hpp\<close>, \<^verbatim>\<open>src/coordinator.cpp\<close>): the accept loop, the
  session of a connection, starting and stopping, over the governor and the framing of sockets.
  One iteration of a loop is one step; between the steps of one connection the other connections,
  the accept loop and the other callers of the governor run in any order. The texts that
  accompany a status are arguments, and so are the time and the sockets the listener hands out.
\<close>

section \<open>State\<close>

record Connection =
  cn_socket :: Socket
  cn_stopping :: bool
  cn_publisher :: PublisherId
  cn_registered :: bool

definition new_connection :: "Socket \<Rightarrow> Connection" where
  "new_connection s = \<lparr>cn_socket = s, cn_stopping = False, cn_publisher = 0, cn_registered = False\<rparr>"

text \<open>
  The fields of \<open>Coordinator\<close>. A connection object is shared by the list and its thread, so the
  list holds its address, and the objects, one for each running \<open>connection_loop\<close>, are in
  \<open>co_sessions\<close>; \<open>co_next\<close> is an address not yet used.
\<close>

record Coordinator =
  co_max_connections :: nat
  co_governor :: Governor
  co_listening :: bool
  co_connections :: "nat list"
  co_sessions :: "(nat \<times> Connection) list"
  co_next :: nat
  co_accept_thread :: bool
  co_running :: bool
  co_connections_accepted :: u64
  co_connections_refused :: u64
  co_hellos :: u64
  co_frames_admitted :: u64
  co_frames_refused :: u64
  co_publishers_lost :: u64

definition new_coordinator :: "nat \<Rightarrow> Governor \<Rightarrow> Coordinator" where
  "new_coordinator max_connections g =
     \<lparr>co_max_connections = max_connections, co_governor = g, co_listening = False, co_connections = [], co_sessions = [],
      co_next = 0, co_accept_thread = False, co_running = False, co_connections_accepted = 0, co_connections_refused = 0,
      co_hellos = 0, co_frames_admitted = 0, co_frames_refused = 0, co_publishers_lost = 0\<rparr>"

section \<open>Replies\<close>

primrec error_number :: "ErrorCode \<Rightarrow> u32" where
  "error_number InvalidArgument = 100"
| "error_number OutOfRange = 101"
| "error_number BoundExceeded = 102"
| "error_number ArithmeticOverflow = 103"
| "error_number NotImplemented = 104"
| "error_number MalformedFrame = 200"
| "error_number TruncatedFrame = 201"
| "error_number IntegrityMismatch = 202"
| "error_number UnsupportedVersion = 203"
| "error_number FrameTooLarge = 204"
| "error_number StaleGeneration = 300"
| "error_number StaleEpoch = 301"
| "error_number UnknownEpoch = 302"
| "error_number StaleIncarnation = 303"
| "error_number UnknownPublisher = 304"
| "error_number DuplicateFrame = 305"
| "error_number OutOfOrderSequence = 306"
| "error_number PublisherFenced = 307"
| "error_number StaleEvidence = 400"
| "error_number MissingEvidence = 401"
| "error_number ContradictoryEvidence = 402"
| "error_number DegradedTelemetry = 403"
| "error_number StaleTopology = 404"
| "error_number TopologyGenerationMismatch = 405"
| "error_number PathGenerationMismatch = 406"
| "error_number CapacityGenerationMismatch = 407"
| "error_number TrafficGenerationMismatch = 408"
| "error_number InsufficientCoverage = 409"
| "error_number PolicyExpired = 410"
| "error_number PolicyMissing = 411"
| "error_number UnknownResource = 412"
| "error_number UnknownPath = 413"
| "error_number UnknownRegion = 414"
| "error_number NotAuthorized = 500"
| "error_number ScopeViolation = 501"
| "error_number BudgetExceeded = 502"
| "error_number LocalizationLost = 503"
| "error_number AttributionUnavailable = 504"
| "error_number PersistenceNotMet = 505"
| "error_number PersistenceCorrupt = 600"
| "error_number PersistenceTruncated = 601"
| "error_number PersistenceVersionUnsupported = 602"
| "error_number PersistenceIoError = 603"
| "error_number JournalRecordInvalid = 604"
| "error_number DurableGrowthExceeded = 605"
| "error_number Cancelled = 700"
| "error_number ShuttingDown = 701"
| "error_number QueueFull = 702"
| "error_number WorkerFailed = 703"
| "error_number Timeout = 704"
| "error_number IoError = 705"
| "error_number NotConnected = 706"
| "error_number ConnectionClosed = 707"
| "error_number AlreadyStarted = 708"
| "error_number NotStarted = 709"
| "error_number Internal = 900"

text \<open>A frame with the given type, epoch and payload and the defaults of \<open>FrameHeader\<close> otherwise.\<close>

definition reply_frame :: "MessageType \<Rightarrow> CoordinatorEpoch \<Rightarrow> bytes \<Rightarrow> Frame" where
  "reply_frame type epoch payload =
     \<lparr>fr_header = \<lparr>fh_version = 0, fh_type = type, fh_flags = 0, fh_payload_length = 0, fh_epoch = epoch, fh_publisher = 0,
        fh_incarnation = 0, fh_boot = 0, fh_sequence = 0, fh_generation = 0, fh_emitted_at = kNoTime, fh_payload_crc = 0,
        fh_header_crc = 0\<rparr>,
      fr_payload = payload\<rparr>"

text \<open>A \<open>Rejected\<close> reply, whose delivery nothing depends on.\<close>

definition send_rejected :: "ErrorCode \<Rightarrow> string \<Rightarrow> Governor \<Rightarrow> Socket \<Rightarrow> Socket" where
  "send_rejected code reason g s =
     snd (send_frame (reply_frame MT_Rejected (gv_epoch g) (encode_rejected \<lparr>rj_code = error_number code, rj_reason = reason\<rparr>)) s)"

section \<open>The session of a connection\<close>

datatype LoopControl = Loop_continue | Loop_break

definition reject :: "ErrorCode \<Rightarrow> string \<Rightarrow> Connection \<Rightarrow> Coordinator \<Rightarrow> Connection \<times> Coordinator" where
  "reject code reason c w = (c\<lparr>cn_socket := send_rejected code reason (co_governor w) (cn_socket c)\<rparr>, w)"

definition count_refused :: "Coordinator \<Rightarrow> Coordinator" where
  "count_refused w = w\<lparr>co_frames_refused := co_frames_refused w + 1\<rparr>"

text \<open>The first frame of a connection, which has to be a hello.\<close>

definition handshake :: "string \<Rightarrow> Millis \<Rightarrow> Frame \<Rightarrow> Connection \<Rightarrow> Coordinator \<Rightarrow> LoopControl \<times> Connection \<times> Coordinator" where
  "handshake detail now frame c w =
     (if fh_type (fr_header frame) \<noteq> MT_Hello
      then (Loop_break, reject MalformedFrame ''first frame must be a hello'' c w)
      else case decode_hello (fr_payload frame) of
        Inl e \<Rightarrow> (Loop_break, reject e detail c w)
      | Inr hello \<Rightarrow>
          (case register_publisher hello now (co_governor w) of
             (Inl e, g) \<Rightarrow> (Loop_break, apsnd count_refused (reject e detail c (w\<lparr>co_governor := g\<rparr>)))
           | (Inr welcome, g) \<Rightarrow>
               (case send_frame (reply_frame MT_Welcome (we_epoch welcome) (encode_welcome welcome)) (cn_socket c) of
                  (Inl e, s) \<Rightarrow> (Loop_break, c\<lparr>cn_socket := s\<rparr>, w\<lparr>co_governor := g\<rparr>)
                | (Inr _, s) \<Rightarrow>
                    (Loop_continue, c\<lparr>cn_socket := s, cn_registered := True, cn_publisher := he_publisher hello\<rparr>,
                     w\<lparr>co_governor := g, co_hellos := co_hellos w + 1\<rparr>))))"

text \<open>The refusals after which the publisher has to shake hands again.\<close>

definition ends_session :: "ErrorCode \<Rightarrow> bool" where
  "ends_session code \<longleftrightarrow> code = StaleEpoch \<or> code = UnknownEpoch \<or> code = StaleIncarnation \<or> code = UnknownPublisher"

definition session_frame :: "string \<Rightarrow> Millis \<Rightarrow> Frame \<Rightarrow> Connection \<Rightarrow> Coordinator \<Rightarrow> LoopControl \<times> Connection \<times> Coordinator" where
  "session_frame detail now frame c w =
     (if fh_type (fr_header frame) = MT_Goodbye then (Loop_break, c, w)
      else case admit frame now (co_governor w) of
        (Inr _, g) \<Rightarrow> (Loop_continue, c, w\<lparr>co_governor := g, co_frames_admitted := co_frames_admitted w + 1\<rparr>)
      | (Inl e, g) \<Rightarrow>
          (if ends_session e then Loop_break else Loop_continue, reject e detail c (count_refused (w\<lparr>co_governor := g\<rparr>))))"

text \<open>One iteration of \<open>connection_loop\<close>.\<close>

definition connection_iteration :: "string \<Rightarrow> Millis \<Rightarrow> Connection \<Rightarrow> Coordinator \<Rightarrow> LoopControl \<times> Connection \<times> Coordinator" where
  "connection_iteration detail now c w =
     (if cn_stopping c then (Loop_break, c, w)
      else case receive_frame (cn_socket c) of
        (Inl e, s) \<Rightarrow>
          (if e = Timeout then (Loop_continue, c\<lparr>cn_socket := s\<rparr>, w)
           else (Loop_break, c\<lparr>cn_socket := s\<rparr>, if e \<noteq> ConnectionClosed then count_refused w else w))
      | (Inr frame, s) \<Rightarrow>
          (if \<not> cn_registered c then handshake detail now frame (c\<lparr>cn_socket := s\<rparr>) w
           else session_frame detail now frame (c\<lparr>cn_socket := s\<rparr>) w))"

text \<open>What follows the loop.\<close>

definition forget :: "nat \<Rightarrow> Coordinator \<Rightarrow> Coordinator" where
  "forget i w = w\<lparr>co_connections := remove1 i (co_connections w)\<rparr>"

definition connection_end :: "Millis \<Rightarrow> nat \<Rightarrow> Connection \<Rightarrow> Coordinator \<Rightarrow> Coordinator" where
  "connection_end now i c w =
     forget i (if cn_registered c \<and> valid_id (cn_publisher c)
               then w\<lparr>co_governor := snd (note_publisher_death (cn_publisher c) now (co_governor w)),
                      co_publishers_lost := co_publishers_lost w + 1\<rparr>
               else w)"

text \<open>The thread of connection \<open>i\<close>: one iteration, and the end of the thread, at its own time, when it breaks.\<close>

definition serve :: "string \<Rightarrow> Millis \<Rightarrow> Millis \<Rightarrow> nat \<Rightarrow> Coordinator \<Rightarrow> Coordinator" where
  "serve detail now ended i w =
     (case map_of (co_sessions w) i of
        None \<Rightarrow> w
      | Some c \<Rightarrow>
          (case connection_iteration detail now c w of
             (Loop_continue, c, w) \<Rightarrow> w\<lparr>co_sessions := AList.update i c (co_sessions w)\<rparr>
           | (Loop_break, c, w) \<Rightarrow> connection_end ended i c (w\<lparr>co_sessions := AList.delete i (co_sessions w)\<rparr>)))"

section \<open>Accepting, starting and stopping\<close>

text \<open>
  One iteration of \<open>accept_loop\<close> with what \<open>accept_one\<close> returns; also the socket of a connection
  over the limit, as it is closed.
\<close>

definition accept_iteration :: "Socket result \<Rightarrow> Coordinator \<Rightarrow> Socket option \<times> Coordinator" where
  "accept_iteration accepted w =
     (if \<not> co_accept_thread w then (None, w)
      else if \<not> co_running w then (None, w\<lparr>co_accept_thread := False\<rparr>)
      else case accepted of
        Inl e \<Rightarrow> (None, if e = Timeout then w else w\<lparr>co_accept_thread := False\<rparr>)
      | Inr s \<Rightarrow>
          (if length (co_connections w) \<ge> min (co_max_connections w) kMaxConnections
           then (Some (socket_close (send_rejected QueueFull ''connection limit reached'' (co_governor w) s)),
                 w\<lparr>co_connections_refused := co_connections_refused w + 1\<rparr>)
           else (None, w\<lparr>co_connections_accepted := co_connections_accepted w + 1,
                         co_connections := co_connections w @ [co_next w],
                         co_sessions := (co_next w, new_connection s) # co_sessions w, co_next := co_next w + 1\<rparr>)))"

definition coordinator_start :: "unit result \<Rightarrow> Coordinator \<Rightarrow> unit result \<times> Coordinator" where
  "coordinator_start bound w =
     (if co_running w then (Inl AlreadyStarted, w)
      else case bound of
        Inl e \<Rightarrow> (Inl e, w)
      | Inr _ \<Rightarrow>
          (case install_epoch (gv_epoch (co_governor w)) (gv_boot (co_governor w)) 0 (co_governor w) of
             (Inl e, g) \<Rightarrow> (Inl e, w\<lparr>co_governor := g, co_listening := False\<rparr>)
           | (Inr _, g) \<Rightarrow> (Inr (), w\<lparr>co_governor := g, co_listening := True, co_running := True, co_accept_thread := True\<rparr>)))"

text \<open>\<open>stop\<close> up to the joins; the accept thread has been joined before the connections are told.\<close>

definition coordinator_stop :: "Coordinator \<Rightarrow> Coordinator" where
  "coordinator_stop w =
     w\<lparr>co_running := False, co_listening := False, co_accept_thread := False, co_connections := [],
       co_sessions := map (\<lambda>(i, c). (i, if i \<in> set (co_connections w) then c\<lparr>cn_stopping := True\<rparr> else c)) (co_sessions w)\<rparr>"

text \<open>
  What the callers of \<open>run\<close>, \<open>wait_for_publishers\<close> and \<open>wait_for_admissions\<close> wait for. Stopping ends every wait.
\<close>

definition run_over :: "Coordinator \<Rightarrow> bool" where
  "run_over w \<longleftrightarrow> \<not> co_running w"

definition publishers_reached :: "u64 \<Rightarrow> Coordinator \<Rightarrow> bool" where
  "publishers_reached target w \<longleftrightarrow> co_hellos w \<ge> target \<or> \<not> co_running w"

definition waits_over :: "u64 \<Rightarrow> Coordinator \<Rightarrow> bool" where
  "waits_over target w \<longleftrightarrow> co_frames_admitted w \<ge> target \<or> \<not> co_running w"

lemma stop_ends_waits:
  "run_over (coordinator_stop w)" "publishers_reached n (coordinator_stop w)" "waits_over n (coordinator_stop w)"
  by (simp_all add: run_over_def publishers_reached_def waits_over_def coordinator_stop_def)

section \<open>Reachable coordinators\<close>

text \<open>
  The steps of a coordinator: its own threads, its owner, and the other callers of the governor,
  which evaluate and commit.
\<close>

inductive coordinator_step :: "Coordinator \<Rightarrow> Coordinator \<Rightarrow> bool" where
  step_serve: "coordinator_step w (serve detail now ended i w)"
| step_accept: "coordinator_step w (snd (accept_iteration accepted w))"
| step_start: "coordinator_step w (snd (coordinator_start bound w))"
| step_stop: "coordinator_step w (coordinator_stop w)"
| step_governor: "governor_step (co_governor w) g \<Longrightarrow> coordinator_step w (w\<lparr>co_governor := g\<rparr>)"

inductive coordinator_reachable :: "Coordinator \<Rightarrow> bool" where
  made: "governor_reachable g \<Longrightarrow> coordinator_reachable (new_coordinator n g)"
| moved: "coordinator_reachable w \<Longrightarrow> coordinator_step w w' \<Longrightarrow> coordinator_reachable w'"

section \<open>The registry only grows\<close>

definition known :: "Governor \<Rightarrow> PublisherId set" where
  "known g = pb_id ` set (gv_publishers g)"

lemma known_iff: "governor_ok g \<Longrightarrow> i \<in> known g \<longleftrightarrow> (\<exists>p. find_publisher (gv_publishers g) i = Some p)"
  unfolding known_def governor_ok_def registry_ok_def using registry.lookup_None_iff [of "gv_publishers g" i] by auto

lemma known_same_ids: "map pb_id (gv_publishers g') = map pb_id (gv_publishers g) \<Longrightarrow> known g' = known g"
  unfolding known_def by (metis list.set_map)

lemma known_set_publisher:
  assumes "governor_ok g" and "find_publisher (gv_publishers g) (pb_id p) = Some q"
    and "gv_publishers g' = set_publisher p (gv_publishers g)"
  shows "known g' = known g"
  using assms by (intro known_same_ids) (simp add: set_publisher_registry(1) governor_ok_def registry_ok_def)

lemma commit_candidate_publishers: "commit_candidate b e now t pl g = (r, g') \<Longrightarrow> gv_publishers g' = gv_publishers g"
  by (auto simp: commit_candidate_def Let_def split: option.splits sum.splits prod.splits)

lemma found_id: "governor_ok g \<Longrightarrow> find_publisher (gv_publishers g) i = Some p \<Longrightarrow> pb_id p = i"
  by (auto simp: governor_ok_def registry_ok_def registry.lookup_Some_iff)

lemma install_epoch_known: "install_epoch e b now g = (r, g') \<Longrightarrow> known g' = known g"
  by (intro known_same_ids)
     (auto simp: install_epoch_def bind_op_def Let_def counted_def fence_publisher_def
       split: if_splits prod.splits sum.splits dest!: commit_candidate_publishers)

lemma note_publisher_death_known:
  assumes "note_publisher_death i now g = (r, g')" and ok: "governor_ok g"
  shows "known g' = known g"
proof (cases "find_publisher (gv_publishers g) i")
  case None
  then show ?thesis using assms by (simp add: note_publisher_death_def)
next
  case (Some p)
  obtain r1 g1 where c: "commit_candidate (gv_boot g) (gv_epoch g) now JT_PublisherDeath (w_u64 i @ w_i64 now) g = (r1, g1)"
    by fastforce
  have g1: "gv_publishers g1 = gv_publishers g" using commit_candidate_publishers [OF c] .
  have "gv_publishers g' = gv_publishers g \<or>
      gv_publishers g' = set_publisher (p\<lparr>pb_alive := False, pb_died_at := now\<rparr>) (gv_publishers g)"
    using assms(1) Some c g1 by (auto simp: note_publisher_death_def bind_op_def Let_def counted_def split: sum.splits if_splits)
  then show ?thesis
    using known_set_publisher [OF ok, of "p\<lparr>pb_alive := False, pb_died_at := now\<rparr>" p g'] found_id [OF ok Some] Some
    by (elim disjE) (simp_all add: known_def)
qed

lemma register_publisher_known:
  assumes "register_publisher hello now g = (r, g')" and ok: "governor_ok g"
  shows "known g \<subseteq> known g'" and "r = Inr w \<Longrightarrow> he_publisher hello \<in> known g' \<and> valid_id (he_publisher hello)"
    and "gv_snapshots g' = gv_snapshots g"
proof -
  let ?i = "he_publisher hello"
  have upd: "known (g\<lparr>gv_publishers := set_publisher q (gv_publishers g)\<rparr>) = known g"
    if "find_publisher (gv_publishers g) ?i = Some p" "pb_id q = pb_id p" for p q
    using known_set_publisher [OF ok, of q p] that found_id [OF ok that(1)] by simp
  have new: "known (g\<lparr>gv_publishers := insert_publisher q (gv_publishers g)\<rparr>) = insert (pb_id q) (known g)"
    if "find_publisher (gv_publishers g) (pb_id q) = None" for q
    using insert_publisher_registry(3) [of "gv_publishers g" q] that ok by (simp add: known_def governor_ok_def registry_ok_def)
  have met: "find_publisher (gv_publishers g) ?i = Some p \<Longrightarrow> ?i \<in> known g" for p using known_iff [OF ok] by blast
  show "known g \<subseteq> known g'" using assms(1) upd new
    by (auto simp: register_publisher_def refreshed_def superseded_def fresh_publisher_def counted_def known_def split: if_splits option.splits)
  show "gv_snapshots g' = gv_snapshots g" using assms(1)
    by (auto simp: register_publisher_def counted_def split: if_splits option.splits)
  show "?i \<in> known g' \<and> valid_id ?i" if "r = Inr w"
    using assms(1) that upd new met
    by (auto simp: register_publisher_def refreshed_def superseded_def fresh_publisher_def split: if_splits option.splits)
qed

lemma admit_known:
  assumes a: "admit frame now g = (r, g')" and ok: "governor_ok g"
  shows "known g' = known g"
proof (cases r)
  case (Inl e)
  then show ?thesis using admit_refused [OF ok a [unfolded Inl]] by (auto simp: known_def)
next
  case (Inr rep)
  have keep: ?thesis if "find_publisher (gv_publishers g) i = Some q" "pb_id p = pb_id q" "gv_publishers g' = set_publisher p (gv_publishers g)" for i p q
    using known_set_publisher [OF ok _ that(3)] that(1,2) found_id [OF ok that(1)] by simp
  show ?thesis
  proof (cases "fh_type (fr_header frame) = MT_Heartbeat")
    case True
    then have "verify_payload (fr_header frame) (fr_payload frame) = Inr ()" using a Inr
      by (cases "verify_payload (fr_header frame) (fr_payload frame)") (auto simp: admit_def Let_def dest: refuse_cases)
    then have "admit_heartbeat frame now (counted [mt_frames_received_update] g) = (Inr rep, g')"
      using a Inr True by (simp add: admit_def Let_def)
    then show ?thesis
    proof (cases rule: admit_heartbeat_cases)
      case (accepted rep' p m)
      then show ?thesis using Inr by (intro keep [of _ p]) simp_all
    qed simp
  next
    case False
    from admit_accepted [OF ok a [unfolded Inr] False] obtain p where
      "frame_authorised (fr_header frame) g p" "gv_publishers g' = set_publisher (advanced (fr_header frame) now p) (gv_publishers g)" by metis
    then show ?thesis by (intro keep [of "fh_publisher (fr_header frame)" p]) (simp_all add: frame_authorised_def)
  qed
qed

lemma governor_step_known: "governor_step g g' \<Longrightarrow> governor_ok g \<Longrightarrow> known g \<subseteq> known g'"
proof (induction rule: governor_step.induct)
  case (step_evaluate now g d g')
  then have "gv_publishers g' = gv_publishers g" by (auto simp: evaluate_def record_decision_def Let_def case_prod_beta)
  then show ?case by (simp add: known_def)
next
  case (step_commit now g r g')
  obtain r1 g1 where c: "commit_candidate (gv_boot g) (gv_epoch g) now JT_EvaluationCheckpoint [] g = (r1, g1)" by fastforce
  have "gv_publishers g' = gv_publishers g" using step_commit(1) c commit_candidate_publishers [OF c]
    by (cases r1) (auto simp: commit_durable_def counted_def split: if_splits)
  then show ?case by (simp add: known_def)
qed (auto dest: install_epoch_known note_publisher_death_known register_publisher_known(1) admit_known)

section \<open>What a session relies on\<close>

text \<open>
  The contract between the coordinator and the service behind it: a step of the service leads from
  a reachable state to a reachable one and forgets no identity. A session makes at most one step
  at a time.
\<close>

locale growing_service =
  fixes reachable :: "'s \<Rightarrow> bool" and step :: "'s \<Rightarrow> 's \<Rightarrow> bool" and ids :: "'s \<Rightarrow> 'i set"
  assumes reachable_step: "reachable s \<Longrightarrow> step s s' \<Longrightarrow> reachable s'"
    and ids_step: "reachable s \<Longrightarrow> step s s' \<Longrightarrow> ids s \<subseteq> ids s'"
begin

lemma at_most_one_step:
  assumes "reachable s" and "step\<^sup>=\<^sup>= s s'"
  shows "reachable s'" and "ids s \<subseteq> ids s'"
  using assms reachable_step ids_step by blast+

end

interpretation governor_service: growing_service governor_reachable governor_step known
  by unfold_locales (auto intro: steps dest: governor_step_known [OF _ governor_reachable_ok])

section \<open>One iteration of a session\<close>

text \<open>Everything an iteration may do to the rest of the world.\<close>

lemma connection_iteration_effect:
  assumes it: "connection_iteration detail now c w = (k, c', w')" and ok: "governor_ok (co_governor w)"
  shows "governor_step\<^sup>=\<^sup>= (co_governor w) (co_governor w')"
    and "w' = w\<lparr>co_governor := co_governor w', co_hellos := co_hellos w', co_frames_admitted := co_frames_admitted w',
                co_frames_refused := co_frames_refused w'\<rparr>"
    and "\<not> cn_registered c \<Longrightarrow> gv_snapshots (co_governor w') = gv_snapshots (co_governor w)"
    and "cn_registered c' = cn_registered c \<and> cn_publisher c' = cn_publisher c \<and> co_hellos w' = co_hellos w \<or>
      k = Loop_continue \<and> \<not> cn_registered c \<and> cn_registered c' \<and> co_hellos w' = co_hellos w + 1 \<and>
      cn_publisher c' \<in> known (co_governor w') \<and> valid_id (cn_publisher c')"
proof -
  note defs = connection_iteration_def handshake_def session_frame_def reject_def count_refused_def
  note split = if_splits sum.splits prod.splits
  show "governor_step\<^sup>=\<^sup>= (co_governor w) (co_governor w')"
    using it by (auto simp: defs split: split intro: step_register step_admit)
  show "w' = w\<lparr>co_governor := co_governor w', co_hellos := co_hellos w', co_frames_admitted := co_frames_admitted w',
                co_frames_refused := co_frames_refused w'\<rparr>"
    using it by (auto simp: defs split: split)
  show "gv_snapshots (co_governor w') = gv_snapshots (co_governor w)" if "\<not> cn_registered c"
    using it that by (auto simp: defs split: split dest!: register_publisher_known(3) [OF _ ok])
  show "cn_registered c' = cn_registered c \<and> cn_publisher c' = cn_publisher c \<and> co_hellos w' = co_hellos w \<or>
      k = Loop_continue \<and> \<not> cn_registered c \<and> cn_registered c' \<and> co_hellos w' = co_hellos w + 1 \<and>
      cn_publisher c' \<in> known (co_governor w') \<and> valid_id (cn_publisher c')"
    using it by (auto simp: defs split: split dest: register_publisher_known(2) [OF _ ok])
qed

section \<open>The invariant\<close>

definition session_ok :: "Governor \<Rightarrow> nat \<Rightarrow> nat \<times> Connection \<Rightarrow> bool" where
  "session_ok g bound = (\<lambda>(i, c). i < bound \<and> (cn_registered c \<longrightarrow> cn_publisher c \<in> known g \<and> valid_id (cn_publisher c)))"

definition registered_sessions :: "(nat \<times> Connection) list \<Rightarrow> nat" where
  "registered_sessions ss = length (filter (\<lambda>(i, c). cn_registered c) ss)"

definition coordinator_ok :: "Coordinator \<Rightarrow> bool" where
  "coordinator_ok w \<longleftrightarrow> governor_reachable (co_governor w) \<and>
     length (co_connections w) \<le> min (co_max_connections w) kMaxConnections \<and>
     distinct (co_connections w) \<and> distinct (map fst (co_sessions w)) \<and>
     set (co_connections w) \<subseteq> fst ` set (co_sessions w) \<and>
     list_all (session_ok (co_governor w) (co_next w)) (co_sessions w) \<and>
     co_hellos w = co_publishers_lost w + word_of_nat (registered_sessions (co_sessions w))"

lemma session_ok_mono:
  "list_all (session_ok g n) ss \<Longrightarrow> known g \<subseteq> known g' \<Longrightarrow> n \<le> m \<Longrightarrow> list_all (session_ok g' m) ss"
  by (auto simp: session_ok_def list_all_iff split: prod.splits)

text \<open>Replacing and removing the object of one session.\<close>

lemma map_of_split:
  assumes "map_of ss i = Some c" and "distinct (map fst ss)"
  obtains xs ys where "ss = xs @ (i, c) # ys" "i \<notin> fst ` set xs" "i \<notin> fst ` set ys"
proof -
  obtain xs ys where ss: "ss = xs @ (i, c) # ys" using map_of_SomeD [OF assms(1)] by (meson split_list)
  then show thesis using assms(2) by (intro that [of xs ys]) (auto simp: image_iff)
qed

lemma alist_at:
  assumes "i \<notin> fst ` set xs" and "i \<notin> fst ` set ys"
  shows "AList.update i d (xs @ (i, c) # ys) = xs @ (i, d) # ys" and "AList.delete i (xs @ (i, c) # ys) = xs @ ys"
proof -
  show "AList.update i d (xs @ (i, c) # ys) = xs @ (i, d) # ys" using assms(1) by (induction xs) auto
  have no: "AList.delete i zs = zs" if "i \<notin> fst ` set zs" for zs :: "('a \<times> 'b) list" using that by (induction zs) auto
  show "AList.delete i (xs @ (i, c) # ys) = xs @ ys"
    using no [OF assms(1)] no [OF assms(2)] by (simp add: AList.delete_eq)
qed

lemma serve_ok:
  assumes ok: "coordinator_ok w"
  shows "coordinator_ok (serve detail now ended i w)"
proof (cases "map_of (co_sessions w) i")
  case None
  then show ?thesis using ok by (simp add: serve_def)
next
  case (Some c)
  have gok: "governor_ok (co_governor w)" and reach: "governor_reachable (co_governor w)"
    using ok governor_reachable_ok by (auto simp: coordinator_ok_def)
  obtain k c' w' where it: "connection_iteration detail now c w = (k, c', w')" by (cases "connection_iteration detail now c w")
  note eff = connection_iteration_effect [OF it gok]
  note next_g = governor_service.at_most_one_step [OF reach eff(1)]
  obtain xs ys where ss: "co_sessions w = xs @ (i, c) # ys" "i \<notin> fst ` set xs" "i \<notin> fst ` set ys"
    using map_of_split [OF Some] ok by (auto simp: coordinator_ok_def)
  have w': "co_sessions w' = co_sessions w" "co_connections w' = co_connections w" "co_next w' = co_next w"
    "co_max_connections w' = co_max_connections w" "co_publishers_lost w' = co_publishers_lost w"
    by (subst eff(2), simp)+
  have all: "list_all (session_ok (co_governor w') (co_next w)) (xs @ (i, c) # ys)"
    using ok session_ok_mono next_g(2) unfolding coordinator_ok_def ss(1) by blast
  show ?thesis
  proof (cases k)
    case Loop_continue
    have "session_ok (co_governor w') (co_next w) (i, c')" using all eff(4) by (auto simp: session_ok_def)
    moreover have "co_hellos w' = co_publishers_lost w + word_of_nat (registered_sessions (xs @ (i, c') # ys))"
      using eff(4) ok by (auto simp: coordinator_ok_def ss(1) registered_sessions_def)
    ultimately show ?thesis
      using ok Some it Loop_continue next_g(1) all ss(2,3)
      by (simp add: serve_def coordinator_ok_def ss(1) w' alist_at)
  next
    case Loop_break
    define g where "g = (if cn_registered c' \<and> valid_id (cn_publisher c') then snd (note_publisher_death (cn_publisher c') ended (co_governor w'))
      else co_governor w')"
    have "governor_step\<^sup>=\<^sup>= (co_governor w') g" unfolding g_def by (auto intro: step_death prod.collapse [symmetric])
    note gg = governor_service.at_most_one_step [OF next_g(1) this]
    have same: "cn_registered c' = cn_registered c" "cn_publisher c' = cn_publisher c" "co_hellos w' = co_hellos w"
      using eff(4) Loop_break by auto
    let ?v = "serve detail now ended i w"
    let ?lost = "if cn_registered c' \<and> valid_id (cn_publisher c') then co_publishers_lost w + 1 else co_publishers_lost w"
    have v: "co_governor ?v = g" "co_sessions ?v = xs @ ys" "co_connections ?v = remove1 i (co_connections w)"
      "co_hellos ?v = co_hellos w'" "co_publishers_lost ?v = ?lost" "co_next ?v = co_next w" "co_max_connections ?v = co_max_connections w"
      using Some it Loop_break ss(2,3) by (simp_all add: serve_def connection_end_def forget_def w' ss(1) alist_at g_def)
    have "cn_registered c \<Longrightarrow> valid_id (cn_publisher c)" using all by (simp add: session_ok_def)
    then have "co_hellos w' = ?lost + word_of_nat (registered_sessions (xs @ ys))"
      using same ok by (auto simp: coordinator_ok_def ss(1) registered_sessions_def)
    moreover have "list_all (session_ok g (co_next w)) (xs @ ys)" using all session_ok_mono [OF _ gg(2) le_refl] by simp
    moreover have "set (remove1 i (co_connections w)) \<subseteq> fst ` set (xs @ ys)"
      using ok by (auto simp: coordinator_ok_def ss(1))
    moreover have "length (remove1 i (co_connections w)) \<le> length (co_connections w)" by (simp add: length_remove1)
    ultimately show ?thesis using ok gg(1) by (simp add: coordinator_ok_def v ss(1))
  qed
qed

lemma accept_iteration_ok:
  assumes ok: "coordinator_ok w"
  shows "coordinator_ok (snd (accept_iteration accepted w))"
proof -
  have old: "\<forall>i\<in>fst ` set (co_sessions w). i < co_next w" using ok by (auto simp: coordinator_ok_def list_all_iff session_ok_def)
  then have fresh: "co_next w \<notin> fst ` set (co_sessions w)" by blast
  moreover have "co_next w \<notin> set (co_connections w)" using fresh ok by (auto simp: coordinator_ok_def)
  moreover have "list_all (session_ok (co_governor w) (co_next w + 1)) (co_sessions w)"
    using ok session_ok_mono [OF _ subset_refl, of _ "co_next w"] by (simp add: coordinator_ok_def)
  ultimately show ?thesis using ok
    by (auto simp: accept_iteration_def coordinator_ok_def session_ok_def new_connection_def registered_sessions_def split: sum.splits)
qed

lemma coordinator_governor_ok:
  assumes "coordinator_ok w" and "governor_step\<^sup>=\<^sup>= (co_governor w) g"
  shows "coordinator_ok (w\<lparr>co_governor := g\<rparr>)"
proof -
  have reach: "governor_reachable (co_governor w)" using assms(1) by (simp add: coordinator_ok_def)
  note n = governor_service.at_most_one_step [OF reach assms(2)]
  have "list_all (session_ok g (co_next w)) (co_sessions w)"
    using assms(1) session_ok_mono [OF _ n(2) le_refl] by (simp add: coordinator_ok_def)
  then show ?thesis using assms(1) n(1) by (simp add: coordinator_ok_def)
qed

lemma coordinator_start_ok:
  assumes ok: "coordinator_ok w"
  shows "coordinator_ok (snd (coordinator_start bound w))"
proof -
  obtain r g where i: "install_epoch (gv_epoch (co_governor w)) (gv_boot (co_governor w)) 0 (co_governor w) = (r, g)" by fastforce
  then have "governor_step\<^sup>=\<^sup>= (co_governor w) g" by (auto intro: step_install)
  then have "coordinator_ok (w\<lparr>co_governor := g\<rparr>)" by (rule coordinator_governor_ok [OF ok])
  then show ?thesis using ok i by (auto simp: coordinator_start_def coordinator_ok_def split: sum.splits)
qed

lemma coordinator_stop_ok:
  assumes ok: "coordinator_ok w"
  shows "coordinator_ok (coordinator_stop w)"
proof -
  let ?f = "\<lambda>(i, c :: Connection). (i, if i \<in> set (co_connections w) then c\<lparr>cn_stopping := True\<rparr> else c)"
  have "fst \<circ> ?f = fst" by auto
  moreover have "registered_sessions (map ?f ss) = registered_sessions ss" for ss
    by (induction ss) (auto simp: registered_sessions_def split: if_splits)
  moreover have "list_all (session_ok g n) (map ?f ss) = list_all (session_ok g n) ss" for g n ss
    by (induction ss) (auto simp: session_ok_def split: if_splits)
  ultimately show ?thesis using ok by (simp add: coordinator_ok_def coordinator_stop_def)
qed

lemma coordinator_reachable_ok: "coordinator_reachable w \<Longrightarrow> coordinator_ok w"
proof (induction rule: coordinator_reachable.induct)
  case (made g n)
  then show ?case by (simp add: coordinator_ok_def new_coordinator_def registered_sessions_def)
next
  case (moved w w')
  from moved.hyps(2) moved.IH show ?case
    by (induction rule: coordinator_step.induct)
       (auto intro: serve_ok accept_iteration_ok coordinator_start_ok coordinator_stop_ok coordinator_governor_ok)
qed

section \<open>Sessions without authority\<close>

text \<open>A connection that has not shaken hands cannot change the evidence.\<close>

lemma serve_unregistered:
  assumes ok: "coordinator_ok w" and c: "map_of (co_sessions w) i = Some c" "\<not> cn_registered c"
  shows "gv_snapshots (co_governor (serve detail now ended i w)) = gv_snapshots (co_governor w)"
proof -
  obtain k c' w' where it: "connection_iteration detail now c w = (k, c', w')" by (cases "connection_iteration detail now c w")
  have "governor_ok (co_governor w)" using ok governor_reachable_ok by (auto simp: coordinator_ok_def)
  note eff = connection_iteration_effect [OF it this]
  show ?thesis
  proof (cases k)
    case Loop_continue
    then show ?thesis using c it eff(3) by (simp add: serve_def)
  next
    case Loop_break
    then have "\<not> cn_registered c'" using eff(4) c(2) by auto
    then show ?thesis using c it eff(3) Loop_break by (simp add: serve_def connection_end_def forget_def)
  qed
qed

text \<open>
  The end of a session declares its publisher dead whatever incarnation the registry holds by then:
  when a publisher has reconnected with a newer incarnation, the end of the old connection fences
  the new one, and its frames are refused.
\<close>

lemma superseded_session_fences_successor:
  assumes ok: "governor_ok (co_governor w)" and mem: "gv_store (co_governor w) = None"
    and c: "cn_registered c" "valid_id (cn_publisher c)"
    and p: "find_publisher (gv_publishers (co_governor w)) (cn_publisher c) = Some p" "pb_alive p"
  shows "\<exists>q. find_publisher (gv_publishers (co_governor (connection_end now i c w))) (cn_publisher c) = Some q \<and>
    pb_incarnation q = pb_incarnation p \<and> \<not> pb_alive q"
proof -
  let ?g = "co_governor w" and ?q = "p\<lparr>pb_alive := False, pb_died_at := now\<rparr>"
  have s: "strictly_sorted_by pb_id (gv_publishers ?g)" using ok by (simp add: governor_ok_def registry_ok_def)
  have i: "pb_id p = cn_publisher c" using found_id [OF ok p(1)] .
  have "gv_publishers (co_governor (connection_end now i c w)) = set_publisher ?q (gv_publishers ?g)"
    using c p mem by (simp add: connection_end_def forget_def note_publisher_death_def commit_candidate_def Let_def counted_def)
  then show ?thesis using set_publisher_registry(4) [OF s, of ?q p "cn_publisher c"] i p(1) by simp
qed

section \<open>Properties\<close>

text \<open>C12: sessions. In every state a coordinator can reach, with its connections, its accept loop and the
  other callers of the governor interleaved in any order, its governor is a reachable governor; the
  connections are within the configured and the absolute limit, distinct, and each has its running
  session; every registered session belongs to a publisher the registry knows; the handshakes are, modulo
  \<open>2\<^sup>6\<^sup>4\<close>, the publishers lost and the sessions still registered; and a connection that has
  not shaken hands changes no evidence, whatever it sends.\<close>

theorem coordinator_sessions:
  assumes "coordinator_reachable w"
  shows "governor_reachable (co_governor w) \<and>
    length (co_connections w) \<le> min (co_max_connections w) kMaxConnections \<and>
    distinct (co_connections w) \<and> set (co_connections w) \<subseteq> fst ` set (co_sessions w) \<and>
    (\<forall>(i, c)\<in>set (co_sessions w). cn_registered c \<longrightarrow>
       valid_id (cn_publisher c) \<and> (\<exists>p. find_publisher (gv_publishers (co_governor w)) (cn_publisher c) = Some p)) \<and>
    co_hellos w = co_publishers_lost w + word_of_nat (registered_sessions (co_sessions w)) \<and>
    (\<forall>i c detail now ended. map_of (co_sessions w) i = Some c \<and> \<not> cn_registered c \<longrightarrow>
       gv_snapshots (co_governor (serve detail now ended i w)) = gv_snapshots (co_governor w))"
proof -
  have ok: "coordinator_ok w" using assms by (rule coordinator_reachable_ok)
  have gok: "governor_ok (co_governor w)" using ok governor_reachable_ok by (auto simp: coordinator_ok_def)
  have "\<forall>(i, c)\<in>set (co_sessions w). cn_registered c \<longrightarrow>
      valid_id (cn_publisher c) \<and> (\<exists>p. find_publisher (gv_publishers (co_governor w)) (cn_publisher c) = Some p)"
    using ok known_iff [OF gok] by (fastforce simp: coordinator_ok_def list_all_iff session_ok_def)
  then show ?thesis using ok serve_unregistered [OF ok] unfolding coordinator_ok_def by blast
qed

text \<open>A publisher that connects and says hello.\<close>

definition hello_frame :: Frame where
  "hello_frame = reply_frame MT_Hello 0 (encode_hello example_hello)"

definition hello_socket :: Socket where
  "hello_socket = \<lparr>sk_open = True,
     sk_incoming = (case encode_frame hello_frame of Inr bs \<Rightarrow> [RA_Bytes bs] | Inl _ \<Rightarrow> []), sk_answers = [SA_Took 1000], sk_sent = []\<rparr>"

definition accepted_coordinator :: Coordinator where
  "accepted_coordinator =
     snd (accept_iteration (Inr hello_socket) (snd (coordinator_start (Inr ()) (new_coordinator 4 example_governor))))"

lemma accepted_coordinator_reachable: "coordinator_reachable accepted_coordinator"
  unfolding accepted_coordinator_def by (intro moved [OF _ step_accept] moved [OF _ step_start] made example_governor_reachable)

lemma example_governor_start:
  "\<exists>g. install_epoch 1 boot 0 example_governor = (Inr (), g) \<and> gv_publishers g = [fresh_publisher example_hello 1 20] \<and> gv_epoch g = 1"
proof -
  have "gv_store example_governor = None"
    by (simp add: example_governor_def install_epoch_def commit_candidate_def new_governor_def example_config_def valid_id_def
        register_publisher_def example_hello_def find_publisher_def find_sorted_def lower_bound_def kMaxPublishers_def counted_def Let_def)
  then show ?thesis
    by (simp add: install_epoch_def commit_candidate_def valid_id_def Let_def example_governor_publishers fence_publisher_def
        fresh_publisher_def)
qed

lemma accepted_coordinator_fields:
  "co_sessions accepted_coordinator = [(0, new_connection hello_socket)]"
  "gv_publishers (co_governor accepted_coordinator) = [fresh_publisher example_hello 1 20]"
  "gv_epoch (co_governor accepted_coordinator) = 1" "co_hellos accepted_coordinator = 0"
  "co_publishers_lost accepted_coordinator = 0"
  using example_governor_start [of "gv_boot example_governor"]
  by (auto simp: accepted_coordinator_def accept_iteration_def coordinator_start_def new_coordinator_def kMaxConnections_def
      example_governor_publishers(2))

lemma hello_received: "\<exists>as. receive_frame hello_socket = (Inr (as_sent hello_frame), hello_socket\<lparr>sk_incoming := as\<rparr>)"
proof -
  have "length (fr_payload hello_frame) \<le> kMaxFrameBytes"
    by (simp add: hello_frame_def reply_frame_def encode_hello_def w_text_def string_bytes_def example_hello_def kMaxFrameBytes_def)
  then obtain h where "encode_frame hello_frame = Inr (encode_header h @ fr_payload hello_frame)"
    by (auto simp: encode_frame_def Let_def)
  then obtain bs where bs: "encode_frame hello_frame = Inr bs" "bs \<noteq> []"
    using length_encode_header [of h] by (cases "encode_header h") (auto simp: kFrameHeaderBytes_def)
  have "sendable hello_frame"
    by (simp add: sendable_def hello_frame_def reply_frame_def mt_ok_def mt_of_def millis_ok_def kNoTime_def kMaxTime_def)
  moreover have "delivers hello_socket (bs @ []) []"
    unfolding delivers_def using bs by (intro exI [of _ "[bs]"]) (simp add: hello_socket_def)
  moreover have "sk_open hello_socket" by (simp add: hello_socket_def)
  ultimately show ?thesis using receive_frame_delivers [OF bs(1)] by blast
qed

lemma welcome_sent:
  assumes "sk_open s" and "sk_answers s = [SA_Took 1000]" and "length (we_name w) \<le> 512"
  shows "\<exists>s'. send_frame (reply_frame MT_Welcome e (encode_welcome w)) s = (Inr (), s')"
proof -
  let ?f = "reply_frame MT_Welcome e (encode_welcome w)"
  have len: "length (fr_payload ?f) \<le> 540"
    using assms(3) by (simp add: reply_frame_def encode_welcome_def w_text_def string_bytes_def)
  then obtain h where enc: "encode_frame ?f = Inr (encode_header h @ fr_payload ?f)"
    by (auto simp: encode_frame_def Let_def kMaxFrameBytes_def)
  define bs where "bs = encode_header h @ fr_payload ?f"
  have "0 < length bs" "length bs \<le> 628"
    using len length_encode_header [of h] by (simp_all add: bs_def kFrameHeaderBytes_def)
  then have "min (max 1 1000) (min (length bs) kSocketChunk) = length bs" "bs \<noteq> []" by (auto simp: kSocketChunk_def)
  then show ?thesis using enc assms
    by (simp add: send_frame_def send_bytes_def flip: bs_def) (subst send_loop.simps, simp add: Let_def send_loop.simps [of "[]"])
qed

lemma hello_served:
  assumes "gv_publishers (co_governor w) = [fresh_publisher example_hello 1 20]" and "gv_epoch (co_governor w) = 1"
  shows "\<exists>c w'. connection_iteration [] 40 (new_connection hello_socket) w = (Loop_continue, c, w') \<and> cn_registered c \<and> cn_publisher c = 7"
proof -
  let ?reply = "welcome_of (co_governor w)"
  obtain as where r: "receive_frame hello_socket = (Inr (as_sent hello_frame), hello_socket\<lparr>sk_incoming := as\<rparr>)"
    using hello_received by blast
  have f: "fh_type (fr_header (as_sent hello_frame)) = MT_Hello" "fr_payload (as_sent hello_frame) = encode_hello example_hello"
    by (simp_all add: as_sent_def hello_frame_def reply_frame_def Let_def)
  have d: "decode_hello (encode_hello example_hello) = Inr example_hello"
    by (rule control_roundtrip(1)) (simp_all add: example_hello_def kMaxTextBytes_def kFrameProtocolVersion_def)
  obtain g where g: "register_publisher example_hello 40 (co_governor w) = (Inr ?reply, g)"
    by (simp add: register_publisher_def assms find_publisher_def find_sorted_def lower_bound_def
        fresh_publisher_def example_hello_def valid_id_def)
  obtain s where "send_frame (reply_frame MT_Welcome (we_epoch ?reply) (encode_welcome ?reply)) (hello_socket\<lparr>sk_incoming := as\<rparr>) = (Inr (), s)"
    using welcome_sent [of "hello_socket\<lparr>sk_incoming := as\<rparr>" ?reply]
    by (fastforce simp: hello_socket_def welcome_of_def kMaxTextBytes_def)
  then show ?thesis using r f d g
    by (simp add: connection_iteration_def new_connection_def handshake_def) (simp add: example_hello_def)
qed

theorem coordinator_sessions_witness:
  "\<exists>w c. w = serve [] 40 41 0 accepted_coordinator \<and> co_sessions w = [(0, c)] \<and> cn_registered c \<and> cn_publisher c = 7 \<and>
     co_hellos w = co_publishers_lost w + 1 \<and> (\<exists>p. find_publisher (gv_publishers (co_governor w)) 7 = Some p)"
proof -
  define w where "w = serve [] 40 41 0 accepted_coordinator"
  obtain c w1 where s: "connection_iteration [] 40 (new_connection hello_socket) accepted_coordinator = (Loop_continue, c, w1)"
    and c: "cn_registered c" "cn_publisher c = 7" using hello_served [OF accepted_coordinator_fields(2,3)] by blast
  have "governor_ok (co_governor accepted_coordinator)"
    using coordinator_reachable_ok [OF accepted_coordinator_reachable] governor_reachable_ok by (auto simp: coordinator_ok_def)
  from connection_iteration_effect(2) [OF s this] have "co_sessions w1 = [(0, new_connection hello_socket)]"
    by (metis (no_types, lifting) Coordinator.ext_inject Coordinator.surjective accepted_coordinator_fields(1) Coordinator.update_convs)
  then have sess: "co_sessions w = [(0, c)]" using s by (simp add: w_def serve_def accepted_coordinator_fields)
  have "coordinator_reachable w" unfolding w_def by (rule moved [OF accepted_coordinator_reachable step_serve])
  from coordinator_sessions [OF this] have "co_hellos w = co_publishers_lost w + 1" "\<exists>p. find_publisher (gv_publishers (co_governor w)) 7 = Some p"
    using sess c by (auto simp: registered_sessions_def)
  then show ?thesis using sess c w_def by blast
qed

end
