(* ===== verification/HGM_System.thy ===== *)
theory HGM_System
  imports HGM_Decisions HGM_Coordinator
begin

text \<open>
  The whole system: a recovered governor behind its coordinator, with publishers connected over
  sockets, an owner that evaluates and commits, and other callers of the governor, in any order.
  The inputs of the evaluations are recorded, the latest first. What the engine remembers is a
  function of that record, so the guarantees of detection and planning, stated over a series of
  evaluations, hold for the decisions of the running system.
\<close>

section \<open>Runs\<close>

inductive system_run :: "Coordinator \<Rightarrow> DecisionInput list \<Rightarrow> bool" where
  boots: "governor_recover pid counter disk now (new_governor c) = (Inr (), g) \<Longrightarrow> system_run (new_coordinator n g) []"
| serves: "system_run w inps \<Longrightarrow> system_run (serve detail now ended i w) inps"
| accepts: "system_run w inps \<Longrightarrow> system_run (snd (accept_iteration accepted w)) inps"
| starts: "system_run w inps \<Longrightarrow> system_run (snd (coordinator_start bound w)) inps"
| stops: "system_run w inps \<Longrightarrow> system_run (coordinator_stop w) inps"
| installs: "system_run w inps \<Longrightarrow> install_epoch epoch boot now (co_governor w) = (r, g) \<Longrightarrow> system_run (w\<lparr>co_governor := g\<rparr>) inps"
| registers: "system_run w inps \<Longrightarrow> register_publisher hello now (co_governor w) = (r', g) \<Longrightarrow> system_run (w\<lparr>co_governor := g\<rparr>) inps"
| admits: "system_run w inps \<Longrightarrow> admit frame now (co_governor w) = (r'', g) \<Longrightarrow> system_run (w\<lparr>co_governor := g\<rparr>) inps"
| notes_death: "system_run w inps \<Longrightarrow> note_publisher_death p now (co_governor w) = (r, g) \<Longrightarrow> system_run (w\<lparr>co_governor := g\<rparr>) inps"
| commits: "system_run w inps \<Longrightarrow> commit_durable now (co_governor w) = (r, g) \<Longrightarrow> system_run (w\<lparr>co_governor := g\<rparr>) inps"
| evaluates: "system_run w inps \<Longrightarrow> now \<noteq> kNoTime \<Longrightarrow> millis_ok now \<Longrightarrow> evaluate now (co_governor w) = (d, g) \<Longrightarrow>
    system_run (w\<lparr>co_governor := g\<rparr>) (evaluation_input now (co_governor w) # inps)"

section \<open>Only evaluations touch the engine\<close>

lemma commit_candidate_engine: "commit_candidate b e now t pl g = (r, g') \<Longrightarrow> gv_engine g' = gv_engine g"
  by (auto simp: commit_candidate_def Let_def split: option.splits sum.splits prod.splits)

lemma install_epoch_engine: "install_epoch e b now g = (r, g') \<Longrightarrow> gv_engine g' = gv_engine g"
  by (auto simp: install_epoch_def bind_op_def Let_def split: if_splits prod.splits sum.splits dest!: commit_candidate_engine)

lemma note_publisher_death_engine: "note_publisher_death i now g = (r, g') \<Longrightarrow> gv_engine g' = gv_engine g"
  by (auto simp: note_publisher_death_def bind_op_def Let_def split: if_splits prod.splits sum.splits option.splits
      dest!: commit_candidate_engine)

lemma register_publisher_engine: "register_publisher hello now g = (r, g') \<Longrightarrow> gv_engine g' = gv_engine g"
  by (auto simp: register_publisher_def split: if_splits option.splits)

lemma commit_durable_engine: "commit_durable now g = (r, g') \<Longrightarrow> gv_engine g' = gv_engine g"
  by (auto simp: commit_durable_def bind_op_def split: if_splits prod.splits sum.splits dest!: commit_candidate_engine)

lemma admit_engine:
  assumes a: "admit frame now g = (r, g')" and ok: "governor_ok g"
  shows "gv_engine g' = gv_engine g"
proof (cases "verify_payload (fr_header frame) (fr_payload frame)")
  case (Inl e)
  then show ?thesis using a by (auto simp: admit_def Let_def refuse_def)
next
  case (Inr u)
  let ?g = "counted [mt_frames_received_update] g"
  show ?thesis
  proof (cases "fh_type (fr_header frame) = MT_Heartbeat")
    case True
    then have "admit_heartbeat frame now ?g = (r, g')" using a Inr by (simp add: admit_def Let_def)
    then show ?thesis by (cases rule: admit_heartbeat_cases) simp_all
  next
    case False
    then have "admit_stream frame now ?g = (r, g')" using a Inr by (simp add: admit_def Let_def)
    moreover have "governor_ok ?g" using ok by simp
    ultimately show ?thesis by (cases rule: admit_stream_cases) simp_all
  qed
qed

lemma serve_engine:
  assumes "governor_ok (co_governor w)"
  shows "gv_engine (co_governor (serve detail now ended i w)) = gv_engine (co_governor w)"
proof (cases "map_of (co_sessions w) i")
  case None
  then show ?thesis by (simp add: serve_def)
next
  case (Some c)
  obtain k c' w' where it: "connection_iteration detail now c w = (k, c', w')" by (cases "connection_iteration detail now c w")
  have e: "gv_engine (co_governor w') = gv_engine (co_governor w)"
    using it assms by (auto simp: connection_iteration_def handshake_def session_frame_def reject_def count_refused_def
        split: if_splits sum.splits prod.splits dest: register_publisher_engine admit_engine)
  have "gv_engine (snd (note_publisher_death p ended g)) = gv_engine g" for p g
    by (rule note_publisher_death_engine [OF prod.collapse [symmetric]])
  then show ?thesis using Some it e by (cases k) (simp_all add: serve_def connection_end_def forget_def)
qed

lemma coordinator_start_engine: "gv_engine (co_governor (snd (coordinator_start bound w))) = gv_engine (co_governor w)"
  by (auto simp: coordinator_start_def split: sum.splits prod.splits dest!: install_epoch_engine)

lemma accept_iteration_governor [simp]: "co_governor (snd (accept_iteration accepted w)) = co_governor w"
  by (simp add: accept_iteration_def split: sum.split)

lemma recovered_tracker:
  "governor_recover pid counter disk now (new_governor c) = (Inr (), g) \<Longrightarrow> eg_tracker (gv_engine g) = []"
  by (auto simp: governor_recover_def Let_def new_governor_def new_engine_def engine_reset_def
      split: option.splits prod.splits sum.splits if_splits)

section \<open>What the engine remembers\<close>

lemma evaluate_engine:
  assumes "evaluate now g = (d, g')" and "eg_tracker (gv_engine g) = run_series inps"
  shows "d = fst (engine_step (evaluation_input now g) (engine_run inps))"
    and "eg_tracker (gv_engine g') = run_series (evaluation_input now g # inps)"
proof -
  let ?inp = "evaluation_input now g"
  have same: "fst (engine_step ?inp (gv_engine g)) = fst (engine_step ?inp (engine_run inps))"
    "eg_tracker (snd (engine_step ?inp (gv_engine g))) = eg_tracker (snd (engine_step ?inp (engine_run inps)))"
    using assms(2) detect_tracker_None_iff [of "?inp\<lparr>di_tracker := Some (run_series inps)\<rparr>"]
    by (auto simp: engine_step_def decide_def Let_def engine_run_tracker)
  have e: "d = fst (engine_step ?inp (gv_engine g))" "gv_engine g' = snd (engine_step ?inp (gv_engine g))"
    using assms(1) by (auto simp: evaluate_def record_decision_def Let_def case_prod_beta)
  show "d = fst (engine_step ?inp (engine_run inps))" using e(1) same(1) by simp
  show "eg_tracker (gv_engine g') = run_series (?inp # inps)"
    using e(2) same(2) engine_run_tracker [of "?inp # inps"] by simp
qed

definition system_ok :: "Coordinator \<Rightarrow> DecisionInput list \<Rightarrow> bool" where
  "system_ok w inps \<longleftrightarrow> coordinator_reachable w \<and> eg_tracker (gv_engine (co_governor w)) = run_series inps \<and>
     (\<forall>x \<in> set inps. input_ok x \<and> millis_ok (di_now x))"

lemma system_ok_governor:
  assumes "system_ok w inps" and "governor_step (co_governor w) g" and "gv_engine g = gv_engine (co_governor w)"
  shows "system_ok (w\<lparr>co_governor := g\<rparr>) inps"
  using assms moved [OF _ step_governor] by (auto simp: system_ok_def)

lemma evaluation_input_ok:
  assumes "governor_reachable g" and "now \<noteq> kNoTime"
  shows "input_ok (evaluation_input now g)"
  using governor_reachable_ok [OF assms(1)] assms(2)
  by (auto simp: governor_ok_def snapshots_ok_def input_ok_def evaluation_input_def Let_def)

lemma system_reachable_governor: "system_ok w inps \<Longrightarrow> governor_reachable (co_governor w) \<and> governor_ok (co_governor w)"
  using coordinator_reachable_ok governor_reachable_ok by (auto simp: system_ok_def coordinator_ok_def)

lemma system_run_ok: "system_run w inps \<Longrightarrow> system_ok w inps"
proof (induction rule: system_run.induct)
  case (boots pid counter disk now c g n)
  then show ?case using made [OF recovered [OF boots]] recovered_tracker [OF boots] by (simp add: system_ok_def new_coordinator_def)
next
  case (serves w inps detail now ended i)
  have "governor_ok (co_governor w)" using system_reachable_governor [OF serves.IH] by blast
  from serve_engine [OF this] show ?case using serves.IH moved [OF _ step_serve] by (simp add: system_ok_def)
next
  case (accepts w inps accepted)
  then show ?case using moved [OF _ step_accept] by (simp add: system_ok_def)
next
  case (starts w inps bound)
  then show ?case using moved [OF _ step_start] coordinator_start_engine by (simp add: system_ok_def)
next
  case (stops w inps)
  then show ?case using moved [OF _ step_stop] by (simp add: system_ok_def) (simp add: coordinator_stop_def)
next
  case (admits w inps frame now r g)
  then show ?case using system_reachable_governor by (intro system_ok_governor) (auto intro: step_admit dest: admit_engine)
next
  case (evaluates w inps now d g)
  let ?inp = "evaluation_input now (co_governor w)"
  have "input_ok ?inp" using evaluation_input_ok [OF conjunct1 [OF system_reachable_governor [OF evaluates.IH]] evaluates.hyps(2)] .
  moreover have "millis_ok (di_now ?inp)" using evaluates.hyps(3) by (simp add: evaluation_input_def Let_def)
  moreover have "eg_tracker (gv_engine g) = run_series (?inp # inps)"
    using evaluate_engine(2) [OF evaluates.hyps(4)] evaluates.IH by (simp add: system_ok_def)
  moreover have "coordinator_reachable (w\<lparr>co_governor := g\<rparr>)"
    using evaluates.IH moved [OF _ step_governor [OF step_evaluate [OF evaluates.hyps(4)]]] by (simp add: system_ok_def)
  ultimately show ?case using evaluates.IH by (simp add: system_ok_def)
qed (auto intro!: system_ok_governor intro: step_install step_register step_death step_commit
    dest: install_epoch_engine register_publisher_engine note_publisher_death_engine commit_durable_engine)

text \<open>
  What the governor of a running system reports of its history: for every resource the unbroken run of
  evaluations up to now that found it saturated, and as many tracked resources as have such a run.
\<close>

lemma reported_history_exact:
  assumes "system_run w inps"
  shows "history_entry i (co_governor w) = (if streak i inps = [] then no_entry else streak_entry (streak i inps))"
    and "tracked_saturations (co_governor w) = card {i. streak i inps \<noteq> []}"
proof -
  have tr: "eg_tracker (gv_engine (co_governor w)) = run_series inps" and ok: "\<forall>x \<in> set inps. input_ok x"
    using system_run_ok [OF assms] by (auto simp: system_ok_def)
  note exact = run_series_exact [OF ok]
  show "history_entry i (co_governor w) = (if streak i inps = [] then no_entry else streak_entry (streak i inps))"
    using exact [of i] by (simp add: history_entry_def tr)
  have wf: "tracker_wf (run_series inps)" using exact by blast
  have "i \<in> fst ` set (run_series inps) \<longleftrightarrow> streak i inps \<noteq> []" for i
    using exact [of i] tracker_index.lookup_Some_iff [OF wf, of i] by (force split: if_splits)
  then have "fst ` set (run_series inps) = {i. streak i inps \<noteq> []}" by blast
  moreover have "distinct (map fst (run_series inps))" using wf by (simp add: tracker_wf_def strictly_sorted_by_distinct)
  ultimately show "tracked_saturations (co_governor w) = card {i. streak i inps \<noteq> []}"
    using distinct_card by (fastforce simp: tracked_saturations_def tr)
qed

text \<open>The sustained saturation behind an intent of the running system.\<close>

lemma run_intent_sustained:
  assumes run: "system_run w inps" and now: "now \<noteq> kNoTime" "millis_ok now"
    and ev: "evaluate now (co_governor w) = (d, g)" and i: "i \<in> set (pl_intents (de_plan d))"
    and inp: "inp = evaluation_input now (co_governor w)"
  shows "policy_live inp \<and>
    (\<exists>h \<in> set (fa_hotspots (de_assessment d)). mi_hotspot i = hs_id h \<and> hs_resources h \<noteq> [] \<and>
       (\<forall>r \<in> set (hs_resources h). sustained inp inps r) \<and>
       (if mi_escalation i
        then fa_escalation_required (de_assessment d) \<and> pl_intents (de_plan d) = [i] \<and>
          mi_resources i = [] \<and> mi_paths i = [] \<and> mi_flows i = []
        else set (hs_resources h) \<subseteq> set (mi_resources i) \<and>
          (\<forall>r \<in> set (mi_resources i) - set (hs_resources h). r \<in> set (hs_healthy h) \<and> \<not> saturated_in inp r)))"
proof (rule engine_intent_sustained)
  have ok: "system_ok w inps" by (rule system_run_ok [OF run])
  have "di_now inp = now" by (simp add: inp evaluation_input_def Let_def)
  then show "\<forall>x \<in> set (inp # inps). input_ok x \<and> millis_ok (di_now x)"
    using ok evaluation_input_ok [OF conjunct1 [OF system_reachable_governor [OF ok]] now(1)] now(2)
    by (simp add: system_ok_def inp)
  show "d = fst (engine_step inp (engine_run inps))"
    using evaluate_engine(1) [OF ev] ok by (simp add: system_ok_def inp)
qed (rule i)

section \<open>A run that emits an intent\<close>

text \<open>An authorised frame whose evidence decodes and resolves is admitted.\<close>

lemma authorised_frame_admitted:
  assumes "governor_ok g" and "frame_authorised (fr_header frame) g p" and "fh_type (fr_header frame) \<noteq> MT_Heartbeat"
    and "verify_payload (fr_header frame) (fr_payload frame) = Inr ()"
    and "install_payload frame (gv_snapshots g) = Inr (n, s)" and "verify_references s = Inr ()"
  obtains rep g' where "admit frame now g = (Inr rep, g')" "gv_snapshots g' = s" "gv_epoch g' = gv_epoch g" "gv_boot g' = gv_boot g"
    "gv_publishers g' = set_publisher (advanced (fr_header frame) now p) (gv_publishers g)"
    "gv_verified_topology g' = option_id tp_id (sn_topology s)" "gv_verified_capacity g' = option_id cs_id (sn_capacity s)"
    "gv_verified_signals g' = option_id ss_id (sn_signals s)" "gv_verified_paths g' = option_id ps_id (sn_paths s)"
proof -
  let ?g = "counted [mt_frames_received_update] g"
  have p: "admitted_publisher (fr_header frame) ?g = (Inr p, ?g)" using assms(1,2) by (intro frame_authorised_admitted) simp_all
  define g1 where "g1 = ?g\<lparr>gv_snapshots := s, gv_verified_topology := option_id tp_id (sn_topology s),
     gv_verified_capacity := option_id cs_id (sn_capacity s), gv_verified_signals := option_id ss_id (sn_signals s),
     gv_verified_paths := option_id ps_id (sn_paths s),
     gv_publishers := set_publisher (advanced (fr_header frame) now p) (gv_publishers g)\<rparr>"
  have "admit frame now g = accept frame n g1"
    using p assms(5,6) by (simp add: admit_stream_frame [OF assms(3,4)] admit_stream_def Let_def advanced_def g1_def)
  then show thesis by (intro that [of "projr (fst (accept frame n g1))" "snd (accept frame n g1)"]) (simp_all add: accept_def Let_def g1_def)
qed

text \<open>The governor of publisher 7: what it has sent so far, and the evidence installed.\<close>

definition line_governor :: "Governor \<Rightarrow> u64 list \<Rightarrow> Sequence \<Rightarrow> Snapshots \<Rightarrow> bool" where
  "line_governor g gens q s \<longleftrightarrow> gv_epoch g = 1 \<and> gv_boot g = 5 \<and> gv_snapshots g = s \<and>
     (\<exists>p. gv_publishers g = [p] \<and> pb_id p = 7 \<and> pb_incarnation p = 2 \<and> pb_boot p = 9 \<and> pb_epoch p = 1 \<and> pb_alive p \<and>
        pb_last_sequence p = q \<and> pb_stream_generations p = gens)"

definition line_frame :: "MessageType \<Rightarrow> Sequence \<Rightarrow> bytes \<Rightarrow> Frame" where
  "line_frame k q payload = make_frame k (line_provenance (stream_of k) q) payload"

lemma line_frame_header:
  "fr_payload (line_frame k q payload) = payload" "fh_type (fr_header (line_frame k q payload)) = k"
  "frame_provenance (fr_header (line_frame k q payload)) = line_provenance (stream_of k) q"
  by (simp_all add: line_frame_def make_frame_def frame_provenance_def line_provenance_def no_provenance_def)

lemma line_frame_admitted:
  assumes run: "system_run w []" and g: "line_governor (co_governor w) gens q s" and new: "q < q'"
    and k: "stream_of k \<noteq> Stream_Unknown" "k \<noteq> MT_Heartbeat" "gens ! stream_index (stream_of k) = 0"
    and len: "length payload \<le> 4096"
    and i: "install_payload (line_frame k q' payload) s = Inr (n, s')" and v: "verify_references s' = Inr ()"
  shows "\<exists>w'. system_run w' [] \<and> line_governor (co_governor w') (gens[stream_index (stream_of k) := 1]) q' s' \<and>
    gv_verified_topology (co_governor w') = option_id tp_id (sn_topology s') \<and> gv_verified_capacity (co_governor w') = option_id cs_id (sn_capacity s') \<and>
    gv_verified_signals (co_governor w') = option_id ss_id (sn_signals s') \<and> gv_verified_paths (co_governor w') = option_id ps_id (sn_paths s')"
proof -
  let ?f = "line_frame k q' payload"
  obtain p where p: "gv_publishers (co_governor w) = [p]" "pb_id p = 7" "pb_incarnation p = 2" "pb_boot p = 9" "pb_epoch p = 1" "pb_alive p"
    "pb_last_sequence p = q" "pb_stream_generations p = gens" and e: "gv_epoch (co_governor w) = 1" "gv_boot (co_governor w) = 5"
    "gv_snapshots (co_governor w) = s" using g by (auto simp: line_governor_def)
  have h: "fh_type (fr_header ?f) = k" "fh_epoch (fr_header ?f) = 1" "fh_publisher (fr_header ?f) = 7" "fh_incarnation (fr_header ?f) = 2"
    "fh_boot (fr_header ?f) = 9" "fh_sequence (fr_header ?f) = q'" "fh_generation (fr_header ?f) = 1"
    by (simp_all add: line_frame_def make_frame_def line_provenance_def)
  have "find_publisher [p] 7 = Some p" using p(2) by (simp add: find_publisher_def find_sorted_def lower_bound_def)
  then have auth: "frame_authorised (fr_header ?f) (co_governor w) p"
    using k(1,3) new p e by (simp add: frame_authorised_def h valid_id_def)
  have "length payload < 2 ^ 32" using len by simp
  then have vp: "verify_payload (fr_header ?f) (fr_payload ?f) = Inr ()"
    using len by (simp add: verify_payload_def line_frame_def make_frame_def kMaxFrameBytes_def unat_length32)
  have ok: "governor_ok (co_governor w)" using system_reachable_governor [OF system_run_ok [OF run]] by blast
  from authorised_frame_admitted [OF ok auth _ vp] i v obtain rep g' where
    a: "admit ?f 100 (co_governor w) = (Inr rep, g')" "gv_snapshots g' = s'" "gv_epoch g' = 1" "gv_boot g' = 5"
    "gv_publishers g' = set_publisher (advanced (fr_header ?f) 100 p) [p]" 
    and ver: "gv_verified_topology g' = option_id tp_id (sn_topology s')" "gv_verified_capacity g' = option_id cs_id (sn_capacity s')"
    "gv_verified_signals g' = option_id ss_id (sn_signals s')" "gv_verified_paths g' = option_id ps_id (sn_paths s')"
    using k(2) h(1) e p(1) by metis
  have "line_governor g' (gens[stream_index (stream_of k) := 1]) q' s'"
    using a(2-5) p h by (simp add: line_governor_def set_publisher_def lower_bound_def advanced_def)
  then show ?thesis using ver admits [OF run a(1)] by (intro exI [of _ "w\<lparr>co_governor := g'\<rparr>"]) simp
qed

text \<open>The payloads of the line fabric.\<close>

lemma line_topology_payload:
  assumes b: "build_topology line_topology = Inr t"
  obtains bs where "decode_topology_payload bs = Inr (t\<lparr>tp_provenance := no_provenance\<rparr>)" "length bs \<le> 4096"
proof -
  have meta: "tp_generation t = 0" "tp_valid_until t = 0" "tp_valid_from t = kNoTime"
    by (simp_all add: build_topology_meta [OF b] line_topology_def add_link_def add_resource_def add_region_def empty_topology_def)
  have "\<forall>r \<in> set (tp_resources t). rk_ok (rs_kind r)"
    by (simp add: build_topology_wf(3) [OF b] line_topology_fields rk_ok_def rk_of_def)
  moreover have "millis_ok kNoTime" "millis_ok 0" by (simp_all add: millis_ok_def kNoTime_def kMaxTime_def)
  moreover have "t = t\<lparr>tp_generation := 0, tp_valid_from := kNoTime, tp_valid_until := 0, tp_provenance := tp_provenance t\<rparr>"
    using meta by (cases t) simp
  ultimately obtain bs where bs: "encode_topology_payload t = Inr bs" "decode_topology_payload bs = Inr (t\<lparr>tp_provenance := no_provenance\<rparr>)"
    using topology_roundtrip [OF b] by blast
  have "length bs \<le> 4096" using bs(1)
    by (auto simp: encode_topology_payload_def bind_result_Inr_iff encode_stream_header_def length_w_list w_region_def w_resource_def
        w_link_def w_text_def string_bytes_def build_topology_wf(2-4) [OF b] line_topology_fields link_key_def)
  then show thesis using that bs(2) by blast
qed

lemma line_capacity_payload:
  assumes b: "build_capacity line_capacity = Inr c"
  obtains bs where "decode_capacity_payload bs = Inr (c\<lparr>cs_provenance := no_provenance\<rparr>)" "length bs \<le> 4096"
proof -
  have "cs_observed_at c = 1000"
    using b by (auto simp: build_capacity_def Let_def bind_result_Inr_iff line_capacity_def add_capacity_def empty_capacity_def)
  then have "millis_ok (cs_observed_at c)" by (simp add: millis_ok_def kNoTime_def kMaxTime_def)
  moreover have "c = c\<lparr>cs_generation := cs_generation c, cs_topology_generation := cs_topology_generation c,
      cs_observed_at := cs_observed_at c, cs_provenance := cs_provenance c\<rparr>" by simp
  ultimately obtain bs where bs: "encode_capacity_payload c = Inr bs" "decode_capacity_payload bs = Inr (c\<lparr>cs_provenance := no_provenance\<rparr>)"
    using capacity_roundtrip [OF b] by blast
  have "length bs \<le> 4096" using bs(1)
    by (auto simp: encode_capacity_payload_def bind_result_Inr_iff encode_stream_header_def length_w_list w_capacity_def w_bool_def
        build_capacity_wf(2) [OF b] line_capacity_def add_capacity_def empty_capacity_def cap100_def)
  then show thesis using that bs(2) by blast
qed

lemma line_signals_payload:
  assumes b: "build_signals line_signals = Inr s"
  obtains bs where "decode_signals_payload bs = Inr (s\<lparr>ss_provenance := no_provenance\<rparr>)" "length bs \<le> 4096"
proof -
  have "millis_ok (ss_window_start s)" "millis_ok (ss_window_end s)"
    using b by (auto simp: build_signals_def Let_def bind_result_Inr_iff line_signals_def add_signals_def empty_signals_def
        millis_ok_def kNoTime_def kMaxTime_def)
  moreover have "\<forall>r \<in> set (ss_records s). tq_ok (sr_quality r) \<and> millis_ok (sr_observed_at r)"
    by (simp add: build_signals_wf(2) [OF b] line_signals_def add_signals_def empty_signals_def load_def tq_ok_def tq_of_def
        millis_ok_def kNoTime_def kMaxTime_def)
  moreover have "s = s\<lparr>ss_generation := ss_generation s, ss_topology_generation := ss_topology_generation s,
      ss_capacity_generation := ss_capacity_generation s, ss_window_start := ss_window_start s, ss_window_end := ss_window_end s,
      ss_provenance := ss_provenance s\<rparr>" by simp
  ultimately obtain bs where bs: "encode_signals_payload s = Inr bs" "decode_signals_payload bs = Inr (s\<lparr>ss_provenance := no_provenance\<rparr>)"
    using signals_roundtrip [OF b] by blast
  have "length bs \<le> 4096" using bs(1)
    by (auto simp: encode_signals_payload_def bind_result_Inr_iff encode_stream_header_def length_w_list w_signals_def
        build_signals_wf(2) [OF b] line_signals_def add_signals_def empty_signals_def load_def)
  then show thesis using that bs(2) by blast
qed

lemma line_policy_payload:
  "decode_policy_payload (encode_policy_payload line_policy) = Inr (line_policy\<lparr>po_provenance := no_provenance\<rparr>)"
  "length (encode_policy_payload line_policy) \<le> 4096"
proof -
  show "decode_policy_payload (encode_policy_payload line_policy) = Inr (line_policy\<lparr>po_provenance := no_provenance\<rparr>)"
    by (rule policy_roundtrip) (simp add: line_policy_def empty_policy_def millis_ok_def kNoTime_def kMaxTime_def)
  show "length (encode_policy_payload line_policy) \<le> 4096"
    by (simp add: encode_policy_payload_def encode_stream_header_def w_thresholds_def w_budget_def w_bands_def)
qed

text \<open>The system with publisher 7 registered, and then with all its evidence installed.\<close>

lemma line_boots: "\<exists>w. system_run w [] \<and> line_governor (co_governor w) no_generations 0 no_snapshots"
proof -
  let ?disk = "\<lparr>dk_files = Map.empty, dk_io = []\<rparr>"
  obtain g where r: "governor_recover 1 1 ?disk 0 (new_governor example_config) = (Inr (), g)" "gv_epoch g = 1" "gv_publishers g = []"
    "gv_store g = None" "gv_snapshots g = no_snapshots"
    by (simp add: governor_recover_def new_governor_def example_config_def valid_id_def Let_def)
  let ?w = "new_coordinator 4 g"
  have c: "co_governor ?w = g" by (simp add: new_coordinator_def)
  obtain g1 where i: "install_epoch 1 5 10 (co_governor ?w) = (Inr (), g1)" "gv_epoch g1 = 1" "gv_boot g1 = 5" "gv_publishers g1 = []"
    "gv_snapshots g1 = no_snapshots"
    using r(2-5) by (simp add: c install_epoch_def commit_candidate_def valid_id_def Let_def)
  let ?w1 = "?w\<lparr>co_governor := g1\<rparr>"
  obtain x g2 where p: "register_publisher example_hello 20 (co_governor ?w1) = (x, g2)" by fastforce
  then have "gv_epoch g2 = 1 \<and> gv_boot g2 = 5 \<and> gv_snapshots g2 = no_snapshots \<and> gv_publishers g2 = [fresh_publisher example_hello 1 20]"
    using i(2-5) by (auto simp: register_publisher_def example_hello_def valid_id_def find_publisher_def find_sorted_def lower_bound_def
        insert_publisher_def kMaxPublishers_def Let_def)
  then have "line_governor g2 no_generations 0 no_snapshots" by (simp add: line_governor_def fresh_publisher_def example_hello_def)
  moreover have "system_run (?w1\<lparr>co_governor := g2\<rparr>) []" by (rule registers [OF installs [OF boots [OF r(1)] i(1)] p])
  ultimately show ?thesis by (intro exI [of _ "?w1\<lparr>co_governor := g2\<rparr>"]) simp
qed

definition line_ready :: "Governor \<Rightarrow> TopologySnapshot \<Rightarrow> CapacitySnapshot \<Rightarrow> SignalSnapshot \<Rightarrow> bool" where
  "line_ready g t c s \<longleftrightarrow> line_built t c s \<and>
     (\<forall>now. evaluation_input now g = (line_input t c s now)\<lparr>di_tracker := Some (eg_tracker (gv_engine g))\<rparr>)"

lemma stream_gens [simp]: "no_generations = [0, 0, 0, 0, 0, 0, 0]"
  by (simp add: no_generations_def kStreamCount_def numeral_eq_Suc)

lemma line_evidence_installed: "\<exists>w t c s. system_run w [] \<and> line_ready (co_governor w) t c s"
proof -
  obtain t c s where b: "build_topology line_topology = Inr t" "build_capacity line_capacity = Inr c" "build_signals line_signals = Inr s"
    using line_snapshots_build by blast
  let ?t = "t\<lparr>tp_provenance := line_provenance Stream_Topology 1\<rparr>" and ?c = "c\<lparr>cs_provenance := line_provenance Stream_Capacity 2\<rparr>"
    and ?s = "s\<lparr>ss_provenance := line_provenance Stream_Signals 3\<rparr>"
  have built: "line_built ?t ?c ?s" unfolding line_built_def using b by blast
  note f = line_facts [OF built]
  obtain bt bc bs where pay: "decode_topology_payload bt = Inr (t\<lparr>tp_provenance := no_provenance\<rparr>)" "length bt \<le> 4096"
    "decode_capacity_payload bc = Inr (c\<lparr>cs_provenance := no_provenance\<rparr>)" "length bc \<le> 4096"
    "decode_signals_payload bs = Inr (s\<lparr>ss_provenance := no_provenance\<rparr>)" "length bs \<le> 4096"
    using line_topology_payload [OF b(1)] line_capacity_payload [OF b(2)] line_signals_payload [OF b(3)] by metis
  have res: "capacity_resolves ?t ?c" "signals_resolve ?t ?s"
    using f(2,6,11) by (simp_all add: capacity_resolves_def signals_resolve_def)
  let ?s1 = "no_snapshots\<lparr>sn_topology := Some ?t\<rparr>" and ?s2 = "no_snapshots\<lparr>sn_topology := Some ?t, sn_capacity := Some ?c\<rparr>"
    and ?s3 = "no_snapshots\<lparr>sn_topology := Some ?t, sn_capacity := Some ?c, sn_signals := Some ?s\<rparr>"
    and ?s4 = "no_snapshots\<lparr>sn_topology := Some ?t, sn_capacity := Some ?c, sn_signals := Some ?s, sn_policy := Some line_policy\<rparr>"
  obtain w0 where w0: "system_run w0 []" "line_governor (co_governor w0) no_generations 0 no_snapshots" using line_boots by blast
  obtain n1 where i1: "install_payload (line_frame MT_Topology 1 bt) no_snapshots = Inr (n1, ?s1)"
    using pay(1) by (simp add: install_payload_def line_frame_header Let_def no_snapshots_def stream_of_def)
  obtain n2 where i2: "install_payload (line_frame MT_Capacity 2 bc) ?s1 = Inr (n2, ?s2)"
    using pay(3) by (simp add: install_payload_def line_frame_header Let_def no_snapshots_def stream_of_def)
  obtain n3 where i3: "install_payload (line_frame MT_Signals 3 bs) ?s2 = Inr (n3, ?s3)"
    using pay(5) by (simp add: install_payload_def line_frame_header Let_def no_snapshots_def stream_of_def)
  obtain n4 where i4: "install_payload (line_frame MT_Policy 4 (encode_policy_payload line_policy)) ?s3 = Inr (n4, ?s4)"
    using line_policy_payload(1) by (simp add: install_payload_def line_frame_header Let_def no_snapshots_def stream_of_def)
      (simp add: line_policy_def)
  have v: "verify_references ?s1 = Inr ()" "verify_references ?s2 = Inr ()" "verify_references ?s3 = Inr ()" "verify_references ?s4 = Inr ()"
    using res by (simp_all add: verify_references_def no_snapshots_def)
  have ix: "stream_index (stream_of MT_Topology) = 1" "stream_index (stream_of MT_Capacity) = 2" "stream_index (stream_of MT_Signals) = 3"
    "stream_index (stream_of MT_Policy) = 6" "stream_of MT_Topology \<noteq> Stream_Unknown" "stream_of MT_Capacity \<noteq> Stream_Unknown"
    "stream_of MT_Signals \<noteq> Stream_Unknown" "stream_of MT_Policy \<noteq> Stream_Unknown"
    by (simp_all add: stream_index_def stream_of_def kStreamCount_def)
  obtain w1 where w1: "system_run w1 []" "line_governor (co_governor w1) [0, 1, 0, 0, 0, 0, 0] 1 ?s1"
    using line_frame_admitted [OF w0(1,2) _ ix(5) _ _ pay(2) i1 v(1)] by (auto simp: ix)
  obtain w2 where w2: "system_run w2 []" "line_governor (co_governor w2) [0, 1, 1, 0, 0, 0, 0] 2 ?s2"
    using line_frame_admitted [OF w1(1,2) _ ix(6) _ _ pay(4) i2 v(2)] by (auto simp: ix)
  obtain w3 where w3: "system_run w3 []" "line_governor (co_governor w3) [0, 1, 1, 1, 0, 0, 0] 3 ?s3"
    using line_frame_admitted [OF w2(1,2) _ ix(7) _ _ pay(6) i3 v(3)] by (auto simp: ix)
  obtain w4 where w4: "system_run w4 []" "line_governor (co_governor w4) [0, 1, 1, 1, 0, 0, 1] 4 ?s4"
    "gv_verified_topology (co_governor w4) = option_id tp_id (sn_topology ?s4)" "gv_verified_capacity (co_governor w4) = option_id cs_id (sn_capacity ?s4)"
    "gv_verified_signals (co_governor w4) = option_id ss_id (sn_signals ?s4)" "gv_verified_paths (co_governor w4) = option_id ps_id (sn_paths ?s4)"
    using line_frame_admitted [OF w3(1,2) _ ix(8) _ _ line_policy_payload(2) i4 v(4)] by (auto simp: ix)
  have "line_ready (co_governor w4) ?t ?c ?s"
    using w4(2-6) built by (simp add: line_ready_def line_governor_def evaluation_input_def Let_def line_input_def no_snapshots_def option_id_def)
  then show ?thesis using w4(1) by blast
qed

lemma evaluate_keeps:
  assumes "evaluate now g = (d, g')"
  shows "gv_snapshots g' = gv_snapshots g" "gv_epoch g' = gv_epoch g" "gv_boot g' = gv_boot g"
    "gv_verified_topology g' = gv_verified_topology g" "gv_verified_capacity g' = gv_verified_capacity g"
    "gv_verified_signals g' = gv_verified_signals g" "gv_verified_paths g' = gv_verified_paths g"
  using assms by (auto simp: evaluate_def record_decision_def Let_def case_prod_beta)

lemma line_evaluated:
  assumes run: "system_run w inps" and ready: "line_ready (co_governor w) t c s" and now: "now \<noteq> kNoTime" "millis_ok now"
  obtains w' x where "system_run w' ((line_input t c s now)\<lparr>di_tracker := x\<rparr> # inps)" "line_ready (co_governor w') t c s"
proof -
  obtain d g where e: "evaluate now (co_governor w) = (d, g)" by fastforce
  have "evaluation_input n g = (evaluation_input n (co_governor w))\<lparr>di_tracker := Some (eg_tracker (gv_engine g))\<rparr>" for n
    by (simp add: evaluation_input_def Let_def evaluate_keeps [OF e] split: option.split)
  then have "line_ready g t c s" using ready by (simp add: line_ready_def)
  moreover have "system_run (w\<lparr>co_governor := g\<rparr>) (evaluation_input now (co_governor w) # inps)" by (rule evaluates [OF run now e])
  ultimately show thesis using ready by (intro that [of "w\<lparr>co_governor := g\<rparr>" "Some (eg_tracker (gv_engine (co_governor w)))"])
    (simp_all add: line_ready_def)
qed

text \<open>The third evaluation emits an intent on resource 11.\<close>

lemma line_run_emits:
  "\<exists>w inps d g i t c s x. system_run w inps \<and> evaluate 3000 (co_governor w) = (d, g) \<and> i \<in> set (pl_intents (de_plan d)) \<and>
     \<not> mi_escalation i \<and> (\<exists>h. fa_hotspots (de_assessment d) = [h] \<and> hs_resources h = [11]) \<and> line_built t c s \<and>
     evaluation_input 3000 (co_governor w) = (line_input t c s 3000)\<lparr>di_tracker := x\<rparr>"
proof -
  obtain w0 t c s where w0: "system_run w0 []" "line_ready (co_governor w0) t c s" using line_evidence_installed by blast
  obtain w1 x where w1: "system_run w1 [(line_input t c s 1000)\<lparr>di_tracker := x\<rparr>]" "line_ready (co_governor w1) t c s"
    using line_evaluated [OF w0 line_times(4,7)] by blast
  obtain w y where w: "system_run w [(line_input t c s 2000)\<lparr>di_tracker := y\<rparr>, (line_input t c s 1000)\<lparr>di_tracker := x\<rparr>]"
    "line_ready (co_governor w) t c s" using line_evaluated [OF w1 line_times(5,8)] by blast
  let ?inps = "[(line_input t c s 2000)\<lparr>di_tracker := y\<rparr>, (line_input t c s 1000)\<lparr>di_tracker := x\<rparr>]"
  have series: "run_series ?inps = run_series (line_series t c s)" by (simp add: line_series_def)
  have b: "line_built t c s" and inp: "\<exists>z. evaluation_input 3000 (co_governor w) = (line_input t c s 3000)\<lparr>di_tracker := z\<rparr>"
    using w(2) by (auto simp: line_ready_def)
  obtain i where i: "pl_intents (de_plan (decision_of (line_now t c s))) = [i]" "\<not> mi_escalation i"
    using line_emits [OF b] by blast
  have h: "\<exists>h. fa_hotspots (de_assessment (decision_of (line_now t c s))) = [h] \<and> hs_resources h = [11]"
    using line_confirmed [OF b] unfolding decision_of_fields by blast
  obtain d g where e: "evaluate 3000 (co_governor w) = (d, g)" by fastforce
  have "d = decision_of (line_now t c s)"
    using evaluate_engine(1) [OF e, of ?inps] system_run_ok [OF w(1)] inp series
    by (auto simp: system_ok_def engine_step_def decide_def Let_def engine_run_tracker simp del: run_series.simps engine_run.simps)
  then show ?thesis using w(1) e i h b inp by (metis list.set_intros(1))
qed

end
