(* ===== verification/HGM_Threads.thy ===== *)
theory HGM_Threads
  imports HGM_Coordinator
begin

text \<open>
  The threads of the coordinator (\<^verbatim>\<open>src/coordinator.cpp\<close>) at the grain of its critical sections. In
  \<^verbatim>\<open>HGM_Coordinator\<close> one iteration of a loop is one step. The code holds no lock across an iteration:
  between the call of the governor, the reply and the counting, and between the look at the number of
  connections and the push of a new one, the other threads run. Here every section under a mutex, every
  call of the governor and every local piece of work is a step of its own, and so are the steps in which
  the handle of a connection's thread is created, assigned, detached and joined. The counters, the list of
  connections and the governor are those of the record \<open>Coordinator\<close>; its \<open>co_sessions\<close> is not used here.
\<close>

section \<open>The thread of a connection\<close>

text \<open>Where a thread in \<open>connection_loop\<close> is: what it does next.\<close>

datatype (plugins only: code size) Phase =
    Ph_Born
  | Ph_Loop
  | Ph_Register HelloPayload
  | Ph_Welcome HelloPayload WelcomePayload
  | Ph_CountHello
  | Ph_Admit Frame
  | Ph_CountAdmitted
  | Ph_CountRefused Phase
  | Ph_Reject ErrorCode string Phase
  | Ph_After
  | Ph_Death
  | Ph_CountLost
  | Ph_Close
  | Ph_Forget
  | Ph_Retire bool
  | Ph_Done

text \<open>The \<open>std::thread\<close> member of a connection object.\<close>

datatype (plugins only: code) ThreadHandle = H_Empty | H_Joinable | H_Joined | H_Detached

record ConnectionThread =
  td_connection :: Connection
  td_phase :: Phase
  td_handle :: ThreadHandle

text \<open>What a received frame leads to.\<close>

definition dispatch :: "string \<Rightarrow> bool \<Rightarrow> Frame \<Rightarrow> Phase" where
  "dispatch detail registered frame =
     (if \<not> registered
      then if fh_type (fr_header frame) \<noteq> MT_Hello then Ph_Reject MalformedFrame ''first frame must be a hello'' Ph_After
           else case decode_hello (fr_payload frame) of
             Inl e \<Rightarrow> Ph_Reject e detail Ph_After
           | Inr hello \<Rightarrow> Ph_Register hello
      else if fh_type (fr_header frame) = MT_Goodbye then Ph_After
      else Ph_Admit frame)"

definition loop_top :: "string \<Rightarrow> ConnectionThread \<Rightarrow> ConnectionThread" where
  "loop_top detail t =
     (let c = td_connection t
      in if cn_stopping c then t\<lparr>td_phase := Ph_After\<rparr>
         else case receive_frame (cn_socket c) of
           (Inl e, s) \<Rightarrow>
             t\<lparr>td_connection := c\<lparr>cn_socket := s\<rparr>,
               td_phase := (if e = Timeout then Ph_Loop else if e \<noteq> ConnectionClosed then Ph_CountRefused Ph_After else Ph_After)\<rparr>
         | (Inr frame, s) \<Rightarrow>
             t\<lparr>td_connection := c\<lparr>cn_socket := s\<rparr>, td_phase := dispatch detail (cn_registered c) frame\<rparr>)"

text \<open>One step of the thread of connection \<open>i\<close>; \<open>None\<close> before it has started and after it has returned.\<close>

definition phase_step :: "string \<Rightarrow> Millis \<Rightarrow> nat \<Rightarrow> ConnectionThread \<Rightarrow> Coordinator \<Rightarrow> (ConnectionThread \<times> Coordinator) option" where
  "phase_step detail now i t w =
     (let c = td_connection t; goto = (\<lambda>p. t\<lparr>td_phase := p\<rparr>)
      in case td_phase t of
           Ph_Born \<Rightarrow> None
         | Ph_Loop \<Rightarrow> Some (loop_top detail t, w)
         | Ph_Register hello \<Rightarrow>
             (case register_publisher hello now (co_governor w) of
                (Inl e, g) \<Rightarrow> Some (goto (Ph_Reject e detail (Ph_CountRefused Ph_After)), w\<lparr>co_governor := g\<rparr>)
              | (Inr welcome, g) \<Rightarrow> Some (goto (Ph_Welcome hello welcome), w\<lparr>co_governor := g\<rparr>))
         | Ph_Welcome hello welcome \<Rightarrow>
             (case send_frame (reply_frame MT_Welcome (we_epoch welcome) (encode_welcome welcome)) (cn_socket c) of
                (Inl e, s) \<Rightarrow> Some (t\<lparr>td_connection := c\<lparr>cn_socket := s\<rparr>, td_phase := Ph_After\<rparr>, w)
              | (Inr _, s) \<Rightarrow>
                  Some (t\<lparr>td_connection := c\<lparr>cn_socket := s, cn_registered := True, cn_publisher := he_publisher hello\<rparr>,
                          td_phase := Ph_CountHello\<rparr>, w))
         | Ph_CountHello \<Rightarrow> Some (goto Ph_Loop, w\<lparr>co_hellos := co_hellos w + 1\<rparr>)
         | Ph_Admit frame \<Rightarrow>
             (case admit frame now (co_governor w) of
                (Inr _, g) \<Rightarrow> Some (goto Ph_CountAdmitted, w\<lparr>co_governor := g\<rparr>)
              | (Inl e, g) \<Rightarrow>
                  Some (goto (Ph_CountRefused (Ph_Reject e detail (if ends_session e then Ph_After else Ph_Loop))), w\<lparr>co_governor := g\<rparr>))
         | Ph_CountAdmitted \<Rightarrow> Some (goto Ph_Loop, w\<lparr>co_frames_admitted := co_frames_admitted w + 1\<rparr>)
         | Ph_CountRefused p \<Rightarrow> Some (goto p, count_refused w)
         | Ph_Reject code reason p \<Rightarrow> Some (t\<lparr>td_connection := fst (reject code reason c w), td_phase := p\<rparr>, w)
         | Ph_After \<Rightarrow> Some (goto (if cn_registered c \<and> valid_id (cn_publisher c) then Ph_Death else Ph_Close), w)
         | Ph_Death \<Rightarrow>
             Some (goto Ph_CountLost, w\<lparr>co_governor := snd (note_publisher_death (cn_publisher c) now (co_governor w))\<rparr>)
         | Ph_CountLost \<Rightarrow> Some (goto Ph_Close, w\<lparr>co_publishers_lost := co_publishers_lost w + 1\<rparr>)
         | Ph_Close \<Rightarrow> Some (t\<lparr>td_connection := c\<lparr>cn_socket := socket_close (cn_socket c)\<rparr>, td_phase := Ph_Forget\<rparr>, w)
         | Ph_Forget \<Rightarrow> Some (goto (Ph_Retire (i \<in> set (co_connections w))), forget i w)
         | Ph_Retire erased \<Rightarrow>
             Some (t\<lparr>td_phase := Ph_Done, td_handle := (if erased \<and> td_handle t = H_Joinable then H_Detached else td_handle t)\<rparr>, w)
         | Ph_Done \<Rightarrow> None)"

section \<open>The accept thread and the owner\<close>

datatype (plugins only: code) Acceptor =
    A_Check
  | A_Accept
  | A_Size Socket
  | A_Refuse Socket
  | A_CountRefusal Socket
  | A_Push Socket
  | A_Spawn nat
  | A_Assign nat
  | A_Ended

datatype (plugins only: code) Stopper = S_Idle | S_JoinAccept | S_Swap | S_Tell "nat list" "nat list" | S_Join "nat list"

text \<open>
  The connection objects by their address; \<open>tw_acceptor\<close> is \<open>None\<close> while \<open>accept_thread_\<close> is not joinable.
  The owner calls \<open>start\<close> and \<open>stop\<close> one after the other; \<open>tw_stopper\<close> is where its call of \<open>stop\<close> is.
\<close>

record Threaded =
  tw_shared :: Coordinator
  tw_objects :: "ConnectionThread list"
  tw_acceptor :: "Acceptor option"
  tw_stopper :: Stopper

definition new_threaded :: "nat \<Rightarrow> Governor \<Rightarrow> Threaded" where
  "new_threaded max_connections g = \<lparr>tw_shared = new_coordinator max_connections g, tw_objects = [], tw_acceptor = None, tw_stopper = S_Idle\<rparr>"

definition connection_limit :: "Coordinator \<Rightarrow> nat" where
  "connection_limit w = min (co_max_connections w) kMaxConnections"

text \<open>
  One step of \<open>accept_loop\<close>, with what \<open>accept_one\<close> answers. The thread of a connection runs from the
  construction of the \<open>std::thread\<close>, before it is assigned to the member of the object.
\<close>

definition accept_section :: "Socket result \<Rightarrow> Threaded \<Rightarrow> Threaded option" where
  "accept_section accepted v =
     (let w = tw_shared v; goto = (\<lambda>a. v\<lparr>tw_acceptor := Some a\<rparr>)
      in case tw_acceptor v of
           None \<Rightarrow> None
         | Some A_Check \<Rightarrow> Some (goto (if co_running w then A_Accept else A_Ended))
         | Some A_Accept \<Rightarrow>
             Some (goto (case accepted of Inl e \<Rightarrow> if e = Timeout then A_Check else A_Ended | Inr s \<Rightarrow> A_Size s))
         | Some (A_Size s) \<Rightarrow> Some (goto (if length (co_connections w) \<ge> connection_limit w then A_Refuse s else A_Push s))
         | Some (A_Refuse s) \<Rightarrow>
             Some (goto (A_CountRefusal (socket_close (send_rejected QueueFull ''connection limit reached'' (co_governor w) s))))
         | Some (A_CountRefusal _) \<Rightarrow>
             Some ((goto A_Check)\<lparr>tw_shared := w\<lparr>co_connections_refused := co_connections_refused w + 1\<rparr>\<rparr>)
         | Some (A_Push s) \<Rightarrow>
             Some (v\<lparr>tw_shared := w\<lparr>co_connections_accepted := co_connections_accepted w + 1,
                                     co_connections := co_connections w @ [length (tw_objects v)]\<rparr>,
                     tw_objects := tw_objects v @ [\<lparr>td_connection = new_connection s, td_phase = Ph_Born, td_handle = H_Empty\<rparr>],
                     tw_acceptor := Some (A_Spawn (length (tw_objects v)))\<rparr>)
         | Some (A_Spawn i) \<Rightarrow>
             Some ((goto (A_Assign i))\<lparr>tw_objects := (tw_objects v)[i := (tw_objects v ! i)\<lparr>td_phase := Ph_Loop\<rparr>]\<rparr>)
         | Some (A_Assign i) \<Rightarrow>
             Some ((goto A_Check)\<lparr>tw_objects := (tw_objects v)[i := (tw_objects v ! i)\<lparr>td_handle := H_Joinable\<rparr>]\<rparr>)
         | Some A_Ended \<Rightarrow> None)"

definition start_call :: "unit result \<Rightarrow> Threaded \<Rightarrow> unit result \<times> Threaded" where
  "start_call bound v =
     (case coordinator_start bound (tw_shared v) of
        (Inl e, w) \<Rightarrow> (Inl e, v\<lparr>tw_shared := w\<rparr>)
      | (Inr _, w) \<Rightarrow> (Inr (), v\<lparr>tw_shared := w, tw_acceptor := Some A_Check\<rparr>))"

definition stop_call :: "Threaded \<Rightarrow> Threaded" where
  "stop_call v =
     (let w = tw_shared v
      in if \<not> co_running w \<and> tw_acceptor v = None \<and> co_connections w = [] then v\<lparr>tw_shared := w\<lparr>co_listening := False\<rparr>\<rparr>
         else v\<lparr>tw_shared := w\<lparr>co_running := False, co_listening := False\<rparr>, tw_stopper := S_JoinAccept\<rparr>)"

text \<open>
  \<open>Socket::shutdown_both\<close> changes what the operating system answers from then on (bytes that have
  arrived may still be read); \<open>answers\<close> is what it will answer.
\<close>

definition shutdown_both :: "RecvAnswer list \<times> SendAnswer list \<Rightarrow> Socket \<Rightarrow> Socket" where
  "shutdown_both answers s = (if \<not> sk_open s then s else s\<lparr>sk_incoming := fst answers, sk_answers := snd answers\<rparr>)"

definition tell :: "RecvAnswer list \<times> SendAnswer list \<Rightarrow> Connection \<Rightarrow> Connection" where
  "tell answers c = c\<lparr>cn_stopping := True, cn_socket := shutdown_both answers (cn_socket c)\<rparr>"

lemma tell_simps [simp]:
  "cn_stopping (tell answers c)" "cn_registered (tell answers c) = cn_registered c" "cn_publisher (tell answers c) = cn_publisher c"
  by (simp_all add: tell_def)

text \<open>The rest of \<open>stop\<close>; \<open>None\<close> while a join waits.\<close>

definition stop_section :: "RecvAnswer list \<times> SendAnswer list \<Rightarrow> Threaded \<Rightarrow> Threaded option" where
  "stop_section answers v =
     (let w = tw_shared v
      in case tw_stopper v of
           S_Idle \<Rightarrow> None
         | S_JoinAccept \<Rightarrow>
             (case tw_acceptor v of
                None \<Rightarrow> Some (v\<lparr>tw_stopper := S_Swap\<rparr>)
              | Some A_Ended \<Rightarrow> Some (v\<lparr>tw_acceptor := None, tw_stopper := S_Swap\<rparr>)
              | Some _ \<Rightarrow> None)
         | S_Swap \<Rightarrow> Some (v\<lparr>tw_shared := w\<lparr>co_connections := []\<rparr>, tw_stopper := S_Tell (co_connections w) (co_connections w)\<rparr>)
         | S_Tell [] taken \<Rightarrow> Some (v\<lparr>tw_stopper := S_Join taken\<rparr>)
         | S_Tell (i # todo) taken \<Rightarrow>
             Some (v\<lparr>tw_stopper := S_Tell todo taken,
                     tw_objects := (tw_objects v)[i := (tw_objects v ! i)
                       \<lparr>td_connection := tell answers (td_connection (tw_objects v ! i))\<rparr>]\<rparr>)
         | S_Join [] \<Rightarrow> Some (v\<lparr>tw_stopper := S_Idle\<rparr>)
         | S_Join (i # todo) \<Rightarrow>
             (let t = tw_objects v ! i
              in if td_handle t \<noteq> H_Joinable then Some (v\<lparr>tw_stopper := S_Join todo\<rparr>)
                 else if td_phase t = Ph_Done
                 then Some (v\<lparr>tw_stopper := S_Join todo, tw_objects := (tw_objects v)[i := t\<lparr>td_handle := H_Joined\<rparr>]\<rparr>)
                 else None))"

definition session_section :: "string \<Rightarrow> Millis \<Rightarrow> nat \<Rightarrow> Threaded \<Rightarrow> Threaded option" where
  "session_section detail now i v =
     (if i < length (tw_objects v)
      then map_option (\<lambda>(t, w). v\<lparr>tw_shared := w, tw_objects := (tw_objects v)[i := t]\<rparr>)
             (phase_step detail now i (tw_objects v ! i) (tw_shared v))
      else None)"

section \<open>Runs\<close>

text \<open>
  All interleavings of the threads, the owner and the other callers of the governor. In a \<open>prompt\<close> run
  the accept thread has assigned the handle of a thread before that thread looks at it at its end; the
  code does not enforce this.
\<close>

inductive threads_reachable :: "bool \<Rightarrow> Threaded \<Rightarrow> bool" for prompt where
  threads_made: "governor_reachable g \<Longrightarrow> threads_reachable prompt (new_threaded n g)"
| threads_session: "threads_reachable prompt v \<Longrightarrow> session_section detail now i v = Some v' \<Longrightarrow>
    (prompt \<Longrightarrow> td_handle (tw_objects v ! i) = H_Empty \<Longrightarrow> \<forall>e. td_phase (tw_objects v ! i) \<noteq> Ph_Retire e) \<Longrightarrow>
    threads_reachable prompt v'"
| threads_accept: "threads_reachable prompt v \<Longrightarrow> accept_section accepted v = Some v' \<Longrightarrow> threads_reachable prompt v'"
| threads_start: "threads_reachable prompt v \<Longrightarrow> tw_stopper v = S_Idle \<Longrightarrow> start_call bound v = (r, v') \<Longrightarrow> threads_reachable prompt v'"
| threads_stop: "threads_reachable prompt v \<Longrightarrow> tw_stopper v = S_Idle \<Longrightarrow> threads_reachable prompt (stop_call v)"
| threads_stopping: "threads_reachable prompt v \<Longrightarrow> stop_section answers v = Some v' \<Longrightarrow> threads_reachable prompt v'"
| threads_governor: "threads_reachable prompt v \<Longrightarrow> governor_step (co_governor (tw_shared v)) g \<Longrightarrow>
    threads_reachable prompt (v\<lparr>tw_shared := (tw_shared v)\<lparr>co_governor := g\<rparr>\<rparr>)"

section \<open>Uninterrupted sections\<close>

fun sections :: "string \<Rightarrow> Millis \<Rightarrow> nat \<Rightarrow> nat \<Rightarrow> ConnectionThread \<times> Coordinator \<Rightarrow> (ConnectionThread \<times> Coordinator) option" where
  "sections detail now i 0 tw = Some tw"
| "sections detail now i (Suc n) (t, w) = (case phase_step detail now i t w of None \<Rightarrow> None | Some tw \<Rightarrow> sections detail now i n tw)"

lemma sections_step:
  "phase_step detail now i t w = Some tw \<Longrightarrow> sections detail now i n tw = Some tw' \<Longrightarrow> sections detail now i (Suc n) (t, w) = Some tw'"
  by simp

lemmas phase_step_simps = phase_step_def Let_def count_refused_def reject_def

text \<open>The way from the top of the loop to its next iteration or its end.\<close>

lemma sections_handshake:
  assumes "handshake detail now frame c w = (k, c', w')" and "td_phase t = dispatch detail False frame" and "td_connection t = c"
  shows "\<exists>n. sections detail now i n (t, w) =
    Some (t\<lparr>td_connection := c', td_phase := (if k = Loop_continue then Ph_Loop else Ph_After)\<rparr>, w')"
proof (cases "fh_type (fr_header frame) \<noteq> MT_Hello")
  case True
  then show ?thesis using assms by (intro exI [of _ "Suc 0"]) (auto simp: handshake_def dispatch_def phase_step_simps)
next
  case hello: False
  show ?thesis
  proof (cases "decode_hello (fr_payload frame)")
    case (Inl e)
    then show ?thesis using assms hello by (intro exI [of _ "Suc 0"]) (auto simp: handshake_def dispatch_def phase_step_simps)
  next
    case (Inr h)
    show ?thesis
    proof (cases "fst (register_publisher h now (co_governor w))")
      case (Inl e)
      then show ?thesis using assms hello \<open>decode_hello _ = Inr h\<close>
        by (intro exI [of _ "Suc (Suc (Suc 0))"]) (auto simp: handshake_def dispatch_def phase_step_simps split: prod.splits)
    next
      case (Inr wc)
      show ?thesis
      proof (cases "fst (send_frame (reply_frame MT_Welcome (we_epoch wc) (encode_welcome wc)) (cn_socket c))")
        case (Inl e)
        then show ?thesis using assms hello \<open>decode_hello _ = Inr h\<close> \<open>fst (register_publisher _ _ _) = _\<close>
          by (intro exI [of _ "Suc (Suc 0)"]) (auto simp: handshake_def dispatch_def phase_step_simps split: prod.splits)
      next
        case (Inr u)
        then show ?thesis using assms hello \<open>decode_hello _ = Inr h\<close> \<open>fst (register_publisher _ _ _) = _\<close>
          by (intro exI [of _ "Suc (Suc (Suc 0))"]) (auto simp: handshake_def dispatch_def phase_step_simps split: prod.splits)
      qed
    qed
  qed
qed

lemma sections_session_frame:
  assumes "session_frame detail now frame c w = (k, c', w')" and "td_phase t = dispatch detail True frame" and "td_connection t = c"
  shows "\<exists>n. sections detail now i n (t, w) =
    Some (t\<lparr>td_connection := c', td_phase := (if k = Loop_continue then Ph_Loop else Ph_After)\<rparr>, w')"
proof (cases "fh_type (fr_header frame) = MT_Goodbye")
  case True
  then show ?thesis using assms by (intro exI [of _ 0]) (auto simp: session_frame_def dispatch_def)
next
  case other: False
  show ?thesis
  proof (cases "fst (admit frame now (co_governor w))")
    case (Inl e)
    then show ?thesis using assms other
      by (intro exI [of _ "Suc (Suc (Suc 0))"]) (auto simp: session_frame_def dispatch_def phase_step_simps split: prod.splits)
  next
    case (Inr u)
    then show ?thesis using assms other
      by (intro exI [of _ "Suc (Suc 0)"]) (auto simp: session_frame_def dispatch_def phase_step_simps split: prod.splits)
  qed
qed

lemma sections_iteration:
  assumes "td_phase t = Ph_Loop" and it: "connection_iteration detail now (td_connection t) w = (k, c, w')"
  shows "\<exists>n. sections detail now i n (t, w) =
    Some (t\<lparr>td_connection := c, td_phase := (if k = Loop_continue then Ph_Loop else Ph_After)\<rparr>, w')"
proof -
  have top: "phase_step detail now i t w = Some (loop_top detail t, w)" using assms(1) by (simp add: phase_step_def Let_def)
  have "\<exists>n. sections detail now i n (loop_top detail t, w) =
      Some (t\<lparr>td_connection := c, td_phase := (if k = Loop_continue then Ph_Loop else Ph_After)\<rparr>, w')"
  proof (cases "cn_stopping (td_connection t)")
    case True
    then show ?thesis using it by (intro exI [of _ 0]) (auto simp: connection_iteration_def loop_top_def Let_def)
  next
    case False
    obtain r s where rs: "receive_frame (cn_socket (td_connection t)) = (r, s)" by fastforce
    let ?c = "(td_connection t)\<lparr>cn_socket := s\<rparr>"
    show ?thesis
    proof (cases r)
      case (Inl e)
      then show ?thesis using it False rs
        by (intro exI [of _ "if e = Timeout \<or> e = ConnectionClosed then 0 else Suc 0"])
           (auto simp: connection_iteration_def loop_top_def phase_step_simps split: if_splits)
    next
      case (Inr frame)
      let ?t = "t\<lparr>td_connection := ?c, td_phase := dispatch detail (cn_registered (td_connection t)) frame\<rparr>"
      have t: "loop_top detail t = ?t" using False rs Inr by (simp add: loop_top_def Let_def)
      show ?thesis
      proof (cases "cn_registered (td_connection t)")
        case True
        then have "session_frame detail now frame ?c w = (k, c, w')" using it False rs Inr by (simp add: connection_iteration_def)
        from sections_session_frame [OF this, of ?t] show ?thesis unfolding t using True by simp
      next
        case unregistered: False
        then have "handshake detail now frame ?c w = (k, c, w')" using it False rs Inr by (simp add: connection_iteration_def)
        from sections_handshake [OF this, of ?t] show ?thesis unfolding t using unregistered by simp
      qed
    qed
  qed
  then show ?thesis using sections_step [OF top] by blast
qed

text \<open>And from the end of the loop to the detach.\<close>

lemma sections_end:
  assumes "td_phase t = Ph_After"
  shows "\<exists>n. sections detail now i n (t, w) =
    Some (t\<lparr>td_connection := (td_connection t)\<lparr>cn_socket := socket_close (cn_socket (td_connection t))\<rparr>,
            td_phase := Ph_Retire (i \<in> set (co_connections w))\<rparr>, connection_end now i (td_connection t) w)"
  using assms
  by (intro exI [of _ "if cn_registered (td_connection t) \<and> valid_id (cn_publisher (td_connection t)) then Suc (Suc (Suc (Suc (Suc 0))))
        else Suc (Suc (Suc 0))"]) (auto simp: phase_step_simps connection_end_def forget_def)

section \<open>Who owns a thread\<close>

text \<open>What is still to do after a count or a reply leads back to the loop or out of it.\<close>

fun sane :: "Phase \<Rightarrow> bool" where
  "sane Ph_Loop = True"
| "sane Ph_After = True"
| "sane (Ph_CountRefused p) = sane p"
| "sane (Ph_Reject _ _ p) = sane p"
| "sane _ = False"

definition phase_ok :: "Phase \<Rightarrow> bool" where
  "phase_ok p \<longleftrightarrow> (case p of Ph_CountRefused q \<Rightarrow> sane q | Ph_Reject _ _ q \<Rightarrow> sane q | _ \<Rightarrow> True)"

lemma sane_phase:
  assumes "sane p"
  shows "phase_ok p" "p \<noteq> Ph_Born" "p \<noteq> Ph_Forget" "p \<noteq> Ph_Retire e" "p \<noteq> Ph_Done"
  using assms by (cases p; simp add: phase_ok_def)+

text \<open>The connections that \<open>stop\<close> has taken from the list and not yet joined.\<close>

definition taken_by_stop :: "Threaded \<Rightarrow> nat list" where
  "taken_by_stop v = (case tw_stopper v of S_Tell _ taken \<Rightarrow> taken | S_Join todo \<Rightarrow> todo | _ \<Rightarrow> [])"

definition owned :: "bool \<Rightarrow> Threaded \<Rightarrow> nat \<Rightarrow> bool" where
  "owned prompt v i \<longleftrightarrow>
     (let t = tw_objects v ! i; listed = (i \<in> set (co_connections (tw_shared v))); taken = (i \<in> set (taken_by_stop v))
      in phase_ok (td_phase t) \<and> (td_phase t = Ph_Born \<longleftrightarrow> tw_acceptor v = Some (A_Spawn i)) \<and>
         (td_handle t = H_Empty \<longleftrightarrow> tw_acceptor v = Some (A_Spawn i) \<or> tw_acceptor v = Some (A_Assign i)) \<and>
         (listed \<longrightarrow> td_phase t \<noteq> Ph_Done \<and> (\<forall>e. td_phase t \<noteq> Ph_Retire e)) \<and>
         (taken \<longrightarrow> td_handle t = H_Joinable \<and> \<not> listed \<and> td_phase t \<noteq> Ph_Retire True) \<and>
         (td_handle t = H_Empty \<or> td_handle t = H_Joinable \<longrightarrow>
            listed \<or> taken \<or> td_phase t = Ph_Retire True \<or> \<not> prompt \<and> td_phase t = Ph_Done) \<and>
         (td_handle t = H_Detached \<or> td_handle t = H_Joined \<longrightarrow> td_phase t = Ph_Done))"

text \<open>The threads of the owner and of the accept loop.\<close>

definition owner_ok :: "Threaded \<Rightarrow> bool" where
  "owner_ok v \<longleftrightarrow>
     (let w = tw_shared v; n = length (tw_objects v)
      in distinct (co_connections w) \<and> set (co_connections w) \<subseteq> {..<n} \<and> distinct (taken_by_stop v) \<and> set (taken_by_stop v) \<subseteq> {..<n} \<and>
         (\<forall>i. tw_acceptor v = Some (A_Spawn i) \<or> tw_acceptor v = Some (A_Assign i) \<longrightarrow> i < n) \<and>
         (tw_stopper v \<noteq> S_Idle \<and> tw_stopper v \<noteq> S_JoinAccept \<longrightarrow> tw_acceptor v = None) \<and>
         (tw_stopper v \<noteq> S_Idle \<longrightarrow> \<not> co_running w) \<and> (tw_stopper v = S_Idle \<and> \<not> co_running w \<longrightarrow> tw_acceptor v = None) \<and>
         (case tw_stopper v of S_Tell todo taken \<Rightarrow> co_connections w = [] \<and> set todo \<subseteq> set taken | S_Join _ \<Rightarrow> co_connections w = [] | _ \<Rightarrow> True) \<and>
         length (co_connections w) \<le> connection_limit w \<and>
         (\<forall>s. tw_acceptor v = Some (A_Push s) \<longrightarrow> length (co_connections w) < connection_limit w))"

definition threads_ok :: "bool \<Rightarrow> Threaded \<Rightarrow> bool" where
  "threads_ok prompt v \<longleftrightarrow> owner_ok v \<and> (\<forall>i < length (tw_objects v). owned prompt v i)"

lemma loop_top_phase:
  "td_phase (loop_top detail t) = Ph_After \<or> td_phase (loop_top detail t) = Ph_Loop \<or> td_phase (loop_top detail t) = Ph_CountRefused Ph_After \<or>
     (\<exists>f. td_phase (loop_top detail t) = Ph_Admit f) \<or> (\<exists>h. td_phase (loop_top detail t) = Ph_Register h) \<or>
     (\<exists>e d. td_phase (loop_top detail t) = Ph_Reject e d Ph_After)"
  "td_handle (loop_top detail t) = td_handle t" "cn_stopping (td_connection (loop_top detail t)) = cn_stopping (td_connection t)"
  by (auto simp: loop_top_def dispatch_def Let_def split: prod.splits sum.splits)

lemma phase_step_owner:
  assumes st: "phase_step detail now i t w = Some (t', w')" and ok: "phase_ok (td_phase t)"
  shows "co_running w' = co_running w \<and> co_max_connections w' = co_max_connections w \<and>
    co_connections w' = (if td_phase t = Ph_Forget then remove1 i (co_connections w) else co_connections w) \<and>
    td_phase t \<noteq> Ph_Born \<and> td_phase t \<noteq> Ph_Done \<and> td_phase t' \<noteq> Ph_Born \<and> phase_ok (td_phase t') \<and>
    cn_stopping (td_connection t') = cn_stopping (td_connection t) \<and>
    (\<forall>e. td_phase t' = Ph_Retire e \<longleftrightarrow> td_phase t = Ph_Forget \<and> e = (i \<in> set (co_connections w))) \<and>
    (td_phase t' = Ph_Done \<longleftrightarrow> (\<exists>e. td_phase t = Ph_Retire e)) \<and>
    td_handle t' = (if td_phase t = Ph_Retire True \<and> td_handle t = H_Joinable then H_Detached else td_handle t)"
proof (cases "td_phase t")
  case Ph_Loop
  then show ?thesis using st loop_top_phase [of detail t] by (auto simp: phase_step_def phase_ok_def)
next
  case (Ph_CountRefused p)
  then have "sane p" using ok by (simp add: phase_ok_def)
  from sane_phase [OF this] show ?thesis using st Ph_CountRefused by (auto simp: phase_step_simps)
next
  case (Ph_Reject code reason p)
  then have "sane p" using ok by (simp add: phase_ok_def)
  from sane_phase [OF this] show ?thesis using st Ph_Reject by (auto simp: phase_step_simps)
qed (use st in \<open>auto simp: phase_step_simps phase_ok_def forget_def split: prod.splits sum.splits if_splits\<close>)

lemmas ownership_simps = threads_ok_def owner_ok_def owned_def taken_by_stop_def connection_limit_def Let_def

lemma owner_ok_shrink:
  assumes ok: "owner_ok v" and same: "length os = length (tw_objects v)" "co_running w = co_running (tw_shared v)"
      "co_max_connections w = co_max_connections (tw_shared v)"
    and c: "set (co_connections w) \<subseteq> set (co_connections (tw_shared v))" "distinct (co_connections w)"
      "length (co_connections w) \<le> length (co_connections (tw_shared v))"
  shows "owner_ok (v\<lparr>tw_shared := w, tw_objects := os\<rparr>)"
proof -
  have t: "taken_by_stop (v\<lparr>tw_shared := w, tw_objects := os\<rparr>) = taken_by_stop v" by (simp add: taken_by_stop_def)
  have l: "connection_limit w = connection_limit (tw_shared v)" by (simp add: connection_limit_def same(3))
  have n: "co_connections (tw_shared v) = [] \<Longrightarrow> co_connections w = []" using c(3) by simp
  have "length (co_connections w) < k" if "length (co_connections (tw_shared v)) < k" for k using that c(3) by simp
  moreover have "length (co_connections w) \<le> k" if "length (co_connections (tw_shared v)) \<le> k" for k using that c(3) by simp
  ultimately show ?thesis using ok c(1,2) n unfolding owner_ok_def Let_def t
    by (cases "tw_stopper v") (simp_all add: same l subset_trans [OF c(1)])
qed

lemma session_owned:
  assumes ok: "threads_ok prompt v" and st: "session_section detail now i v = Some v'"
    and late: "prompt \<Longrightarrow> td_handle (tw_objects v ! i) = H_Empty \<Longrightarrow> \<forall>e. td_phase (tw_objects v ! i) \<noteq> Ph_Retire e"
  shows "threads_ok prompt v'"
proof -
  let ?w = "tw_shared v"
  obtain t w where i: "i < length (tw_objects v)" and ps: "phase_step detail now i (tw_objects v ! i) ?w = Some (t, w)"
    and v': "v' = v\<lparr>tw_shared := w, tw_objects := (tw_objects v)[i := t]\<rparr>"
    using st by (auto simp: session_section_def split: if_splits)
  have own: "owner_ok v" "\<And>j. j < length (tw_objects v) \<Longrightarrow> owned prompt v j" using ok by (auto simp: threads_ok_def)
  have pi: "phase_ok (td_phase (tw_objects v ! i))" using own(2) [OF i] by (simp add: owned_def Let_def)
  note e = phase_step_owner [OF ps pi]
  have c: "set (co_connections w) = set (co_connections ?w) - (if td_phase (tw_objects v ! i) = Ph_Forget then {i} else {})"
    "distinct (co_connections w)" "length (co_connections w) \<le> length (co_connections ?w)"
    using e own(1) by (auto simp: owner_ok_def Let_def length_remove1)
  have "owner_ok v'" unfolding v' using e c by (intro owner_ok_shrink [OF own(1)]) auto
  moreover have "owned prompt v' j" if "j < length (tw_objects v')" for j
  proof (cases "j = i")
    case True
    let ?t = "tw_objects v ! i"
    have j: "tw_objects v' ! j = t" using True i by (simp add: v')
    note o = own(2) [OF i, unfolded owned_def Let_def]
    consider (forget) "td_phase ?t = Ph_Forget" | (retire) e where "td_phase ?t = Ph_Retire e"
      | (other) "td_phase ?t \<noteq> Ph_Forget" "\<forall>e. td_phase ?t \<noteq> Ph_Retire e" by blast
    then show ?thesis
    proof cases
      case forget
      then show ?thesis using o e c True unfolding owned_def Let_def j by (auto simp: v' taken_by_stop_def)
    next
      case retire
      then show ?thesis using o e c True late unfolding owned_def Let_def j by (cases e) (simp_all add: v' taken_by_stop_def, auto)
    next
      case other
      then show ?thesis using o e c True unfolding owned_def Let_def j by (simp add: v' taken_by_stop_def)
    qed
  next
    case False
    then show ?thesis using own(2) [of j] that e c unfolding v' owned_def Let_def taken_by_stop_def by (auto split: if_splits)
  qed
  ultimately show ?thesis by (simp add: threads_ok_def)
qed

text \<open>The ownership of an object depends on nothing but its own entries.\<close>

lemma owned_cong:
  assumes "tw_objects v' ! j = tw_objects v ! j" "j \<in> set (co_connections (tw_shared v')) \<longleftrightarrow> j \<in> set (co_connections (tw_shared v))"
    "j \<in> set (taken_by_stop v') \<longleftrightarrow> j \<in> set (taken_by_stop v)" "tw_acceptor v' = Some (A_Spawn j) \<longleftrightarrow> tw_acceptor v = Some (A_Spawn j)"
    "tw_acceptor v' = Some (A_Assign j) \<longleftrightarrow> tw_acceptor v = Some (A_Assign j)"
  shows "owned prompt v' j = owned prompt v j"
  using assms by (simp add: owned_def Let_def)

lemma threads_ok_same:
  assumes "threads_ok prompt v" and "owner_ok v'" and "tw_objects v' = tw_objects v"
    and "set (co_connections (tw_shared v')) = set (co_connections (tw_shared v))" and "set (taken_by_stop v') = set (taken_by_stop v)"
    and "\<And>j. tw_acceptor v' = Some (A_Spawn j) \<longleftrightarrow> tw_acceptor v = Some (A_Spawn j)"
    and "\<And>j. tw_acceptor v' = Some (A_Assign j) \<longleftrightarrow> tw_acceptor v = Some (A_Assign j)"
  shows "threads_ok prompt v'"
  using assms owned_cong [of v' _ v] by (simp add: threads_ok_def)

lemma owned_update:
  assumes "owned prompt v' i" and "threads_ok prompt v" and "tw_objects v' = (tw_objects v)[i := t]"
    and "\<And>j. j \<noteq> i \<Longrightarrow> j \<in> set (co_connections (tw_shared v')) \<longleftrightarrow> j \<in> set (co_connections (tw_shared v))"
    and "\<And>j. j \<noteq> i \<Longrightarrow> j \<in> set (taken_by_stop v') \<longleftrightarrow> j \<in> set (taken_by_stop v)"
    and "\<And>j. j \<noteq> i \<Longrightarrow> tw_acceptor v' = Some (A_Spawn j) \<longleftrightarrow> tw_acceptor v = Some (A_Spawn j)"
    and "\<And>j. j \<noteq> i \<Longrightarrow> tw_acceptor v' = Some (A_Assign j) \<longleftrightarrow> tw_acceptor v = Some (A_Assign j)"
    and "owner_ok v'"
  shows "threads_ok prompt v'"
proof -
  have "owned prompt v' j" if "j < length (tw_objects v')" for j
  proof (cases "j = i")
    case False
    then have "owned prompt v' j = owned prompt v j" using assms(3-7) by (intro owned_cong) auto
    then show ?thesis using assms(2,3) that by (simp add: threads_ok_def)
  qed (use assms(1) in simp)
  then show ?thesis using assms(8) by (simp add: threads_ok_def)
qed

text \<open>A move of the accept thread; the list may have grown by a new connection within the limit.\<close>

lemma owner_ok_acceptor:
  assumes ok: "owner_ok v" and a: "tw_acceptor v \<noteq> None" and st: "tw_stopper v' = tw_stopper v"
    and w: "co_running (tw_shared v') = co_running (tw_shared v)" "co_max_connections (tw_shared v') = co_max_connections (tw_shared v)"
    and c: "distinct (co_connections (tw_shared v'))" "set (co_connections (tw_shared v')) \<subseteq> {..<length (tw_objects v')}"
      "length (co_connections (tw_shared v')) \<le> connection_limit (tw_shared v)"
    and a': "\<And>i. tw_acceptor v' = Some (A_Spawn i) \<or> tw_acceptor v' = Some (A_Assign i) \<Longrightarrow> i < length (tw_objects v')"
      "\<And>s. tw_acceptor v' = Some (A_Push s) \<Longrightarrow> length (co_connections (tw_shared v')) < connection_limit (tw_shared v)"
  shows "owner_ok v'"
proof -
  have l: "connection_limit (tw_shared v') = connection_limit (tw_shared v)" by (simp add: connection_limit_def w(2))
  have "tw_stopper v = S_Idle \<and> co_running (tw_shared v) \<or> tw_stopper v = S_JoinAccept \<and> \<not> co_running (tw_shared v)"
    using ok a by (auto simp: owner_ok_def Let_def)
  then show ?thesis
    using c a' unfolding owner_ok_def Let_def l by (elim disjE) (simp_all add: st w(1) taken_by_stop_def)
qed

lemma push_owned:
  assumes ok: "threads_ok prompt v" and o: "owner_ok v'" and a: "tw_acceptor v = Some (A_Push s)" and st: "accept_section accepted v = Some v'"
    and t: "taken_by_stop v = []" "taken_by_stop v' = []"
  shows "threads_ok prompt v'"
proof -
  let ?n = "length (tw_objects v)"
  have v': "tw_objects v' = tw_objects v @ [\<lparr>td_connection = new_connection s, td_phase = Ph_Born, td_handle = H_Empty\<rparr>]"
    "co_connections (tw_shared v') = co_connections (tw_shared v) @ [?n]" "tw_acceptor v' = Some (A_Spawn ?n)"
    using st a by (auto simp: accept_section_def Let_def)
  have "owned prompt v' ?n" unfolding owned_def Let_def t v' by (simp add: phase_ok_def)
  moreover have "owned prompt v' j" if "j < ?n" for j
  proof -
    have "owned prompt v' j = owned prompt v j" using a that by (intro owned_cong) (auto simp: v' t nth_append)
    then show ?thesis using ok that by (simp add: threads_ok_def)
  qed
  ultimately show ?thesis using o by (auto simp: threads_ok_def v'(1) less_Suc_eq)
qed

lemma accept_owned:
  assumes ok: "threads_ok prompt v" and st: "accept_section accepted v = Some v'"
  shows "threads_ok prompt v'"
proof -
  have own: "owner_ok v" "\<And>j. j < length (tw_objects v) \<Longrightarrow> owned prompt v j" using ok by (auto simp: threads_ok_def)
  obtain a where a: "tw_acceptor v = Some a" "a \<noteq> A_Ended" using st by (auto simp: accept_section_def Let_def split: option.splits Acceptor.splits)
  then have idle: "taken_by_stop v = []" using own(1) by (auto simp: owner_ok_def taken_by_stop_def Let_def split: Stopper.splits)
  have pos: "tw_stopper v = S_Idle \<or> tw_stopper v = S_JoinAccept" using own(1) a(1) by (auto simp: owner_ok_def Let_def)
  have l: "distinct (co_connections (tw_shared v))" "set (co_connections (tw_shared v)) \<subseteq> {..<length (tw_objects v)}"
    "length (co_connections (tw_shared v)) \<le> connection_limit (tw_shared v)"
    "\<And>s. tw_acceptor v = Some (A_Push s) \<Longrightarrow> length (co_connections (tw_shared v)) < connection_limit (tw_shared v)"
    "\<And>i. tw_acceptor v = Some (A_Spawn i) \<or> tw_acceptor v = Some (A_Assign i) \<Longrightarrow> i < length (tw_objects v)"
    using own(1) by (auto simp: owner_ok_def Let_def)
  have "tw_acceptor v \<noteq> None" using a(1) by simp
  then have o: "owner_ok v'"
    by (rule owner_ok_acceptor [OF own(1)])
       (use st a l in \<open>cases a; auto simp: accept_section_def Let_def less_Suc_eq split: if_splits sum.splits\<close>)+
  have t: "taken_by_stop v' = []" using idle pos st a
    by (cases a) (auto simp: accept_section_def taken_by_stop_def Let_def)
  have rest: ?thesis if "\<And>s. a \<noteq> A_Push s" "\<And>i. a \<noteq> A_Spawn i" "\<And>i. a \<noteq> A_Assign i"
    by (rule threads_ok_same [OF ok o])
       (use that st a t idle in \<open>cases a; auto simp: accept_section_def Let_def split: if_splits sum.splits\<close>)+
  show ?thesis
  proof (cases a)
    case (A_Push s)
    show ?thesis using push_owned [OF ok o _ st idle t] a(1) A_Push by simp
  next
    case (A_Spawn i)
    then have i: "i < length (tw_objects v)" using own(1) a(1) by (simp add: owner_ok_def Let_def)
    have v': "tw_objects v' = (tw_objects v)[i := (tw_objects v ! i)\<lparr>td_phase := Ph_Loop\<rparr>]" "tw_shared v' = tw_shared v"
      "tw_acceptor v' = Some (A_Assign i)" using st a(1) A_Spawn by (auto simp: accept_section_def Let_def)
    have "owned prompt v' i"
      using own(2) [OF i] a(1) A_Spawn i unfolding owned_def Let_def t v' idle by (auto simp: phase_ok_def)
    then show ?thesis by (rule owned_update [OF _ ok v'(1)]) (use a(1) A_Spawn in \<open>auto simp: v' t idle o\<close>)
  next
    case (A_Assign i)
    then have i: "i < length (tw_objects v)" using own(1) a(1) by (simp add: owner_ok_def Let_def)
    have v': "tw_objects v' = (tw_objects v)[i := (tw_objects v ! i)\<lparr>td_handle := H_Joinable\<rparr>]" "tw_shared v' = tw_shared v"
      "tw_acceptor v' = Some A_Check" using st a(1) A_Assign by (auto simp: accept_section_def Let_def)
    have "owned prompt v' i" using own(2) [OF i] a(1) A_Assign i unfolding owned_def Let_def t v' idle by auto
    then show ?thesis by (rule owned_update [OF _ ok v'(1)]) (use a(1) A_Assign in \<open>auto simp: v' t idle o\<close>)
  qed (use rest in simp_all)
qed

lemma stop_tell_owned:
  assumes ok: "threads_ok prompt v" and st: "stop_section answers v = Some v'" and S_Tell: "tw_stopper v = S_Tell todo taken"
  shows "threads_ok prompt v'"
proof -
  have own: "owner_ok v" "\<And>j. j < length (tw_objects v) \<Longrightarrow> owned prompt v j" using ok by (auto simp: threads_ok_def)
  have o: "owner_ok v'" using own(1) st S_Tell
    by (cases todo) (auto simp: stop_section_def owner_ok_def taken_by_stop_def connection_limit_def Let_def)
  show ?thesis
  proof (cases todo)
    case Nil
    show ?thesis by (rule threads_ok_same [OF ok o]) (use st S_Tell Nil in \<open>auto simp: stop_section_def taken_by_stop_def Let_def\<close>)
  next
    case (Cons i js)
    then have i: "i < length (tw_objects v)" using own(1) S_Tell by (auto simp: owner_ok_def taken_by_stop_def Let_def)
    have v': "tw_objects v' = (tw_objects v)[i := (tw_objects v ! i)\<lparr>td_connection := tell answers (td_connection (tw_objects v ! i))\<rparr>]"
      "tw_shared v' = tw_shared v" "tw_acceptor v' = tw_acceptor v" "taken_by_stop v' = taken_by_stop v"
      using st S_Tell Cons by (auto simp: stop_section_def taken_by_stop_def Let_def)
    have "owned prompt v' i" using own(2) [OF i] i unfolding owned_def Let_def v' by simp
    then show ?thesis by (rule owned_update [OF _ ok v'(1)]) (simp_all add: v' o)
  qed
qed

lemma stop_join_owned:
  assumes ok: "threads_ok prompt v" and st: "stop_section answers v = Some v'" and S_Join: "tw_stopper v = S_Join todo"
  shows "threads_ok prompt v'"
proof -
  have own: "owner_ok v" "\<And>j. j < length (tw_objects v) \<Longrightarrow> owned prompt v j" using ok by (auto simp: threads_ok_def)
  show ?thesis
  proof (cases todo)
    case Nil
    have "owner_ok v'" using own(1) st S_Join Nil by (auto simp: stop_section_def owner_ok_def taken_by_stop_def connection_limit_def Let_def)
    then show ?thesis by (rule threads_ok_same [OF ok]) (use st S_Join Nil in \<open>auto simp: stop_section_def taken_by_stop_def Let_def\<close>)
  next
    case (Cons i js)
    then have i: "i < length (tw_objects v)" "td_handle (tw_objects v ! i) = H_Joinable" "i \<notin> set js"
      "i \<notin> set (co_connections (tw_shared v))" "tw_acceptor v = None"
      using own(1) own(2) [of i] S_Join by (auto simp: owner_ok_def owned_def taken_by_stop_def Let_def)
    have v': "td_phase (tw_objects v ! i) = Ph_Done" "tw_objects v' = (tw_objects v)[i := (tw_objects v ! i)\<lparr>td_handle := H_Joined\<rparr>]"
      "tw_shared v' = tw_shared v" "tw_acceptor v' = tw_acceptor v" "tw_stopper v' = S_Join js"
      using st S_Join Cons i(2) by (auto simp: stop_section_def Let_def split: if_splits)
    have tk: "taken_by_stop v' = js" "taken_by_stop v = i # js" using S_Join Cons v'(5) by (simp_all add: taken_by_stop_def)
    have "owner_ok v'" using own(1) S_Join unfolding owner_ok_def Let_def tk v' by (simp add: v'(1))
    moreover have "owned prompt v' i" using own(2) [OF i(1)] i v'(1) unfolding owned_def Let_def tk v' by (simp add: v'(1))
    ultimately show ?thesis by (intro owned_update [OF _ ok v'(2)]) (simp_all add: v' tk)
  qed
qed

lemma stop_owned:
  assumes ok: "threads_ok prompt v" and st: "stop_section answers v = Some v'"
  shows "threads_ok prompt v'"
proof -
  have own: "owner_ok v" "\<And>j. j < length (tw_objects v) \<Longrightarrow> owned prompt v j" using ok by (auto simp: threads_ok_def)
  show ?thesis
  proof (cases "tw_stopper v")
    case S_JoinAccept
    have "owner_ok v'" using own(1) st S_JoinAccept
      by (auto simp: stop_section_def owner_ok_def taken_by_stop_def connection_limit_def Let_def split: option.splits Acceptor.splits)
    then show ?thesis
      by (rule threads_ok_same [OF ok])
         (use st S_JoinAccept in \<open>auto simp: stop_section_def taken_by_stop_def Let_def split: option.splits Acceptor.splits\<close>)
  next
    case S_Swap
    then have v': "tw_acceptor v = None" "taken_by_stop v = []" "v' = v\<lparr>tw_shared := (tw_shared v)\<lparr>co_connections := []\<rparr>,
        tw_stopper := S_Tell (co_connections (tw_shared v)) (co_connections (tw_shared v))\<rparr>"
      using own(1) st by (auto simp: owner_ok_def stop_section_def taken_by_stop_def Let_def)
    have "owned prompt v' j" if "j < length (tw_objects v)" for j
      using own(2) [OF that] v'(1,2) S_Swap by (cases "td_handle (tw_objects v ! j)") (auto simp: v'(3) owned_def taken_by_stop_def Let_def)
    moreover have "owner_ok v'" using own(1) S_Swap by (simp add: v'(3) owner_ok_def taken_by_stop_def connection_limit_def Let_def)
    ultimately show ?thesis by (simp add: threads_ok_def v'(3))
  next
    case (S_Tell todo taken)
    show ?thesis by (rule stop_tell_owned [OF ok st S_Tell])
  next
    case (S_Join todo)
    show ?thesis by (rule stop_join_owned [OF ok st S_Join])
  qed (use st in \<open>simp add: stop_section_def\<close>)
qed

lemma coordinator_start_shared:
  assumes "coordinator_start bound w = (r, w')"
  shows "co_connections w' = co_connections w" "co_max_connections w' = co_max_connections w"
    "r = Inl e \<Longrightarrow> co_running w' = co_running w" "r = Inr u \<Longrightarrow> \<not> co_running w \<and> co_running w'"
  using assms by (auto simp: coordinator_start_def split: if_splits sum.splits prod.splits)

lemma threads_reachable_ok: "threads_reachable prompt v \<Longrightarrow> threads_ok prompt v"
proof (induction rule: threads_reachable.induct)
  case (threads_made g n)
  show ?case by (simp add: ownership_simps new_threaded_def new_coordinator_def)
next
  case (threads_session v detail now i v')
  then show ?case by (blast intro: session_owned)
next
  case (threads_accept v accepted v')
  then show ?case by (blast intro: accept_owned)
next
  case (threads_start v bound r v')
  obtain r' w where c: "coordinator_start bound (tw_shared v) = (r', w)" by fastforce
  note same = coordinator_start_shared [OF c]
  show ?case
  proof (cases r')
    case (Inl e)
    then have v': "v' = v\<lparr>tw_shared := w\<rparr>" using threads_start.hyps(3) c by (simp add: start_call_def)
    have "owner_ok (v\<lparr>tw_shared := w, tw_objects := tw_objects v\<rparr>)"
      using threads_start.IH same Inl by (intro owner_ok_shrink) (auto simp: threads_ok_def owner_ok_def Let_def)
    then show ?thesis unfolding v' by (intro threads_ok_same [OF threads_start.IH]) (simp_all add: same taken_by_stop_def)
  next
    case (Inr u)
    then have v': "v' = v\<lparr>tw_shared := w, tw_acceptor := Some A_Check\<rparr>" using threads_start.hyps(3) c by (simp add: start_call_def)
    have "\<not> co_running (tw_shared v)" "co_running w" using same Inr by auto
    then have "tw_acceptor v = None" "owner_ok v'"
      using threads_start.IH threads_start.hyps(2) same unfolding v' by (auto simp: threads_ok_def owner_ok_def taken_by_stop_def connection_limit_def Let_def)
    then show ?thesis unfolding v' by (intro threads_ok_same [OF threads_start.IH]) (simp_all add: same taken_by_stop_def)
  qed
next
  case (threads_stop v)
  then show ?case by (auto simp: stop_call_def ownership_simps)
next
  case (threads_stopping v answers v')
  then show ?case by (blast intro: stop_owned)
next
  case (threads_governor v g)
  then have "owner_ok (v\<lparr>tw_shared := (tw_shared v)\<lparr>co_governor := g\<rparr>\<rparr>)"
    using owner_ok_shrink [of v "tw_objects v" "(tw_shared v)\<lparr>co_governor := g\<rparr>"] by (simp add: threads_ok_def owner_ok_def Let_def)
  then show ?case by (rule threads_ok_same [OF threads_governor.IH]) (simp_all add: taken_by_stop_def)
qed

section \<open>Sessions under every interleaving\<close>

text \<open>Counting in a list of which one element changes.\<close>

definition object_ok :: "Governor \<Rightarrow> ConnectionThread \<Rightarrow> bool" where
  "object_ok g t \<longleftrightarrow>
     (cn_registered (td_connection t) \<longrightarrow> cn_publisher (td_connection t) \<in> known g \<and> valid_id (cn_publisher (td_connection t))) \<and>
     (case td_phase t of
        Ph_Born \<Rightarrow> \<not> cn_registered (td_connection t)
      | Ph_Register _ \<Rightarrow> \<not> cn_registered (td_connection t)
      | Ph_Welcome hello _ \<Rightarrow> \<not> cn_registered (td_connection t) \<and> he_publisher hello \<in> known g \<and> valid_id (he_publisher hello)
      | Ph_CountHello \<Rightarrow> cn_registered (td_connection t)
      | Ph_Death \<Rightarrow> cn_registered (td_connection t)
      | Ph_CountLost \<Rightarrow> cn_registered (td_connection t)
      | Ph_CountRefused p \<Rightarrow> sane p
      | Ph_Reject _ _ p \<Rightarrow> sane p
      | _ \<Rightarrow> True)"

text \<open>The thread has counted its handshake and not yet its loss.\<close>

definition said :: "ConnectionThread \<Rightarrow> bool" where
  "said t \<longleftrightarrow> cn_registered (td_connection t) \<and>
     (case td_phase t of Ph_CountHello \<Rightarrow> False | Ph_Close \<Rightarrow> False | Ph_Forget \<Rightarrow> False | Ph_Retire _ \<Rightarrow> False | Ph_Done \<Rightarrow> False | _ \<Rightarrow> True)"

definition sessions_ok :: "Threaded \<Rightarrow> bool" where
  "sessions_ok v \<longleftrightarrow> governor_reachable (co_governor (tw_shared v)) \<and>
     list_all (object_ok (co_governor (tw_shared v))) (tw_objects v) \<and>
     co_hellos (tw_shared v) = co_publishers_lost (tw_shared v) + word_of_nat (length (filter said (tw_objects v)))"

lemma object_ok_mono: "object_ok g t \<Longrightarrow> known g \<subseteq> known g' \<Longrightarrow> object_ok g' t"
  by (auto simp: object_ok_def split: Phase.splits)

lemma said_sane: "sane p \<Longrightarrow> said (t\<lparr>td_phase := p\<rparr>) = cn_registered (td_connection t)"
  by (cases p) (auto simp: said_def)

lemma object_ok_sane: "sane p \<Longrightarrow> object_ok g (t\<lparr>td_phase := p\<rparr>) \<longleftrightarrow>
    (cn_registered (td_connection t) \<longrightarrow> cn_publisher (td_connection t) \<in> known g \<and> valid_id (cn_publisher (td_connection t)))"
  by (cases p) (auto simp: object_ok_def)

lemma loop_top_session:
  assumes "object_ok g t" and "td_phase t = Ph_Loop"
  shows "object_ok g (loop_top detail t)" "said (loop_top detail t) = said t"
proof -
  have "object_ok g (loop_top detail t) \<and> said (loop_top detail t) = said t"
    using assms by (auto simp: loop_top_def Let_def dispatch_def object_ok_def said_def split: prod.splits sum.splits)
  then show "object_ok g (loop_top detail t)" "said (loop_top detail t) = said t" by blast+
qed

text \<open>What a step of a session does to the governor, to its own object and to the two counters.\<close>

lemma phase_step_session:
  assumes st: "phase_step detail now i t w = Some (t', w')" and ok: "governor_ok (co_governor w)" and t: "object_ok (co_governor w) t"
  shows "governor_step\<^sup>=\<^sup>= (co_governor w) (co_governor w')" "object_ok (co_governor w') t'"
    "co_hellos w' + co_publishers_lost w + (if said t then 1 else 0) = co_hellos w + co_publishers_lost w' + (if said t' then 1 else 0)"
proof -
  show gs: "governor_step\<^sup>=\<^sup>= (co_governor w) (co_governor w')"
    using st by (auto simp: phase_step_simps forget_def split: Phase.splits prod.splits sum.splits
        intro: step_register step_admit step_death [OF surjective_pairing])
  have k: "known (co_governor w) \<subseteq> known (co_governor w')" using gs by (auto dest: governor_step_known [OF _ ok])
  note t' = object_ok_mono [OF t k]
  have "object_ok (co_governor w') t' \<and>
    co_hellos w' + co_publishers_lost w + (if said t then 1 else 0) = co_hellos w + co_publishers_lost w' + (if said t' then 1 else 0)"
  proof (cases "td_phase t")
    case Ph_Loop
    then show ?thesis using st t loop_top_session [OF t] by (auto simp: phase_step_simps)
  next
    case (Ph_Register hello)
    then show ?thesis using st t t'
      by (auto simp: phase_step_simps object_ok_def said_def split: prod.splits sum.splits dest: register_publisher_known(2) [OF _ ok])
  next
    case (Ph_CountRefused p)
    then have p: "sane p" "said t = cn_registered (td_connection t)" using t by (simp_all add: object_ok_def said_def)
    have "cn_registered (td_connection t) \<longrightarrow> cn_publisher (td_connection t) \<in> known (co_governor w) \<and> valid_id (cn_publisher (td_connection t))"
      using t by (simp add: object_ok_def)
    then show ?thesis using st Ph_CountRefused p by (auto simp: phase_step_simps said_sane object_ok_sane)
  next
    case (Ph_Reject code reason p)
    then have p: "sane p" "said t = cn_registered (td_connection t)" using t by (simp_all add: object_ok_def said_def)
    let ?t = "t\<lparr>td_connection := fst (reject code reason (td_connection t) w)\<rparr>"
    have "cn_registered (td_connection t) \<longrightarrow> cn_publisher (td_connection t) \<in> known (co_governor w) \<and> valid_id (cn_publisher (td_connection t))"
      using t by (simp add: object_ok_def)
    moreover have "t' = ?t\<lparr>td_phase := p\<rparr>" "w' = w" using st Ph_Reject by (auto simp: phase_step_def Let_def)
    ultimately show ?thesis using p said_sane [OF p(1), of ?t] object_ok_sane [OF p(1), of _ ?t] by (simp add: reject_def)
  qed (use st t' in \<open>auto simp: phase_step_simps object_ok_def said_def forget_def split: prod.splits sum.splits if_splits\<close>)
  then show "object_ok (co_governor w') t'"
    "co_hellos w' + co_publishers_lost w + (if said t then 1 else 0) = co_hellos w + co_publishers_lost w' + (if said t' then 1 else 0)"
    by blast+
qed

lemma balance:
  fixes h h' l l' a b n m :: u64
  assumes "h' + l + a = h + l' + b" and "h = l + n" and "m + a = n + b"
  shows "h' = l' + m"
proof -
  have "h' + (l + a) = l + l' + (n + b)" using assms(1,2) by (simp add: ac_simps)
  also have "\<dots> = (l' + m) + (l + a)" unfolding assms(3) [symmetric] by (simp add: ac_simps)
  finally show ?thesis by simp
qed

lemma sessions_ok_update:
  assumes v: "sessions_ok v" and i: "i < length (tw_objects v)" and g: "governor_step\<^sup>=\<^sup>= (co_governor (tw_shared v)) (co_governor w')"
    and t': "object_ok (co_governor w') t'"
    and c: "co_hellos w' + co_publishers_lost (tw_shared v) + (if said (tw_objects v ! i) then 1 else 0) =
      co_hellos (tw_shared v) + co_publishers_lost w' + (if said t' then 1 else 0)"
  shows "sessions_ok (v\<lparr>tw_shared := w', tw_objects := (tw_objects v)[i := t']\<rparr>)"
proof -
  let ?w = "tw_shared v" and ?n = "length (filter said (tw_objects v))" and ?m = "length (filter said ((tw_objects v)[i := t']))"
  have r: "governor_reachable (co_governor w')" and k: "known (co_governor ?w) \<subseteq> known (co_governor w')"
    using governor_service.at_most_one_step [OF _ g] v by (auto simp: sessions_ok_def)
  have "list_all (object_ok (co_governor w')) (tw_objects v)"
    using v object_ok_mono [OF _ k] by (auto simp: sessions_ok_def list_all_iff)
  then have "list_all (object_ok (co_governor w')) ((tw_objects v)[i := t'])" using t' by (auto simp: list_all_iff dest: set_update_subset_insert [THEN subsetD])
  moreover have "(word_of_nat (?m + (if said (tw_objects v ! i) then 1 else 0)) :: u64) = word_of_nat (?n + (if said t' then 1 else 0))"
    using filter_update [OF i, of said t'] by simp
  then have "word_of_nat ?m + (if said (tw_objects v ! i) then 1 else 0) = (word_of_nat ?n :: u64) + (if said t' then 1 else 0)"
    by (simp split: if_splits)
  then have "co_hellos w' = co_publishers_lost w' + word_of_nat ?m"
    using balance [OF c, of "word_of_nat ?n" "word_of_nat ?m"] v by (simp add: sessions_ok_def)
  ultimately show ?thesis using r by (simp add: sessions_ok_def)
qed

lemma sessions_ok_unchanged:
  assumes "sessions_ok v" and "governor_step\<^sup>=\<^sup>= (co_governor (tw_shared v)) (co_governor w')" and "co_hellos w' = co_hellos (tw_shared v)"
    and "co_publishers_lost w' = co_publishers_lost (tw_shared v)"
  shows "sessions_ok (v\<lparr>tw_shared := w'\<rparr>)"
proof -
  have "governor_reachable (co_governor w')" "known (co_governor (tw_shared v)) \<subseteq> known (co_governor w')"
    using governor_service.at_most_one_step [OF _ assms(2)] assms(1) by (auto simp: sessions_ok_def)
  then show ?thesis using assms object_ok_mono by (auto simp: sessions_ok_def list_all_iff)
qed

text \<open>Steps that change neither a phase nor a registration.\<close>

definition same_session :: "ConnectionThread \<Rightarrow> ConnectionThread \<Rightarrow> bool" where
  "same_session t t' \<longleftrightarrow> cn_registered (td_connection t') = cn_registered (td_connection t) \<and>
     cn_publisher (td_connection t') = cn_publisher (td_connection t) \<and> td_phase t' = td_phase t"

lemma same_sessions:
  assumes "list_all2 same_session ts ts'"
  shows "list_all (object_ok g) ts' = list_all (object_ok g) ts" "length (filter said ts') = length (filter said ts)"
  using assms by (induction rule: list_all2_induct) (auto simp: same_session_def object_ok_def said_def split: Phase.splits)

lemma same_session_update:
  "same_session (ts ! i) t \<Longrightarrow> list_all2 same_session ts (ts[i := t])" "list_all2 same_session ts ts"
proof -
  have r: "same_session t t" for t by (simp add: same_session_def)
  then show "list_all2 same_session ts ts" by (simp add: list_all2_refl)
  assume t: "same_session (ts ! i) t"
  have "same_session (ts ! j) (ts[i := t] ! j)" if "j < length ts" for j using r t that by (cases "j = i") simp_all
  then show "list_all2 same_session ts (ts[i := t])" by (simp add: list_all2_conv_all_nth)
qed

lemma sessions_ok_cong:
  assumes "sessions_ok v" and "list_all2 same_session (tw_objects v) (tw_objects v')"
    and "co_governor (tw_shared v') = co_governor (tw_shared v)" "co_hellos (tw_shared v') = co_hellos (tw_shared v)"
      "co_publishers_lost (tw_shared v') = co_publishers_lost (tw_shared v)"
  shows "sessions_ok v'"
  using assms same_sessions [OF assms(2)] by (simp add: sessions_ok_def)

lemma stop_sessions:
  assumes "sessions_ok v" and "stop_section answers v = Some v'"
  shows "sessions_ok v'"
  by (rule sessions_ok_cong [OF assms(1)])
     (use assms(2) in \<open>auto simp: stop_section_def Let_def same_session_def
        split: Stopper.splits list.splits option.splits Acceptor.splits if_splits intro!: same_session_update\<close>)

lemma accept_sessions:
  assumes v: "sessions_ok v" and ok: "threads_ok prompt v" and st: "accept_section accepted v = Some v'"
  shows "sessions_ok v'"
proof (cases "\<exists>i. tw_acceptor v = Some (A_Spawn i)")
  case True
  then obtain i where a: "tw_acceptor v = Some (A_Spawn i)" by blast
  let ?t = "(tw_objects v ! i)\<lparr>td_phase := Ph_Loop\<rparr>"
  have i: "i < length (tw_objects v)" "td_phase (tw_objects v ! i) = Ph_Born" using ok a by (auto simp: ownership_simps)
  then have "object_ok (co_governor (tw_shared v)) (tw_objects v ! i)" using v by (simp add: sessions_ok_def list_all_length)
  then have "sessions_ok (v\<lparr>tw_shared := tw_shared v, tw_objects := (tw_objects v)[i := ?t]\<rparr>)"
    using i by (intro sessions_ok_update [OF v]) (auto simp: object_ok_def said_def)
  then show ?thesis using st a by (auto simp: accept_section_def sessions_ok_def Let_def)
next
  case False
  show ?thesis
  proof (cases "\<exists>s. tw_acceptor v = Some (A_Push s)")
    case True
    then show ?thesis using v st by (auto simp: accept_section_def sessions_ok_def Let_def object_ok_def said_def new_connection_def)
  next
    case False
    then show ?thesis
      by (intro sessions_ok_cong [OF v])
         (use st \<open>\<nexists>i. tw_acceptor v = Some (A_Spawn i)\<close> in \<open>auto simp: accept_section_def Let_def same_session_def
            split: option.splits Acceptor.splits if_splits sum.splits intro!: same_session_update\<close>)
  qed
qed

lemma coordinator_start_governor:
  "coordinator_start bound w = (r, w') \<Longrightarrow> governor_step\<^sup>=\<^sup>= (co_governor w) (co_governor w') \<and> co_hellos w' = co_hellos w \<and>
     co_publishers_lost w' = co_publishers_lost w \<and> co_connections w' = co_connections w \<and> co_max_connections w' = co_max_connections w"
  by (auto simp: coordinator_start_def split: if_splits sum.splits prod.splits intro: step_install)

lemma threads_sessions_ok: "threads_reachable prompt v \<Longrightarrow> sessions_ok v"
proof (induction rule: threads_reachable.induct)
  case (threads_made g n)
  then show ?case by (simp add: sessions_ok_def new_threaded_def new_coordinator_def)
next
  case (threads_session v detail now i v')
  then obtain t w where i: "i < length (tw_objects v)" and st: "phase_step detail now i (tw_objects v ! i) (tw_shared v) = Some (t, w)"
    and v': "v' = v\<lparr>tw_shared := w, tw_objects := (tw_objects v)[i := t]\<rparr>"
    by (auto simp: session_section_def split: if_splits)
  have "governor_ok (co_governor (tw_shared v))" "object_ok (co_governor (tw_shared v)) (tw_objects v ! i)"
    using threads_session.IH i governor_reachable_ok by (auto simp: sessions_ok_def list_all_length)
  note e = phase_step_session [OF st this]
  show ?case unfolding v' by (rule sessions_ok_update [OF threads_session.IH i e])
next
  case (threads_accept v accepted v')
  then show ?case using accept_sessions threads_reachable_ok by blast
next
  case (threads_start v bound r v')
  then obtain r' w where c: "coordinator_start bound (tw_shared v) = (r', w)" by fastforce
  have "sessions_ok (v\<lparr>tw_shared := w\<rparr>)" using sessions_ok_unchanged [OF threads_start.IH] coordinator_start_governor [OF c] by blast
  then show ?case using threads_start.hyps(3) c by (auto simp: start_call_def sessions_ok_def split: sum.splits)
next
  case (threads_stop v)
  then show ?case by (simp add: stop_call_def sessions_ok_def Let_def)
next
  case (threads_stopping v answers v')
  then show ?case by (blast intro: stop_sessions)
next
  case (threads_governor v g)
  then show ?case using sessions_ok_unchanged [of v "(tw_shared v)\<lparr>co_governor := g\<rparr>"] by auto
qed

section \<open>Stopping\<close>

text \<open>
  A connection object that nobody refers to any more, with a handle that is still joinable: destroying
  it ends the process with \<open>std::terminate\<close>.
\<close>

definition orphaned :: "Threaded \<Rightarrow> nat \<Rightarrow> bool" where
  "orphaned v i \<longleftrightarrow> i < length (tw_objects v) \<and> td_handle (tw_objects v ! i) = H_Joinable \<and> td_phase (tw_objects v ! i) = Ph_Done \<and>
     i \<notin> set (co_connections (tw_shared v)) \<and> i \<notin> set (taken_by_stop v)"

text \<open>A connection that \<open>stop\<close> has told is told for good.\<close>

definition told :: "Threaded \<Rightarrow> bool" where
  "told v \<longleftrightarrow>
     (case tw_stopper v of
        S_Tell todo taken \<Rightarrow> \<forall>i \<in> set taken - set todo. cn_stopping (td_connection (tw_objects v ! i))
      | S_Join todo \<Rightarrow> \<forall>i \<in> set todo. cn_stopping (td_connection (tw_objects v ! i))
      | _ \<Rightarrow> True)"

lemma session_stopping:
  assumes "threads_ok prompt v" and "session_section detail now i v = Some v'"
  shows "tw_stopper v' = tw_stopper v" "cn_stopping (td_connection (tw_objects v' ! j)) = cn_stopping (td_connection (tw_objects v ! j))"
proof -
  obtain t w where i: "i < length (tw_objects v)" and ps: "phase_step detail now i (tw_objects v ! i) (tw_shared v) = Some (t, w)"
    and v': "v' = v\<lparr>tw_shared := w, tw_objects := (tw_objects v)[i := t]\<rparr>"
    using assms(2) by (auto simp: session_section_def split: if_splits)
  have "phase_ok (td_phase (tw_objects v ! i))" using assms(1) i by (simp add: threads_ok_def owned_def Let_def)
  note e = phase_step_owner [OF ps this]
  show "tw_stopper v' = tw_stopper v" by (simp add: v')
  show "cn_stopping (td_connection (tw_objects v' ! j)) = cn_stopping (td_connection (tw_objects v ! j))"
    using e i by (cases "j = i") (simp_all add: v')
qed

lemma threads_told: "threads_reachable prompt v \<Longrightarrow> told v"
proof (induction rule: threads_reachable.induct)
  case (threads_session v detail now i v')
  then show ?case using session_stopping [OF threads_reachable_ok [OF threads_session.hyps(1)] threads_session.hyps(2)]
    by (simp add: told_def split: Stopper.splits)
next
  case (threads_accept v accepted v')
  then have "tw_acceptor v \<noteq> None" by (cases "tw_acceptor v") (simp_all add: accept_section_def Let_def)
  then have "tw_stopper v = S_Idle \<or> tw_stopper v = S_JoinAccept"
    using threads_reachable_ok [OF threads_accept.hyps(1)] by (auto simp: threads_ok_def owner_ok_def Let_def)
  moreover have "tw_stopper v' = tw_stopper v"
    using threads_accept.hyps(2) by (auto simp: accept_section_def Let_def split: option.splits Acceptor.splits)
  ultimately show ?case by (auto simp: told_def)
next
  case (threads_stopping v answers v')
  show ?case
  proof (cases "tw_stopper v")
    case (S_Tell todo taken)
    have "set todo \<subseteq> {..<length (tw_objects v)}"
      using threads_reachable_ok [OF threads_stopping.hyps(1)] S_Tell by (auto simp: threads_ok_def owner_ok_def taken_by_stop_def Let_def)
    then show ?thesis using threads_stopping S_Tell
      by (cases todo) (auto simp: stop_section_def told_def Let_def nth_list_update)
  next
    case (S_Join todo)
    have "cn_stopping (td_connection ((tw_objects v)[i := (tw_objects v ! i)\<lparr>td_handle := H_Joined\<rparr>] ! j)) =
        cn_stopping (td_connection (tw_objects v ! j))" for i j
      by (cases "i < length (tw_objects v)") (auto simp: nth_list_update list_update_beyond)
    then show ?thesis using threads_stopping S_Join
      by (cases todo) (auto simp: stop_section_def told_def Let_def split: if_splits)
  qed (use threads_stopping in \<open>auto simp: stop_section_def told_def Let_def split: option.splits Acceptor.splits\<close>)
next
  case (threads_start v bound r v')
  then have "tw_stopper v' = S_Idle" by (auto simp: start_call_def split: prod.splits sum.splits)
  then show ?case by (simp add: told_def)
qed (auto simp: told_def new_threaded_def stop_call_def Let_def split: Stopper.splits)

text \<open>What a thread that has been told still has to do.\<close>

fun phase_rank :: "Phase \<Rightarrow> nat" where
  "phase_rank Ph_Done = 0"
| "phase_rank (Ph_Retire _) = 1"
| "phase_rank Ph_Forget = 2"
| "phase_rank Ph_Close = 3"
| "phase_rank Ph_CountLost = 4"
| "phase_rank Ph_Death = 5"
| "phase_rank Ph_After = 6"
| "phase_rank Ph_Loop = 7"
| "phase_rank Ph_CountHello = 8"
| "phase_rank Ph_CountAdmitted = 8"
| "phase_rank (Ph_CountRefused p) = Suc (phase_rank p)"
| "phase_rank (Ph_Reject _ _ p) = Suc (phase_rank p)"
| "phase_rank (Ph_Welcome _ _) = 9"
| "phase_rank (Ph_Register _) = 10"
| "phase_rank (Ph_Admit _) = 10"
| "phase_rank Ph_Born = 11"

lemma phase_step_rank:
  assumes "phase_step detail now i t w = Some (t', w')" and "td_phase t = Ph_Loop \<Longrightarrow> cn_stopping (td_connection t)"
  shows "phase_rank (td_phase t') < phase_rank (td_phase t)"
  using assms by (cases "td_phase t") (auto simp: phase_step_simps loop_top_def split: prod.splits sum.splits if_splits)

text \<open>The threads of connections and the owner in \<open>stop\<close>; nobody else takes part once the accept thread is joined.\<close>

inductive winding_down :: "Threaded \<Rightarrow> Threaded \<Rightarrow> bool" where
  winding_session: "session_section detail now i v = Some v' \<Longrightarrow> winding_down v v'"
| winding_stop: "stop_section answers v = Some v' \<Longrightarrow> winding_down v v'"

definition winding_weight :: "Threaded \<Rightarrow> nat" where
  "winding_weight v = sum_list (map (phase_rank \<circ> td_phase) (tw_objects v)) + (case tw_stopper v of S_Join todo \<Rightarrow> Suc (length todo) | _ \<Rightarrow> 0)"

definition closing :: "bool \<Rightarrow> Threaded \<Rightarrow> bool" where
  "closing prompt v \<longleftrightarrow> threads_reachable prompt v \<and> tw_acceptor v = None \<and> co_connections (tw_shared v) = [] \<and>
     (tw_stopper v = S_Idle \<or> (\<exists>todo. tw_stopper v = S_Join todo))"

lemma closing_object:
  assumes "closing prompt v" and "i < length (tw_objects v)"
  shows "td_phase (tw_objects v ! i) \<noteq> Ph_Born" "td_handle (tw_objects v ! i) \<noteq> H_Empty"
    "td_phase (tw_objects v ! i) = Ph_Done \<or> cn_stopping (td_connection (tw_objects v ! i)) \<or> td_phase (tw_objects v ! i) = Ph_Retire True"
    "td_handle (tw_objects v ! i) = H_Joinable \<Longrightarrow> td_phase (tw_objects v ! i) = Ph_Done \<Longrightarrow> i \<in> set (taken_by_stop v) \<or> \<not> prompt"
proof -
  have o: "owned prompt v i" and t: "told v"
    using threads_reachable_ok threads_told assms by (auto simp: closing_def threads_ok_def)
  have a: "tw_acceptor v = None" "co_connections (tw_shared v) = []" using assms(1) by (simp_all add: closing_def)
  show "td_phase (tw_objects v ! i) \<noteq> Ph_Born" "td_handle (tw_objects v ! i) \<noteq> H_Empty" using o a by (simp_all add: owned_def Let_def)
  have "i \<in> set (taken_by_stop v) \<Longrightarrow> cn_stopping (td_connection (tw_objects v ! i))"
    using t assms(1) by (auto simp: told_def taken_by_stop_def closing_def)
  then show "td_phase (tw_objects v ! i) = Ph_Done \<or> cn_stopping (td_connection (tw_objects v ! i)) \<or> td_phase (tw_objects v ! i) = Ph_Retire True"
    using o a by (cases "td_handle (tw_objects v ! i)") (auto simp: owned_def Let_def)
  show "td_handle (tw_objects v ! i) = H_Joinable \<Longrightarrow> td_phase (tw_objects v ! i) = Ph_Done \<Longrightarrow> i \<in> set (taken_by_stop v) \<or> \<not> prompt"
    using o a by (auto simp: owned_def Let_def)
qed

lemma rank_update:
  assumes "i < length ts" and "phase_rank (td_phase t) < phase_rank (td_phase (ts ! i))"
  shows "sum_list (map (phase_rank \<circ> td_phase) (ts[i := t])) < sum_list (map (phase_rank \<circ> td_phase) ts)"
  using assms
proof (induction ts arbitrary: i)
  case (Cons x xs)
  then show ?case by (cases i) auto
qed simp

lemma rank_same:
  assumes "td_phase t = td_phase (ts ! i)"
  shows "sum_list (map (phase_rank \<circ> td_phase) (ts[i := t])) = sum_list (map (phase_rank \<circ> td_phase) ts)"
proof -
  have "map (phase_rank \<circ> td_phase) (ts[i := t]) = map (phase_rank \<circ> td_phase) ts"
    by (cases "i < length ts") (simp_all add: map_update assms list_update_same_conv list_update_beyond)
  then show ?thesis by simp
qed

lemma winding_down_closing:
  assumes c: "closing prompt v" and st: "winding_down v v'"
  shows "closing prompt v' \<and> winding_weight v' < winding_weight v"
  using st
proof cases
  case (winding_session detail now i)
  then obtain t w where i: "i < length (tw_objects v)" and ps: "phase_step detail now i (tw_objects v ! i) (tw_shared v) = Some (t, w)"
    and v': "v' = v\<lparr>tw_shared := w, tw_objects := (tw_objects v)[i := t]\<rparr>" by (auto simp: session_section_def split: if_splits)
  note ob = closing_object [OF c i]
  have r: "threads_reachable prompt v" using c by (simp add: closing_def)
  have "threads_reachable prompt v'" by (rule threads_session [OF r winding_session]) (use ob(2) in simp)
  moreover have "phase_ok (td_phase (tw_objects v ! i))"
    using threads_reachable_ok [OF r] i by (simp add: threads_ok_def owned_def Let_def)
  note e = phase_step_owner [OF ps this]
  have "phase_rank (td_phase t) < phase_rank (td_phase (tw_objects v ! i))" using ob(3) by (intro phase_step_rank [OF ps]) auto
  then have "winding_weight v' < winding_weight v" using rank_update [OF i] by (simp add: winding_weight_def v')
  moreover have "co_connections w = []" using e c by (simp add: closing_def)
  ultimately show ?thesis using c by (simp add: closing_def v')
next
  case (winding_stop answers)
  have r: "threads_reachable prompt v'" by (rule threads_stopping [OF _ winding_stop]) (use c in \<open>simp add: closing_def\<close>)
  obtain todo where s: "tw_stopper v = S_Join todo" using c winding_stop by (auto simp: closing_def stop_section_def)
  show ?thesis
  proof (cases todo)
    case Nil
    then show ?thesis using winding_stop s c r by (auto simp: stop_section_def closing_def winding_weight_def Let_def)
  next
    case (Cons i js)
    then show ?thesis using winding_stop s c r
      by (auto simp: stop_section_def closing_def winding_weight_def Let_def rank_same split: if_splits)
  qed
qed

lemma winding_down_stuck:
  assumes c: "closing prompt v" and stuck: "\<nexists>v'. winding_down v v'"
  shows "tw_stopper v = S_Idle \<and> (\<forall>i < length (tw_objects v). td_phase (tw_objects v ! i) = Ph_Done \<and>
    (td_handle (tw_objects v ! i) = H_Joined \<or> td_handle (tw_objects v ! i) = H_Detached \<or> \<not> prompt \<and> orphaned v i))"
proof -
  have d: "td_phase (tw_objects v ! i) = Ph_Done" if i: "i < length (tw_objects v)" for i
  proof (rule ccontr)
    assume "td_phase (tw_objects v ! i) \<noteq> Ph_Done"
    then have "phase_step [] 0 i (tw_objects v ! i) (tw_shared v) \<noteq> None"
      using closing_object(1) [OF c i] by (auto simp: phase_step_def Let_def split: Phase.splits prod.splits sum.splits)
    then have "session_section [] 0 i v \<noteq> None" using i by (simp add: session_section_def)
    then show False using stuck by (auto intro: winding_session)
  qed
  have idle: "tw_stopper v = S_Idle"
  proof (rule ccontr)
    assume "tw_stopper v \<noteq> S_Idle"
    then obtain todo where s: "tw_stopper v = S_Join todo" using c by (auto simp: closing_def)
    have "set todo \<subseteq> {..<length (tw_objects v)}"
      using threads_reachable_ok [of prompt v] c s by (auto simp: closing_def threads_ok_def owner_ok_def taken_by_stop_def Let_def)
    then have "stop_section ([], []) v \<noteq> None" using s d by (cases todo) (auto simp: stop_section_def Let_def)
    then show False using stuck by (auto intro: winding_stop)
  qed
  moreover have "td_handle (tw_objects v ! i) = H_Joined \<or> td_handle (tw_objects v ! i) = H_Detached \<or> \<not> prompt \<and> orphaned v i"
    if i: "i < length (tw_objects v)" for i
    using closing_object(2,4) [OF c i] d [OF i] idle c i
    by (cases "td_handle (tw_objects v ! i)") (auto simp: taken_by_stop_def orphaned_def closing_def)
  ultimately show ?thesis using d by blast
qed

text \<open>
  The way of \<open>stop\<close> to the joins. Until then it waits for the accept thread only, and never for a session: one
  of the two can always move, each of their steps brings the joins nearer, and no session takes them further away.
\<close>

fun acceptor_rank :: "Acceptor option \<Rightarrow> nat" where
  "acceptor_rank None = 0"
| "acceptor_rank (Some A_Ended) = 1"
| "acceptor_rank (Some A_Check) = 2"
| "acceptor_rank (Some (A_Assign _)) = 3"
| "acceptor_rank (Some (A_Spawn _)) = 4"
| "acceptor_rank (Some (A_Push _)) = 6"
| "acceptor_rank (Some (A_CountRefusal _)) = 3"
| "acceptor_rank (Some (A_Refuse _)) = 4"
| "acceptor_rank (Some (A_Size _)) = 7"
| "acceptor_rank (Some A_Accept) = 8"

definition way_to_join :: "Threaded \<Rightarrow> nat" where
  "way_to_join v =
     (case tw_stopper v of
        S_JoinAccept \<Rightarrow> acceptor_rank (tw_acceptor v) + length (co_connections (tw_shared v)) + 3
      | S_Swap \<Rightarrow> length (co_connections (tw_shared v)) + 2
      | S_Tell todo _ \<Rightarrow> Suc (length todo)
      | _ \<Rightarrow> 0)"

lemma stop_approaches:
  assumes r: "threads_reachable prompt v" and s: "tw_stopper v = S_JoinAccept \<or> tw_stopper v = S_Swap \<or> (\<exists>todo taken. tw_stopper v = S_Tell todo taken)"
  shows "accept_section accepted v \<noteq> None \<or> stop_section answers v \<noteq> None"
    and "accept_section accepted v = Some v' \<Longrightarrow> way_to_join v' < way_to_join v"
    and "stop_section answers v = Some v' \<Longrightarrow> way_to_join v' < way_to_join v"
    and "session_section detail now i v = Some v' \<Longrightarrow> way_to_join v' \<le> way_to_join v"
proof -
  have o: "owner_ok v" and ow: "\<And>i. i < length (tw_objects v) \<Longrightarrow> owned prompt v i"
    using threads_reachable_ok [OF r] by (simp_all add: threads_ok_def)
  have nr: "\<not> co_running (tw_shared v)" and na: "tw_stopper v \<noteq> S_JoinAccept \<Longrightarrow> tw_acceptor v = None"
    using o s by (auto simp: owner_ok_def Let_def)
  show "accept_section accepted v \<noteq> None \<or> stop_section answers v \<noteq> None"
    using s by (auto simp: accept_section_def stop_section_def Let_def split: option.splits Acceptor.splits list.splits)
  show "way_to_join v' < way_to_join v" if "accept_section accepted v = Some v'"
  proof -
    have a: "tw_stopper v = S_JoinAccept" using na that by (cases "tw_acceptor v") (auto simp: accept_section_def Let_def)
    show ?thesis using that nr a
      by (auto simp: accept_section_def way_to_join_def Let_def split: option.splits Acceptor.splits sum.splits if_splits)
  qed
  show "way_to_join v' < way_to_join v" if "stop_section answers v = Some v'"
    using s that by (auto simp: stop_section_def way_to_join_def Let_def split: option.splits Acceptor.splits list.splits)
  show "way_to_join v' \<le> way_to_join v" if st: "session_section detail now i v = Some v'"
  proof -
    obtain t w where i: "i < length (tw_objects v)" and ps: "phase_step detail now i (tw_objects v ! i) (tw_shared v) = Some (t, w)"
      and v': "v' = v\<lparr>tw_shared := w, tw_objects := (tw_objects v)[i := t]\<rparr>"
      using st by (auto simp: session_section_def split: if_splits)
    have "phase_ok (td_phase (tw_objects v ! i))" using ow [OF i] by (simp add: owned_def Let_def)
    from phase_step_owner [OF ps this] have "length (co_connections w) \<le> length (co_connections (tw_shared v))"
      by (simp add: length_remove1)
    then show ?thesis by (auto simp: v' way_to_join_def split: Stopper.splits)
  qed
qed

section \<open>Properties\<close>

text \<open>C14: sessions under every interleaving of critical sections. Whatever the threads of the connections,
  the accept thread, the owner and the other callers of the governor do between two sections, the governor
  is reachable; the number of connections stays within the limit, although the accept thread looks at the
  list in one section and extends it in another; every registered session belongs to a publisher the
  registry knows; and the handshakes counted are, modulo \<open>2\<^sup>6\<^sup>4\<close>, the losses counted and
  the sessions between their two counts.\<close>

theorem interleaved_sessions:
  assumes "threads_reachable prompt v"
  shows "governor_reachable (co_governor (tw_shared v)) \<and>
    length (co_connections (tw_shared v)) \<le> min (co_max_connections (tw_shared v)) kMaxConnections \<and>
    distinct (co_connections (tw_shared v)) \<and>
    (\<forall>t \<in> set (tw_objects v). cn_registered (td_connection t) \<longrightarrow>
       (\<exists>p. find_publisher (gv_publishers (co_governor (tw_shared v))) (cn_publisher (td_connection t)) = Some p)) \<and>
    co_hellos (tw_shared v) = co_publishers_lost (tw_shared v) + word_of_nat (length (filter said (tw_objects v)))"
proof -
  have ok: "sessions_ok v" "owner_ok v" using threads_sessions_ok threads_reachable_ok assms by (auto simp: threads_ok_def)
  have g: "governor_ok (co_governor (tw_shared v))" using ok(1) governor_reachable_ok by (simp add: sessions_ok_def)
  have "\<forall>t \<in> set (tw_objects v). cn_registered (td_connection t) \<longrightarrow> cn_publisher (td_connection t) \<in> known (co_governor (tw_shared v))"
    using ok(1) by (auto simp: sessions_ok_def list_all_iff object_ok_def)
  then show ?thesis using ok known_iff [OF g] by (simp add: sessions_ok_def owner_ok_def connection_limit_def Let_def)
qed

text \<open>C13: exactly one path owns the handle of a connection's thread. If every handle is assigned before its
  thread comes to its end, then in no interleaving of sessions, accept loop and \<open>stop\<close> an object is
  destroyed with a joinable handle; \<open>stop\<close> joins only handles that are joinable and not in the list
  any more; and a thread whose handle was joined or detached has finished.\<close>

theorem thread_handles_released:
  assumes "threads_reachable True v"
  shows "(\<forall>i. \<not> orphaned v i) \<and>
    (\<forall>i \<in> set (taken_by_stop v). td_handle (tw_objects v ! i) = H_Joinable \<and> i \<notin> set (co_connections (tw_shared v))) \<and>
    (\<forall>t \<in> set (tw_objects v). td_handle t = H_Joined \<or> td_handle t = H_Detached \<longrightarrow> td_phase t = Ph_Done)"
proof -
  have o: "owned True v i" if "i < length (tw_objects v)" for i using threads_reachable_ok [OF assms] that by (simp add: threads_ok_def)
  have t: "i < length (tw_objects v)" if "i \<in> set (taken_by_stop v)" for i
    using threads_reachable_ok [OF assms] that by (auto simp: threads_ok_def owner_ok_def Let_def)
  have "\<not> orphaned v i" for i using o [of i] by (auto simp: orphaned_def owned_def Let_def)
  moreover have "td_handle (tw_objects v ! i) = H_Joinable \<and> i \<notin> set (co_connections (tw_shared v))" if "i \<in> set (taken_by_stop v)" for i
    using o [OF t [OF that]] that by (simp add: owned_def Let_def)
  moreover have "td_phase t = Ph_Done" if "t \<in> set (tw_objects v)" "td_handle t = H_Joined \<or> td_handle t = H_Detached" for t
    using that o by (auto simp: in_set_conv_nth owned_def Let_def)
  ultimately show ?thesis by blast
qed

text \<open>C15: \<open>stop\<close> returns, under every schedule. Once it has told the connections it took and joins them, the
  threads and \<open>stop\<close> itself can make only finitely many steps; and where none of them can move, \<open>stop\<close> has
  returned and every thread has finished. Every handle has then been joined or detached, except that of a
  thread which ended before the accept thread assigned its handle: that handle may stay joinable in an
  object that neither the list nor \<open>stop\<close> refers to. In a run in which every handle is assigned before its
  thread comes to its end there is no such handle.\<close>

theorem stop_completes:
  assumes "threads_reachable prompt v" and "tw_stopper v = S_Join todo"
  shows "(\<nexists>f. f 0 = v \<and> (\<forall>n. winding_down (f n) (f (Suc n)))) \<and>
    (\<forall>v'. winding_down\<^sup>*\<^sup>* v v' \<and> (\<nexists>v''. winding_down v' v'') \<longrightarrow>
       tw_stopper v' = S_Idle \<and> (\<forall>i < length (tw_objects v'). td_phase (tw_objects v' ! i) = Ph_Done \<and>
         (td_handle (tw_objects v' ! i) = H_Joined \<or> td_handle (tw_objects v' ! i) = H_Detached \<or> \<not> prompt \<and> orphaned v' i)))"
proof -
  have c: "closing prompt v"
    using threads_reachable_ok [OF assms(1)] assms by (simp add: closing_def threads_ok_def owner_ok_def Let_def)
  have run: "closing prompt v'" if "winding_down\<^sup>*\<^sup>* v v'" for v'
    using that c by (induction rule: rtranclp_induct) (auto dest: winding_down_closing)
  have "\<nexists>f. f 0 = v \<and> (\<forall>n. winding_down (f n) (f (Suc n)))"
  proof
    assume "\<exists>f. f 0 = v \<and> (\<forall>n. winding_down (f n) (f (Suc n)))"
    then obtain f where f: "f 0 = v" "\<And>n. winding_down (f n) (f (Suc n))" by blast
    have cl: "closing prompt (f n)" for n by (induction n) (use f c winding_down_closing in auto)
    then have "\<forall>n. (f (Suc n), f n) \<in> measure winding_weight" using winding_down_closing [OF cl f(2)] by simp
    then show False using wf_measure [of winding_weight] by (auto simp: wf_iff_no_infinite_down_chain)
  qed
  then show ?thesis using run winding_down_stuck by blast
qed

section \<open>Some runs\<close>

lemma phase_step_handle:
  assumes "phase_step detail now i t w = Some (t', w')" and "td_handle t \<noteq> H_Empty"
  shows "td_handle t' \<noteq> H_Empty"
  using assms by (cases "td_phase t") (auto simp: phase_step_simps loop_top_def split: prod.splits sum.splits if_splits)

lemma sections_reachable:
  assumes "threads_reachable prompt v" and "i < length (tw_objects v)" and "prompt \<Longrightarrow> td_handle (tw_objects v ! i) \<noteq> H_Empty"
    and "sections detail now i n (tw_objects v ! i, tw_shared v) = Some (t, w)"
  shows "threads_reachable prompt (v\<lparr>tw_shared := w, tw_objects := (tw_objects v)[i := t]\<rparr>)"
  using assms
proof (induction n arbitrary: v)
  case 0
  then have "v\<lparr>tw_shared := w, tw_objects := (tw_objects v)[i := t]\<rparr> = v" by auto
  then show ?case using 0 by simp
next
  case (Suc n)
  obtain t1 w1 where ps: "phase_step detail now i (tw_objects v ! i) (tw_shared v) = Some (t1, w1)"
    and rest: "sections detail now i n (t1, w1) = Some (t, w)" using Suc.prems(4) by (auto split: option.splits)
  let ?v = "v\<lparr>tw_shared := w1, tw_objects := (tw_objects v)[i := t1]\<rparr>"
  have h: "td_handle t1 \<noteq> H_Empty" if "td_handle (tw_objects v ! i) \<noteq> H_Empty"
    using ps that by (rule phase_step_handle)
  have "session_section detail now i v = Some ?v" using ps Suc.prems(2) by (simp add: session_section_def)
  from threads_session [OF Suc.prems(1) this] have "threads_reachable prompt ?v" using Suc.prems(3) by simp
  from Suc.IH [OF this] show ?case using Suc.prems h rest by simp
qed

text \<open>A connection that has just been accepted: its thread runs, its handle is not assigned yet.\<close>

lemma accepted_thread:
  "\<exists>v. threads_reachable prompt v \<and> tw_objects v = [\<lparr>td_connection = new_connection s, td_phase = Ph_Loop, td_handle = H_Empty\<rparr>] \<and>
     tw_acceptor v = Some (A_Assign 0) \<and> tw_stopper v = S_Idle \<and> co_connections (tw_shared v) = [0] \<and>
     gv_publishers (co_governor (tw_shared v)) = [fresh_publisher example_hello 1 20] \<and> gv_epoch (co_governor (tw_shared v)) = 1"
proof -
  obtain g where g: "install_epoch 1 (gv_boot example_governor) 0 example_governor = (Inr (), g)"
    "gv_publishers g = [fresh_publisher example_hello 1 20]" "gv_epoch g = 1" using example_governor_start by blast
  define v where "v = snd (start_call (Inr ()) (new_threaded 4 example_governor))"
  have v: "tw_objects v = []" "tw_acceptor v = Some A_Check" "tw_stopper v = S_Idle" "co_running (tw_shared v)"
    "co_connections (tw_shared v) = []" "co_max_connections (tw_shared v) = 4" "co_governor (tw_shared v) = g"
    using g by (simp_all add: v_def start_call_def coordinator_start_def new_threaded_def new_coordinator_def example_governor_publishers(2))
  have r: "threads_reachable prompt v"
    unfolding v_def by (rule threads_start [OF threads_made [OF example_governor_reachable] _ prod.collapse [symmetric]]) (simp add: new_threaded_def)
  note steps = accept_section_def Let_def v connection_limit_def kMaxConnections_def
  have "threads_reachable prompt (v\<lparr>tw_acceptor := Some A_Accept\<rparr>)" by (rule threads_accept [OF r]) (simp add: steps)
  then have "threads_reachable prompt (v\<lparr>tw_acceptor := Some (A_Size s)\<rparr>)" by (rule threads_accept [of _ _ "Inr s"]) (simp add: steps)
  then have "threads_reachable prompt (v\<lparr>tw_acceptor := Some (A_Push s)\<rparr>)" by (rule threads_accept) (simp add: steps)
  then have "threads_reachable prompt (the (accept_section undefined (v\<lparr>tw_acceptor := Some (A_Push s)\<rparr>)))"
    by (rule threads_accept) (simp add: steps)
  then obtain v1 where r1: "threads_reachable prompt v1"
    and v1: "tw_objects v1 = [\<lparr>td_connection = new_connection s, td_phase = Ph_Born, td_handle = H_Empty\<rparr>]" "tw_acceptor v1 = Some (A_Spawn 0)"
      "tw_stopper v1 = S_Idle" "co_connections (tw_shared v1) = [0]" "co_governor (tw_shared v1) = g" by (simp add: steps)
  have "threads_reachable prompt (the (accept_section undefined v1))" by (rule threads_accept [OF r1]) (simp add: accept_section_def Let_def v1)
  then show ?thesis using g by (intro exI conjI) (assumption | simp add: accept_section_def Let_def v1)+
qed

lemma assigned_thread:
  "\<exists>v. threads_reachable prompt v \<and> tw_objects v = [\<lparr>td_connection = new_connection s, td_phase = Ph_Loop, td_handle = H_Joinable\<rparr>] \<and>
     tw_acceptor v = Some A_Check \<and> tw_stopper v = S_Idle \<and> co_connections (tw_shared v) = [0]"
proof -
  obtain v where r: "threads_reachable prompt v"
    and v: "tw_objects v = [\<lparr>td_connection = new_connection s, td_phase = Ph_Loop, td_handle = H_Empty\<rparr>]"
      "tw_acceptor v = Some (A_Assign 0)" "tw_stopper v = S_Idle" "co_connections (tw_shared v) = [0]" using accepted_thread by blast
  have "threads_reachable prompt (the (accept_section undefined v))" by (rule threads_accept [OF r]) (simp add: accept_section_def Let_def v)
  then show ?thesis by (intro exI conjI) (assumption | simp add: accept_section_def Let_def v)+
qed

text \<open>A session on a socket that is not connected ends at once.\<close>

definition closed_socket :: Socket where
  "closed_socket = \<lparr>sk_open = False, sk_incoming = [], sk_answers = [], sk_sent = []\<rparr>"

lemma closed_session:
  assumes "co_connections w = [0]"
  shows "\<exists>w'. sections [] 0 0 6 (\<lparr>td_connection = new_connection closed_socket, td_phase = Ph_Loop, td_handle = h\<rparr>, w) =
      Some (\<lparr>td_connection = new_connection closed_socket, td_phase = Ph_Done, td_handle = (if h = H_Joinable then H_Detached else h)\<rparr>, w') \<and>
    co_connections w' = []"
  using assms by (simp add: eval_nat_numeral phase_step_simps loop_top_def receive_frame_def new_connection_def
      closed_socket_def socket_close_def forget_def)

text \<open>
  Without the promise of promptness the last lines of \<open>forget\<close> do not keep theirs. The thread of a
  connection may come to its end before the accept thread assigns its handle: it finds no joinable handle
  to detach, and the assignment then leaves a joinable handle in an object nobody refers to.
\<close>

lemma late_assignment_orphans: "\<exists>v. threads_reachable False v \<and> orphaned v 0"
proof -
  obtain v where r: "threads_reachable False v"
    and v: "tw_objects v = [\<lparr>td_connection = new_connection closed_socket, td_phase = Ph_Loop, td_handle = H_Empty\<rparr>]"
      "tw_acceptor v = Some (A_Assign 0)" "tw_stopper v = S_Idle" "co_connections (tw_shared v) = [0]" using accepted_thread by blast
  obtain w where w: "sections [] 0 0 6 (tw_objects v ! 0, tw_shared v) =
      Some (\<lparr>td_connection = new_connection closed_socket, td_phase = Ph_Done, td_handle = H_Empty\<rparr>, w)" "co_connections w = []"
    using closed_session [OF v(4), of H_Empty] v(1) by auto
  define v1 where "v1 = v\<lparr>tw_shared := w, tw_objects := [\<lparr>td_connection = new_connection closed_socket, td_phase = Ph_Done, td_handle = H_Empty\<rparr>]\<rparr>"
  have "threads_reachable False v1" using sections_reachable [OF r _ _ w(1)] by (simp add: v1_def v)
  then have "threads_reachable False (the (accept_section undefined v1))" by (rule threads_accept) (simp add: accept_section_def Let_def v1_def v)
  then show ?thesis by (intro exI conjI) (assumption | simp add: accept_section_def Let_def v1_def v w orphaned_def taken_by_stop_def)+
qed

text \<open>A publisher that says hello is registered, and its handshake is counted.\<close>

theorem interleaved_sessions_witness:
  "\<exists>v t. threads_reachable False v \<and> tw_objects v = [t] \<and> cn_registered (td_connection t) \<and> cn_publisher (td_connection t) = 7 \<and>
     co_hellos (tw_shared v) = co_publishers_lost (tw_shared v) + 1 \<and>
     (\<exists>p. find_publisher (gv_publishers (co_governor (tw_shared v))) 7 = Some p)"
proof -
  obtain v where r: "threads_reachable False v"
    and v: "tw_objects v = [\<lparr>td_connection = new_connection hello_socket, td_phase = Ph_Loop, td_handle = H_Empty\<rparr>]"
      "gv_publishers (co_governor (tw_shared v)) = [fresh_publisher example_hello 1 20]" "gv_epoch (co_governor (tw_shared v)) = 1"
    using accepted_thread [of False hello_socket] by auto
  obtain c w where it: "connection_iteration [] 40 (new_connection hello_socket) (tw_shared v) = (Loop_continue, c, w)"
    and c: "cn_registered c" "cn_publisher c = 7" using hello_served [OF v(2,3)] by blast
  let ?t = "\<lparr>td_connection = c, td_phase = Ph_Loop, td_handle = H_Empty\<rparr>"
  obtain n where "sections [] 40 0 n (tw_objects v ! 0, tw_shared v) = Some (?t, w)"
    using sections_iteration [of "tw_objects v ! 0" "[]" 40 "tw_shared v" Loop_continue c w 0] it v(1) by auto
  from sections_reachable [OF r _ _ this] have r1: "threads_reachable False (v\<lparr>tw_shared := w, tw_objects := [?t]\<rparr>)" by (simp add: v)
  from interleaved_sessions [OF this] c have "co_hellos w = co_publishers_lost w + 1" "\<exists>p. find_publisher (gv_publishers (co_governor w)) 7 = Some p"
    by (auto simp: said_def)
  then show ?thesis using r1 c by (intro exI [of _ "v\<lparr>tw_shared := w, tw_objects := [?t]\<rparr>"] exI [of _ ?t]) simp
qed

text \<open>A session that ends by itself detaches its handle.\<close>

theorem thread_handles_released_witness:
  "\<exists>v. threads_reachable True v \<and> map td_handle (tw_objects v) = [H_Detached] \<and> map td_phase (tw_objects v) = [Ph_Done] \<and> \<not> orphaned v 0"
proof -
  obtain v where r: "threads_reachable True v"
    and v: "tw_objects v = [\<lparr>td_connection = new_connection closed_socket, td_phase = Ph_Loop, td_handle = H_Joinable\<rparr>]"
      "co_connections (tw_shared v) = [0]" using assigned_thread by blast
  let ?t = "\<lparr>td_connection = new_connection closed_socket, td_phase = Ph_Done, td_handle = H_Detached\<rparr>"
  obtain w where w: "sections [] 0 0 6 (tw_objects v ! 0, tw_shared v) = Some (?t, w)"
    using closed_session [OF v(2), of H_Joinable] v(1) by auto
  have "threads_reachable True (v\<lparr>tw_shared := w, tw_objects := [?t]\<rparr>)" using sections_reachable [OF r _ _ w] by (simp add: v)
  moreover from thread_handles_released [OF this] have "\<not> orphaned (v\<lparr>tw_shared := w, tw_objects := [?t]\<rparr>) 0" by blast
  ultimately show ?thesis by (intro exI [of _ "v\<lparr>tw_shared := w, tw_objects := [?t]\<rparr>"]) simp
qed

text \<open>A coordinator with one connection is stopped.\<close>

theorem stop_completes_witness:
  "\<exists>v. threads_reachable True v \<and> tw_stopper v = S_Join [0] \<and> length (tw_objects v) = 1 \<and>
     (\<nexists>f. f 0 = v \<and> (\<forall>n. winding_down (f n) (f (Suc n))))"
proof -
  obtain v where r: "threads_reachable True v"
    and v: "tw_objects v = [\<lparr>td_connection = new_connection closed_socket, td_phase = Ph_Loop, td_handle = H_Joinable\<rparr>]"
      "tw_acceptor v = Some A_Check" "tw_stopper v = S_Idle" "co_connections (tw_shared v) = [0]" using assigned_thread by blast
  define v1 where "v1 = stop_call v"
  note steps = Let_def v1_def stop_call_def stop_section_def v
  have "threads_reachable True v1" unfolding v1_def by (rule threads_stop [OF r v(3)])
  then have "threads_reachable True (v1\<lparr>tw_acceptor := Some A_Ended\<rparr>)" by (rule threads_accept) (simp add: accept_section_def steps)
  then have "threads_reachable True (v1\<lparr>tw_acceptor := None, tw_stopper := S_Swap\<rparr>)" by (rule threads_stopping) (simp add: steps)
  then have r2: "threads_reachable True (v1\<lparr>tw_acceptor := None, tw_shared := (tw_shared v1)\<lparr>co_connections := []\<rparr>, tw_stopper := S_Tell [0] [0]\<rparr>)"
    (is "threads_reachable True ?v2") by (rule threads_stopping) (simp add: steps)
  define v3 where "v3 = the (stop_section ([], []) ?v2)"
  have r3: "threads_reachable True v3" unfolding v3_def by (rule threads_stopping [OF r2, of "([], [])"]) (simp add: steps)
  have v3: "tw_stopper v3 = S_Tell [] [0]" "length (tw_objects v3) = 1" by (simp_all add: v3_def steps)
  have "threads_reachable True (v3\<lparr>tw_stopper := S_Join [0]\<rparr>)" by (rule threads_stopping [OF r3]) (simp add: stop_section_def v3)
  moreover from stop_completes [OF this] have "\<nexists>f. f 0 = v3\<lparr>tw_stopper := S_Join [0]\<rparr> \<and> (\<forall>n. winding_down (f n) (f (Suc n)))" by simp
  ultimately show ?thesis using v3 by (intro exI [of _ "v3\<lparr>tw_stopper := S_Join [0]\<rparr>"]) simp
qed

end
