(* ===== verification/HGM_Worker.thy ===== *)
theory HGM_Worker
  imports HGM_Prelude "HOL-Library.Multiset" "HOL-Library.Sublist"
begin

text \<open>
  The worker pool (\<^verbatim>\<open>include/hgm/worker.hpp\<close>, \<^verbatim>\<open>src/worker.cpp\<close>) as a state machine. Each
  section that the code runs under the pool mutex is one function on the pool; a thread of
  \<open>worker_loop\<close> is between two such sections in one of four places. Tasks are abstract: a task that
  returns and a task that throws are the two ways the step out of \<open>W_Running\<close> can go. The thread
  schedule is arbitrary: any thread whose next section is enabled may run it. A thread in
  \<open>work_available_.wait\<close> is one whose section is enabled exactly when the predicate of the wait
  holds, so the model assumes that condition variables wake their waiters.
\<close>

section \<open>State\<close>

datatype 't Worker = W_Waiting | W_Running 't | W_Finishing | W_Exited

record 't WorkerPool =
  wp_thread_count :: nat
  wp_queue_capacity :: nat
  wp_queue :: "'t list"
  wp_threads :: "'t Worker list"
  wp_started :: bool
  wp_accepting :: bool
  wp_stopping :: bool
  wp_active :: nat
  wp_completed :: u64
  wp_rejected :: u64
  wp_dropped :: u64
  wp_failed :: u64

definition new_pool :: "nat \<Rightarrow> nat \<Rightarrow> 't WorkerPool" where
  "new_pool thread_count queue_capacity =
     \<lparr>wp_thread_count = max 1 (min thread_count kMaxWorkerThreads), wp_queue_capacity = max 1 (min queue_capacity kMaxQueueDepth),
      wp_queue = [], wp_threads = [], wp_started = False, wp_accepting = False, wp_stopping = False, wp_active = 0,
      wp_completed = 0, wp_rejected = 0, wp_dropped = 0, wp_failed = 0\<rparr>"

section \<open>The interface\<close>

definition pool_start :: "'t WorkerPool \<Rightarrow> unit result \<times> 't WorkerPool" where
  "pool_start p =
     (if wp_started p then (Inl AlreadyStarted, p)
      else (Inr (), p\<lparr>wp_started := True, wp_accepting := True, wp_stopping := False,
                     wp_threads := wp_threads p @ replicate (wp_thread_count p) W_Waiting\<rparr>))"

text \<open>\<open>submit\<close>; \<open>None\<close> is an empty \<open>std::function\<close>.\<close>

definition pool_submit :: "'t option \<Rightarrow> 't WorkerPool \<Rightarrow> unit result \<times> 't WorkerPool" where
  "pool_submit task p =
     (case task of
        None \<Rightarrow> (Inl InvalidArgument, p)
      | Some t \<Rightarrow>
          if \<not> wp_accepting p \<or> wp_stopping p then (Inl ShuttingDown, p\<lparr>wp_rejected := wp_rejected p + 1\<rparr>)
          else if length (wp_queue p) \<ge> wp_queue_capacity p then (Inl QueueFull, p\<lparr>wp_rejected := wp_rejected p + 1\<rparr>)
          else (Inr (), p\<lparr>wp_queue := wp_queue p @ [t]\<rparr>))"

definition stop_accepting :: "'t WorkerPool \<Rightarrow> 't WorkerPool" where
  "stop_accepting p = p\<lparr>wp_accepting := False\<rparr>"

text \<open>\<open>drain_and_stop\<close> and \<open>cancel_and_stop\<close> up to the join, and what both do after it.\<close>

definition begin_drain :: "'t WorkerPool \<Rightarrow> 't WorkerPool" where
  "begin_drain p = p\<lparr>wp_accepting := False, wp_stopping := True\<rparr>"

definition begin_cancel :: "'t WorkerPool \<Rightarrow> 't WorkerPool" where
  "begin_cancel p = p\<lparr>wp_accepting := False, wp_stopping := True,
     wp_dropped := wp_dropped p + word_of_nat (length (wp_queue p)), wp_queue := []\<rparr>"

definition joined :: "'t WorkerPool \<Rightarrow> 't WorkerPool option" where
  "joined p = (if list_all (\<lambda>w. w = W_Exited) (wp_threads p) then Some (p\<lparr>wp_threads := [], wp_started := False\<rparr>) else None)"

definition drop_pending :: "'t WorkerPool \<Rightarrow> nat \<times> 't WorkerPool" where
  "drop_pending p = (length (wp_queue p), p\<lparr>wp_dropped := wp_dropped p + word_of_nat (length (wp_queue p)), wp_queue := []\<rparr>)"

text \<open>The predicate \<open>wait_until_idle\<close> waits for.\<close>

definition pool_idle :: "'t WorkerPool \<Rightarrow> bool" where
  "pool_idle p \<longleftrightarrow> wp_queue p = [] \<and> wp_active p = 0 \<or> \<not> wp_started p"

section \<open>The worker loop\<close>

definition worker_take :: "nat \<Rightarrow> 't WorkerPool \<Rightarrow> ('t \<times> 't WorkerPool) option" where
  "worker_take i p =
     (if i < length (wp_threads p) \<and> wp_threads p ! i = W_Waiting
      then (case wp_queue p of
              [] \<Rightarrow> None
            | t # ts \<Rightarrow> Some (t, p\<lparr>wp_queue := ts, wp_active := wp_active p + 1, wp_threads := (wp_threads p)[i := W_Running t]\<rparr>))
      else None)"

definition worker_exit :: "nat \<Rightarrow> 't WorkerPool \<Rightarrow> 't WorkerPool option" where
  "worker_exit i p =
     (if i < length (wp_threads p) \<and> wp_threads p ! i = W_Waiting \<and> wp_queue p = [] \<and> wp_stopping p
      then Some (p\<lparr>wp_threads := (wp_threads p)[i := W_Exited]\<rparr>) else None)"

definition worker_return :: "bool \<Rightarrow> nat \<Rightarrow> 't WorkerPool \<Rightarrow> 't WorkerPool option" where
  "worker_return throws i p =
     (if i < length (wp_threads p) \<and> (case wp_threads p ! i of W_Running _ \<Rightarrow> True | _ \<Rightarrow> False)
      then Some (p\<lparr>wp_failed := (if throws then wp_failed p + 1 else wp_failed p),
                   wp_threads := (wp_threads p)[i := W_Finishing]\<rparr>) else None)"

definition worker_finish :: "nat \<Rightarrow> 't WorkerPool \<Rightarrow> 't WorkerPool option" where
  "worker_finish i p =
     (if i < length (wp_threads p) \<and> wp_threads p ! i = W_Finishing
      then Some (p\<lparr>wp_active := (if wp_active p > 0 then wp_active p - 1 else wp_active p), wp_completed := wp_completed p + 1,
                   wp_threads := (wp_threads p)[i := W_Waiting]\<rparr>) else None)"

section \<open>The pool of the governor\<close>

text \<open>
  \<open>workers_\<close> and \<open>workers_started_\<close> of the governor with \<open>start_workers\<close> and \<open>stop_workers\<close>
  (\<^verbatim>\<open>src/governor.cpp\<close>); the bounds come from the configuration. \<open>stop_workers\<close> hands out the pool it
  has moved from the governor, already draining, and returns when that pool is joined.
\<close>

record 't GovernorWorkers =
  gw_pool :: "'t WorkerPool option"
  gw_started :: bool

definition no_workers :: "'t GovernorWorkers" where
  "no_workers = \<lparr>gw_pool = None, gw_started = False\<rparr>"

definition start_workers :: "nat \<Rightarrow> nat \<Rightarrow> 't GovernorWorkers \<Rightarrow> unit result \<times> 't GovernorWorkers" where
  "start_workers worker_threads queue_capacity g =
     (if gw_started g then (Inl AlreadyStarted, g)
      else case pool_start (new_pool worker_threads queue_capacity) of
        (Inl e, _) \<Rightarrow> (Inl e, g\<lparr>gw_pool := None\<rparr>)
      | (Inr _, p) \<Rightarrow> (Inr (), g\<lparr>gw_pool := Some p, gw_started := True\<rparr>))"

definition stop_workers :: "'t GovernorWorkers \<Rightarrow> 't WorkerPool option \<times> 't GovernorWorkers" where
  "stop_workers g =
     (if \<not> gw_started g then (None, g)
      else (map_option begin_drain (gw_pool g), g\<lparr>gw_pool := None, gw_started := False\<rparr>))"

section \<open>Runs\<close>

text \<open>A step of some worker thread, with the task it takes from the queue, if it takes one.\<close>

inductive worker_step :: "'t WorkerPool \<Rightarrow> 't list \<Rightarrow> 't WorkerPool \<Rightarrow> bool" where
  takes: "worker_take i p = Some (t, p') \<Longrightarrow> worker_step p [t] p'"
| exits: "worker_exit i p = Some p' \<Longrightarrow> worker_step p [] p'"
| returns: "worker_return throws i p = Some p' \<Longrightarrow> worker_step p [] p'"
| finishes: "worker_finish i p = Some p' \<Longrightarrow> worker_step p [] p'"

text \<open>The run of the workers alone, with the tasks they take in order.\<close>

inductive worker_run :: "'t WorkerPool \<Rightarrow> 't list \<Rightarrow> 't WorkerPool \<Rightarrow> bool" where
  stays: "worker_run p [] p"
| runs: "worker_run p ts p' \<Longrightarrow> worker_step p' us p'' \<Longrightarrow> worker_run p (ts @ us) p''"

text \<open>
  The life of a pool under its clients and workers, with the history of the tasks: accepted and refused
  submissions, tasks taken, tasks that ended with an exception, and tasks dropped. An empty task is no
  submission: \<open>submit\<close> returns before it takes the lock.
\<close>

record 't History =
  hi_accepted :: "'t list"
  hi_refused :: "'t list"
  hi_taken :: "'t list"
  hi_thrown :: "'t list"
  hi_dropped :: "'t list"

definition no_history :: "'t History" where
  "no_history = \<lparr>hi_accepted = [], hi_refused = [], hi_taken = [], hi_thrown = [], hi_dropped = []\<rparr>"

definition log_submission :: "unit result \<Rightarrow> 't option \<Rightarrow> 't History \<Rightarrow> 't History" where
  "log_submission r task h =
     (case (r, task) of
        (_, None) \<Rightarrow> h
      | (Inr _, Some t) \<Rightarrow> h\<lparr>hi_accepted := hi_accepted h @ [t]\<rparr>
      | (Inl _, Some t) \<Rightarrow> h\<lparr>hi_refused := hi_refused h @ [t]\<rparr>)"

inductive pool_reachable :: "'t WorkerPool \<Rightarrow> 't History \<Rightarrow> bool" where
  created: "pool_reachable (new_pool n c) no_history"
| started: "pool_reachable p h \<Longrightarrow> pool_reachable (snd (pool_start p)) h"
| submitted: "pool_reachable p h \<Longrightarrow> pool_submit task p = (r, p') \<Longrightarrow> pool_reachable p' (log_submission r task h)"
| stopped_accepting: "pool_reachable p h \<Longrightarrow> pool_reachable (stop_accepting p) h"
| draining: "pool_reachable p h \<Longrightarrow> pool_reachable (begin_drain p) h"
| cancelling: "pool_reachable p h \<Longrightarrow> pool_reachable (begin_cancel p) (h\<lparr>hi_dropped := hi_dropped h @ wp_queue p\<rparr>)"
| dropped_pending: "pool_reachable p h \<Longrightarrow>
    pool_reachable (snd (drop_pending p)) (h\<lparr>hi_dropped := hi_dropped h @ wp_queue p\<rparr>)"
| joining: "pool_reachable p h \<Longrightarrow> joined p = Some p' \<Longrightarrow> pool_reachable p' h"
| taking: "pool_reachable p h \<Longrightarrow> worker_take i p = Some (t, p') \<Longrightarrow> pool_reachable p' (h\<lparr>hi_taken := hi_taken h @ [t]\<rparr>)"
| exiting: "pool_reachable p h \<Longrightarrow> worker_exit i p = Some p' \<Longrightarrow> pool_reachable p' h"
| returning: "pool_reachable p h \<Longrightarrow> worker_return throws i p = Some p' \<Longrightarrow> wp_threads p ! i = W_Running t \<Longrightarrow>
    pool_reachable p' (h\<lparr>hi_thrown := hi_thrown h @ (if throws then [t] else [])\<rparr>)"
| finishing: "pool_reachable p h \<Longrightarrow> worker_finish i p = Some p' \<Longrightarrow> pool_reachable p' h"

text \<open>The steps of the workers are steps of such a life.\<close>

lemma worker_step_reachable:
  assumes "worker_step p ts p'" and "pool_reachable p h"
  shows "\<exists>h'. pool_reachable p' h' \<and> hi_taken h' = hi_taken h @ ts"
  using assms
proof (induction rule: worker_step.induct)
  case (takes i p t p')
  from taking [OF takes.prems takes.hyps] show ?case by fastforce
next
  case (exits i p p')
  from exiting [OF exits.prems exits.hyps] show ?case by auto
next
  case (returns throws i p p')
  then obtain t where "wp_threads p ! i = W_Running t" by (auto simp: worker_return_def split: if_splits Worker.splits)
  from returning [OF returns.prems returns.hyps this] show ?case by fastforce
next
  case (finishes i p p')
  from finishing [OF finishes.prems finishes.hyps] show ?case by auto
qed

section \<open>The invariant\<close>

fun busy :: "'t Worker \<Rightarrow> bool" where
  "busy (W_Running t) = True"
| "busy W_Finishing = True"
| "busy w = False"

definition pool_ok :: "'t WorkerPool \<Rightarrow> 't History \<Rightarrow> bool" where
  "pool_ok p h \<longleftrightarrow> length (wp_queue p) \<le> wp_queue_capacity p \<and> 0 < wp_thread_count p \<and>
     length (wp_threads p) = (if wp_started p then wp_thread_count p else 0) \<and>
     wp_active p = length (filter busy (wp_threads p)) \<and>
     (wp_stopping p \<longrightarrow> \<not> wp_accepting p) \<and> (\<not> wp_started p \<longrightarrow> \<not> wp_accepting p \<and> wp_queue p = []) \<and>
     (W_Exited \<in> set (wp_threads p) \<longrightarrow> wp_stopping p \<and> wp_queue p = []) \<and>
     mset (hi_accepted h) = mset (hi_taken h) + mset (hi_dropped h) + mset (wp_queue p) \<and>
     subseq (hi_taken h @ wp_queue p) (hi_accepted h) \<and> (hi_dropped h = [] \<longrightarrow> hi_accepted h = hi_taken h @ wp_queue p) \<and>
     wp_active p \<le> length (hi_taken h) \<and>
     wp_completed p = word_of_nat (length (hi_taken h) - wp_active p) \<and>
     wp_dropped p = word_of_nat (length (hi_dropped h)) \<and> wp_rejected p = word_of_nat (length (hi_refused h)) \<and>
     wp_failed p = word_of_nat (length (hi_thrown h))"

lemma pool_submit_ok:
  assumes "pool_submit task p = (r, p')" and "pool_ok p h"
  shows "pool_ok p' (log_submission r task h)"
proof (cases task)
  case None
  then show ?thesis using assms by (auto simp: pool_submit_def log_submission_def)
next
  case (Some t)
  consider e where "r = Inl e" "p' = p\<lparr>wp_rejected := wp_rejected p + 1\<rparr>"
    | "r = Inr ()" "wp_accepting p" "length (wp_queue p) < wp_queue_capacity p" "p' = p\<lparr>wp_queue := wp_queue p @ [t]\<rparr>"
    using assms(1) Some by (auto simp: pool_submit_def split: if_splits)
  then show ?thesis
  proof cases
    case 1
    then show ?thesis using assms(2) by (simp add: pool_ok_def log_submission_def Some)
  next
    case 2
    have "wp_started p" "\<not> wp_stopping p" using assms(2) 2(2) unfolding pool_ok_def by blast+
    moreover have "subseq (hi_taken h @ wp_queue p @ [t]) (hi_accepted h @ [t])"
      using assms(2) list_emb_append_mono [of "(=)" "hi_taken h @ wp_queue p" "hi_accepted h" "[t]" "[t]"] by (simp add: pool_ok_def)
    ultimately show ?thesis using assms(2) 2(3) by (simp add: pool_ok_def 2(1,4) Some log_submission_def)
  qed
qed

lemma worker_take_ok:
  assumes take: "worker_take i p = Some (t, p')" and ok: "pool_ok p h"
  shows "pool_ok p' (h\<lparr>hi_taken := hi_taken h @ [t]\<rparr>)"
proof -
  obtain rest where q: "wp_queue p = t # rest" "i < length (wp_threads p)" "wp_threads p ! i = W_Waiting"
    and p': "p' = p\<lparr>wp_queue := rest, wp_active := wp_active p + 1, wp_threads := (wp_threads p)[i := W_Running t]\<rparr>"
    using take by (auto simp: worker_take_def split: if_splits list.splits)
  have "W_Exited \<notin> set ((wp_threads p)[i := W_Running t])"
    using ok q(1) set_update_subset_insert [of "wp_threads p" i "W_Running t"] by (auto simp: pool_ok_def)
  moreover have "wp_active p + 1 = length (filter busy ((wp_threads p)[i := W_Running t]))"
    using ok filter_update [OF q(2), of busy "W_Running t"] q(3) by (simp add: pool_ok_def)
  moreover have "wp_started p" using ok q(1) by (auto simp: pool_ok_def)
  ultimately show ?thesis using ok unfolding pool_ok_def p' by (simp add: q(1) flip: \<open>wp_active p + 1 = _\<close>)
qed

lemma worker_exit_ok:
  assumes "worker_exit i p = Some p'" and "pool_ok p h"
  shows "pool_ok p' h"
proof -
  have "i < length (wp_threads p)" "wp_threads p ! i = W_Waiting" "wp_queue p = []" "wp_stopping p"
    "p' = p\<lparr>wp_threads := (wp_threads p)[i := W_Exited]\<rparr>" using assms(1) by (auto simp: worker_exit_def split: if_splits)
  then show ?thesis using assms(2) filter_update [of i "wp_threads p" busy W_Exited] by (simp add: pool_ok_def)
qed

lemma worker_return_ok:
  assumes "worker_return throws i p = Some p'" and q: "wp_threads p ! i = W_Running t" and ok: "pool_ok p h"
  shows "pool_ok p' (h\<lparr>hi_thrown := hi_thrown h @ (if throws then [t] else [])\<rparr>)"
proof -
  have i: "i < length (wp_threads p)" and p': "p' = p\<lparr>wp_failed := (if throws then wp_failed p + 1 else wp_failed p),
      wp_threads := (wp_threads p)[i := W_Finishing]\<rparr>"
    using assms(1) by (auto simp: worker_return_def split: if_splits Worker.splits)
  have "W_Exited \<in> set ((wp_threads p)[i := W_Finishing]) \<Longrightarrow> W_Exited \<in> set (wp_threads p)"
    using set_update_subset_insert [of "wp_threads p" i W_Finishing] by auto
  moreover have "length (filter busy ((wp_threads p)[i := W_Finishing])) = length (filter busy (wp_threads p))"
    using filter_update [OF i, of busy W_Finishing] q by simp
  ultimately show ?thesis using ok unfolding pool_ok_def p' by simp
qed

lemma worker_finish_ok:
  assumes "worker_finish i p = Some p'" and ok: "pool_ok p h"
  shows "pool_ok p' h"
proof -
  have q: "i < length (wp_threads p)" "wp_threads p ! i = W_Finishing"
    "p' = p\<lparr>wp_active := wp_active p - 1, wp_completed := wp_completed p + 1, wp_threads := (wp_threads p)[i := W_Waiting]\<rparr>"
    using assms(1) by (auto simp: worker_finish_def split: if_splits)
  have n: "length (filter busy ((wp_threads p)[i := W_Waiting])) + 1 = wp_active p"
    using filter_update [OF q(1), of busy W_Waiting] q(2) ok by (simp add: pool_ok_def)
  then have "length (hi_taken h) - (wp_active p - 1) = Suc (length (hi_taken h) - wp_active p)"
    using ok by (auto simp: pool_ok_def)
  moreover have "W_Exited \<in> set ((wp_threads p)[i := W_Waiting]) \<Longrightarrow> W_Exited \<in> set (wp_threads p)"
    using set_update_subset_insert [of "wp_threads p" i W_Waiting] by auto
  moreover have "wp_active p - 1 = length (filter busy ((wp_threads p)[i := W_Waiting]))" using n by linarith
  ultimately show ?thesis using ok unfolding pool_ok_def q(3) by simp
qed

lemma pool_emptied_ok:
  assumes "pool_ok p h"
  shows "pool_ok (p\<lparr>wp_dropped := wp_dropped p + word_of_nat (length (wp_queue p)), wp_queue := []\<rparr>)
    (h\<lparr>hi_dropped := hi_dropped h @ wp_queue p\<rparr>)"
proof -
  have "subseq (hi_taken h) (hi_accepted h)"
    using assms subseq_order.trans [OF subseq_rev_drop_many [OF subseq_order.refl, of "hi_taken h" "wp_queue p"]]
    by (simp add: pool_ok_def)
  then show ?thesis using assms by (auto simp: pool_ok_def)
qed

lemma pool_reachable_ok: "pool_reachable p h \<Longrightarrow> pool_ok p h"
proof (induction rule: pool_reachable.induct)
  case (created n c)
  show ?case by (simp add: pool_ok_def new_pool_def no_history_def)
next
  case (started p h)
  then show ?case by (auto simp: pool_ok_def pool_start_def)
next
  case (submitted p h task r p')
  then show ?case by (blast intro: pool_submit_ok)
next
  case (joining p h p')
  then have all: "\<forall>w\<in>set (wp_threads p). w = W_Exited" and p': "p' = p\<lparr>wp_threads := [], wp_started := False\<rparr>"
    by (auto simp: joined_def list_all_iff split: if_splits)
  have "filter busy (wp_threads p) = []" using all by (auto simp: filter_empty_conv)
  moreover have "wp_started p \<Longrightarrow> W_Exited \<in> set (wp_threads p)"
    using all joining.IH by (cases "wp_threads p") (auto simp: pool_ok_def)
  ultimately have "wp_queue p = []" "wp_stopping p \<or> \<not> wp_started p"
    using joining.IH by (cases "wp_started p"; simp add: pool_ok_def)+
  then show ?case using joining.IH \<open>filter busy (wp_threads p) = []\<close> unfolding pool_ok_def p' by auto
next
  case (cancelling p h)
  have "pool_ok (p\<lparr>wp_accepting := False, wp_stopping := True\<rparr>) h" using cancelling.IH by (auto simp: pool_ok_def)
  from pool_emptied_ok [OF this] show ?case by (simp add: begin_cancel_def)
next
  case (dropped_pending p h)
  from pool_emptied_ok [OF dropped_pending.IH] show ?case by (simp add: drop_pending_def)
next
  case (taking p h i t p')
  then show ?case by (blast intro: worker_take_ok)
next
  case (exiting p h i p')
  then show ?case by (blast intro: worker_exit_ok)
next
  case (returning p h throws i p' t)
  then show ?case by (blast intro: worker_return_ok)
next
  case (finishing p h i p')
  then show ?case by (blast intro: worker_finish_ok)
qed (auto simp: pool_ok_def stop_accepting_def begin_drain_def)

section \<open>Accounting\<close>

text \<open>C34: In every state a worker pool can reach, under any interleaving of its clients and its
  workers, the queue never exceeds its capacity, the active count is the number of workers between
  taking a task and retiring it and never exceeds the thread count, and no accepted task is lost or
  run twice: what was accepted is, as a multiset, what was taken, what was dropped and what is still
  queued. Tasks are taken in the order of submission, also when others were dropped between them, and
  while nothing has been dropped the tasks taken and then the queue are exactly the submissions. The
  completed counter is the number of tasks taken and retired, the failed counter the number of tasks
  that ended with an exception, the dropped counter the number dropped, and the rejected counter the
  number of non-empty tasks that \<open>submit\<close> refused, all modulo \<open>2\<^sup>6\<^sup>4\<close>.
\<close>

theorem worker_pool_accounting:
  assumes "pool_reachable p h"
  shows "length (wp_queue p) \<le> wp_queue_capacity p \<and>
    wp_active p = length (filter busy (wp_threads p)) \<and> wp_active p \<le> wp_thread_count p \<and>
    mset (hi_accepted h) = mset (hi_taken h) + mset (hi_dropped h) + mset (wp_queue p) \<and>
    subseq (hi_taken h @ wp_queue p) (hi_accepted h) \<and>
    (hi_dropped h = [] \<longrightarrow> hi_accepted h = hi_taken h @ wp_queue p) \<and>
    wp_active p \<le> length (hi_taken h) \<and> wp_completed p = word_of_nat (length (hi_taken h) - wp_active p) \<and>
    wp_failed p = word_of_nat (length (hi_thrown h)) \<and>
    wp_dropped p = word_of_nat (length (hi_dropped h)) \<and> wp_rejected p = word_of_nat (length (hi_refused h))"
proof -
  have ok: "pool_ok p h" using assms by (rule pool_reachable_ok)
  moreover have "length (filter busy (wp_threads p)) \<le> length (wp_threads p)" by simp
  ultimately have "wp_active p \<le> wp_thread_count p"
    unfolding pool_ok_def by (metis le0 le_trans)
  with ok show ?thesis unfolding pool_ok_def by blast
qed

text \<open>One thread, two tasks, the first of them taken.\<close>

definition pool_example :: "nat WorkerPool" where
  "pool_example = snd (pool_submit (Some 8) (snd (pool_submit (Some 7) (snd (pool_start (new_pool 1 4))))))"

definition history_example :: "nat History" where
  "history_example = no_history\<lparr>hi_accepted := [7, 8]\<rparr>"

lemmas pool_example_simps = pool_example_def history_example_def no_history_def log_submission_def pool_submit_def pool_start_def new_pool_def
  kMaxWorkerThreads_def kMaxQueueDepth_def

lemma pool_example_reachable: "pool_reachable pool_example history_example"
proof -
  have "pool_reachable (snd (pool_start (new_pool 1 4))) (no_history :: nat History)"
    by (intro started created)
  from submitted [OF this, of "Some 7"]
  have "pool_reachable (snd (pool_submit (Some 7) (snd (pool_start (new_pool 1 4)))))
      (no_history\<lparr>hi_accepted := [7 :: nat]\<rparr>)"
    by (simp add: pool_example_simps)
  from submitted [OF this, of "Some 8"] show ?thesis by (simp add: pool_example_simps)
qed

text \<open>The first task throws; the second is still queued.\<close>

theorem worker_pool_accounting_witness:
  "\<exists>p p' h. worker_take 0 pool_example = Some (7, p) \<and> worker_return True 0 p = Some p' \<and> pool_reachable p' h \<and>
     wp_queue p' = [8] \<and> wp_active p' = 1 \<and> wp_active p' \<le> wp_thread_count p' \<and> hi_thrown h = [7] \<and>
     wp_failed p' = word_of_nat (length (hi_thrown h))"
proof -
  let ?p = "snd (the (worker_take 0 pool_example))"
  let ?p' = "the (worker_return True 0 ?p)"
  let ?h = "history_example\<lparr>hi_taken := hi_taken history_example @ [7], hi_thrown := hi_thrown history_example @ [7]\<rparr>"
  have t: "worker_take 0 pool_example = Some (7, ?p)" "worker_return True 0 ?p = Some ?p'" "wp_threads ?p ! 0 = W_Running 7"
    "wp_queue ?p' = [8]" "wp_active ?p' = 1"
    by (simp_all add: pool_example_simps worker_take_def worker_return_def)
  have r: "pool_reachable ?p' ?h" using returning [OF taking [OF pool_example_reachable t(1)] t(2,3)] by simp
  have "hi_thrown ?h = [7]" by (simp add: history_example_def no_history_def)
  with worker_pool_accounting [OF r] r t show ?thesis by blast
qed

section \<open>Draining\<close>

text \<open>What a worker still has to do, and the measure that every step of a worker decreases.\<close>

fun worker_weight :: "'t Worker \<Rightarrow> nat" where
  "worker_weight W_Waiting = 1"
| "worker_weight (W_Running t) = 3"
| "worker_weight W_Finishing = 2"
| "worker_weight W_Exited = 0"

definition pool_weight :: "'t WorkerPool \<Rightarrow> nat" where
  "pool_weight p = 4 * length (wp_queue p) + sum_list (map worker_weight (wp_threads p))"

definition worker_stuck :: "'t WorkerPool \<Rightarrow> bool" where
  "worker_stuck p \<longleftrightarrow> (\<nexists>ts p'. worker_step p ts p')"

lemma weight_update:
  assumes "i < length ws"
  shows "sum_list (map worker_weight (ws[i := w])) + worker_weight (ws ! i) = sum_list (map worker_weight ws) + worker_weight w"
  using assms
proof (induction ws arbitrary: i)
  case (Cons x xs)
  then show ?case by (cases i) auto
qed simp

lemma worker_step_weight: "worker_step p ts p' \<Longrightarrow> pool_weight p' < pool_weight p"
proof (induction rule: worker_step.induct)
  case (takes i p t p')
  then show ?case using weight_update [of i "wp_threads p" "W_Running t"]
    by (auto simp: worker_take_def pool_weight_def split: if_splits list.splits)
next
  case (exits i p p')
  then show ?case using weight_update [of i "wp_threads p" W_Exited]
    by (auto simp: worker_exit_def pool_weight_def split: if_splits)
next
  case (returns throws i p p')
  then show ?case using weight_update [of i "wp_threads p" W_Finishing]
    by (auto simp: worker_return_def pool_weight_def split: if_splits Worker.splits)
next
  case (finishes i p p')
  then show ?case using weight_update [of i "wp_threads p" W_Waiting]
    by (auto simp: worker_finish_def pool_weight_def split: if_splits)
qed

lemma worker_step_queue: "worker_step p ts p' \<Longrightarrow> wp_queue p = ts @ wp_queue p' \<and> wp_stopping p' = wp_stopping p"
  by (induction rule: worker_step.induct)
     (auto simp: worker_take_def worker_exit_def worker_return_def worker_finish_def split: if_splits list.splits)

lemma worker_run_queue: "worker_run p ts p' \<Longrightarrow> wp_queue p = ts @ wp_queue p' \<and> wp_stopping p' = wp_stopping p"
  by (induction rule: worker_run.induct) (auto dest: worker_step_queue)

lemma worker_run_reachable:
  "worker_run p ts p' \<Longrightarrow> pool_reachable p h \<Longrightarrow> \<exists>h'. pool_reachable p' h' \<and> hi_taken h' = hi_taken h @ ts"
proof (induction rule: worker_run.induct)
  case (stays p)
  then show ?case by auto
next
  case (runs p ts p' us p'')
  from runs.IH [OF runs.prems] worker_step_reachable [OF runs.hyps(2)] show ?case by fastforce
qed

text \<open>A stopping pool whose workers cannot move has only exited workers.\<close>

lemma stuck_exited:
  assumes "worker_stuck p" and "wp_stopping p" and "i < length (wp_threads p)"
  shows "wp_threads p ! i = W_Exited"
proof (cases "wp_threads p ! i")
  case W_Waiting
  then have "worker_exit i p \<noteq> None \<or> worker_take i p \<noteq> None"
    using assms by (auto simp: worker_exit_def worker_take_def split: list.splits)
  then show ?thesis using assms(1) unfolding worker_stuck_def by (auto intro: exits takes)
next
  case (W_Running t)
  then have "worker_return False i p \<noteq> None" using assms by (simp add: worker_return_def)
  then show ?thesis using assms(1) unfolding worker_stuck_def by (auto intro: returns)
next
  case W_Finishing
  then have "worker_finish i p \<noteq> None" using assms by (simp add: worker_finish_def)
  then show ?thesis using assms(1) unfolding worker_stuck_def by (auto intro: finishes)
qed

lemma stuck_drained:
  assumes "worker_stuck p" and "wp_stopping p" and "pool_ok p h"
  shows "wp_queue p = [] \<and> wp_active p = 0 \<and> joined p \<noteq> None"
proof -
  have all: "\<forall>w\<in>set (wp_threads p). w = W_Exited"
    using stuck_exited [OF assms(1,2)] by (auto simp: in_set_conv_nth)
  then have "filter busy (wp_threads p) = []" by (auto simp: filter_empty_conv)
  moreover have "wp_started p \<Longrightarrow> W_Exited \<in> set (wp_threads p)"
    using all assms(3) by (cases "wp_threads p") (auto simp: pool_ok_def)
  ultimately have "wp_queue p = [] \<and> wp_active p = 0"
    using assms(3) by (cases "wp_started p") (simp_all add: pool_ok_def)
  then show ?thesis using all by (simp add: joined_def list_all_iff)
qed

lemma worker_run_completes: "worker_run p ts q \<Longrightarrow> \<exists>us q'. worker_run p (ts @ us) q' \<and> worker_stuck q'"
proof (induction q arbitrary: ts rule: measure_induct_rule [of pool_weight])
  case (less q)
  show ?case
  proof (cases "worker_stuck q")
    case True
    then show ?thesis using less.prems by (metis append_Nil2)
  next
    case False
    then obtain vs q1 where step: "worker_step q vs q1" by (auto simp: worker_stuck_def)
    from less.IH [OF worker_step_weight [OF step] runs [OF less.prems step]] show ?thesis by auto
  qed
qed

section \<open>Starting and stopping the governor's pool\<close>

definition workers_ok :: "'t GovernorWorkers \<Rightarrow> bool" where
  "workers_ok g \<longleftrightarrow> (gw_started g \<longleftrightarrow> gw_pool g \<noteq> None) \<and> (\<forall>p. gw_pool g = Some p \<longrightarrow> (\<exists>h. pool_reachable p h))"

lemma start_workers_ok:
  assumes "workers_ok g" and "start_workers n c g = (r, g')"
  shows "workers_ok g' \<and> (r = Inr () \<longleftrightarrow> \<not> gw_started g) \<and> gw_started g'"
proof (cases "gw_started g")
  case False
  have "pool_reachable (snd (pool_start (new_pool n c))) no_history"
    by (intro started created)
  then show ?thesis using assms False by (auto simp: start_workers_def pool_start_def new_pool_def workers_ok_def)
qed (use assms in \<open>auto simp: start_workers_def\<close>)

text \<open>Stopping leaves the governor without workers; the pool it waits for drains under every schedule.\<close>

lemma stop_workers_drains:
  assumes "workers_ok g" and "stop_workers g = (r, g')"
  shows "workers_ok g' \<and> \<not> gw_started g' \<and> (r = None \<longleftrightarrow> \<not> gw_started g)"
    "r = Some p \<Longrightarrow> \<exists>us q. worker_run p us q \<and> worker_stuck q \<and> us = wp_queue p \<and> joined q \<noteq> None"
proof -
  show "workers_ok g' \<and> \<not> gw_started g' \<and> (r = None \<longleftrightarrow> \<not> gw_started g)"
    using assms by (auto simp: stop_workers_def workers_ok_def split: if_splits)
  assume "r = Some p"
  then obtain p0 h where p: "p = begin_drain p0" "pool_reachable p0 h"
    using assms by (auto simp: stop_workers_def workers_ok_def split: if_splits)
  obtain us q where run: "worker_run p us q" "worker_stuck q" using worker_run_completes [OF stays, of p] by auto
  obtain h' where "pool_ok q h'" using worker_run_reachable [OF run(1)] draining [OF p(2)] pool_reachable_ok p(1) by blast
  moreover have "wp_queue p = us @ wp_queue q" "wp_stopping q" using worker_run_queue [OF run(1)] by (simp_all add: p(1) begin_drain_def)
  ultimately show "\<exists>us q. worker_run p us q \<and> worker_stuck q \<and> us = wp_queue p \<and> joined q \<noteq> None"
    using run stuck_drained [OF run(2)] by force
qed

section \<open>Draining\<close>

text \<open>C16: \<open>drain_and_stop\<close> finishes and loses nothing, under every schedule. Once draining has begun
  there is no infinite sequence of worker steps; every run of the workers can be continued until
  none can move; and in every state where none can move the workers have taken exactly the tasks
  that were queued, in order, the queue is empty, no task is active, every thread has exited so the
  joins return, and the completed counter covers every task ever taken.
\<close>

theorem drain_completes:
  assumes "pool_reachable p h"
  shows "(\<nexists>f. f 0 = begin_drain p \<and> (\<forall>n. \<exists>ts. worker_step (f n) ts (f (Suc n)))) \<and>
    (\<forall>ts q. worker_run (begin_drain p) ts q \<longrightarrow>
       (\<exists>us q'. worker_run (begin_drain p) (ts @ us) q' \<and> worker_stuck q') \<and>
       (worker_stuck q \<longrightarrow> ts = wp_queue p \<and> wp_queue q = [] \<and> wp_active q = 0 \<and> joined q \<noteq> None \<and>
          wp_completed q = word_of_nat (length (hi_taken h) + length (wp_queue p))))"
proof (intro conjI allI impI)
  show "\<nexists>f. f 0 = begin_drain p \<and> (\<forall>n. \<exists>ts. worker_step (f n) ts (f (Suc n)))"
  proof
    assume "\<exists>f. f 0 = begin_drain p \<and> (\<forall>n. \<exists>ts. worker_step (f n) ts (f (Suc n)))"
    then obtain f where "f 0 = begin_drain p" and "\<And>n. \<exists>ts. worker_step (f n) ts (f (Suc n))" by blast
    then have "\<forall>n. (f (Suc n), f n) \<in> measure pool_weight" by (auto dest: worker_step_weight)
    then show False using wf_measure [of pool_weight] by (auto simp: wf_iff_no_infinite_down_chain)
  qed
next
  fix ts q assume run: "worker_run (begin_drain p) ts q"
  show "\<exists>us q'. worker_run (begin_drain p) (ts @ us) q' \<and> worker_stuck q'" using run by (rule worker_run_completes)
  assume stuck: "worker_stuck q"
  obtain h' where ok: "pool_ok q h'" and h': "hi_taken h' = hi_taken h @ ts"
    using worker_run_reachable [OF run draining [OF assms]] pool_reachable_ok by blast
  have q: "wp_queue p = ts @ wp_queue q" "wp_stopping q" using worker_run_queue [OF run] by (simp_all add: begin_drain_def)
  note d = stuck_drained [OF stuck q(2) ok]
  show "wp_queue q = []" "wp_active q = 0" "joined q \<noteq> None" using d by blast+
  show "ts = wp_queue p" using q(1) d by simp
  then show "wp_completed q = word_of_nat (length (hi_taken h) + length (wp_queue p))"
    using ok d h' by (simp add: pool_ok_def)
qed

theorem drain_completes_witness:
  "(\<exists>us q. worker_run (begin_drain pool_example) us q \<and> worker_stuck q \<and> us = [7, 8] \<and> wp_completed q = 2)"
proof -
  have q: "wp_queue pool_example = [7, 8]" by (simp add: pool_example_simps)
  note d = conjunct2 [OF drain_completes [OF pool_example_reachable]]
  have "\<exists>us q. worker_run (begin_drain pool_example) ([] @ us) q \<and> worker_stuck q"
    using d [rule_format, OF stays] by blast
  then obtain us q where run: "worker_run (begin_drain pool_example) us q" "worker_stuck q" by auto
  then have "us = wp_queue pool_example \<and>
      wp_completed q = word_of_nat (length (hi_taken history_example) + length (wp_queue pool_example))"
    using d by blast
  then show ?thesis using run by (auto simp: q history_example_def no_history_def)
qed

end
