(* ===== verification/HGM_Text.thy ===== *)
theory HGM_Text
  imports HGM_Coordinator HGM_Worker
begin

text \<open>
  Text for operators: the \<open>to_string\<close> functions of the enumerations (\<^verbatim>\<open>enums.cpp\<close>, \<^verbatim>\<open>error.cpp\<close>,
  \<^verbatim>\<open>provenance.cpp\<close>, \<^verbatim>\<open>authority.cpp\<close>, \<^verbatim>\<open>detection.cpp\<close>, \<^verbatim>\<open>frame.cpp\<close>, \<^verbatim>\<open>journal.cpp\<close>),
  \<open>Status::text\<close>, and the \<open>render\<close> functions of the counters, the authority vector, the worker pool
  and the coordinator. A value of an enumeration that has no name is printed by the \<open>return\<close> after the
  switch. The free texts that accompany a record (a reason, a detail) are no fields of the model's
  records; a function that prints one takes it as an argument.
\<close>

section \<open>Names of enumeration values\<close>

primrec rk_text :: "ResourceKind \<Rightarrow> string" where
  "rk_text RK_Unknown = ''unknown''"
| "rk_text RK_Switch = ''switch''"
| "rk_text RK_Port = ''port''"
| "rk_text RK_Link = ''link''"
| "rk_text RK_Queue = ''queue''"
| "rk_text RK_Buffer = ''buffer''"
| "rk_text RK_Host = ''host''"
| "rk_text RK_Optical = ''optical''"
| "rk_text RK_Other = ''other''"
| "rk_text (RK_Raw _) = ''unknown''"

primrec tq_text :: "TelemetryQuality \<Rightarrow> string" where
  "tq_text TQ_Unknown = ''unknown''"
| "tq_text TQ_Missing = ''missing''"
| "tq_text TQ_Suspect = ''suspect''"
| "tq_text TQ_Degraded = ''degraded''"
| "tq_text TQ_Healthy = ''healthy''"
| "tq_text (TQ_Raw _) = ''unknown''"

primrec sev_text :: "Severity \<Rightarrow> string" where
  "sev_text Sev_None = ''none''"
| "sev_text Sev_Low = ''low''"
| "sev_text Sev_Moderate = ''moderate''"
| "sev_text Sev_High = ''high''"
| "sev_text Sev_Critical = ''critical''"
| "sev_text (Sev_Raw _) = ''none''"

primrec scope_text :: "CongestionScope \<Rightarrow> string" where
  "scope_text Scope_Unknown = ''unknown''"
| "scope_text Scope_None = ''none''"
| "scope_text Scope_Localized = ''localized''"
| "scope_text Scope_Regional = ''regional''"
| "scope_text Scope_Global = ''global''"
| "scope_text (Scope_Raw _) = ''unknown''"

primrec cause_text :: "SaturationCause \<Rightarrow> string" where
  "cause_text Cause_Unknown = ''unknown''"
| "cause_text Cause_CapacityExhaustion = ''capacity-exhaustion''"
| "cause_text Cause_QueueBuildup = ''queue-buildup''"
| "cause_text Cause_BufferExhaustion = ''buffer-exhaustion''"
| "cause_text Cause_Microburst = ''microburst''"
| "cause_text Cause_FanInContention = ''fan-in-contention''"
| "cause_text Cause_StructuralConvergence = ''structural-convergence''"
| "cause_text (Cause_Raw _) = ''unknown''"

primrec mk_text :: "MitigationKind \<Rightarrow> string" where
  "mk_text MK_None = ''none''"
| "mk_text MK_FlowRelocation = ''flow-relocation''"
| "mk_text MK_PathRebalance = ''path-rebalance''"
| "mk_text MK_AdmissionReduction = ''admission-reduction''"
| "mk_text MK_RatePacingChange = ''rate-pacing-change''"
| "mk_text MK_ResourceIsolation = ''resource-isolation''"
| "mk_text MK_EscalateGlobalCongestion = ''escalate-global-congestion''"
| "mk_text (MK_Raw _) = ''none''"

primrec sk_text :: "StreamKind \<Rightarrow> string" where
  "sk_text Stream_Unknown = ''unknown''"
| "sk_text Stream_Topology = ''topology''"
| "sk_text Stream_Capacity = ''capacity''"
| "sk_text Stream_Signals = ''signals''"
| "sk_text Stream_Paths = ''paths''"
| "sk_text Stream_Traffic = ''traffic''"
| "sk_text Stream_Policy = ''policy''"
| "sk_text (Stream_Raw _) = ''unknown''"

primrec domain_text :: "AuthorityDomain \<Rightarrow> string" where
  "domain_text AD_CoordinatorEpoch = ''coordinator-epoch''"
| "domain_text AD_BootIncarnation = ''boot-incarnation''"
| "domain_text AD_PublisherIncarnation = ''publisher-incarnation''"
| "domain_text AD_Topology = ''topology''"
| "domain_text AD_Capacity = ''capacity''"
| "domain_text AD_Signals = ''signals''"
| "domain_text AD_Paths = ''paths''"
| "domain_text AD_Traffic = ''traffic''"
| "domain_text AD_Policy = ''policy''"
| "domain_text AD_Attribution = ''attribution''"
| "domain_text AD_Persistence = ''persistence''"
| "domain_text AD_MitigationBudget = ''mitigation-budget''"

primrec remediation_text :: "RemediationState \<Rightarrow> string" where
  "remediation_text Rem_Unknown = ''unknown''"
| "remediation_text Rem_Eligible = ''eligible''"
| "remediation_text Rem_Suppressed = ''suppressed''"
| "remediation_text Rem_NotApplicable = ''not-applicable''"

primrec mt_text :: "MessageType \<Rightarrow> string" where
  "mt_text MT_Unknown = ''unknown''"
| "mt_text MT_Hello = ''hello''"
| "mt_text MT_Welcome = ''welcome''"
| "mt_text MT_Rejected = ''rejected''"
| "mt_text MT_Accepted = ''accepted''"
| "mt_text MT_Goodbye = ''goodbye''"
| "mt_text MT_Topology = ''topology''"
| "mt_text MT_Capacity = ''capacity''"
| "mt_text MT_Signals = ''signals''"
| "mt_text MT_Paths = ''paths''"
| "mt_text MT_Traffic = ''traffic''"
| "mt_text MT_Policy = ''policy''"
| "mt_text MT_Heartbeat = ''heartbeat''"
| "mt_text (MT_Raw _) = ''unknown''"

primrec jt_text :: "JournalRecordType \<Rightarrow> string" where
  "jt_text JT_Unknown = ''unknown''"
| "jt_text JT_BootRecord = ''boot''"
| "jt_text JT_EpochAdvance = ''epoch-advance''"
| "jt_text JT_PolicyCommit = ''policy-commit''"
| "jt_text JT_HotspotCommit = ''hotspot-commit''"
| "jt_text JT_InterventionCommit = ''intervention-commit''"
| "jt_text JT_EvaluationCheckpoint = ''evaluation-checkpoint''"
| "jt_text JT_PublisherDeath = ''publisher-death''"
| "jt_text (JT_Raw _) = ''unknown''"

primrec error_text :: "ErrorCode \<Rightarrow> string" where
  "error_text InvalidArgument = ''invalid-argument''"
| "error_text OutOfRange = ''out-of-range''"
| "error_text BoundExceeded = ''bound-exceeded''"
| "error_text ArithmeticOverflow = ''arithmetic-overflow''"
| "error_text NotImplemented = ''not-implemented''"
| "error_text MalformedFrame = ''malformed-frame''"
| "error_text TruncatedFrame = ''truncated-frame''"
| "error_text IntegrityMismatch = ''integrity-mismatch''"
| "error_text UnsupportedVersion = ''unsupported-version''"
| "error_text FrameTooLarge = ''frame-too-large''"
| "error_text StaleGeneration = ''stale-generation''"
| "error_text StaleEpoch = ''stale-epoch''"
| "error_text UnknownEpoch = ''unknown-epoch''"
| "error_text StaleIncarnation = ''stale-incarnation''"
| "error_text UnknownPublisher = ''unknown-publisher''"
| "error_text DuplicateFrame = ''duplicate-frame''"
| "error_text OutOfOrderSequence = ''out-of-order-sequence''"
| "error_text PublisherFenced = ''publisher-fenced''"
| "error_text StaleEvidence = ''stale-evidence''"
| "error_text MissingEvidence = ''missing-evidence''"
| "error_text ContradictoryEvidence = ''contradictory-evidence''"
| "error_text DegradedTelemetry = ''degraded-telemetry''"
| "error_text StaleTopology = ''stale-topology''"
| "error_text TopologyGenerationMismatch = ''topology-generation-mismatch''"
| "error_text PathGenerationMismatch = ''path-generation-mismatch''"
| "error_text CapacityGenerationMismatch = ''capacity-generation-mismatch''"
| "error_text TrafficGenerationMismatch = ''traffic-generation-mismatch''"
| "error_text InsufficientCoverage = ''insufficient-coverage''"
| "error_text PolicyExpired = ''policy-expired''"
| "error_text PolicyMissing = ''policy-missing''"
| "error_text UnknownResource = ''unknown-resource''"
| "error_text UnknownPath = ''unknown-path''"
| "error_text UnknownRegion = ''unknown-region''"
| "error_text NotAuthorized = ''not-authorized''"
| "error_text ScopeViolation = ''scope-violation''"
| "error_text BudgetExceeded = ''budget-exceeded''"
| "error_text LocalizationLost = ''localization-lost''"
| "error_text AttributionUnavailable = ''attribution-unavailable''"
| "error_text PersistenceNotMet = ''persistence-not-met''"
| "error_text PersistenceCorrupt = ''persistence-corrupt''"
| "error_text PersistenceTruncated = ''persistence-truncated''"
| "error_text PersistenceVersionUnsupported = ''persistence-version-unsupported''"
| "error_text PersistenceIoError = ''persistence-io-error''"
| "error_text JournalRecordInvalid = ''journal-record-invalid''"
| "error_text DurableGrowthExceeded = ''durable-growth-exceeded''"
| "error_text Cancelled = ''cancelled''"
| "error_text ShuttingDown = ''shutting-down''"
| "error_text QueueFull = ''queue-full''"
| "error_text WorkerFailed = ''worker-failed''"
| "error_text Timeout = ''timeout''"
| "error_text IoError = ''io-error''"
| "error_text NotConnected = ''not-connected''"
| "error_text ConnectionClosed = ''connection-closed''"
| "error_text AlreadyStarted = ''already-started''"
| "error_text NotStarted = ''not-started''"
| "error_text Internal = ''internal''"

section \<open>Status\<close>

text \<open>\<open>Status::text\<close>; success is \<open>Inr\<close>.\<close>

definition status_text :: "'a result \<Rightarrow> string \<Rightarrow> string" where
  "status_text status detail =
     (case status of
        Inr _ \<Rightarrow> ''ok''
      | Inl code \<Rightarrow> error_text code @ (if detail = [] then [] else '': '' @ detail))"

section \<open>Reports\<close>

abbreviation u64_text :: "u64 \<Rightarrow> string" where
  "u64_text v \<equiv> decimal (unat v)"

abbreviation u32_text :: "u32 \<Rightarrow> string" where
  "u32_text v \<equiv> decimal (unat v)"

text \<open>The entries of a vector with the free text of each, which is given by its position.\<close>

definition with_texts :: "(nat \<Rightarrow> 't) \<Rightarrow> 'a list \<Rightarrow> ('a \<times> 't) list" where
  "with_texts texts xs = map (\<lambda>i. (xs ! i, texts i)) [0..<length xs]"

text \<open>\<open>AuthorityVector::render\<close>: the loop over the findings with the text so far.\<close>

definition grant_text :: "AuthorityGrant \<times> string \<Rightarrow> string" where
  "grant_text g =
     (case g of ((domain, is_granted), reason) \<Rightarrow>
        domain_text domain @ ''='' @ (if is_granted then ''granted'' else ''denied'')
        @ (if reason = [] then [] else ''('' @ take kMaxReasonBytes reason @ '')''))"

fun render_grants :: "string \<Rightarrow> (AuthorityGrant \<times> string) list \<Rightarrow> string" where
  "render_grants out [] = out"
| "render_grants out (g # gs) = render_grants (out @ (if out = [] then [] else '' '') @ grant_text g) gs"

definition authority_render :: "(nat \<Rightarrow> string) \<Rightarrow> AuthorityVector \<Rightarrow> string" where
  "authority_render reasons v = render_grants [] (with_texts reasons v)"

definition metrics_add :: "string \<times> u64 \<Rightarrow> string \<Rightarrow> string" where
  "metrics_add nv out = out @ fst nv @ ''='' @ u64_text (snd nv) @ '' ''"

definition metrics_render :: "Metrics \<Rightarrow> string" where
  "metrics_render m = butlast (fold metrics_add
     [(''frames_received'', mt_frames_received m),
      (''frames_accepted'', mt_frames_accepted m),
      (''frames_rejected'', mt_frames_rejected m),
      (''frames_duplicate'', mt_frames_duplicate m),
      (''frames_stale'', mt_frames_stale m),
      (''frames_malformed'', mt_frames_malformed m),
      (''bytes_received'', mt_bytes_received m),
      (''bytes_sent'', mt_bytes_sent m),
      (''publisher_deaths'', mt_publisher_deaths m),
      (''epoch_advances'', mt_epoch_advances m),
      (''evaluations'', mt_evaluations m),
      (''hotspots_confirmed'', mt_hotspots_confirmed m),
      (''candidates_observed'', mt_candidates_observed m),
      (''interventions_planned'', mt_interventions_planned m),
      (''interventions_suppressed'', mt_interventions_suppressed m),
      (''escalations'', mt_escalations m),
      (''journal_appends'', mt_journal_appends m),
      (''journal_replays'', mt_journal_replays m),
      (''recoveries'', mt_recoveries m),
      (''rejected_stale_epoch'', mt_rejected_stale_epoch m),
      (''rejected_stale_generation'', mt_rejected_stale_generation m),
      (''rejected_stale_incarnation'', mt_rejected_stale_incarnation m)] [])"

definition pool_render :: "'t WorkerPool \<Rightarrow> string" where
  "pool_render p =
     ''threads='' @ decimal (length (wp_threads p)) @ ''/'' @ decimal (wp_thread_count p)
     @ '' pending='' @ decimal (length (wp_queue p)) @ '' active='' @ decimal (wp_active p)
     @ '' completed='' @ u64_text (wp_completed p) @ '' rejected='' @ u64_text (wp_rejected p)
     @ '' dropped='' @ u64_text (wp_dropped p) @ '' failed='' @ u64_text (wp_failed p)"

text \<open>The port of the listener is not a field of the model's coordinator.\<close>

definition coordinator_render :: "u16 \<Rightarrow> Coordinator \<Rightarrow> string" where
  "coordinator_render port c =
     ''coordinator port='' @ decimal (unat port) @ '' connections='' @ decimal (length (co_connections c))
     @ '' accepted='' @ u64_text (co_connections_accepted c) @ '' refused='' @ u64_text (co_connections_refused c)
     @ '' hellos='' @ u64_text (co_hellos c) @ '' frames_admitted='' @ u64_text (co_frames_admitted c)
     @ '' frames_refused='' @ u64_text (co_frames_refused c) @ '' publishers_lost='' @ u64_text (co_publishers_lost c)"

section \<open>Version\<close>

definition kVersionString :: string where "kVersionString = ''1.0.0''"
definition kProductName :: string where "kProductName = ''Hotspot Governor''"

text \<open>\<open>version_string\<close>; \<open>build_info\<close> is a text of the compiler.\<close>

definition version_string :: "string \<Rightarrow> string" where
  "version_string build_info = kVersionString @ '' ('' @ build_info @ '')''"

end
