(* ===== verification/HGM_Explanation.thy ===== *)
theory HGM_Explanation
  imports HGM_Text "HOL-Library.Sublist"
begin

text \<open>
  The bounded rendering of an assessment and a plan (\<^verbatim>\<open>include/hgm/explanation.hpp\<close>,
  \<^verbatim>\<open>src/explanation.cpp\<close>). A renderer of the source only calls \<open>LineWriter::line\<close>; here it is the list
  of the texts it hands over, in order, and \<open>write_all\<close> hands them to the writer. Free texts (reasons,
  rationales, details) are arguments, by the position of the entry they belong to. \<open>finish\<close> returns
  \<open>None\<close> where the source throws.
\<close>

section \<open>The line writer\<close>

record ExplanationOptions =
  ex_max_lines :: nat
  ex_max_bytes :: nat
  ex_max_pressures :: nat
  ex_max_neighbors :: nat
  ex_max_contributors :: nat
  ex_include_authority :: bool

definition kMaxExplanationLines :: nat where "kMaxExplanationLines = 512"

definition default_explanation :: ExplanationOptions where
  "default_explanation = \<lparr>ex_max_lines = kMaxExplanationLines, ex_max_bytes = 16384, ex_max_pressures = 16,
     ex_max_neighbors = 8, ex_max_contributors = 8, ex_include_authority = True\<rparr>"

record LineWriter =
  lw_options :: ExplanationOptions
  lw_lines :: "string list"
  lw_bytes :: nat
  lw_truncated :: bool

definition new_writer :: "ExplanationOptions \<Rightarrow> LineWriter" where
  "new_writer opts = \<lparr>lw_options = opts, lw_lines = [], lw_bytes = 0, lw_truncated = False\<rparr>"

definition lw_line :: "string \<Rightarrow> LineWriter \<Rightarrow> LineWriter" where
  "lw_line text w =
     (if length (lw_lines w) \<ge> ex_max_lines (lw_options w) then w\<lparr>lw_truncated := True\<rparr>
      else let bounded = (if length text > kMaxTextBytes then take kMaxTextBytes text else text);
               projected = lw_bytes w + length bounded + 1
           in if projected > ex_max_bytes (lw_options w) then w\<lparr>lw_truncated := True\<rparr>
              else w\<lparr>lw_bytes := projected, lw_lines := lw_lines w @ [bounded]\<rparr>)"

definition write_all :: "string list \<Rightarrow> LineWriter \<Rightarrow> LineWriter" where
  "write_all ls w = fold lw_line ls w"

definition newline :: char where "newline = CHR 0x0A"

definition kNote :: string where "kNote = ''... output truncated at the bound''"

text \<open>\<open>find_last_of\<close> a newline and \<open>resize\<close> to its position, when there is one.\<close>

definition drop_half_line :: "string \<Rightarrow> string" where
  "drop_half_line out = (if newline \<in> set out then rev (tl (dropWhile (\<lambda>c. c \<noteq> newline) (rev out))) else out)"

definition append_note :: "string \<Rightarrow> string" where
  "append_note out = out @ (if out = [] then [] else [newline]) @ kNote"

text \<open>
  \<open>finish\<close>. The subtraction \<open>max_bytes - reserve\<close> is on \<open>std::size_t\<close>; below \<open>reserve\<close> it wraps to a size
  near the largest one, for which \<open>resize\<close> throws \<open>std::length_error\<close>.
\<close>

definition lw_finish :: "LineWriter \<Rightarrow> string option" where
  "lw_finish w =
     (let out = butlast (concat (map (\<lambda>entry. entry @ [newline]) (lw_lines w)));
          max_bytes = ex_max_bytes (lw_options w)
      in if \<not> lw_truncated w then Some out
         else if length kNote > max_bytes then Some (take max_bytes kNote)
         else let reserve = length kNote + (if out = [] then 0 else 1)
              in if length out + reserve > max_bytes
                 then if max_bytes < reserve then None
                      else Some (append_note (drop_half_line (take (max_bytes - reserve) out)))
                 else Some (append_note out))"

section \<open>Renderers\<close>

text \<open>\<open>ppm / 100\<close> and the rest on \<open>std::uint32_t\<close>.\<close>

definition ppm_text :: "u32 \<Rightarrow> string" where
  "ppm_text ppm =
     (let scaled = unat ppm div 100; fraction = scaled mod 100
      in decimal (scaled div 100) @ ''.'' @ (if fraction < 10 then ''0'' else []) @ decimal fraction @ ''%'')"

definition binding_text :: "EvidenceBinding \<Rightarrow> string" where
  "binding_text b =
     ''binding: topology='' @ hex64 (eb_topology b) @ '' gen='' @ u64_text (eb_topology_generation b)
     @ '' capacity='' @ hex64 (eb_capacity b) @ '' gen='' @ u64_text (eb_capacity_generation b)
     @ '' signals='' @ hex64 (eb_signals b) @ '' gen='' @ u64_text (eb_signals_generation b)
     @ '' paths='' @ hex64 (eb_paths b) @ '' gen='' @ u64_text (eb_path_generation b)
     @ '' traffic='' @ hex64 (eb_traffic b) @ '' gen='' @ u64_text (eb_traffic_generation b)
     @ '' policy='' @ hex64 (eb_policy b) @ '' gen='' @ u64_text (eb_policy_generation b)"

text \<open>The free texts of a hotspot: its suppression reason and the reasons of its authority findings.\<close>

record HotspotTexts =
  ht_suppression_reason :: string
  ht_reasons :: "nat \<Rightarrow> string"

definition contributor_text :: "Contributor \<Rightarrow> string" where
  "contributor_text c = '' flow='' @ hex64 (co_flow c) @ ''/path='' @ hex64 (co_path c) @ ''@'' @ ppm_text (co_share c)"

definition hotspot_lines :: "ExplanationOptions \<Rightarrow> bool \<Rightarrow> Hotspot \<times> HotspotTexts \<Rightarrow> string list" where
  "hotspot_lines opts confirmed ht =
     (let h = fst ht; tx = snd ht in
      [(if confirmed then ''hotspot '' else ''candidate '') @ hs_key h @ '' scope='' @ scope_text (hs_scope h)
         @ '' cause='' @ cause_text (hs_cause h) @ '' severity='' @ sev_text (hs_severity h)
         @ '' persistence_ms='' @ signed_decimal (hs_persistence_ms h) @ '' samples='' @ u32_text (hs_sample_count h)
         @ '' share='' @ ppm_text (hs_share h) @ '' regions='' @ decimal (length (hs_regions h))
         @ (if hs_saturated_truncated h then '' resources_truncated=yes'' else []),
       ''  resources('' @ decimal (hs_saturated_count h) @ ''):''
         @ concat (map (\<lambda>r. '' '' @ hex64 r) (take 8 (hs_resources h)))
         @ (if hs_saturated_count h > 8 then '' ...'' else []),
       ''  peaks: utilization='' @ ppm_text (hs_peak_utilization h) @ '' queue='' @ ppm_text (hs_peak_queue h)
         @ '' buffer='' @ ppm_text (hs_peak_buffer h) @ '' pressure='' @ ppm_text (hs_peak_pressure h),
       ''  healthy_neighbours('' @ decimal (hs_healthy_count h) @ ''):''
         @ (if hs_healthy h = [] then '' none observed''
            else concat (map (\<lambda>r. '' '' @ hex64 r) (take (ex_max_neighbors opts) (hs_healthy h)))),
       ''  contributors('' @ decimal (hs_contributor_count h) @ '') attribution_confidence=''
         @ ppm_text (hs_attribution_confidence h) @ '':''
         @ (if hs_contributors h = [] then '' none''
            else concat (map contributor_text (take (ex_max_contributors opts) (hs_contributors h)))),
       ''  demand: attributed_bps='' @ u64_text (hs_attributed h) @ '' stale_bps='' @ u64_text (hs_unattributed h),
       ''  remediation='' @ remediation_text (hs_remediation h)
         @ (if ht_suppression_reason tx = [] then [] else '' reason='' @ ht_suppression_reason tx)]
      @ (if ex_include_authority opts then [''  authority: '' @ authority_render (ht_reasons tx) (hs_authority h)] else []))"

text \<open>
  The free texts of an assessment. \<open>ax_suppressed\<close> are the entries of \<open>FabricAssessment::suppressed\<close> with
  their reasons, a member that no function of the library fills.
\<close>

record AssessmentTexts =
  ax_scope_reason :: string
  ax_escalation_reason :: string
  ax_hotspots :: "nat \<Rightarrow> HotspotTexts"
  ax_candidates :: "nat \<Rightarrow> HotspotTexts"
  ax_suppressed :: "(SuppressedAction \<times> string) list"
  ax_diagnostics :: "nat \<Rightarrow> string"
  ax_reasons :: "nat \<Rightarrow> string"

text \<open>The dash of the texts, in UTF-8.\<close>

definition dash :: string where
  "dash = '' '' @ [CHR 0xE2, CHR 0x80, CHR 0x94] @ '' ''"

definition pressure_text :: "ResourcePressure \<Rightarrow> string" where
  "pressure_text p =
     ''  '' @ hex64 (rp_resource p) @ '' util='' @ ppm_text (rp_utilization_ppm p) @ '' queue='' @ ppm_text (rp_queue_ppm p)
     @ '' buffer='' @ ppm_text (rp_buffer_ppm p) @ '' quality='' @ tq_text (rp_quality p)
     @ (if rp_saturated p then '' saturated'' else []) @ (if rp_contradictory p then '' contradictory'' else [])
     @ (if \<not> rp_admissible p \<and> \<not> rp_contradictory p then '' inadmissible'' else [])"

definition suppressed_text :: "SuppressedAction \<times> string \<Rightarrow> string" where
  "suppressed_text s = ''  '' @ mk_text (sa_kind (fst s)) @ '' '' @ hex64 (sa_hotspot (fst s)) @ dash @ snd s"

definition diagnostic_text :: "ErrorCode \<times> string \<Rightarrow> string" where
  "diagnostic_text d = ''  '' @ error_text (fst d) @ dash @ snd d"

definition assessment_lines :: "ExplanationOptions \<Rightarrow> FabricAssessment \<Rightarrow> AssessmentTexts \<Rightarrow> string list" where
  "assessment_lines opts a tx =
     [''verdict: '' @ scope_text (fa_scope a) @ dash @ ax_scope_reason tx,
      binding_text (fa_binding a),
      ''coverage: covered='' @ ppm_text (fa_coverage a) @ '' admissible='' @ ppm_text (fa_admissible_coverage a)
        @ '' capacity='' @ ppm_text (fa_capacity_coverage a) @ '' resources='' @ decimal (fa_resource_count a)
        @ '' observed='' @ decimal (fa_observed_count a) @ '' admissible='' @ decimal (fa_admissible_count a)
        @ '' saturated='' @ decimal (fa_saturated_count a) @ '' contradictory='' @ decimal (fa_contradictory_count a)
        @ '' stale='' @ decimal (fa_stale_count a),
      ''capacity: fabric='' @ u64_text (fa_fabric_capacity a) @ '' covered='' @ u64_text (fa_covered_capacity a)
        @ '' admissible='' @ u64_text (fa_admissible_capacity a) @ '' saturated='' @ u64_text (fa_saturated_capacity a)
        @ '' global_share='' @ ppm_text (fa_global_share a),
      ''hotspots='' @ decimal (length (fa_hotspots a)) @ '' candidates='' @ decimal (length (fa_candidates a))]
     @ concat (map (hotspot_lines opts True) (with_texts (ax_hotspots tx) (fa_hotspots a)))
     @ concat (map (hotspot_lines opts False) (with_texts (ax_candidates tx) (fa_candidates a)))
     @ (if fa_pressures a = [] then []
        else ''pressures:'' # map pressure_text (take (ex_max_pressures opts) (fa_pressures a)))
     @ [if fa_escalation_required a then ''escalation: required'' @ dash @ ax_escalation_reason tx
        else ''escalation: not required'']
     @ (if ax_suppressed tx = [] then [] else ''suppressed:'' # map suppressed_text (ax_suppressed tx))
     @ (if fa_diagnostics a = [] then []
        else ''diagnostics:'' # map diagnostic_text (with_texts (ax_diagnostics tx) (fa_diagnostics a)))
     @ (if ex_include_authority opts then [''authority: '' @ authority_render (ax_reasons tx) (fa_authority a)] else [])"

record IntentTexts =
  it_rationale :: string
  it_reasons :: "nat \<Rightarrow> string"

record PlanTexts =
  px_escalation_reason :: string
  px_intents :: "nat \<Rightarrow> IntentTexts"
  px_suppressed :: "nat \<Rightarrow> string"
  px_reasons :: "nat \<Rightarrow> string"

definition intent_lines :: "ExplanationOptions \<Rightarrow> MitigationIntent \<times> IntentTexts \<Rightarrow> string list" where
  "intent_lines opts it =
     (let i = fst it; tx = snd it in
      [''intent '' @ hex64 (mi_id i) @ '' kind='' @ mk_text (mi_kind i) @ '' hotspot='' @ hex64 (mi_hotspot i)
         @ '' scope='' @ scope_text (mi_hotspot_scope i) @ '' severity='' @ sev_text (mi_severity i)
         @ '' scope_share='' @ ppm_text (mi_scope_share i)
         @ (if mi_rate_delta i = 0 then [] else '' rate_delta_ppm='' @ signed_decimal (mi_rate_delta i)),
       ''  affected: resources='' @ decimal (length (mi_resources i)) @ '' paths='' @ decimal (length (mi_paths i))
         @ '' flows='' @ decimal (length (mi_flows i))]
      @ (if it_rationale tx = [] then [] else [''  rationale: '' @ it_rationale tx])
      @ (if ex_include_authority opts then [''  authority: '' @ authority_render (it_reasons tx) (mi_authority i)] else []))"

definition plan_lines :: "ExplanationOptions \<Rightarrow> InterventionPlan \<Rightarrow> PlanTexts \<Rightarrow> string list" where
  "plan_lines opts p tx =
     [binding_text (pl_binding p),
      ''intents='' @ decimal (length (pl_intents p)) @ '' suppressed='' @ decimal (length (pl_suppressed p))
        @ '' rejected='' @ decimal (pl_rejected p) @ '' plan_scope='' @ ppm_text (pl_scope_share p)]
     @ (if pl_escalation_required p then [''escalation: required'' @ dash @ px_escalation_reason tx] else [])
     @ concat (map (intent_lines opts) (with_texts (px_intents tx) (pl_intents p)))
     @ (if pl_suppressed p = [] then []
        else ''suppressed:'' # map suppressed_text (with_texts (px_suppressed tx) (pl_suppressed p)))
     @ (if ex_include_authority opts then [''authority: '' @ authority_render (px_reasons tx) (pl_authority p)] else [])"

text \<open>The three overloads of \<open>explain\<close>.\<close>

definition explain_assessment :: "ExplanationOptions \<Rightarrow> FabricAssessment \<Rightarrow> AssessmentTexts \<Rightarrow> string option" where
  "explain_assessment opts a ax = lw_finish (write_all (assessment_lines opts a ax) (new_writer opts))"

definition explain_plan :: "ExplanationOptions \<Rightarrow> InterventionPlan \<Rightarrow> PlanTexts \<Rightarrow> string option" where
  "explain_plan opts p px = lw_finish (write_all (plan_lines opts p px) (new_writer opts))"

definition explain_decision ::
  "ExplanationOptions \<Rightarrow> FabricAssessment \<Rightarrow> AssessmentTexts \<Rightarrow> InterventionPlan \<Rightarrow> PlanTexts \<Rightarrow> string option" where
  "explain_decision opts a ax p px =
     lw_finish (write_all (plan_lines opts p px) (lw_line ''-- plan --'' (write_all (assessment_lines opts a ax) (new_writer opts))))"

section \<open>What the writer keeps\<close>

definition cut_line :: "string \<Rightarrow> string" where
  "cut_line text = take kMaxTextBytes text"

definition text_size :: "string list \<Rightarrow> nat" where
  "text_size ls = sum_list (map (\<lambda>l. length l + 1) ls)"

definition join_lines :: "string list \<Rightarrow> string" where
  "join_lines ls = butlast (concat (map (\<lambda>l. l @ [newline]) ls))"

definition fits :: "ExplanationOptions \<Rightarrow> string list \<Rightarrow> bool" where
  "fits opts ls \<longleftrightarrow> length ls \<le> ex_max_lines opts \<and> text_size (map cut_line ls) \<le> ex_max_bytes opts"

definition writer_ok :: "LineWriter \<Rightarrow> bool" where
  "writer_ok w \<longleftrightarrow> lw_bytes w = text_size (lw_lines w) \<and> length (lw_lines w) \<le> ex_max_lines (lw_options w)
     \<and> lw_bytes w \<le> ex_max_bytes (lw_options w)"

lemma text_size_simps [simp]:
  "text_size [] = 0" "text_size (l # ls) = length l + 1 + text_size ls" "text_size (xs @ ys) = text_size xs + text_size ys"
  by (simp_all add: text_size_def)

lemma lw_line_cut: "lw_line text w =
    (if length (lw_lines w) \<ge> ex_max_lines (lw_options w) \<or> lw_bytes w + length (cut_line text) + 1 > ex_max_bytes (lw_options w)
     then w\<lparr>lw_truncated := True\<rparr>
     else w\<lparr>lw_bytes := lw_bytes w + length (cut_line text) + 1, lw_lines := lw_lines w @ [cut_line text]\<rparr>)"
  by (simp add: lw_line_def Let_def cut_line_def)

lemma writer_ok_line: "writer_ok w \<Longrightarrow> writer_ok (lw_line text w)"
  by (simp add: writer_ok_def lw_line_cut)

lemma write_all_simps [simp]:
  "write_all [] w = w" "write_all (l # ls) w = write_all ls (lw_line l w)"
  "write_all (xs @ ys) w = write_all ys (write_all xs w)"
  by (simp_all add: write_all_def)

lemma lw_line_options [simp]: "lw_options (lw_line text w) = lw_options w"
  by (simp add: lw_line_cut)

lemma write_all_options [simp]: "lw_options (write_all ls w) = lw_options w"
  by (induction ls arbitrary: w) simp_all

lemma writer_ok_all: "writer_ok w \<Longrightarrow> writer_ok (write_all ls w)"
  by (induction ls arbitrary: w) (simp_all add: writer_ok_line)

lemma write_all_truncated: "lw_truncated w \<Longrightarrow> lw_truncated (write_all ls w)"
  by (induction ls arbitrary: w) (simp_all add: lw_line_cut)

lemma write_all_subseq: "\<exists>kept. lw_lines (write_all ls w) = lw_lines w @ kept \<and> subseq kept (map cut_line ls)"
proof (induction ls arbitrary: w)
  case (Cons l ls)
  obtain kept where k: "lw_lines (write_all ls (lw_line l w)) = lw_lines (lw_line l w) @ kept" "subseq kept (map cut_line ls)"
    using Cons.IH by blast
  show ?case
  proof (cases "lw_lines (lw_line l w) = lw_lines w")
    case True
    then show ?thesis using k by (auto intro: list_emb_Cons)
  next
    case False
    then have "lw_lines (lw_line l w) = lw_lines w @ [cut_line l]" by (auto simp: lw_line_cut split: if_splits)
    then show ?thesis using k by (intro exI [of _ "cut_line l # kept"]) simp
  qed
qed simp

text \<open>Nothing is dropped exactly when everything fits.\<close>

lemma write_all_fits:
  assumes "writer_ok w" and "\<not> lw_truncated w"
  shows "lw_truncated (write_all ls w) \<longleftrightarrow>
     \<not> (length (lw_lines w) + length ls \<le> ex_max_lines (lw_options w) \<and>
        lw_bytes w + text_size (map cut_line ls) \<le> ex_max_bytes (lw_options w))"
  using assms
proof (induction ls arbitrary: w)
  case (Cons l ls)
  show ?case
  proof (cases "lw_truncated (lw_line l w)")
    case True
    then show ?thesis using Cons.prems write_all_truncated [OF True] by (auto simp: lw_line_cut split: if_splits)
  next
    case False
    have "lw_line l w = w\<lparr>lw_bytes := lw_bytes w + length (cut_line l) + 1, lw_lines := lw_lines w @ [cut_line l]\<rparr>"
      using False by (auto simp: lw_line_cut split: if_splits)
    then show ?thesis using Cons.IH [OF writer_ok_line [OF Cons.prems(1)] False] by (simp add: add.assoc)
  qed
qed (simp add: writer_ok_def)

lemma write_all_complete:
  "\<not> lw_truncated (write_all ls w) \<Longrightarrow> lw_lines (write_all ls w) = lw_lines w @ map cut_line ls"
proof (induction ls arbitrary: w)
  case (Cons l ls)
  then have "\<not> lw_truncated (lw_line l w)" using write_all_truncated [of "lw_line l w" ls] by auto
  then have "lw_lines (lw_line l w) = lw_lines w @ [cut_line l]" by (auto simp: lw_line_cut split: if_splits)
  then show ?case using Cons by simp
qed simp

lemma write_all_keeps: "lw_lines w \<noteq> [] \<Longrightarrow> lw_lines (write_all ls w) \<noteq> []"
  using write_all_subseq [of ls w] by auto

lemma new_writer_simps [simp]:
  "lw_options (new_writer opts) = opts" "lw_lines (new_writer opts) = []" "lw_bytes (new_writer opts) = 0"
  "\<not> lw_truncated (new_writer opts)" "writer_ok (new_writer opts)"
  by (simp_all add: new_writer_def writer_ok_def)

lemma written_fits: "lw_truncated (write_all ls (new_writer opts)) \<longleftrightarrow> \<not> fits opts ls"
  by (simp add: write_all_fits fits_def)

section \<open>What is rendered\<close>

lemma length_concat_lines: "length (concat (map (\<lambda>l. l @ [newline]) ls)) = text_size ls"
  by (induction ls) simp_all

lemma length_join_lines: "length (join_lines ls) = text_size ls - 1"
  by (simp add: join_lines_def length_concat_lines)

lemma length_kNote: "length kNote = 33"
  by (simp add: kNote_def)

lemma prefix_drop_half_line: "prefix (drop_half_line s) s"
proof (cases "newline \<in> set s")
  case True
  have "suffix (tl (dropWhile (\<lambda>c. c \<noteq> newline) (rev s))) (rev s)"
    by (meson suffix_dropWhile suffix_order.trans suffix_tl)
  then have "prefix (rev (tl (dropWhile (\<lambda>c. c \<noteq> newline) (rev s)))) s"
    by (simp add: suffix_to_prefix)
  then show ?thesis using True by (simp add: drop_half_line_def)
qed (simp add: drop_half_line_def)

lemma drop_half_line_cut: "newline \<notin> set (drop_half_line s) \<or> prefix (drop_half_line s @ [newline]) s"
proof (cases "newline \<in> set s")
  case True
  then have "dropWhile (\<lambda>c. c \<noteq> newline) (rev s) \<noteq> []" by (simp add: dropWhile_eq_Nil_conv)
  then obtain r where r: "dropWhile (\<lambda>c. c \<noteq> newline) (rev s) = newline # r"
    using hd_dropWhile [of "\<lambda>c. c \<noteq> newline" "rev s"] by (cases "dropWhile (\<lambda>c. c \<noteq> newline) (rev s)") auto
  have "suffix (newline # r) (rev s)" using suffix_dropWhile [of "\<lambda>c. c \<noteq> newline" "rev s"] by (simp add: r)
  then have "prefix (rev r @ [newline]) s" by (simp add: suffix_to_prefix)
  then show ?thesis using True by (simp add: drop_half_line_def r)
qed (simp add: drop_half_line_def)

lemma drop_half_line_keeps:
  assumes "prefix (b @ [newline]) s"
  shows "prefix b (drop_half_line s)"
proof -
  from assms obtain t where s: "s = b @ newline # t" by (auto simp: prefix_def)
  show ?thesis
  proof (cases "newline \<in> set t")
    case True
    have "drop_half_line s = (b @ [newline]) @ drop_half_line t"
      using True by (simp add: drop_half_line_def s tl_append split: list.split)
    then show ?thesis by simp
  next
    case False
    have "dropWhile (\<lambda>c. c \<noteq> newline) (rev t @ newline # rev b) = dropWhile (\<lambda>c. c \<noteq> newline) (newline # rev b)"
      by (rule dropWhile_append2) (use False in auto)
    then show ?thesis using s by (simp add: drop_half_line_def)
  qed
qed

lemma length_append_note: "length (append_note out) \<le> length out + 34"
  by (simp add: append_note_def length_kNote)

lemma finish_complete: "\<not> lw_truncated w \<Longrightarrow> lw_finish w = Some (join_lines (lw_lines w))"
  by (simp add: lw_finish_def Let_def join_lines_def)

lemma finish_small: "lw_truncated w \<Longrightarrow> ex_max_bytes (lw_options w) < 33 \<Longrightarrow>
    lw_finish w = Some (take (ex_max_bytes (lw_options w)) kNote)"
  by (simp add: lw_finish_def Let_def length_kNote)

text \<open>
  What is kept in front of the marker: all kept lines, or what precedes one of their newlines, or, where the cut
  leaves no newline, a part of the first line.
\<close>

definition cut_at_line :: "string \<Rightarrow> string \<Rightarrow> bool" where
  "cut_at_line before out \<longleftrightarrow> before = out \<or> prefix (before @ [newline]) out \<or> newline \<notin> set before \<and> prefix before out"

text \<open>Nothing is cut that has room: neither the whole text nor the lines in front of one of its newlines.\<close>

definition cut_late :: "nat \<Rightarrow> string \<Rightarrow> string \<Rightarrow> bool" where
  "cut_late room before out \<longleftrightarrow> (length out \<le> room \<longrightarrow> before = out) \<and>
     (\<forall>b. prefix (b @ [newline]) out \<and> length b < room \<longrightarrow> prefix b before)"

lemma prefix_take: "prefix xs ys \<Longrightarrow> length xs \<le> n \<Longrightarrow> prefix xs (take n ys)"
  by (auto simp: prefix_def)

lemma finish_marked:
  assumes "lw_truncated w" and "33 + (if join_lines (lw_lines w) = [] then 0 else 1) \<le> ex_max_bytes (lw_options w)"
  shows "\<exists>before. lw_finish w = Some (append_note before) \<and> cut_at_line before (join_lines (lw_lines w)) \<and>
     cut_late (ex_max_bytes (lw_options w) - 34) before (join_lines (lw_lines w)) \<and> length (append_note before) \<le> ex_max_bytes (lw_options w)"
proof -
  define out where "out = join_lines (lw_lines w)"
  define m where "m = ex_max_bytes (lw_options w)"
  define before where "before = (if length out + (33 + (if out = [] then 0 else 1)) > m
      then drop_half_line (take (m - (33 + (if out = [] then 0 else 1))) out) else out)"
  have m: "33 + (if out = [] then 0 else 1) \<le> m" using assms(2) by (simp add: m_def out_def)
  have "lw_finish w = Some (append_note before)"
    using assms(1) m by (auto simp: lw_finish_def Let_def length_kNote before_def simp flip: join_lines_def out_def m_def)
  moreover have cut: "cut_at_line before out"
  proof (cases "length out + (33 + (if out = [] then 0 else 1)) > m")
    case True
    let ?s = "take (m - (33 + (if out = [] then 0 else 1))) out"
    have b: "before = drop_half_line ?s" using True by (simp only: before_def if_True)
    have "prefix x out" if "prefix x ?s" for x using that take_is_prefix by (rule prefix_order.trans)
    then show ?thesis using drop_half_line_cut [of ?s] prefix_drop_half_line [of ?s] unfolding b cut_at_line_def by blast
  qed (simp add: before_def cut_at_line_def)
  moreover have "cut_late (m - 34) before out"
  proof (cases "out = []")
    case False
    have "prefix b before" if "prefix (b @ [newline]) out" "length b < m - 34" for b
    proof (cases "length out + 34 > m")
      case True
      from prefix_take [OF that(1), of "m - 34"] that(2) True False show ?thesis
        by (simp add: before_def drop_half_line_keeps)
    qed (use that(1) False in \<open>auto simp: before_def dest: append_prefixD\<close>)
    then show ?thesis using m False by (auto simp: cut_late_def before_def)
  qed (simp add: cut_late_def before_def drop_half_line_def)
  moreover have "length (append_note before) \<le> m"
  proof (cases "before = []")
    case True then show ?thesis using m by (simp add: append_note_def length_kNote split: if_splits)
  next
    case False
    then have ne: "out \<noteq> []" using cut by (auto simp: cut_at_line_def)
    have "length (drop_half_line (take (m - 34) out)) \<le> m - 34"
      using prefix_length_le [OF prefix_drop_half_line, of "take (m - 34) out"] by simp
    then have "length before + 34 \<le> m" using m ne by (auto simp: before_def)
    then show ?thesis using length_append_note [of before] by linarith
  qed
  ultimately show ?thesis unfolding out_def m_def by blast
qed

text \<open>The contract of the writer where it returns a text.\<close>

definition rendering_of :: "ExplanationOptions \<Rightarrow> string list \<Rightarrow> string \<Rightarrow> bool" where
  "rendering_of opts ls out \<longleftrightarrow>
     length out \<le> ex_max_bytes opts \<and>
     (if fits opts ls then out = join_lines (map cut_line ls)
      else if ex_max_bytes opts < length kNote then out = take (ex_max_bytes opts) kNote
      else \<exists>kept before. subseq kept (map cut_line ls) \<and> length kept \<le> ex_max_lines opts \<and>
             (\<forall>ls'. prefix ls' ls \<and> fits opts ls' \<longrightarrow> prefix (map cut_line ls') kept) \<and>
             cut_at_line before (join_lines kept) \<and> cut_late (ex_max_bytes opts - 34) before (join_lines kept) \<and>
             out = append_note before)"

lemma write_all_extends: "prefix (lw_lines w) (lw_lines (write_all ls w))"
  using write_all_subseq [of ls w] by auto

lemma fitting_lines_kept:
  assumes "prefix ls' ls" and "fits opts ls'"
  shows "prefix (map cut_line ls') (lw_lines (write_all ls (new_writer opts)))"
proof -
  have "lw_lines (write_all ls' (new_writer opts)) = map cut_line ls'"
    using write_all_complete [of ls' "new_writer opts"] assms(2) by (simp add: written_fits)
  with write_all_extends [of "write_all ls' (new_writer opts)"] assms(1) show ?thesis
    by (auto simp: prefix_def write_all_def)
qed

lemma finish_rendering:
  assumes "ex_max_bytes opts \<noteq> 33 \<or> ex_max_lines opts = 0"
  shows "\<exists>out. lw_finish (write_all ls (new_writer opts)) = Some out \<and> rendering_of opts ls out"
proof -
  define w where "w = write_all ls (new_writer opts)"
  have o: "lw_options w = opts" and ok: "writer_ok w" by (simp_all add: w_def writer_ok_all)
  obtain kept where k: "lw_lines w = kept" "subseq kept (map cut_line ls)"
    using write_all_subseq [of ls "new_writer opts"] by (auto simp: w_def)
  have len: "length kept \<le> ex_max_lines opts" "length (join_lines kept) \<le> ex_max_bytes opts"
    using ok k(1) by (auto simp: writer_ok_def o length_join_lines)
  show ?thesis
  proof (cases "lw_truncated w")
    case False
    then have "kept = map cut_line ls" using write_all_complete [of ls "new_writer opts"] k(1) by (simp add: w_def)
    then show ?thesis
      using False finish_complete [OF False] len k(1) written_fits [of ls opts] by (simp add: rendering_of_def flip: w_def)
  next
    case True
    then have nf: "\<not> fits opts ls" using written_fits [of ls opts] by (simp add: w_def)
    show ?thesis
    proof (cases "ex_max_bytes opts < 33")
      case True
      then show ?thesis
        using finish_small [OF \<open>lw_truncated w\<close>] nf by (simp add: rendering_of_def o length_kNote flip: w_def)
    next
      case False
      then have "33 + (if join_lines (lw_lines w) = [] then 0 else 1) \<le> ex_max_bytes (lw_options w)"
        using assms len(1) k(1) by (auto simp: o join_lines_def)
      then show ?thesis
        using finish_marked [OF True] nf k len(1) fitting_lines_kept [of _ ls opts]
        by (fastforce simp: rendering_of_def o length_kNote simp flip: w_def)
    qed
  qed
qed

text \<open>At a bound of exactly the length of the marker, a kept line and a dropped one make \<open>resize\<close> throw.\<close>

lemma finish_throws:
  assumes "ex_max_bytes (lw_options w) = 33" and "lw_truncated w" and "join_lines (lw_lines w) \<noteq> []"
  shows "lw_finish w = None"
  using assms by (simp add: lw_finish_def Let_def length_kNote join_lines_def)

text \<open>
  A line cut by the bound stays in front of the marker when it is the first one, since \<open>finish\<close> finds no
  newline to cut at.
\<close>

lemma half_line_kept:
  "lw_finish (write_all [''12345678'', replicate 60 CHR ''x''] (new_writer (default_explanation\<lparr>ex_max_bytes := 40\<rparr>)))
     = Some (''123456'' @ [newline] @ kNote)"
  by (simp add: lw_finish_def Let_def length_kNote lw_line_cut cut_line_def kMaxTextBytes_def default_explanation_def
      new_writer_def kMaxExplanationLines_def drop_half_line_def append_note_def newline_def)

definition decision_lines ::
  "ExplanationOptions \<Rightarrow> FabricAssessment \<Rightarrow> AssessmentTexts \<Rightarrow> InterventionPlan \<Rightarrow> PlanTexts \<Rightarrow> string list" where
  "decision_lines opts a ax p px = assessment_lines opts a ax @ ''-- plan --'' # plan_lines opts p px"

lemma explain_decision_lines: "explain_decision opts a ax p px = lw_finish (write_all (decision_lines opts a ax p px) (new_writer opts))"
  by (simp add: explain_decision_def decision_lines_def)

lemma lines_nonempty:
  "[] \<notin> set (hotspot_lines opts confirmed ht)" "[] \<notin> set (intent_lines opts it)"
  "[] \<notin> set (assessment_lines opts a ax)" "[] \<notin> set (plan_lines opts p px)"
proof -
  show h: "[] \<notin> set (hotspot_lines opts confirmed ht)" for opts confirmed ht by (simp add: hotspot_lines_def Let_def)
  show i: "[] \<notin> set (intent_lines opts it)" for opts it by (simp add: intent_lines_def Let_def)
  show "[] \<notin> set (assessment_lines opts a ax)"
    using h by (auto simp: assessment_lines_def binding_text_def pressure_text_def suppressed_text_def diagnostic_text_def)
  show "[] \<notin> set (plan_lines opts p px)"
    using i by (auto simp: plan_lines_def binding_text_def suppressed_text_def)
qed

lemma join_lines_nonempty: "ls \<noteq> [] \<Longrightarrow> [] \<notin> set ls \<Longrightarrow> join_lines ls \<noteq> []"
  by (cases ls) (auto simp: join_lines_def butlast_append)

lemma length_hex_loop: "length (hex_loop n v out) = n + length out"
  by (induction n arbitrary: v out) simp_all

lemma length_hex64 [simp]: "length (hex64 v) = 16"
  by (simp add: hex64_def length_hex_loop)

lemma long_text_size: "l \<in> set ls \<Longrightarrow> length l < text_size ls"
  by (induction ls) auto

lemma explain_throws_at_marker_bound:
  assumes "ex_max_bytes opts = 33" and "1 \<le> ex_max_lines opts"
  shows "explain_decision opts a ax p px = None"
proof -
  let ?w = "write_all (assessment_lines opts a ax) (new_writer opts)"
  let ?ls = "decision_lines opts a ax p px"
  obtain kept where k: "lw_lines (write_all ?ls (new_writer opts)) = kept" "subseq kept (map cut_line ?ls)"
    using write_all_subseq [of ?ls "new_writer opts"] by auto
  have "[] \<notin> set ?ls" using lines_nonempty by (auto simp: decision_lines_def)
  then have "[] \<notin> set (map cut_line ?ls)" by (auto simp: cut_line_def kMaxTextBytes_def)
  then have "[] \<notin> set kept" using list_emb_set [OF k(2), of "[]"] by auto
  moreover have "kept \<noteq> []"
  proof (cases "lw_lines ?w = []")
    case True
    then have "lw_bytes ?w = 0" using writer_ok_all [of "new_writer opts"] by (simp add: writer_ok_def)
    then have "lw_lines (lw_line ''-- plan --'' ?w) \<noteq> []"
      using True assms by (simp add: lw_line_cut cut_line_def kMaxTextBytes_def)
    then show ?thesis using k(1) write_all_keeps by (auto simp: decision_lines_def)
  next
    case False
    then show ?thesis using k(1) write_all_keeps [OF False, of "''-- plan --'' # plan_lines opts p px"] by (auto simp: decision_lines_def)
  qed
  moreover have "cut_line (binding_text (pl_binding p)) \<in> set (map cut_line ?ls)"
    by (simp add: decision_lines_def plan_lines_def)
  then have "33 < text_size (map cut_line ?ls)"
    using long_text_size [of "cut_line (binding_text (pl_binding p))"]
    by (fastforce simp: cut_line_def binding_text_def kMaxTextBytes_def)
  ultimately show ?thesis
    using finish_throws [of "write_all ?ls (new_writer opts)"] join_lines_nonempty [of kept] k(1) written_fits [of ?ls opts] assms(1)
    by (simp add: explain_decision_lines fits_def)
qed

section \<open>Properties\<close>

text \<open>C37: what \<open>explain\<close> returns for a decision, for all line and byte bounds and all free texts. If every
  line, cut at 512 bytes, fits both bounds, the text is exactly these lines. Otherwise, with a byte bound of
  34 or more, or of 33 when no line is allowed, it ends with the whole truncation marker of 33 bytes, on a line of its own behind the kept
  lines cut at a newline or, where the bound falls into the first of them, a part of that line; the kept
  lines are lines of the explanation in their order and within the line bound. Nothing is lost without
  need: leading lines that fit both bounds are kept, and kept lines are cut only where they and the marker
  exceed the byte bound. With a byte bound below 33 the text is only the
  prefix of the marker that fits. In all these cases the text is within the byte bound. With a byte bound of
  exactly 33 and at least one line allowed, \<open>explain\<close> throws for every decision.\<close>

theorem explanation_bounded:
  "(ex_max_bytes opts \<noteq> 33 \<or> ex_max_lines opts = 0 \<longrightarrow>
      (\<exists>out. explain_decision opts a ax p px = Some out \<and> rendering_of opts (decision_lines opts a ax p px) out)) \<and>
   (ex_max_bytes opts = 33 \<and> ex_max_lines opts \<noteq> 0 \<longrightarrow> explain_decision opts a ax p px = None)"
  using finish_rendering [of opts] explain_throws_at_marker_bound [of opts] unfolding explain_decision_lines by simp

definition no_assessment_texts :: AssessmentTexts where
  "no_assessment_texts = \<lparr>ax_scope_reason = [], ax_escalation_reason = [],
     ax_hotspots = (\<lambda>_. \<lparr>ht_suppression_reason = [], ht_reasons = (\<lambda>_. [])\<rparr>),
     ax_candidates = (\<lambda>_. \<lparr>ht_suppression_reason = [], ht_reasons = (\<lambda>_. [])\<rparr>),
     ax_suppressed = [], ax_diagnostics = (\<lambda>_. []), ax_reasons = (\<lambda>_. [])\<rparr>"

definition no_plan_texts :: PlanTexts where
  "no_plan_texts = \<lparr>px_escalation_reason = [], px_intents = (\<lambda>_. \<lparr>it_rationale = [], it_reasons = (\<lambda>_. [])\<rparr>),
     px_suppressed = (\<lambda>_. []), px_reasons = (\<lambda>_. [])\<rparr>"

theorem explanation_bounded_witness:
  "\<exists>out. explain_decision (default_explanation\<lparr>ex_max_bytes := 40\<rparr>) empty_assessment no_assessment_texts
       (plan_interventions empty_assessment None None None 1000) no_plan_texts = Some out \<and> suffix kNote out \<and> length out \<le> 40"
proof -
  let ?opts = "default_explanation\<lparr>ex_max_bytes := 40\<rparr>"
  let ?p = "plan_interventions empty_assessment None None None 1000"
  let ?ls = "decision_lines ?opts empty_assessment no_assessment_texts ?p no_plan_texts"
  obtain out where out: "explain_decision ?opts empty_assessment no_assessment_texts ?p no_plan_texts = Some out"
    and r: "rendering_of ?opts ?ls out"
    using explanation_bounded [of ?opts empty_assessment no_assessment_texts ?p no_plan_texts] by fastforce
  have "cut_line (binding_text (pl_binding ?p)) \<in> set (map cut_line ?ls)" by (simp add: decision_lines_def plan_lines_def)
  then have "40 < text_size (map cut_line ?ls)"
    using long_text_size [of "cut_line (binding_text (pl_binding ?p))"]
    by (fastforce simp: cut_line_def binding_text_def kMaxTextBytes_def)
  then have "\<not> fits ?opts ?ls" by (simp add: fits_def)
  then show ?thesis using out r by (auto simp: rendering_of_def length_kNote append_note_def suffix_def)
qed

end
