(* ===== verification/HGM_Handles.thy ===== *)
theory HGM_Handles
  imports HGM_Bytes "HOL-Library.Multiset"
begin

text \<open>
  Sockets and listeners as owners of operating system handles (\<^verbatim>\<open>include/hgm/transport.hpp\<close>,
  \<^verbatim>\<open>src/transport.cpp\<close>): \<open>close\<close>, moves, socket options, \<open>bind_and_listen\<close>, \<open>accept_one\<close> and
  \<open>connect_to\<close>. What travels over a connected socket is the subject of \<^verbatim>\<open>HGM_Transport\<close>.

  The state of the platform is the list of the open handles of the process. What it answers to a call is
  an argument. As POSIX documents, a new handle is never one that is open already and never -1; an
  answer that violates this counts as a failure. The model is of the POSIX branch of the source.
\<close>

type_synonym Handle = int

section \<open>The platform\<close>

definition kInvalidNative :: Handle where "kInvalidNative = -1"

definition os_handle :: "Handle option \<Rightarrow> Handle list \<Rightarrow> Handle \<times> Handle list" where
  "os_handle answer os =
     (case answer of
        Some h \<Rightarrow> if h \<noteq> kInvalidNative \<and> h \<notin> set os then (h, h # os) else (kInvalidNative, os)
      | None \<Rightarrow> (kInvalidNative, os))"

definition close_native :: "Handle \<Rightarrow> Handle list \<Rightarrow> Handle list" where
  "close_native h os = (if h = kInvalidNative then os else remove1 h os)"

section \<open>Sockets\<close>

definition socket_valid :: "Handle \<Rightarrow> bool" where
  "socket_valid s \<longleftrightarrow> s \<noteq> kInvalidNative"

text \<open>\<open>Socket::close\<close>: the object and the open handles after it.\<close>

definition close_socket :: "Handle \<Rightarrow> Handle list \<Rightarrow> Handle \<times> Handle list" where
  "close_socket s os = (if \<not> socket_valid s then (s, os) else (kInvalidNative, close_native s os))"

text \<open>The \<open>timeval\<close> of a time-out in milliseconds: seconds and microseconds.\<close>

definition timeval_of :: "u32 \<Rightarrow> u32 \<times> u32" where
  "timeval_of milliseconds = (milliseconds div 1000, (milliseconds mod 1000) * 1000)"

text \<open>The three option setters; \<open>setsockopt\<close> is true when the call returns 0.\<close>

definition set_receive_timeout :: "(Handle \<Rightarrow> u32 \<times> u32 \<Rightarrow> bool) \<Rightarrow> u32 \<Rightarrow> Handle \<Rightarrow> unit result" where
  "set_receive_timeout setsockopt milliseconds s =
     (if \<not> socket_valid s then Inl NotConnected else if setsockopt s (timeval_of milliseconds) then Inr () else Inl IoError)"

definition set_send_timeout :: "(Handle \<Rightarrow> u32 \<times> u32 \<Rightarrow> bool) \<Rightarrow> u32 \<Rightarrow> Handle \<Rightarrow> unit result" where
  "set_send_timeout setsockopt milliseconds s =
     (if \<not> socket_valid s then Inl NotConnected else if setsockopt s (timeval_of milliseconds) then Inr () else Inl IoError)"

definition set_no_delay :: "(Handle \<Rightarrow> bool \<Rightarrow> bool) \<Rightarrow> bool \<Rightarrow> Handle \<Rightarrow> unit result" where
  "set_no_delay setsockopt enabled s =
     (if \<not> socket_valid s then Inl NotConnected else if setsockopt s enabled then Inr () else Inl IoError)"

text \<open>\<open>peer_text\<close>: the answer of \<open>getpeername\<close> is the family with the printed address and the port.\<close>

datatype PeerAddress = Peer_Inet string u16 | Peer_Inet6 string u16 | Peer_Other

definition peer_text :: "(Handle \<Rightarrow> PeerAddress option) \<Rightarrow> Handle \<Rightarrow> string" where
  "peer_text getpeername s =
     (if \<not> socket_valid s then []
      else case getpeername s of
        None \<Rightarrow> []
      | Some (Peer_Inet host port) \<Rightarrow> host @ '':'' @ decimal (unat port)
      | Some (Peer_Inet6 host port) \<Rightarrow> host @ '':'' @ decimal (unat port)
      | Some Peer_Other \<Rightarrow> [])"

section \<open>Listeners\<close>

record Listener =
  li_handle :: Handle
  li_port :: u16

definition new_listener :: Listener where
  "new_listener = \<lparr>li_handle = kInvalidNative, li_port = 0\<rparr>"

definition listener_valid :: "Listener \<Rightarrow> bool" where
  "listener_valid l \<longleftrightarrow> li_handle l \<noteq> kInvalidNative"

definition listener_close :: "Listener \<Rightarrow> Handle list \<Rightarrow> Listener \<times> Handle list" where
  "listener_close l os =
     (if \<not> listener_valid l then (l, os) else (new_listener, close_native (li_handle l) os))"

text \<open>What the platform answers for one resolved address: to \<open>socket\<close>, \<open>bind\<close> and \<open>listen\<close>.\<close>

record BindAnswer =
  ba_socket :: "Handle option"
  ba_bind :: bool
  ba_listen :: bool

fun bind_candidates :: "BindAnswer list \<Rightarrow> Handle list \<Rightarrow> Handle \<times> Handle list" where
  "bind_candidates [] os = (kInvalidNative, os)"
| "bind_candidates (c # cs) os =
     (let (handle, os) = os_handle (ba_socket c) os
      in if handle = kInvalidNative then bind_candidates cs os
         else if ba_bind c \<and> ba_listen c then (handle, os)
         else bind_candidates cs (close_native handle os))"

text \<open>\<open>resolved\<close> is the answer of \<open>getaddrinfo\<close>, \<open>sockname\<close> the port \<open>getsockname\<close> gives for an IPv4 socket.\<close>

definition bind_and_listen ::
  "BindAnswer list option \<Rightarrow> u16 option \<Rightarrow> Listener \<Rightarrow> Handle list \<Rightarrow> unit result \<times> Listener \<times> Handle list" where
  "bind_and_listen resolved sockname l os =
     (if listener_valid l then (Inl AlreadyStarted, l, os)
      else case resolved of
        None \<Rightarrow> (Inl IoError, l, os)
      | Some [] \<Rightarrow> (Inl IoError, l, os)
      | Some (c # cs) \<Rightarrow>
          let (handle, os) = bind_candidates (c # cs) os
          in if handle = kInvalidNative then (Inl IoError, l, os)
             else (Inr (), \<lparr>li_handle = handle, li_port = (case sockname of Some p \<Rightarrow> p | None \<Rightarrow> li_port l)\<rparr>, os))"

datatype SelectAnswer = Select_Ready | Select_Timeout | Select_Error
datatype AcceptAnswer = Accept_Handle Handle | Accept_WouldBlock | Accept_Error

text \<open>\<open>accept_one\<close>; the result of \<open>set_no_delay\<close> is ignored by the source.\<close>

definition accept_one :: "SelectAnswer \<Rightarrow> AcceptAnswer \<Rightarrow> Listener \<Rightarrow> Handle list \<Rightarrow> Handle result \<times> Handle list" where
  "accept_one ready answer l os =
     (if \<not> listener_valid l then (Inl NotStarted, os)
      else case ready of
        Select_Timeout \<Rightarrow> (Inl Timeout, os)
      | Select_Error \<Rightarrow> (Inl IoError, os)
      | Select_Ready \<Rightarrow>
          (case answer of
             Accept_WouldBlock \<Rightarrow> (Inl Timeout, os)
           | Accept_Error \<Rightarrow> (Inl IoError, os)
           | Accept_Handle h \<Rightarrow>
               let (accepted, os) = os_handle (Some h) os
               in if accepted = kInvalidNative then (Inl IoError, os) else (Inr accepted, os)))"

section \<open>Connecting\<close>

record ConnectAnswer =
  ca_socket :: "Handle option"
  ca_connect :: bool

fun connect_candidates :: "ConnectAnswer list \<Rightarrow> Handle list \<Rightarrow> Handle \<times> Handle list" where
  "connect_candidates [] os = (kInvalidNative, os)"
| "connect_candidates (c # cs) os =
     (let (handle, os) = os_handle (ca_socket c) os
      in if handle = kInvalidNative then connect_candidates cs os
         else if ca_connect c then (handle, os)
         else connect_candidates cs (close_native handle os))"

text \<open>\<open>connect_to\<close>; it takes a time-out, which the source does not use.\<close>

definition connect_to :: "ConnectAnswer list option \<Rightarrow> u32 \<Rightarrow> Handle list \<Rightarrow> Handle result \<times> Handle list" where
  "connect_to resolved timeout_ms os =
     (case resolved of
        None \<Rightarrow> (Inl NotConnected, os)
      | Some [] \<Rightarrow> (Inl NotConnected, os)
      | Some (c # cs) \<Rightarrow>
          let (handle, os) = connect_candidates (c # cs) os
          in if handle = kInvalidNative then (Inl NotConnected, os) else (Inr handle, os))"

section \<open>The objects of a process\<close>

text \<open>The open handles, the sockets and the listeners of a process; an object is named by its position.\<close>

record Process =
  pr_os :: "Handle list"
  pr_sockets :: "Handle list"
  pr_listeners :: "Listener list"

text \<open>The move constructors and the move assignments.\<close>

definition socket_move :: "nat \<Rightarrow> Process \<Rightarrow> Process" where
  "socket_move i p = p\<lparr>pr_sockets := (pr_sockets p)[i := kInvalidNative] @ [pr_sockets p ! i]\<rparr>"

definition socket_assign :: "nat \<Rightarrow> nat \<Rightarrow> Process \<Rightarrow> Process" where
  "socket_assign i j p =
     (if i = j then p
      else let (closed, os) = close_socket (pr_sockets p ! i) (pr_os p)
           in p\<lparr>pr_os := os, pr_sockets := (pr_sockets p)[i := pr_sockets p ! j, j := kInvalidNative]\<rparr>)"

definition listener_move :: "nat \<Rightarrow> Process \<Rightarrow> Process" where
  "listener_move i p = p\<lparr>pr_listeners := (pr_listeners p)[i := new_listener] @ [pr_listeners p ! i]\<rparr>"

definition listener_assign :: "nat \<Rightarrow> nat \<Rightarrow> Process \<Rightarrow> Process" where
  "listener_assign i j p =
     (if i = j then p
      else let (closed, os) = listener_close (pr_listeners p ! i) (pr_os p)
           in p\<lparr>pr_os := os, pr_listeners := (pr_listeners p)[i := pr_listeners p ! j, j := new_listener]\<rparr>)"

definition add_socket :: "Handle result \<times> Handle list \<Rightarrow> Process \<Rightarrow> Process" where
  "add_socket r p =
     (case fst r of Inl e \<Rightarrow> p\<lparr>pr_os := snd r\<rparr> | Inr s \<Rightarrow> p\<lparr>pr_os := snd r, pr_sockets := pr_sockets p @ [s]\<rparr>)"

text \<open>
  What a process does with its objects, in any order. A destructor is a \<open>close\<close> whose object is not used
  again.
\<close>

inductive process_reachable :: "Process \<Rightarrow> bool" where
  starts: "process_reachable \<lparr>pr_os = [], pr_sockets = [], pr_listeners = []\<rparr>"
| new_socket: "process_reachable p \<Longrightarrow> process_reachable (p\<lparr>pr_sockets := pr_sockets p @ [kInvalidNative]\<rparr>)"
| connects: "process_reachable p \<Longrightarrow> process_reachable (add_socket (connect_to resolved timeout_ms (pr_os p)) p)"
| accepts: "process_reachable p \<Longrightarrow> i < length (pr_listeners p) \<Longrightarrow>
    process_reachable (add_socket (accept_one ready answer (pr_listeners p ! i) (pr_os p)) p)"
| closes: "process_reachable p \<Longrightarrow> i < length (pr_sockets p) \<Longrightarrow> close_socket (pr_sockets p ! i) (pr_os p) = (s, os) \<Longrightarrow>
    process_reachable (p\<lparr>pr_os := os, pr_sockets := (pr_sockets p)[i := s]\<rparr>)"
| moves: "process_reachable p \<Longrightarrow> i < length (pr_sockets p) \<Longrightarrow> process_reachable (socket_move i p)"
| assigns: "process_reachable p \<Longrightarrow> i < length (pr_sockets p) \<Longrightarrow> j < length (pr_sockets p) \<Longrightarrow>
    process_reachable (socket_assign i j p)"
| new_listeners: "process_reachable p \<Longrightarrow> process_reachable (p\<lparr>pr_listeners := pr_listeners p @ [new_listener]\<rparr>)"
| binds: "process_reachable p \<Longrightarrow> i < length (pr_listeners p) \<Longrightarrow>
    bind_and_listen resolved sockname (pr_listeners p ! i) (pr_os p) = (r, l, os) \<Longrightarrow>
    process_reachable (p\<lparr>pr_os := os, pr_listeners := (pr_listeners p)[i := l]\<rparr>)"
| closes_listener: "process_reachable p \<Longrightarrow> i < length (pr_listeners p) \<Longrightarrow>
    listener_close (pr_listeners p ! i) (pr_os p) = (l, os) \<Longrightarrow>
    process_reachable (p\<lparr>pr_os := os, pr_listeners := (pr_listeners p)[i := l]\<rparr>)"
| moves_listener: "process_reachable p \<Longrightarrow> i < length (pr_listeners p) \<Longrightarrow> process_reachable (listener_move i p)"
| assigns_listener: "process_reachable p \<Longrightarrow> i < length (pr_listeners p) \<Longrightarrow> j < length (pr_listeners p) \<Longrightarrow>
    process_reachable (listener_assign i j p)"

section \<open>Ownership\<close>

text \<open>The handle an object owns, none when it is invalid, and the handles a list of objects owns.\<close>

definition live :: "Handle \<Rightarrow> Handle multiset" where
  "live h = (if h = kInvalidNative then {#} else {#h#})"

definition lives :: "Handle list \<Rightarrow> Handle multiset" where
  "lives hs = filter_mset (\<lambda>h. h \<noteq> kInvalidNative) (mset hs)"

definition owned :: "Process \<Rightarrow> Handle multiset" where
  "owned p = lives (pr_sockets p) + lives (map li_handle (pr_listeners p))"

definition handles_ok :: "Process \<Rightarrow> bool" where
  "handles_ok p \<longleftrightarrow> distinct (pr_os p) \<and> mset (pr_os p) = owned p"

lemma live_simps [simp]: "live kInvalidNative = {#}" "h \<noteq> kInvalidNative \<Longrightarrow> live h = {#h#}"
  by (simp_all add: live_def)

lemma lives_simps [simp]: "lives [] = {#}" "lives (h # hs) = live h + lives hs" "lives (xs @ ys) = lives xs + lives ys"
  by (simp_all add: lives_def live_def)

lemma lives_update: "i < length hs \<Longrightarrow> lives (hs[i := h]) + live (hs ! i) = lives hs + live h"
  by (induction hs arbitrary: i) (auto simp: nth_Cons' algebra_simps split: nat.splits)

lemma lives_clear: "i < length hs \<Longrightarrow> lives (hs[i := kInvalidNative]) + live (hs ! i) = lives hs"
  using lives_update [of i hs kInvalidNative] by simp

lemma lives_transfer:
  assumes "i < length hs" and "j < length hs" and "i \<noteq> j"
  shows "lives (hs[i := hs ! j, j := kInvalidNative]) + live (hs ! i) = lives hs"
proof -
  have "lives (hs[i := hs ! j, j := kInvalidNative]) + live (hs ! j) = lives (hs[i := hs ! j])"
    using lives_clear [of j "hs[i := hs ! j]"] assms by simp
  then have "lives (hs[i := hs ! j, j := kInvalidNative]) + live (hs ! i) + live (hs ! j) = lives hs + live (hs ! j)"
    using lives_update [OF assms(1), of "hs ! j"] by (metis add.commute add.left_commute)
  then show ?thesis by simp
qed

lemma live_owned:
  "i < length (pr_sockets p) \<Longrightarrow> live (pr_sockets p ! i) \<subseteq># owned p"
  "i < length (pr_listeners p) \<Longrightarrow> live (li_handle (pr_listeners p ! i)) \<subseteq># owned p"
proof -
  show "live (pr_sockets p ! i) \<subseteq># owned p" if "i < length (pr_sockets p)"
    using lives_clear [OF that] by (metis mset_subset_eq_add_left mset_subset_eq_add_right owned_def subset_mset.order_trans)
  show "live (li_handle (pr_listeners p ! i)) \<subseteq># owned p" if "i < length (pr_listeners p)"
    using lives_clear [of i "map li_handle (pr_listeners p)"] that
    by (metis length_map mset_subset_eq_add_right nth_map owned_def subset_mset.order_trans)
qed

text \<open>What a call that makes a handle does to the open ones: it adds the handle it returns and no other.\<close>

definition makes :: "Handle list \<Rightarrow> Handle \<Rightarrow> Handle list \<Rightarrow> bool" where
  "makes os h os' \<longleftrightarrow> (distinct os \<longrightarrow> distinct os') \<and> mset os' = mset os + live h"

lemma makes_none [simp]: "makes os kInvalidNative os"
  by (simp add: makes_def)

lemma os_handle_makes: "os_handle answer os = (h, os') \<Longrightarrow> makes os h os'"
  by (auto simp: os_handle_def makes_def split: option.splits if_splits)

lemma close_native_makes:
  assumes "makes os h os'" and "h \<noteq> kInvalidNative"
  shows "distinct os \<Longrightarrow> distinct (close_native h os')" and "mset (close_native h os') = mset os"
  using assms by (simp_all add: makes_def close_native_def)

lemma bind_candidates_makes: "bind_candidates cs os = (h, os') \<Longrightarrow> makes os h os'"
proof (induction cs arbitrary: os)
  case (Cons c cs)
  obtain h1 os1 where o: "os_handle (ba_socket c) os = (h1, os1)" by fastforce
  then have m: "makes os h1 os1" by (rule os_handle_makes)
  show ?case
  proof (cases "h1 = kInvalidNative \<or> ba_bind c \<and> ba_listen c")
    case True
    then show ?thesis using Cons o m by (auto simp: makes_def split: if_splits)
  next
    case False
    then have "makes (close_native h1 os1) h os'" using Cons o by (auto split: if_splits)
    then show ?thesis using close_native_makes [OF m] False by (simp add: makes_def)
  qed
qed simp

lemma connect_candidates_makes: "connect_candidates cs os = (h, os') \<Longrightarrow> makes os h os'"
proof (induction cs arbitrary: os)
  case (Cons c cs)
  obtain h1 os1 where o: "os_handle (ca_socket c) os = (h1, os1)" by fastforce
  then have m: "makes os h1 os1" by (rule os_handle_makes)
  show ?case
  proof (cases "h1 = kInvalidNative \<or> ca_connect c")
    case True
    then show ?thesis using Cons o m by (auto simp: makes_def split: if_splits)
  next
    case False
    then have "makes (close_native h1 os1) h os'" using Cons o by (auto split: if_splits)
    then show ?thesis using close_native_makes [OF m] False by (simp add: makes_def)
  qed
qed simp

lemma connect_to_makes:
  "connect_to resolved t os = (r, os') \<Longrightarrow> makes os (case r of Inl _ \<Rightarrow> kInvalidNative | Inr h \<Rightarrow> h) os'"
  by (auto simp: connect_to_def split: option.splits list.splits prod.splits if_splits
      dest!: connect_candidates_makes simp del: connect_candidates.simps)

lemma accept_one_makes:
  "accept_one ready answer l os = (r, os') \<Longrightarrow> makes os (case r of Inl _ \<Rightarrow> kInvalidNative | Inr h \<Rightarrow> h) os'"
  by (auto simp: accept_one_def split: SelectAnswer.splits AcceptAnswer.splits prod.splits if_splits dest!: os_handle_makes)

lemma bind_and_listen_makes:
  assumes "bind_and_listen resolved sockname l os = (r, l', os')"
  shows "r = Inr () \<and> \<not> listener_valid l \<and> makes os (li_handle l') os' \<or> r \<noteq> Inr () \<and> l' = l \<and> makes os kInvalidNative os'"
  using assms
  by (auto simp: bind_and_listen_def split: option.splits list.splits prod.splits if_splits
      dest!: bind_candidates_makes simp del: bind_candidates.simps)

lemma closing:
  assumes "handles_ok p" and "live h \<subseteq># owned p"
  shows "distinct (close_native h (pr_os p))" and "mset (close_native h (pr_os p)) + live h = owned p"
  using assms by (auto simp: handles_ok_def close_native_def live_def subset_mset.diff_add)

lemma add_socket_ok:
  assumes "handles_ok p" and "makes (pr_os p) (case fst r of Inl _ \<Rightarrow> kInvalidNative | Inr h \<Rightarrow> h) (snd r)"
  shows "handles_ok (add_socket r p)"
  using assms by (auto simp: add_socket_def handles_ok_def makes_def owned_def split: sum.splits)

lemma socket_replaced_ok:
  assumes "handles_ok p" and "i < length (pr_sockets p)" and "lives hs + live (pr_sockets p ! i) = lives (pr_sockets p)"
  shows "handles_ok (p\<lparr>pr_os := close_native (pr_sockets p ! i) (pr_os p), pr_sockets := hs\<rparr>)"
proof -
  note c = closing [OF assms(1) live_owned(1) [OF assms(2)]]
  have "mset (close_native (pr_sockets p ! i) (pr_os p)) + live (pr_sockets p ! i)
      = lives hs + lives (map li_handle (pr_listeners p)) + live (pr_sockets p ! i)"
    using c(2) unfolding owned_def by (simp add: assms(3) [symmetric] add.commute add.left_commute)
  then show ?thesis using c(1) by (simp add: handles_ok_def owned_def)
qed

lemma listener_replaced_ok:
  assumes "handles_ok p" and "i < length (pr_listeners p)"
    and "lives (map li_handle ls) + live (li_handle (pr_listeners p ! i)) = lives (map li_handle (pr_listeners p))"
  shows "handles_ok (p\<lparr>pr_os := close_native (li_handle (pr_listeners p ! i)) (pr_os p), pr_listeners := ls\<rparr>)"
proof -
  note c = closing [OF assms(1) live_owned(2) [OF assms(2)]]
  have "mset (close_native (li_handle (pr_listeners p ! i)) (pr_os p)) + live (li_handle (pr_listeners p ! i))
      = lives (pr_sockets p) + lives (map li_handle ls) + live (li_handle (pr_listeners p ! i))"
    using c(2) unfolding owned_def by (simp add: assms(3) [symmetric] add.commute add.left_commute)
  then show ?thesis using c(1) by (simp add: handles_ok_def owned_def)
qed

lemma close_invalid [simp]: "close_native kInvalidNative os = os"
  by (simp add: close_native_def)

lemma new_listener_handle [simp]: "li_handle new_listener = kInvalidNative"
  by (simp add: new_listener_def)

text \<open>Closing brings an object into its initial state in every case.\<close>

lemma close_socket_eq: "close_socket s os = (kInvalidNative, close_native s os)"
  by (simp add: close_socket_def socket_valid_def)

lemma bind_ok:
  assumes ok: "handles_ok p" and i: "i < length (pr_listeners p)"
    and bind: "bind_and_listen resolved sockname (pr_listeners p ! i) (pr_os p) = (r, l, os)"
  shows "handles_ok (p\<lparr>pr_os := os, pr_listeners := (pr_listeners p)[i := l]\<rparr>)"
proof (cases "r = Inr ()")
  case True
  then have "makes (pr_os p) (li_handle l) os" and "li_handle (pr_listeners p ! i) = kInvalidNative"
    using bind_and_listen_makes [OF bind] by (auto simp: listener_valid_def)
  then show ?thesis
    using ok lives_update [of i "map li_handle (pr_listeners p)" "li_handle l"] i
    by (simp add: handles_ok_def makes_def owned_def map_update)
next
  case False
  then show ?thesis using bind_and_listen_makes [OF bind] ok by (auto simp: handles_ok_def makes_def owned_def)
qed

lemma process_handles_ok: "process_reachable p \<Longrightarrow> handles_ok p"
proof (induction rule: process_reachable.induct)
  case starts
  show ?case by (simp add: handles_ok_def owned_def)
next
  case (new_socket p)
  then show ?case by (simp add: handles_ok_def owned_def)
next
  case (connects p resolved timeout_ms)
  then show ?case by (intro add_socket_ok) (simp_all add: connect_to_makes)
next
  case (accepts p i ready answer)
  then show ?case by (intro add_socket_ok) (simp_all add: accept_one_makes)
next
  case (closes p i s os)
  then show ?case
    using socket_replaced_ok [of p i "(pr_sockets p)[i := kInvalidNative]"] lives_clear [of i "pr_sockets p"]
    by (simp add: close_socket_eq)
next
  case (moves p i)
  then show ?case
    using lives_clear [of i "pr_sockets p"] by (simp add: socket_move_def handles_ok_def owned_def)
next
  case (assigns p i j)
  then show ?case
    using socket_replaced_ok [of p i "(pr_sockets p)[i := pr_sockets p ! j, j := kInvalidNative]"] lives_transfer [of i "pr_sockets p" j]
    by (simp add: socket_assign_def close_socket_eq)
next
  case (new_listeners p)
  then show ?case by (simp add: handles_ok_def owned_def)
next
  case (binds p i resolved sockname r l os)
  show ?case by (rule bind_ok [OF binds.IH binds.hyps(2,3)])
next
  case (closes_listener p i l os)
  then show ?case
    using listener_replaced_ok [of p i "(pr_listeners p)[i := new_listener]"] lives_clear [of i "map li_handle (pr_listeners p)"]
    by (auto simp: listener_close_def listener_valid_def map_update split: if_splits)
next
  case (moves_listener p i)
  then show ?case
    using lives_clear [of i "map li_handle (pr_listeners p)"] by (simp add: listener_move_def handles_ok_def owned_def map_update algebra_simps)
next
  case (assigns_listener p i j)
  then show ?case
    using listener_replaced_ok [of p i "(pr_listeners p)[i := pr_listeners p ! j, j := new_listener]"]
      lives_transfer [of i "map li_handle (pr_listeners p)" j]
    by (auto simp: listener_assign_def listener_close_def listener_valid_def map_update split: if_splits)
qed

lemma timeval_exact:
  "unat (fst (timeval_of ms)) * 1000 + unat (snd (timeval_of ms)) div 1000 = unat ms" "unat (snd (timeval_of ms)) < 1000000"
proof -
  have "unat ((ms mod 1000) * 1000) = unat ms mod 1000 * 1000"
    by (subst unat_mult_lem [THEN iffD1]) (simp_all add: unat_mod)
  then show "unat (fst (timeval_of ms)) * 1000 + unat (snd (timeval_of ms)) div 1000 = unat ms"
    "unat (snd (timeval_of ms)) < 1000000"
    by (simp_all add: timeval_of_def unat_div)
qed

text \<open>C36: handles are neither leaked nor shared. However a process connects, listens, accepts, moves,
  assigns and closes its sockets and listeners, and whatever the platform answers to each call, the
  handles that are open are exactly those of its valid objects, and no two objects own the same one. In
  particular every failed call closes what it opened, and when all objects are closed no handle is open.\<close>

theorem handles_owned:
  assumes "process_reachable p"
  shows "distinct (pr_os p) \<and> mset (filter socket_valid (pr_sockets p @ map li_handle (pr_listeners p))) = mset (pr_os p)"
proof -
  have "handles_ok p" by (rule process_handles_ok [OF assms])
  then show ?thesis by (simp add: handles_ok_def owned_def lives_def mset_filter socket_valid_def [abs_def])
qed

theorem handles_owned_witness:
  "\<exists>p. process_reachable p \<and> pr_sockets p = [5] \<and> map li_handle (pr_listeners p) = [4] \<and> mset (pr_os p) = {#4, 5#}"
proof -
  let ?p0 = "\<lparr>pr_os = [], pr_sockets = [], pr_listeners = [new_listener]\<rparr>"
  let ?cs = "[\<lparr>ba_socket = Some 3, ba_bind = False, ba_listen = False\<rparr>, \<lparr>ba_socket = Some 4, ba_bind = True, ba_listen = True\<rparr>]"
  let ?p1 = "\<lparr>pr_os = [4], pr_sockets = [], pr_listeners = [\<lparr>li_handle = 4, li_port = 7000\<rparr>]\<rparr>"
  let ?p2 = "\<lparr>pr_os = [5, 4], pr_sockets = [5], pr_listeners = [\<lparr>li_handle = 4, li_port = 7000\<rparr>]\<rparr>"
  have "process_reachable ?p0" using new_listeners [OF starts] by simp
  then have "process_reachable ?p1"
    using binds [of ?p0 0 "Some ?cs" "Some 7000" "Inr ()" "\<lparr>li_handle = 4, li_port = 7000\<rparr>" "[4]"]
    by (simp add: bind_and_listen_def new_listener_def listener_valid_def os_handle_def kInvalidNative_def close_native_def)
  then have "process_reachable ?p2"
    using accepts [of ?p1 0 Select_Ready "Accept_Handle 5"]
    by (simp add: accept_one_def add_socket_def listener_valid_def os_handle_def kInvalidNative_def)
  then show ?thesis using handles_owned [of ?p2] by (auto simp: socket_valid_def kInvalidNative_def)
qed

end
