(* ===== verification/HGM_Synthetic.thy ===== *)
theory HGM_Synthetic
  imports HGM_Scenario HGM_Text
begin

text \<open>
  The generator of synthetic fabrics (\<^verbatim>\<open>include/hgm/synthetic.hpp\<close>, \<^verbatim>\<open>src/synthetic.cpp\<close>), which the
  tools publish. \<open>rebuild\<close> makes the five snapshots of one generation in the order of the source. A
  snapshot whose \<open>build\<close> fails stays unbuilt with the entries it was given (the source may leave them
  sorted; no operation reads them before a successful build).
\<close>

section \<open>Random numbers\<close>

unbundle bit_operations_syntax

definition new_rng :: "u64 \<Rightarrow> u64" where
  "new_rng seed = (if seed = 0 then 0x9E3779B97F4A7C15 else seed)"

definition rng_next :: "u64 \<Rightarrow> u64" where
  "rng_next state =
     (let s1 = state XOR push_bit 13 state; s2 = s1 XOR drop_bit 7 s1 in s2 XOR push_bit 17 s2)"

text \<open>The drawn value and the state after it, which \<open>next\<close> returns as its value.\<close>

definition rng_u32 :: "u64 \<Rightarrow> u32 \<times> u64" where
  "rng_u32 state = (let s = rng_next state in (ucast (drop_bit 32 s), s))"

definition rng_below :: "u32 \<Rightarrow> u64 \<Rightarrow> u32 \<times> u64" where
  "rng_below bound state =
     (if bound = 0 then (0, state) else let s = rng_next state in (ucast (s mod ucast bound), s))"

section \<open>Configuration\<close>

record SyntheticConfig =
  sy_region_count :: u32
  sy_resources_per_region :: u32
  sy_hotspot_count :: u32
  sy_hotspot_index_base :: u32
  sy_path_fan_in :: u32
  sy_path_resource_density_ppm :: u32
  sy_evidence_density_ppm :: u32
  sy_saturated_utilization_ppm :: u32
  sy_healthy_utilization_ppm :: u32
  sy_saturated_queue_ppm :: u32
  sy_healthy_queue_ppm :: u32
  sy_confidence_ppm :: u32
  sy_quality :: TelemetryQuality
  sy_global_congestion :: bool
  sy_contradictory_sample :: bool
  sy_stale_evidence :: bool
  sy_evidence_age_ms :: u32
  sy_traffic_age_ms :: u32
  sy_capacity_units :: u64
  sy_queue_limit_units :: u64
  sy_buffer_limit_bytes :: u64
  sy_saturated_demand_bps :: u64
  sy_healthy_demand_bps :: u64
  sy_policy_ttl_ms :: u32
  sy_seed :: u64
  sy_base_time :: Millis

definition default_synthetic :: SyntheticConfig where
  "default_synthetic = \<lparr>sy_region_count = 4, sy_resources_per_region = 8, sy_hotspot_count = 1, sy_hotspot_index_base = 1,
     sy_path_fan_in = 4, sy_path_resource_density_ppm = 250000, sy_evidence_density_ppm = 1000000,
     sy_saturated_utilization_ppm = 980000, sy_healthy_utilization_ppm = 200000, sy_saturated_queue_ppm = 900000,
     sy_healthy_queue_ppm = 50000, sy_confidence_ppm = 900000, sy_quality = TQ_Healthy, sy_global_congestion = False,
     sy_contradictory_sample = False, sy_stale_evidence = False, sy_evidence_age_ms = 0, sy_traffic_age_ms = 0,
     sy_capacity_units = 1000, sy_queue_limit_units = 100, sy_buffer_limit_bytes = 1000000,
     sy_saturated_demand_bps = 900000, sy_healthy_demand_bps = 1000, sy_policy_ttl_ms = 60000, sy_seed = 0x5EED1234,
     sy_base_time = 1000\<rparr>"

record SyntheticFabric =
  sf_config :: SyntheticConfig
  sf_topology :: TopologySnapshot
  sf_capacity :: CapacitySnapshot
  sf_signals :: SignalSnapshot
  sf_paths :: PathSnapshot
  sf_traffic :: TrafficSnapshot
  sf_saturated :: "ResourceId list"
  sf_healthy :: "ResourceId list"
  sf_all_resources :: "ResourceId list"
  sf_generation :: u64
  sf_now :: Millis
  sf_build_status :: "unit result"

section \<open>Identities\<close>

definition resource_id :: "nat \<Rightarrow> nat \<Rightarrow> ResourceId" where
  "resource_id region index = identity_from_bytes (''res-'' @ decimal region @ ''-'' @ decimal index)"

definition region_id :: "nat \<Rightarrow> RegionId" where
  "region_id index = identity_from_bytes (''region-'' @ decimal index)"

definition link_id :: "ResourceId \<Rightarrow> ResourceId \<Rightarrow> LinkId" where
  "link_id a b =
     (let lo = (if a < b then a else b); hi = (if a < b then b else a)
      in identity_from_bytes (''link-'' @ hex64 lo @ ''-'' @ hex64 hi))"

definition synthetic_provenance :: "Millis \<Rightarrow> u64 \<Rightarrow> StreamKind \<Rightarrow> Provenance" where
  "synthetic_provenance now generation stream =
     no_provenance\<lparr>pv_publisher := identity_from_bytes (''synthetic-'' @ sk_text stream), pv_incarnation := 1, pv_boot := 1,
       pv_epoch := 1, pv_sequence := 1, pv_generation := \<lparr>sg_stream = stream, sg_value = generation\<rparr>,
       pv_emitted_at := now, pv_source := ''synthetic''\<rparr>"

section \<open>Topology\<close>

abbreviation region_total :: "SyntheticConfig \<Rightarrow> nat" where
  "region_total cfg \<equiv> unat (sy_region_count cfg)"

abbreviation resource_total :: "SyntheticConfig \<Rightarrow> nat" where
  "resource_total cfg \<equiv> unat (sy_resources_per_region cfg)"

text \<open>The index pairs of the loops over regions and their resources.\<close>

definition grid :: "SyntheticConfig \<Rightarrow> (nat \<times> nat) list" where
  "grid cfg = List.product [0..<region_total cfg] [0..<resource_total cfg]"

definition all_resources :: "SyntheticConfig \<Rightarrow> ResourceId list" where
  "all_resources cfg = map (\<lambda>(r, i). resource_id r i) (grid cfg)"

text \<open>The endpoints of the links in the order they are added: along each region, then between regions.\<close>

definition ring_pairs :: "SyntheticConfig \<Rightarrow> (ResourceId \<times> ResourceId) list" where
  "ring_pairs cfg =
     map (\<lambda>(r, i). (resource_id r i, resource_id r ((i + 1) mod resource_total cfg)))
       (filter (\<lambda>(r, i). \<not> i \<ge> (i + 1) mod resource_total cfg) (grid cfg))"

definition spine_pairs :: "SyntheticConfig \<Rightarrow> (ResourceId \<times> ResourceId) list" where
  "spine_pairs cfg = map (\<lambda>r. (resource_id r 0, resource_id (r + 1) 0)) [0..<region_total cfg - 1]"

definition make_topology :: "SyntheticConfig \<Rightarrow> Millis \<Rightarrow> u64 \<Rightarrow> TopologySnapshot" where
  "make_topology cfg now generation =
     (let t = fold (\<lambda>r. add_region (region_id r) (''region-'' @ decimal r) 0) [0..<region_total cfg] empty_topology;
          t = fold (\<lambda>(r, i). add_resource (resource_id r i) (region_id r) (if i = 0 then RK_Switch else RK_Port)
                              (''res-'' @ decimal r @ ''-'' @ decimal i)) (grid cfg) t;
          t = fold (\<lambda>(a, b). add_link (link_id a b) a b) (ring_pairs cfg) t;
          t = fold (\<lambda>(a, b). add_link (link_id a b) a b) (spine_pairs cfg) t
      in t\<lparr>tp_generation := generation, tp_provenance := synthetic_provenance now generation Stream_Topology,
           tp_valid_from := now - 1000, tp_valid_until := now + 60000\<rparr>)"

section \<open>Saturated and healthy resources\<close>

text \<open>The resource the loop over hotspots designates in round \<open>h\<close>, if its index is in range; \<open>std::uint32_t\<close> throughout.\<close>

definition hotspot_resource :: "SyntheticConfig \<Rightarrow> u32 \<Rightarrow> ResourceId option" where
  "hotspot_resource cfg h =
     (let per_region = (if sy_resources_per_region cfg > 1 then sy_resources_per_region cfg - 1 else 1);
          region = h mod sy_region_count cfg;
          slot = h div sy_region_count cfg;
          index = sy_hotspot_index_base cfg + (slot * 2) mod per_region
      in if index \<ge> sy_resources_per_region cfg then None else Some (resource_id (unat region) (unat index)))"

definition saturated_resources :: "SyntheticConfig \<Rightarrow> ResourceId list" where
  "saturated_resources cfg =
     sort (if sy_global_congestion cfg then all_resources cfg
           else fold (\<lambda>h found. case hotspot_resource cfg (word_of_nat h) of
                                  None \<Rightarrow> found
                                | Some i \<Rightarrow> if i \<in> set found then found else found @ [i])
                  [0..<unat (sy_hotspot_count cfg)] [])"

definition healthy_resources :: "SyntheticConfig \<Rightarrow> ResourceId list" where
  "healthy_resources cfg = filter (\<lambda>i. i \<notin> set (saturated_resources cfg)) (all_resources cfg)"

section \<open>Capacity and signals\<close>

definition make_capacity :: "SyntheticConfig \<Rightarrow> Millis \<Rightarrow> u64 \<Rightarrow> CapacitySnapshot" where
  "make_capacity cfg now generation =
     (fold (\<lambda>i. add_capacity \<lparr>cap_resource = i, cap_units = sy_capacity_units cfg, cap_queue_limit = sy_queue_limit_units cfg,
                   cap_buffer_limit = sy_buffer_limit_bytes cfg, cap_usable = True\<rparr>) (all_resources cfg) empty_capacity)
     \<lparr>cs_generation := generation, cs_topology_generation := generation,
       cs_provenance := synthetic_provenance now generation Stream_Capacity, cs_observed_at := now\<rparr>"

definition observed_at :: "SyntheticConfig \<Rightarrow> Millis \<Rightarrow> Millis" where
  "observed_at cfg now =
     (if sy_stale_evidence cfg then now - uint (sy_evidence_age_ms cfg) - 600000 else now - uint (sy_evidence_age_ms cfg))"

text \<open>The density test: a hash of the identity, in parts per million, against the configured density.\<close>

definition signal_present :: "SyntheticConfig \<Rightarrow> ResourceId \<Rightarrow> bool" where
  "signal_present cfg i \<longleftrightarrow> \<not> identity_from_bytes (hex64 i) mod kPpmScale \<ge> ucast (sy_evidence_density_ppm cfg)"

definition signal_record :: "SyntheticConfig \<Rightarrow> Millis \<Rightarrow> ResourceId \<Rightarrow> ResourceSignals" where
  "signal_record cfg now i =
     (let hot = i \<in> set (saturated_resources cfg);
          offered = (if hot then sy_saturated_demand_bps cfg else sy_healthy_demand_bps cfg);
          record = \<lparr>sr_resource = i,
            sr_utilized = (ucast (if hot then sy_saturated_utilization_ppm cfg else sy_healthy_utilization_ppm cfg)
                            * sy_capacity_units cfg) div kPpmScale,
            sr_queue_depth = (ucast (if hot then sy_saturated_queue_ppm cfg else sy_healthy_queue_ppm cfg)
                            * sy_queue_limit_units cfg) div kPpmScale,
            sr_buffer_used = 0, sr_offered = offered, sr_admitted = offered, sr_drops = (if hot then 1 else 0),
            sr_confidence = sy_confidence_ppm cfg, sr_quality = sy_quality cfg, sr_observed_at = observed_at cfg now\<rparr>
      in if sy_contradictory_sample cfg \<and> hot
         then record\<lparr>sr_utilized := sy_capacity_units cfg div 10, sr_offered := 0, sr_admitted := 0\<rparr>
         else record)"

definition make_signals :: "SyntheticConfig \<Rightarrow> Millis \<Rightarrow> u64 \<Rightarrow> SignalSnapshot" where
  "make_signals cfg now generation =
     (fold (\<lambda>i. add_signals (signal_record cfg now i)) (filter (signal_present cfg) (all_resources cfg)) empty_signals)
     \<lparr>ss_generation := generation, ss_topology_generation := generation, ss_capacity_generation := generation,
       ss_provenance := synthetic_provenance now generation Stream_Signals, ss_window_start := now - 1000,
       ss_window_end := observed_at cfg now\<rparr>"

section \<open>Paths and traffic\<close>

definition paths_present :: "SyntheticConfig \<Rightarrow> ResourceId \<Rightarrow> bool" where
  "paths_present cfg i \<longleftrightarrow> \<not> identity_from_bytes (''p'' @ hex64 i) mod kPpmScale \<ge> ucast (sy_path_resource_density_ppm cfg)"

definition path_record :: "TopologySnapshot \<Rightarrow> ResourceId \<Rightarrow> nat \<Rightarrow> PathRecord" where
  "path_record t i k =
     (let ns = neighbors t i
      in \<lparr>pr_id = identity_from_bytes (''path-'' @ hex64 i @ ''-'' @ decimal k),
          pr_flow = identity_from_bytes (''flow-'' @ hex64 i @ ''-'' @ decimal k),
          pr_hops = i # (if ns = [] then [] else [ns ! (k mod length ns)])\<rparr>)"

definition path_demand :: "SyntheticConfig \<Rightarrow> ResourceId \<Rightarrow> u64" where
  "path_demand cfg i =
     (let demand = (if i \<in> set (saturated_resources cfg) then sy_saturated_demand_bps cfg else sy_healthy_demand_bps cfg)
                     div ucast (sy_path_fan_in cfg)
      in if demand = 0 then 1 else demand)"

text \<open>The loop over the resources, which ends at the path bound; the paths are those added before.\<close>

fun make_path_records :: "SyntheticConfig \<Rightarrow> TopologySnapshot \<Rightarrow> ResourceId list \<Rightarrow> PathRecord list \<Rightarrow> (PathId \<times> u64) list
    \<Rightarrow> PathRecord list \<times> (PathId \<times> u64) list" where
  "make_path_records cfg t [] paths demands = (paths, demands)"
| "make_path_records cfg t (i # is) paths demands =
     (if length paths + unat (sy_path_fan_in cfg) > kMaxPaths then (paths, demands)
      else if \<not> paths_present cfg i then make_path_records cfg t is paths demands
      else let added = map (path_record t i) [0..<unat (sy_path_fan_in cfg)]
           in make_path_records cfg t is (paths @ added) (demands @ map (\<lambda>p. (pr_id p, path_demand cfg i)) added))"

definition make_paths :: "Millis \<Rightarrow> u64 \<Rightarrow> PathRecord list \<Rightarrow> PathSnapshot" where
  "make_paths now generation records =
     (fold add_path records empty_paths)
     \<lparr>ps_generation := generation, ps_topology_generation := generation,
       ps_provenance := synthetic_provenance now generation Stream_Paths, ps_observed_at := now\<rparr>"

definition make_traffic :: "SyntheticConfig \<Rightarrow> Millis \<Rightarrow> u64 \<Rightarrow> PathSnapshot \<Rightarrow> (PathId \<times> u64) list \<Rightarrow> TrafficSnapshot" where
  "make_traffic cfg now generation paths demands =
     (fold (\<lambda>(path, demand). add_traffic
         \<lparr>tr_flow = (case find_path paths path of Some record \<Rightarrow> pr_flow record | None \<Rightarrow> 0), tr_path = path,
          tr_demand = demand, tr_quality = TQ_Healthy, tr_observed_at = now - uint (sy_traffic_age_ms cfg)\<rparr>) demands empty_traffic)
     \<lparr>ts_generation := generation, ts_path_generation := generation,
       ts_provenance := synthetic_provenance now generation Stream_Traffic\<rparr>"

section \<open>rebuild\<close>

text \<open>\<open>if (build_status_.ok()) build_status_ = snapshot.build()\<close>: the snapshot and the status after it.\<close>

definition build_step :: "('a \<Rightarrow> 'a result) \<Rightarrow> unit result \<Rightarrow> 'a \<Rightarrow> 'a \<times> unit result" where
  "build_step build status s =
     (case status of
        Inl e \<Rightarrow> (s, Inl e)
      | Inr _ \<Rightarrow> (case build s of Inl e \<Rightarrow> (s, Inl e) | Inr built \<Rightarrow> (built, Inr ())))"

definition rebuild :: "Millis \<Rightarrow> u64 \<Rightarrow> SyntheticConfig \<Rightarrow> SyntheticFabric" where
  "rebuild now generation cfg =
     (let (topology, status) = build_step build_topology (Inr ()) (make_topology cfg now generation);
          (capacity, status) = build_step build_capacity status (make_capacity cfg now generation);
          (signals, status) = build_step build_signals status (make_signals cfg now generation);
          (records, demands) = make_path_records cfg topology (all_resources cfg) [] [];
          (paths, status) = build_step build_paths status (make_paths now generation records);
          (traffic, status) = build_step build_traffic status (make_traffic cfg now generation paths demands)
      in \<lparr>sf_config = cfg, sf_topology = topology, sf_capacity = capacity, sf_signals = signals, sf_paths = paths,
          sf_traffic = traffic, sf_saturated = saturated_resources cfg, sf_healthy = healthy_resources cfg,
          sf_all_resources = all_resources cfg, sf_generation = generation, sf_now = now, sf_build_status = status\<rparr>)"

text \<open>The constructor.\<close>

definition clamped :: "SyntheticConfig \<Rightarrow> SyntheticConfig" where
  "clamped cfg = cfg\<lparr>sy_region_count := (if sy_region_count cfg = 0 then 1 else sy_region_count cfg),
     sy_resources_per_region := (if sy_resources_per_region cfg = 0 then 1 else sy_resources_per_region cfg),
     sy_path_fan_in := (if sy_path_fan_in cfg = 0 then 1 else sy_path_fan_in cfg)\<rparr>"

definition new_fabric :: "SyntheticConfig \<Rightarrow> SyntheticFabric" where
  "new_fabric cfg = rebuild (sy_base_time (clamped cfg)) 1 (clamped cfg)"

definition synthetic_policy :: "SyntheticFabric \<Rightarrow> Millis \<Rightarrow> PolicySnapshot" where
  "synthetic_policy f now =
     empty_policy\<lparr>po_id := identity_from_bytes ''synthetic-policy'', po_generation := sf_generation f, po_issued_at := now - 100,
       po_ttl_ms := sy_policy_ttl_ms (sf_config f),
       po_provenance := synthetic_provenance (sf_now f) (sf_generation f) Stream_Policy\<rparr>"

section \<open>What is generated\<close>

lemma fold_add_region:
  "fold (\<lambda>r. add_region (f r) (n r) (p r)) xs t =
     t\<lparr>tp_regions := tp_regions t @ map (\<lambda>r. \<lparr>rg_id = f r, rg_name = bounded_name (n r) kMaxRegionNameBytes, rg_parent = p r\<rparr>) xs,
       tp_built := tp_built t \<and> xs = []\<rparr>"
  by (induction xs arbitrary: t) (simp_all add: add_region_def)

lemma fold_add_resource:
  "fold (\<lambda>x. add_resource (f x) (g x) (k x) (n x)) xs t =
     t\<lparr>tp_resources := tp_resources t @ map (\<lambda>x. \<lparr>rs_id = f x, rs_region = g x, rs_kind = k x,
         rs_name = bounded_name (n x) kMaxResourceNameBytes\<rparr>) xs,
       tp_built := tp_built t \<and> xs = []\<rparr>"
  by (induction xs arbitrary: t) (simp_all add: add_resource_def)

lemma fold_add_link:
  "fold (\<lambda>x. add_link (f x) (a x) (b x)) xs t =
     t\<lparr>tp_links := tp_links t @ map (\<lambda>x. \<lparr>ln_id = f x, ln_endpoint_a = a x, ln_endpoint_b = b x\<rparr>) xs,
       tp_built := tp_built t \<and> xs = []\<rparr>"
  by (induction xs arbitrary: t) (simp_all add: add_link_def)

lemma fold_add_entries:
  "fold (\<lambda>i. add_capacity (ce i)) xs c = c\<lparr>cs_entries := cs_entries c @ map ce xs, cs_built := cs_built c \<and> xs = []\<rparr>"
  "fold (\<lambda>i. add_signals (se i)) xs s = s\<lparr>ss_records := ss_records s @ map se xs, ss_built := ss_built s \<and> xs = []\<rparr>"
  "fold (\<lambda>i. add_traffic (te i)) ys t = t\<lparr>ts_records := ts_records t @ map te ys, ts_built := ts_built t \<and> ys = []\<rparr>"
  by (induction xs arbitrary: c s, simp_all add: add_capacity_def add_signals_def)
     (induction ys arbitrary: t, simp_all add: add_traffic_def)

lemma fold_add_path: "fold add_path ps s = s\<lparr>ps_paths := ps_paths s @ ps, ps_built := ps_built s \<and> ps = []\<rparr>"
  by (induction ps arbitrary: s) (simp_all add: add_path_def)

lemma make_topology_fields:
  "map rs_id (tp_resources (make_topology cfg now generation)) = all_resources cfg"
  "map (\<lambda>l. (ln_endpoint_a l, ln_endpoint_b l)) (tp_links (make_topology cfg now generation)) = ring_pairs cfg @ spine_pairs cfg"
  "tp_generation (make_topology cfg now generation) = generation"
  "tp_valid_from (make_topology cfg now generation) = now - 1000"
  "tp_valid_until (make_topology cfg now generation) = now + 60000"
  "r \<in> set (tp_resources (make_topology cfg now generation)) \<Longrightarrow> rs_kind r \<in> {RK_Switch, RK_Port}"
  by (auto simp: make_topology_def Let_def fold_add_region fold_add_resource fold_add_link empty_topology_def all_resources_def
      case_prod_unfold comp_def split: if_splits)

lemma make_evidence_fields:
  "map cap_resource (cs_entries (make_capacity cfg now generation)) = all_resources cfg"
  "map sr_resource (ss_records (make_signals cfg now generation)) = filter (signal_present cfg) (all_resources cfg)"
  "ps_paths (make_paths now generation records) = records"
  "map tr_path (ts_records (make_traffic cfg now generation paths demands)) = map fst demands"
  by (simp_all add: make_capacity_def make_signals_def make_paths_def make_traffic_def fold_add_entries fold_add_path comp_def
      empty_capacity_def empty_signals_def empty_paths_def empty_traffic_def signal_record_def Let_def case_prod_unfold
      if_distrib [of sr_resource] cong: if_cong)

text \<open>The closing edge of a ring is never added: a region is a line of its resources.\<close>

lemma region_is_line:
  "ring_pairs cfg = concat (map (\<lambda>r. map (\<lambda>i. (resource_id r i, resource_id r (i + 1))) [0..<resource_total cfg - 1])
     [0..<region_total cfg])"
proof -
  have "filter (\<lambda>i. \<not> i \<ge> (i + 1) mod n) [0..<n] = [0..<n - 1]" for n :: nat
  proof (cases n)
    case (Suc m)
    have "filter (\<lambda>i. \<not> i \<ge> (i + 1) mod Suc m) [0..<m] = [0..<m]" by (intro filter_True) simp
    then show ?thesis by (simp add: Suc)
  qed simp
  note line = this
  show ?thesis
    unfolding ring_pairs_def grid_def product_concat_map
    by (simp add: filter_concat map_concat comp_def filter_map case_prod_unfold line [simplified])
       (intro arg_cong [where f = concat] map_cong refl, auto)
qed

section \<open>A rebuilt fabric is consistent\<close>

lemma build_step_ok: "build_step build status s = (s', Inr ()) \<longleftrightarrow> status = Inr () \<and> build s = Inr s'"
  by (auto simp: build_step_def split: sum.splits)

text \<open>The snapshots of a fabric whose build status is a success, each built from what was generated.\<close>

lemma rebuild_ok:
  assumes "f = rebuild now generation cfg" and "sf_build_status f = Inr ()"
  obtains records demands where
    "build_topology (make_topology cfg now generation) = Inr (sf_topology f)"
    "build_capacity (make_capacity cfg now generation) = Inr (sf_capacity f)"
    "build_signals (make_signals cfg now generation) = Inr (sf_signals f)"
    "make_path_records cfg (sf_topology f) (all_resources cfg) [] [] = (records, demands)"
    "build_paths (make_paths now generation records) = Inr (sf_paths f)"
    "build_traffic (make_traffic cfg now generation (sf_paths f) demands) = Inr (sf_traffic f)"
proof -
  obtain t s1 where 1: "build_step build_topology (Inr ()) (make_topology cfg now generation) = (t, s1)" by fastforce
  obtain c s2 where 2: "build_step build_capacity s1 (make_capacity cfg now generation) = (c, s2)" by fastforce
  obtain x s3 where 3: "build_step build_signals s2 (make_signals cfg now generation) = (x, s3)" by fastforce
  obtain records demands where 4: "make_path_records cfg t (all_resources cfg) [] [] = (records, demands)" by fastforce
  obtain p s4 where 5: "build_step build_paths s3 (make_paths now generation records) = (p, s4)" by fastforce
  obtain y s5 where 6: "build_step build_traffic s4 (make_traffic cfg now generation p demands) = (y, s5)" by fastforce
  have f: "sf_topology f = t" "sf_capacity f = c" "sf_signals f = x" "sf_paths f = p" "sf_traffic f = y" "s5 = Inr ()"
    using assms by (simp_all add: rebuild_def 1 2 3 4 5 6)
  then show thesis using that 1 2 3 4 5 6 by (auto simp: build_step_ok)
qed

lemma rebuild_fields [simp]:
  "sf_config (rebuild now generation cfg) = cfg" "sf_generation (rebuild now generation cfg) = generation"
  "sf_now (rebuild now generation cfg) = now" "sf_saturated (rebuild now generation cfg) = saturated_resources cfg"
  "sf_healthy (rebuild now generation cfg) = healthy_resources cfg" "sf_all_resources (rebuild now generation cfg) = all_resources cfg"
  by (simp_all add: rebuild_def case_prod_unfold Let_def)

lemma build_evidence_meta:
  "build_capacity c = Inr c' \<Longrightarrow> cs_generation c' = cs_generation c \<and> cs_topology_generation c' = cs_topology_generation c \<and> cs_observed_at c' = cs_observed_at c"
  "build_signals s = Inr s' \<Longrightarrow> ss_generation s' = ss_generation s \<and> ss_topology_generation s' = ss_topology_generation s \<and>
     ss_capacity_generation s' = ss_capacity_generation s \<and> ss_window_start s' = ss_window_start s \<and> ss_window_end s' = ss_window_end s"
  "build_paths p = Inr p' \<Longrightarrow> ps_generation p' = ps_generation p \<and> ps_topology_generation p' = ps_topology_generation p \<and> ps_observed_at p' = ps_observed_at p"
  "build_traffic y = Inr y' \<Longrightarrow> ts_generation y' = ts_generation y \<and> ts_path_generation y' = ts_path_generation y"
  by (auto simp: build_capacity_def build_signals_def build_paths_def build_traffic_def Let_def bind_result_Inr_iff case_prod_beta)

lemma path_records_range:
  assumes "make_path_records cfg t is paths demands = (paths', demands')"
    and "\<forall>p \<in> set paths. P p" and "\<forall>i \<in> set is. \<forall>k. P (path_record t i k)"
  shows "\<forall>p \<in> set paths'. P p"
  using assms
proof (induction "is" arbitrary: paths demands)
  case (Cons i "is")
  let ?added = "map (path_record t i) [0..<unat (sy_path_fan_in cfg)]"
  have "\<forall>p \<in> set (paths @ ?added). P p" using Cons.prems(2,3) by auto
  note added = this
  have rest: "\<forall>i \<in> set is. \<forall>k. P (path_record t i k)" using Cons.prems(3) by simp
  consider "paths' = paths" | "make_path_records cfg t is paths demands = (paths', demands')"
    | "make_path_records cfg t is (paths @ ?added) (demands @ map (\<lambda>p. (pr_id p, path_demand cfg i)) ?added) = (paths', demands')"
    using Cons.prems(1) by (auto simp: Let_def split: if_splits)
  then show ?case using Cons.IH [OF _ _ rest] Cons.prems(2) added by cases blast+
qed simp

lemma path_demands_range:
  assumes "make_path_records cfg t is paths demands = (paths', demands')" and "map fst demands = map pr_id paths"
  shows "map fst demands' = map pr_id paths'"
  using assms by (induction cfg t "is" paths demands rule: make_path_records.induct) (auto simp: Let_def comp_def split: if_splits)

text \<open>The generations of a fabric and what its snapshots name.\<close>

definition fabric_generations :: "u64 \<Rightarrow> SyntheticFabric \<Rightarrow> bool" where
  "fabric_generations generation f \<longleftrightarrow>
     tp_generation (sf_topology f) = generation \<and> cs_generation (sf_capacity f) = generation \<and>
     cs_topology_generation (sf_capacity f) = generation \<and> ss_generation (sf_signals f) = generation \<and>
     ss_topology_generation (sf_signals f) = generation \<and> ss_capacity_generation (sf_signals f) = generation \<and>
     ps_generation (sf_paths f) = generation \<and> ps_topology_generation (sf_paths f) = generation \<and>
     ts_generation (sf_traffic f) = generation \<and> ts_path_generation (sf_traffic f) = generation"

lemma rebuild_generations:
  assumes "f = rebuild now generation cfg" and "sf_build_status f = Inr ()"
  shows "fabric_generations generation f"
proof -
  obtain records demands where b:
    "build_topology (make_topology cfg now generation) = Inr (sf_topology f)"
    "build_capacity (make_capacity cfg now generation) = Inr (sf_capacity f)"
    "build_signals (make_signals cfg now generation) = Inr (sf_signals f)"
    "build_paths (make_paths now generation records) = Inr (sf_paths f)"
    "build_traffic (make_traffic cfg now generation (sf_paths f) demands) = Inr (sf_traffic f)"
    using rebuild_ok [OF assms] by blast
  then show ?thesis
    using build_evidence_meta(1) [OF b(2)] build_evidence_meta(2) [OF b(3)] build_evidence_meta(3) [OF b(4)]
      build_evidence_meta(4) [OF b(5)] build_topology_meta(1) [OF b(1)]
    by (simp add: fabric_generations_def make_topology_fields make_capacity_def make_signals_def make_paths_def make_traffic_def)
qed

text \<open>Every traffic record names a path of the fabric and the flow of that path.\<close>

lemma rebuild_traffic_paths:
  assumes f: "f = rebuild now generation cfg" and ok: "sf_build_status f = Inr ()"
  shows "\<forall>r \<in> set (ts_records (sf_traffic f)). \<exists>p. find_path (sf_paths f) (tr_path r) = Some p \<and> pr_flow p = tr_flow r"
proof -
  obtain records demands where b:
    "make_path_records cfg (sf_topology f) (all_resources cfg) [] [] = (records, demands)"
    "build_paths (make_paths now generation records) = Inr (sf_paths f)"
    "build_traffic (make_traffic cfg now generation (sf_paths f) demands) = Inr (sf_traffic f)"
    using rebuild_ok [OF f ok] by blast
  note pw = build_paths_wf [OF b(2)] and yw = build_traffic_wf [OF b(3)]
  have "find_path (sf_paths f) (pr_id p) = Some p" if "p \<in> set records" for p
    using path_index.lookup_Some_iff [OF pw(1)] that pw(2) by (simp add: make_evidence_fields(3))
  note lookup = this
  have "set (map fst demands) = set (map pr_id records)" using path_demands_range [OF b(1)] by simp
  note names = this
  have found: "\<exists>p. find_path (sf_paths f) (fst d) = Some p" if "d \<in> set demands" for d
  proof -
    have "fst d \<in> set (map pr_id records)" unfolding names [symmetric] using that by simp
    then obtain p where "p \<in> set records" "fst d = pr_id p" by auto
    then show ?thesis using lookup by auto
  qed
  show ?thesis
  proof
    fix r assume "r \<in> set (ts_records (sf_traffic f))"
    then obtain d where d: "d \<in> set demands" "tr_path r = fst d"
      "tr_flow r = (case find_path (sf_paths f) (fst d) of Some record \<Rightarrow> pr_flow record | None \<Rightarrow> 0)"
      using yw(2) by (auto simp: make_traffic_def fold_add_entries empty_traffic_def case_prod_unfold)
    then show "\<exists>p. find_path (sf_paths f) (tr_path r) = Some p \<and> pr_flow p = tr_flow r" using found [OF d(1)] by auto
  qed
qed

lemma rebuild_resolves:
  assumes f: "f = rebuild now generation cfg" and ok: "sf_build_status f = Inr ()"
  shows "topology_wf (sf_topology f)" and "capacity_wf (sf_capacity f)" and "signals_wf (sf_signals f)"
    and "paths_wf (sf_paths f)" and "traffic_wf (sf_traffic f)"
    and "has_resource (sf_topology f) i \<longleftrightarrow> i \<in> set (all_resources cfg)"
    and "capacity_resolves (sf_topology f) (sf_capacity f)" and "signals_resolve (sf_topology f) (sf_signals f)"
    and "paths_resolve (sf_topology f) (sf_paths f)"
    and "cap_resource ` set (cs_entries (sf_capacity f)) = set (all_resources cfg)"
    and "\<forall>r \<in> set (ts_records (sf_traffic f)). \<exists>p. find_path (sf_paths f) (tr_path r) = Some p \<and> pr_flow p = tr_flow r"
proof -
  obtain records demands where b:
    "build_topology (make_topology cfg now generation) = Inr (sf_topology f)"
    "build_capacity (make_capacity cfg now generation) = Inr (sf_capacity f)"
    "build_signals (make_signals cfg now generation) = Inr (sf_signals f)"
    "make_path_records cfg (sf_topology f) (all_resources cfg) [] [] = (records, demands)"
    "build_paths (make_paths now generation records) = Inr (sf_paths f)"
    "build_traffic (make_traffic cfg now generation (sf_paths f) demands) = Inr (sf_traffic f)"
    using rebuild_ok [OF f ok] .
  note tw = build_topology_wf [OF b(1)] and cw = build_capacity_wf [OF b(2)] and sw = build_signals_wf [OF b(3)]
    and pw = build_paths_wf [OF b(5)] and yw = build_traffic_wf [OF b(6)]
  show wf: "topology_wf (sf_topology f)" "capacity_wf (sf_capacity f)" "signals_wf (sf_signals f)"
    "paths_wf (sf_paths f)" "traffic_wf (sf_traffic f)" by (fact tw(1) cw(1) sw(1) pw(1) yw(1))+
  have "rs_id ` set (tp_resources (make_topology cfg now generation)) = set (all_resources cfg)"
    using make_topology_fields(1) [of cfg now generation] by (metis image_set)
  then show res: "has_resource (sf_topology f) i \<longleftrightarrow> i \<in> set (all_resources cfg)" for i
    using has_resource_set [OF tw(1)] tw(3) by auto
  have "cap_resource ` set (cs_entries (make_capacity cfg now generation)) = set (all_resources cfg)"
    using make_evidence_fields(1) [of cfg now generation] by (metis image_set)
  then show caps: "cap_resource ` set (cs_entries (sf_capacity f)) = set (all_resources cfg)" using cw(2) by simp
  show "capacity_resolves (sf_topology f) (sf_capacity f)" using caps res by (auto simp: capacity_resolves_iff [OF tw(1) cw(1)])
  have "sr_resource ` set (ss_records (make_signals cfg now generation)) = set (filter (signal_present cfg) (all_resources cfg))"
    using make_evidence_fields(2) [of cfg now generation] by (metis image_set)
  then have "sr_resource ` set (ss_records (sf_signals f)) \<subseteq> set (all_resources cfg)" using sw(2) by auto
  then show "signals_resolve (sf_topology f) (sf_signals f)" using res by (auto simp: signals_resolve_iff [OF tw(1) sw(1)])
  have "has_resource (sf_topology f) (neighbors (sf_topology f) i ! (k mod length (neighbors (sf_topology f) i)))"
    if "neighbors (sf_topology f) i \<noteq> []" for i k
    using neighbors_resource [OF tw(1), of "neighbors (sf_topology f) i ! (k mod length (neighbors (sf_topology f) i))" i] that by simp
  then have "\<forall>p \<in> set records. \<forall>hop \<in> set (pr_hops p). has_resource (sf_topology f) hop"
    by (intro path_records_range [OF b(4)]) (auto simp: path_record_def Let_def res)
  then show "paths_resolve (sf_topology f) (sf_paths f)" using pw(2) by (simp add: paths_resolve_def make_evidence_fields(3))
  show "\<forall>r \<in> set (ts_records (sf_traffic f)). \<exists>p. find_path (sf_paths f) (tr_path r) = Some p \<and> pr_flow p = tr_flow r"
    by (rule rebuild_traffic_paths [OF f ok])
qed

lemma clamped_positive: "0 < sy_region_count (clamped cfg)" "0 < sy_resources_per_region (clamped cfg)"
  by (simp_all add: clamped_def word_gt_0)

lemma hotspot_resource_listed:
  assumes "hotspot_resource (clamped cfg) h = Some i"
  shows "i \<in> set (all_resources (clamped cfg))"
proof -
  let ?c = "clamped cfg"
  have "h mod sy_region_count ?c < sy_region_count ?c" by (rule word_mod_less_divisor [OF clamped_positive(1)])
  then have "unat (h mod sy_region_count ?c) < region_total ?c" by (simp add: word_less_nat_alt)
  moreover obtain index where "\<not> index \<ge> sy_resources_per_region ?c" and i: "i = resource_id (unat (h mod sy_region_count ?c)) (unat index)"
    using assms by (auto simp: hotspot_resource_def Let_def split: if_splits)
  then have "unat index < resource_total ?c" by (simp add: word_less_nat_alt not_le)
  ultimately show ?thesis unfolding all_resources_def grid_def i by force
qed

lemma saturated_listed: "set (saturated_resources (clamped cfg)) \<subseteq> set (all_resources (clamped cfg))"
proof -
  let ?step = "\<lambda>h found. case hotspot_resource (clamped cfg) (word_of_nat h) of
      None \<Rightarrow> found | Some i \<Rightarrow> if i \<in> set found then found else found @ [i]"
  have "set (fold ?step hs found) \<subseteq> set (all_resources (clamped cfg))" if "set found \<subseteq> set (all_resources (clamped cfg))" for hs found
    using that
  proof (induction hs arbitrary: found)
    case (Cons h hs)
    then have "set (?step h found) \<subseteq> set (all_resources (clamped cfg))"
      by (auto split: option.splits dest: hotspot_resource_listed)
    then show ?case using Cons.IH by simp
  qed simp
  from this [of "[]"] show ?thesis by (simp add: saturated_resources_def)
qed

section \<open>Properties\<close>

text \<open>C38: a synthetic fabric is consistent. Whatever the configuration, the time and the generation, when
  \<open>rebuild\<close> reports success its five snapshots are built and carry the given generation and each
  other's; capacity covers exactly the resources of the topology; signals and the hops of the paths name
  resources of the topology, so that the governor's reference check accepts them; every traffic record
  names a path of the snapshot with its flow; and the resources are divided into the designated
  saturated and the healthy ones.\<close>

theorem synthetic_consistent:
  assumes "f = rebuild now generation (clamped cfg)" and "sf_build_status f = Inr ()"
  shows "fabric_generations generation f \<and>
    verify_references \<lparr>sn_topology = Some (sf_topology f), sn_capacity = Some (sf_capacity f), sn_signals = Some (sf_signals f),
      sn_paths = Some (sf_paths f), sn_traffic = Some (sf_traffic f), sn_policy = None\<rparr> = Inr () \<and>
    cap_resource ` set (cs_entries (sf_capacity f)) = rs_id ` set (tp_resources (sf_topology f)) \<and>
    (\<forall>r \<in> set (ts_records (sf_traffic f)). \<exists>p. find_path (sf_paths f) (tr_path r) = Some p \<and> pr_flow p = tr_flow r) \<and>
    set (sf_saturated f) \<union> set (sf_healthy f) = rs_id ` set (tp_resources (sf_topology f)) \<and>
    set (sf_saturated f) \<inter> set (sf_healthy f) = {}"
proof -
  note r = rebuild_resolves [OF assms]
  have "rs_id ` set (tp_resources (sf_topology f)) = set (all_resources (clamped cfg))"
    using has_resource_set [OF r(1)] r(6) by blast
  moreover have "set (sf_saturated f) \<union> set (sf_healthy f) = set (all_resources (clamped cfg))" "set (sf_saturated f) \<inter> set (sf_healthy f) = {}"
    using saturated_listed [of cfg] by (auto simp: assms(1) healthy_resources_def)
  moreover note rebuild_generations [OF assms] r(7-11)
  ultimately show ?thesis by (simp add: verify_references_def bind_result_def guard_def)
qed

text \<open>Neither the seed nor the generator takes part: two configurations that differ in the seed give the same fabric.\<close>

lemma seed_irrelevant:
  "(rebuild now generation (cfg\<lparr>sy_seed := x\<rparr>))\<lparr>sf_config := c\<rparr> = (rebuild now generation cfg)\<lparr>sf_config := c\<rparr>"
proof -
  let ?cfg = "cfg\<lparr>sy_seed := x\<rparr>"
  have "hotspot_resource ?cfg = hotspot_resource cfg" by (simp add: fun_eq_iff hotspot_resource_def Let_def)
  then have r: "all_resources ?cfg = all_resources cfg" "saturated_resources ?cfg = saturated_resources cfg"
    by (simp_all add: all_resources_def grid_def saturated_resources_def cong: if_cong)
  then have d: "path_demand ?cfg = path_demand cfg" "signal_record ?cfg = signal_record cfg" "signal_present ?cfg = signal_present cfg"
    by (simp_all add: fun_eq_iff path_demand_def signal_present_def signal_record_def observed_at_def Let_def)
  have p: "make_path_records ?cfg t ids ps ds = make_path_records cfg t ids ps ds" for t ids ps ds
    by (induction ids arbitrary: ps ds) (simp_all add: d paths_present_def)
  have m: "make_topology ?cfg = make_topology cfg" "make_capacity ?cfg = make_capacity cfg" "make_signals ?cfg = make_signals cfg"
    "make_traffic ?cfg = make_traffic cfg" "healthy_resources ?cfg = healthy_resources cfg"
    by (simp_all add: fun_eq_iff make_topology_def grid_def ring_pairs_def spine_pairs_def make_capacity_def make_signals_def d r
        observed_at_def make_traffic_def healthy_resources_def Let_def)
  show ?thesis by (simp add: rebuild_def p r m Let_def case_prod_unfold)
qed

text \<open>A fabric of one resource.\<close>

definition tiny_config :: SyntheticConfig where
  "tiny_config = default_synthetic\<lparr>sy_region_count := 1, sy_resources_per_region := 1, sy_path_fan_in := 1,
     sy_path_resource_density_ppm := 1000000\<rparr>"

lemma tiny_fields:
  "clamped tiny_config = tiny_config" "all_resources tiny_config = [resource_id 0 0]" "ring_pairs tiny_config = []"
  "spine_pairs tiny_config = []" "signal_present tiny_config i" "paths_present tiny_config i"
proof -
  have "x mod kPpmScale < kPpmScale" for x :: u64 by (rule word_mod_less_divisor) (simp add: kPpmScale_def)
  then show "signal_present tiny_config i" "paths_present tiny_config i"
    by (simp_all add: signal_present_def paths_present_def tiny_config_def default_synthetic_def not_le kPpmScale_def)
qed (simp_all add: tiny_config_def default_synthetic_def clamped_def all_resources_def grid_def ring_pairs_def spine_pairs_def)

lemma identity_valid [simp]: "valid_id (identity_from_bytes text)"
  by (simp add: valid_id_def identity_from_bytes_def Let_def)

lemma bounded_name_length: "length (bounded_name name limit) \<le> limit"
  by (simp add: bounded_name_def)

lemma tiny_topology_fields:
  "tp_regions (make_topology tiny_config now generation) =
     [\<lparr>rg_id = region_id 0, rg_name = bounded_name (''region-'' @ decimal 0) kMaxRegionNameBytes, rg_parent = 0\<rparr>]"
  "tp_resources (make_topology tiny_config now generation) =
     [\<lparr>rs_id = resource_id 0 0, rs_region = region_id 0, rs_kind = RK_Switch,
       rs_name = bounded_name (''res-'' @ decimal 0 @ ''-'' @ decimal 0) kMaxResourceNameBytes\<rparr>]"
  "tp_links (make_topology tiny_config now generation) = []"
  by (simp_all add: make_topology_def Let_def fold_add_region fold_add_resource fold_add_link tiny_fields case_prod_unfold
      empty_topology_def) (simp_all add: tiny_config_def default_synthetic_def grid_def)

lemma tiny_topology_builds: "\<exists>t. build_topology (make_topology tiny_config now generation) = Inr t"
proof -
  let ?t = "(make_topology tiny_config now generation)\<lparr>tp_built := False, tp_id := 0, tp_digest := no_digest\<rparr>"
  have v: "valid_id (region_id k)" "valid_id (resource_id k j)" "\<not> valid_id 0" for k j
    by (simp_all add: region_id_def resource_id_def) (simp add: valid_id_def)
  then have nz: "region_id k \<noteq> 0" for k by (metis valid_id_def)
  have n: "length (bounded_name name limit) \<le> limit" for name limit by (rule bounded_name_length)
  have "\<exists>t1. validate_and_index ?t = Inr t1"
    by (rule validate_and_index_intro [OF refl refl refl])
       (simp_all add: tiny_topology_fields check_region_def check_parent_def check_cycle_def check_resource_def not_dup_def v n
          find_region_def has_region_def find_sorted_def lower_bound_def Let_def link_entries_def nz [symmetric])
  then show ?thesis
    using tiny_topology_fields [of now generation]
    by (auto simp: build_topology_def Let_def bind_result_def guard_def limit_defs)
qed

lemma tiny_values:
  "sy_capacity_units tiny_config = 1000" "sy_confidence_ppm tiny_config = 900000" "sy_contradictory_sample tiny_config = False"
  "sy_path_fan_in tiny_config = 1"
  by (simp_all add: tiny_config_def default_synthetic_def)

lemma tiny_evidence_builds:
  "\<exists>c. build_capacity (make_capacity tiny_config now generation) = Inr c"
  "\<exists>x. build_signals (make_signals tiny_config now generation) = Inr x"
  "neighbors t (resource_id 0 0) = [] \<Longrightarrow> \<exists>p. build_paths (make_paths now generation [path_record t (resource_id 0 0) 0]) = Inr p"
  "\<exists>y. build_traffic (make_traffic tiny_config now generation q [(pr_id (path_record t i k), d)]) = Inr y"
proof -
  have v: "valid_id (resource_id 0 0)" by (simp add: resource_id_def)
  show "\<exists>c. build_capacity (make_capacity tiny_config now generation) = Inr c"
    by (simp add: build_capacity_def make_capacity_def add_capacity_def empty_capacity_def Let_def tiny_fields check_capacity_def
        not_dup_def v tiny_values limit_defs)
  show "\<exists>x. build_signals (make_signals tiny_config now generation) = Inr x"
    by (simp add: build_signals_def make_signals_def add_signals_def empty_signals_def Let_def tiny_fields check_signals_def
        not_dup_def v tiny_values limit_defs signal_record_def kPpmScale_def)
  show "\<exists>p. build_paths (make_paths now generation [path_record t (resource_id 0 0) 0]) = Inr p" if "neighbors t (resource_id 0 0) = []"
    by (simp add: build_paths_def make_paths_def add_path_def empty_paths_def Let_def check_path_def not_dup_def v that path_record_def
        limit_defs case_prod_beta)
  show "\<exists>y. build_traffic (make_traffic tiny_config now generation q [(pr_id (path_record t i k), d)]) = Inr y"
    by (simp add: build_traffic_def make_traffic_def add_traffic_def empty_traffic_def Let_def check_traffic_def not_dup_def
        path_record_def limit_defs)
qed

lemma tiny_rebuild:
  obtains t c x p y where "build_topology (make_topology tiny_config now generation) = Inr t"
    "build_capacity (make_capacity tiny_config now generation) = Inr c" "build_signals (make_signals tiny_config now generation) = Inr x"
    "neighbors t (resource_id 0 0) = []" "build_paths (make_paths now generation [path_record t (resource_id 0 0) 0]) = Inr p"
    "build_traffic (make_traffic tiny_config now generation p
      [(pr_id (path_record t (resource_id 0 0) 0), path_demand tiny_config (resource_id 0 0))]) = Inr y"
    "sf_build_status (rebuild now generation tiny_config) = Inr ()" "sf_topology (rebuild now generation tiny_config) = t"
    "sf_capacity (rebuild now generation tiny_config) = c" "sf_signals (rebuild now generation tiny_config) = x"
    "sf_paths (rebuild now generation tiny_config) = p" "sf_traffic (rebuild now generation tiny_config) = y"
proof -
  obtain t where t: "build_topology (make_topology tiny_config now generation) = Inr t" using tiny_topology_builds by blast
  obtain c where c: "build_capacity (make_capacity tiny_config now generation) = Inr c" using tiny_evidence_builds(1) by blast
  obtain x where x: "build_signals (make_signals tiny_config now generation) = Inr x" using tiny_evidence_builds(2) by blast
  have r: "make_path_records tiny_config t (all_resources tiny_config) [] [] =
      ([path_record t (resource_id 0 0) 0], [(pr_id (path_record t (resource_id 0 0) 0), path_demand tiny_config (resource_id 0 0))])"
    by (simp add: tiny_fields tiny_values kMaxPaths_def)
  have "tp_links t = []" using build_topology_wf(4) [OF t] by (simp add: tiny_topology_fields)
  then have "x \<notin> set (neighbors t (resource_id 0 0))" for x using neighbors_iff [OF build_topology_wf(1) [OF t]] by simp
  then have neighbors: "neighbors t (resource_id 0 0) = []" by (metis list.set_intros(1) neq_Nil_conv)
  obtain p where p: "build_paths (make_paths now generation [path_record t (resource_id 0 0) 0]) = Inr p"
    using tiny_evidence_builds(3) neighbors by blast
  obtain y where y: "build_traffic (make_traffic tiny_config now generation p
      [(pr_id (path_record t (resource_id 0 0) 0), path_demand tiny_config (resource_id 0 0))]) = Inr y"
    using tiny_evidence_builds(4) by blast
  show thesis by (rule that [OF t c x neighbors p y]) (simp_all add: rebuild_def t c x r p y build_step_def)
qed

lemma tiny_builds: "sf_build_status (rebuild now generation tiny_config) = Inr ()"
  by (rule tiny_rebuild)

theorem synthetic_consistent_witness:
  "\<exists>f. f = rebuild 1000 1 (clamped tiny_config) \<and> sf_build_status f = Inr () \<and> fabric_generations 1 f \<and>
     cap_resource ` set (cs_entries (sf_capacity f)) = rs_id ` set (tp_resources (sf_topology f))"
  using synthetic_consistent [OF refl, of 1000 1 tiny_config] tiny_builds [of 1000 1] by (simp add: tiny_fields)

end
