(* ===== verification/HGM_Tools.thy ===== *)
theory HGM_Tools
  imports HGM_Synthetic HGM_System HGM_Explanation
begin

text \<open>
  The command line tools (\<^verbatim>\<open>tools/hgm_publisher.cpp\<close>, \<^verbatim>\<open>tools/hgm_cli.cpp\<close>,
  \<^verbatim>\<open>tools/hgm_coordinator.cpp\<close>): their arguments, the publisher's session with a coordinator and the
  demonstration run of the library in one process. The clock is an argument; what a tool prints is left
  out, except for the exit code it returns.
\<close>

section \<open>Arguments\<close>

fun arg_value :: "string list \<Rightarrow> string \<Rightarrow> string \<Rightarrow> string" where
  "arg_value (a # b # args) flag fallback = (if a = flag then b else arg_value (b # args) flag fallback)"
| "arg_value _ flag fallback = fallback"

definition has_flag :: "string list \<Rightarrow> string \<Rightarrow> bool" where
  "has_flag args flag \<longleftrightarrow> flag \<in> set args"

text \<open>
  \<open>std::stoull\<close>: white space, an optional sign, decimal digits, and whatever follows. Without digits
  and for a value beyond 64 bits it throws; a minus sign negates modulo \<open>2 ^ 64\<close>.
\<close>

definition is_space :: "char \<Rightarrow> bool" where
  "is_space c \<longleftrightarrow> of_char c \<in> {9, 10, 11, 12, 13, 32 :: nat}"

definition is_digit :: "char \<Rightarrow> bool" where
  "is_digit c \<longleftrightarrow> 48 \<le> (of_char c :: nat) \<and> (of_char c :: nat) \<le> 57"

definition digits_value :: "string \<Rightarrow> nat" where
  "digits_value ds = fold (\<lambda>c v. v * 10 + (of_char c - 48)) ds 0"

definition stoull :: "string \<Rightarrow> u64 option" where
  "stoull text =
     (let t = dropWhile is_space text;
          negative = (t \<noteq> [] \<and> hd t = CHR ''-'');
          signed = (t \<noteq> [] \<and> (hd t = CHR ''-'' \<or> hd t = CHR ''+''));
          ds = takeWhile is_digit (if signed then tl t else t)
      in if ds = [] then None
         else if digits_value ds \<ge> 2 ^ 64 then None
         else Some (if negative then - word_of_nat (digits_value ds) else word_of_nat (digits_value ds)))"

definition parse_u64 :: "string \<Rightarrow> u64 \<Rightarrow> u64" where
  "parse_u64 text fallback = (case stoull text of Some v \<Rightarrow> v | None \<Rightarrow> fallback)"

text \<open>\<open>parse_u32\<close> of the command line tool; \<open>unsigned long\<close> has 64 bits.\<close>

definition parse_u32 :: "string \<Rightarrow> u32 \<Rightarrow> u32" where
  "parse_u32 text fallback =
     (case stoull text of Some v \<Rightarrow> if v > 0xFFFFFFFF then fallback else ucast v | None \<Rightarrow> fallback)"

section \<open>The publisher\<close>

record PublisherOptions =
  pu_host :: string
  pu_port :: u16
  pu_name :: string
  pu_incarnation :: u64
  pu_boot :: u64
  pu_rounds :: u64
  pu_interval_ms :: u64
  pu_forced_epoch :: u64
  pu_start_generation :: u64
  pu_synthetic :: SyntheticConfig

definition publisher_options :: "string list \<Rightarrow> PublisherOptions" where
  "publisher_options args =
     (let number = (\<lambda>flag text fallback. parse_u64 (arg_value args flag text) fallback)
      in \<lparr>pu_host = arg_value args ''--host'' ''127.0.0.1'', pu_port = ucast (number ''--port'' ''0'' 0),
          pu_name = arg_value args ''--name'' ''hgm-publisher'', pu_incarnation = number ''--incarnation'' ''1'' 1,
          pu_boot = number ''--boot'' ''1'' 1, pu_rounds = number ''--rounds'' ''4'' 4,
          pu_interval_ms = number ''--interval-ms'' ''0'' 0, pu_forced_epoch = number ''--force-epoch'' ''0'' 0,
          pu_start_generation = number ''--start-generation'' ''1'' 1,
          pu_synthetic = default_synthetic\<lparr>sy_region_count := ucast (number ''--regions'' ''4'' 4),
            sy_resources_per_region := ucast (number ''--resources'' ''6'' 6),
            sy_hotspot_count := ucast (number ''--hotspots'' ''1'' 1), sy_path_fan_in := ucast (number ''--fan-in'' ''3'' 3),
            sy_global_congestion := arg_value args ''--mode'' ''localized'' = ''global'',
            sy_stale_evidence := arg_value args ''--evidence'' ''fresh'' = ''stale''\<rparr>\<rparr>)"

definition publisher_provenance :: "PublisherOptions \<Rightarrow> Millis \<Rightarrow> Provenance" where
  "publisher_provenance opts now =
     no_provenance\<lparr>pv_publisher := identity_from_bytes (pu_name opts), pv_incarnation := pu_incarnation opts,
       pv_boot := pu_boot opts, pv_emitted_at := now\<rparr>"

definition publisher_hello :: "PublisherOptions \<Rightarrow> HelloPayload" where
  "publisher_hello opts = \<lparr>he_publisher = identity_from_bytes (pu_name opts), he_incarnation = pu_incarnation opts,
     he_boot = pu_boot opts, he_protocol_version = kFrameProtocolVersion, he_name = pu_name opts\<rparr>"

text \<open>
  The handshake: the provenance of the session, or \<open>None\<close> where \<open>main\<close> returns 1. A reply of another
  type, also a rejection, ends it.
\<close>

definition publisher_handshake :: "PublisherOptions \<Rightarrow> Millis \<Rightarrow> Socket \<Rightarrow> Provenance option \<times> Socket" where
  "publisher_handshake opts now s =
     (let provenance = publisher_provenance opts now
      in case send_frame (make_frame MT_Hello provenance (encode_hello (publisher_hello opts))) s of
           (Inl e, s) \<Rightarrow> (None, s)
         | (Inr _, s) \<Rightarrow>
             (case receive_frame s of
                (Inl e, s) \<Rightarrow> (None, s)
              | (Inr reply, s) \<Rightarrow>
                  if fh_type (fr_header reply) \<noteq> MT_Welcome then (None, s)
                  else case decode_welcome (fr_payload reply) of
                         Inl e \<Rightarrow> (None, s)
                       | Inr welcome \<Rightarrow>
                           (Some (provenance\<lparr>pv_epoch := (if pu_forced_epoch opts \<noteq> 0 then pu_forced_epoch opts else we_epoch welcome)\<rparr>), s)))"

text \<open>What one round publishes, in order: the type and the encoded payload of each stream.\<close>

definition round_streams :: "nat \<Rightarrow> SyntheticFabric \<Rightarrow> Millis \<Rightarrow> (MessageType \<times> bytes result) list" where
  "round_streams round f at =
     (if round = 0
      then [(MT_Topology, encode_topology_payload (sf_topology f)), (MT_Capacity, encode_capacity_payload (sf_capacity f)),
            (MT_Paths, encode_paths_payload (sf_paths f)), (MT_Policy, Inr (encode_policy_payload (synthetic_policy f at)))]
      else [])
     @ [(MT_Signals, encode_signals_payload (sf_signals f)), (MT_Traffic, encode_traffic_payload (sf_traffic f))]"

text \<open>The lambda \<open>publish\<close>: the stamped frame.\<close>

definition stamped_frame :: "Provenance \<Rightarrow> MessageType \<Rightarrow> bytes \<Rightarrow> u64 \<Rightarrow> u64 \<Rightarrow> Millis \<Rightarrow> Frame" where
  "stamped_frame provenance type body sequence generation at =
     make_frame type (provenance\<lparr>pv_sequence := sequence,
       pv_generation := \<lparr>sg_stream = stream_of type, sg_value = generation\<rparr>, pv_emitted_at := at\<rparr>) body"

text \<open>
  The state of the publishing loop: the next sequence number, the frames sent and the socket. The flag
  is false where \<open>main\<close> returns 1: a payload that cannot be encoded or a frame that cannot be sent.
\<close>

fun publish_streams :: "Provenance \<Rightarrow> u64 \<Rightarrow> Millis \<Rightarrow> (MessageType \<times> bytes result) list \<Rightarrow> u64 \<times> Frame list \<times> Socket
    \<Rightarrow> bool \<times> u64 \<times> Frame list \<times> Socket" where
  "publish_streams provenance generation at [] st = (True, st)"
| "publish_streams provenance generation at ((type, body) # streams) (sequence, published, s) =
     (case body of
        Inl e \<Rightarrow> (False, sequence, published, s)
      | Inr bytes \<Rightarrow>
          let frame = stamped_frame provenance type bytes sequence generation at
          in (case send_frame frame s of
                (Inl e, s) \<Rightarrow> (False, sequence + 1, published, s)
              | (Inr _, s) \<Rightarrow> publish_streams provenance generation at streams (sequence + 1, published @ [frame], s)))"

fun publish_rounds :: "PublisherOptions \<Rightarrow> Provenance \<Rightarrow> (nat \<Rightarrow> Millis) \<Rightarrow> nat list \<Rightarrow> u64 \<times> Frame list \<times> Socket
    \<Rightarrow> bool \<times> u64 \<times> Frame list \<times> Socket" where
  "publish_rounds opts provenance clock [] st = (True, st)"
| "publish_rounds opts provenance clock (round # rounds) st =
     (let at = clock round;
          generation = pu_start_generation opts + word_of_nat round;
          f = rebuild at generation (clamped (pu_synthetic opts))
      in case publish_streams provenance generation at (round_streams round f at) st of
           (False, st) \<Rightarrow> (False, st)
         | (True, st) \<Rightarrow> publish_rounds opts provenance clock rounds st)"

text \<open>\<open>main\<close> on a connected socket: the exit code, the frames published and the socket.\<close>

definition publisher_main :: "PublisherOptions \<Rightarrow> Millis \<Rightarrow> (nat \<Rightarrow> Millis) \<Rightarrow> Socket \<Rightarrow> nat \<times> Frame list \<times> Socket" where
  "publisher_main opts now clock s =
     (case publisher_handshake opts now s of
        (None, s) \<Rightarrow> (1, [], socket_close s)
      | (Some provenance, s) \<Rightarrow>
          let (ok, sequence, published, s) = publish_rounds opts provenance clock [0..<unat (pu_rounds opts)] (1, [], s)
          in (if ok then 0 else 1, published, socket_close s))"

section \<open>The coordinator process\<close>

record CoordinatorOptions =
  ct_name :: string
  ct_host :: string
  ct_port :: u16
  ct_max_connections :: nat
  ct_state_dir :: string
  ct_drop_on_death :: bool
  ct_exit_after :: u64
  ct_evaluate_every :: u64
  ct_spin :: bool

definition coordinator_options :: "string list \<Rightarrow> CoordinatorOptions" where
  "coordinator_options args =
     (let number = (\<lambda>flag text fallback. parse_u64 (arg_value args flag text) fallback)
      in \<lparr>ct_name = arg_value args ''--name'' ''hgm-coordinator'', ct_host = arg_value args ''--host'' ''127.0.0.1'',
          ct_port = ucast (number ''--port'' ''0'' 0), ct_max_connections = unat (number ''--max-connections'' ''32'' 32),
          ct_state_dir = arg_value args ''--state-dir'' [], ct_drop_on_death = has_flag args ''--drop-on-death'',
          ct_exit_after = number ''--exit-after-evals'' ''0'' 0, ct_evaluate_every = number ''--evaluate-every'' ''1'' 1,
          ct_spin = has_flag args ''--spin''\<rparr>)"

definition has_state_dir :: "CoordinatorOptions \<Rightarrow> bool" where
  "has_state_dir opts \<longleftrightarrow> ct_state_dir opts \<noteq> []"

definition tool_governor_config :: "CoordinatorOptions \<Rightarrow> GovernorConfig" where
  "tool_governor_config opts = \<lparr>gc_node_name = ct_name opts, gc_initial_epoch = 0, gc_worker_threads = 2, gc_queue_capacity = 256,
     gc_store = (if has_state_dir opts then Some (kMaxDurableBytes, kMaxJournalRecords) else None),
     gc_drop_evidence_on_publisher_death = ct_drop_on_death opts, gc_max_history = 4096\<rparr>"

text \<open>
  \<open>main\<close> up to the evaluation loop, over the files of the state directory and with what binding the
  listener returns: it exits with 1 where this is an error. The boot is committed before the coordinator
  starts, and the result of that commit is ignored.
\<close>

definition tool_commit :: "CoordinatorOptions \<Rightarrow> Millis \<Rightarrow> Governor \<Rightarrow> Governor" where
  "tool_commit opts now g = (if has_state_dir opts then snd (commit_durable now g) else g)"

definition tool_boot :: "nat \<Rightarrow> nat \<Rightarrow> Disk \<Rightarrow> Millis \<Rightarrow> unit result \<Rightarrow> CoordinatorOptions \<Rightarrow> Coordinator result" where
  "tool_boot pid counter disk now bound opts =
     (case governor_recover pid counter disk now (new_governor (tool_governor_config opts)) of
        (Inl e, g) \<Rightarrow> Inl e
      | (Inr _, g) \<Rightarrow>
          (case coordinator_start bound (new_coordinator (ct_max_connections opts) (tool_commit opts now g)) of
             (Inl e, w) \<Rightarrow> Inl e
           | (Inr _, w) \<Rightarrow> Inr w))"

text \<open>
  The evaluation loop: the frames admitted at the last evaluation and the number of evaluations.
  \<open>waits_over\<close> is the condition \<open>wait_for_admissions\<close> waits for; an iteration reads the counters after it.
\<close>

record ToolLoop =
  tl_last_admitted :: u64
  tl_evaluations :: u64

definition loop_start :: ToolLoop where
  "loop_start = \<lparr>tl_last_admitted = 0, tl_evaluations = 0\<rparr>"

definition exits :: "CoordinatorOptions \<Rightarrow> u64 \<Rightarrow> bool" where
  "exits opts evaluations \<longleftrightarrow> ct_exit_after opts \<noteq> 0 \<and> evaluations \<ge> ct_exit_after opts"

definition tool_iteration :: "CoordinatorOptions \<Rightarrow> Millis \<Rightarrow> ToolLoop \<Rightarrow> Coordinator
    \<Rightarrow> LoopControl \<times> Decision option \<times> ToolLoop \<times> Coordinator" where
  "tool_iteration opts at st w =
     (let admitted = co_frames_admitted w
      in if admitted \<le> tl_last_admitted st \<and> \<not> ct_spin opts \<and> admitted = 0 \<and> co_connections_accepted w = 0
         then (Loop_continue, None, st, w)
         else if admitted = tl_last_admitted st
         then (if exits opts (tl_evaluations st) then Loop_break else Loop_continue, None, st, w)
         else let (d, g) = evaluate at (co_governor w);
                  evaluations = tl_evaluations st + 1
              in (if exits opts evaluations then Loop_break else Loop_continue, Some d,
                  \<lparr>tl_last_admitted = admitted, tl_evaluations = evaluations\<rparr>, w\<lparr>co_governor := g\<rparr>))"

text \<open>After the loop: a last commit, and the coordinator is stopped.\<close>

definition tool_finish :: "CoordinatorOptions \<Rightarrow> Millis \<Rightarrow> Coordinator \<Rightarrow> Coordinator" where
  "tool_finish opts now w = coordinator_stop (w\<lparr>co_governor := tool_commit opts now (co_governor w)\<rparr>)"

text \<open>
  Runs of the process: its main thread between the steps of the coordinator's own threads, with the
  inputs of its evaluations, the latest first, and whether the loop has ended.
\<close>

inductive tool_run :: "CoordinatorOptions \<Rightarrow> Coordinator \<Rightarrow> ToolLoop \<Rightarrow> DecisionInput list \<Rightarrow> bool \<Rightarrow> bool" for opts where
  tool_boots: "tool_boot pid counter disk now bound opts = Inr w \<Longrightarrow> tool_run opts w loop_start [] False"
| tool_serves: "tool_run opts w st inps ended \<Longrightarrow> tool_run opts (serve detail now died i w) st inps ended"
| tool_accepts: "tool_run opts w st inps ended \<Longrightarrow> tool_run opts (snd (accept_iteration accepted w)) st inps ended"
| tool_iterates: "tool_run opts w st inps False \<Longrightarrow> waits_over (tl_last_admitted st + ct_evaluate_every opts) w \<Longrightarrow>
    at \<noteq> kNoTime \<Longrightarrow> millis_ok at \<Longrightarrow> tool_iteration opts at st w = (control, d, st', w') \<Longrightarrow>
    tool_run opts w' st' (if d = None then inps else evaluation_input at (co_governor w) # inps) (control = Loop_break)"
| tool_finishes: "tool_run opts w st inps True \<Longrightarrow> tool_run opts (tool_finish opts now w) st inps True"

section \<open>The demonstration\<close>

record DemoOptions =
  dm_config :: SyntheticConfig
  dm_global :: bool
  dm_stale :: bool
  dm_evaluations :: u32

definition default_demo :: DemoOptions where
  "default_demo = \<lparr>dm_config = default_synthetic, dm_global = False, dm_stale = False, dm_evaluations = 4\<rparr>"

definition demo_governor_config :: GovernorConfig where
  "demo_governor_config = \<lparr>gc_node_name = ''hgm-cli'', gc_initial_epoch = 0, gc_worker_threads = 2, gc_queue_capacity = 256,
     gc_store = None, gc_drop_evidence_on_publisher_death = False, gc_max_history = 4096\<rparr>"

definition demo_hello :: HelloPayload where
  "demo_hello = \<lparr>he_publisher = identity_from_bytes ''cli-publisher'', he_incarnation = 1, he_boot = 2,
     he_protocol_version = kFrameProtocolVersion, he_name = ''cli''\<rparr>"

text \<open>What the lambda \<open>publish\<close> stamps on the frames of the publisher that said hello.\<close>

definition session_provenance :: "HelloPayload \<Rightarrow> CoordinatorEpoch \<Rightarrow> Provenance" where
  "session_provenance hello epoch = no_provenance\<lparr>pv_publisher := he_publisher hello, pv_incarnation := he_incarnation hello,
     pv_boot := he_boot hello, pv_epoch := epoch\<rparr>"

text \<open>What one round publishes: every stream, each with the generation of the round.\<close>

definition demo_streams :: "SyntheticFabric \<Rightarrow> Millis \<Rightarrow> (MessageType \<times> bytes result) list" where
  "demo_streams f now =
     [(MT_Topology, encode_topology_payload (sf_topology f)), (MT_Capacity, encode_capacity_payload (sf_capacity f)),
      (MT_Paths, encode_paths_payload (sf_paths f)), (MT_Policy, Inr (encode_policy_payload (synthetic_policy f now))),
      (MT_Signals, encode_signals_payload (sf_signals f)), (MT_Traffic, encode_traffic_payload (sf_traffic f))]"

fun demo_publish :: "HelloPayload \<Rightarrow> CoordinatorEpoch \<Rightarrow> u64 \<Rightarrow> Millis \<Rightarrow> (MessageType \<times> bytes result) list \<Rightarrow> u64 \<times> Governor
    \<Rightarrow> bool \<times> u64 \<times> Governor" where
  "demo_publish hello epoch generation now [] st = (True, st)"
| "demo_publish hello epoch generation now ((type, payload) # streams) (sequence, g) =
     (case payload of
        Inl e \<Rightarrow> (False, sequence, g)
      | Inr bytes \<Rightarrow>
          (case admit (stamped_frame (session_provenance hello epoch) type bytes sequence generation now) now g of
             (Inl e, g) \<Rightarrow> (False, sequence + 1, g)
           | (Inr _, g) \<Rightarrow> demo_publish hello epoch generation now streams (sequence + 1, g)))"

text \<open>The rounds from the given one on: false where \<open>run_demo\<close> returns 1, the decisions and the governor.\<close>

fun demo_rounds :: "SyntheticConfig \<Rightarrow> CoordinatorEpoch \<Rightarrow> nat list \<Rightarrow> u64 \<times> Governor \<Rightarrow> bool \<times> Decision list \<times> Governor" where
  "demo_rounds cfg epoch [] (sequence, g) = (True, [], g)"
| "demo_rounds cfg epoch (round # rounds) (sequence, g) =
     (let now = sy_base_time cfg + int round * 1000;
          generation = 10 + word_of_nat round;
          f = rebuild now generation (clamped cfg)
      in case demo_publish demo_hello epoch generation now (demo_streams f now) (sequence, g) of
           (False, sequence, g) \<Rightarrow> (False, [], g)
         | (True, sequence, g) \<Rightarrow>
             let (d, g) = evaluate (now + 1) g;
                 (ok, ds, g) = demo_rounds cfg epoch rounds (sequence, g)
             in (ok, d # ds, g))"

definition run_demo :: "DemoOptions \<Rightarrow> nat \<times> Decision list \<times> Governor" where
  "run_demo opts =
     (let base = sy_base_time (dm_config opts)
      in case install_epoch 1 1 base (new_governor demo_governor_config) of
           (Inl e, g) \<Rightarrow> (1, [], g)
         | (Inr _, g) \<Rightarrow>
             (case register_publisher demo_hello base g of
                (Inl e, g) \<Rightarrow> (1, [], g)
              | (Inr welcome, g) \<Rightarrow>
                  let (ok, ds, g) = demo_rounds (dm_config opts) (we_epoch welcome) [0..<unat (dm_evaluations opts)] (1, g)
                  in (if ok then 0 else 1, ds, g)))"

text \<open>
  The options of \<open>hgm_cli demo\<close>: a flag with a value takes the next argument when there is one.
\<close>

fun demo_options :: "string list \<Rightarrow> DemoOptions \<Rightarrow> DemoOptions option" where
  "demo_options [] opts = Some opts"
| "demo_options (flag # args) opts =
     (let cfg = dm_config opts;
          value = (\<lambda>fallback. case args of a # _ \<Rightarrow> parse_u32 a fallback | [] \<Rightarrow> fallback);
          rest = tl args
      in if flag = ''--regions'' then demo_options rest (opts\<lparr>dm_config := cfg\<lparr>sy_region_count := value (sy_region_count cfg)\<rparr>\<rparr>)
         else if flag = ''--resources''
         then demo_options rest (opts\<lparr>dm_config := cfg\<lparr>sy_resources_per_region := value (sy_resources_per_region cfg)\<rparr>\<rparr>)
         else if flag = ''--hotspots'' then demo_options rest (opts\<lparr>dm_config := cfg\<lparr>sy_hotspot_count := value (sy_hotspot_count cfg)\<rparr>\<rparr>)
         else if flag = ''--fan-in'' then demo_options rest (opts\<lparr>dm_config := cfg\<lparr>sy_path_fan_in := value (sy_path_fan_in cfg)\<rparr>\<rparr>)
         else if flag = ''--seed'' then demo_options rest (opts\<lparr>dm_config := cfg\<lparr>sy_seed := ucast (value (ucast (sy_seed cfg)))\<rparr>\<rparr>)
         else if flag = ''--global'' then demo_options args (opts\<lparr>dm_global := True, dm_config := cfg\<lparr>sy_global_congestion := True\<rparr>\<rparr>)
         else if flag = ''--stale'' then demo_options args (opts\<lparr>dm_stale := True, dm_config := cfg\<lparr>sy_stale_evidence := True\<rparr>\<rparr>)
         else None)"

text \<open>\<open>main\<close> of \<open>hgm_cli\<close>: the exit code.\<close>

definition cli_main :: "string list \<Rightarrow> nat" where
  "cli_main args =
     (case args of
        [] \<Rightarrow> 0
      | command # rest \<Rightarrow>
          if command = ''version'' then 0
          else if command = ''selfcheck''
          then fst (run_demo (default_demo\<lparr>dm_config := default_synthetic\<lparr>sy_region_count := 4, sy_resources_per_region := 6,
                 sy_hotspot_count := 1, sy_path_fan_in := 3\<rparr>, dm_evaluations := 4\<rparr>))
          else if command = ''demo''
          then (case demo_options rest default_demo of None \<Rightarrow> 2 | Some opts \<Rightarrow> fst (run_demo opts))
          else 2)"

end
