(* ===== verification/HGM_Demo.thy ===== *)
theory HGM_Demo
  imports HGM_Tools
begin

text \<open>
  What the tools achieve: the demonstration run of \<^verbatim>\<open>hgm_cli\<close> completes with one decision per round on the
  evidence of that round; the frames of \<^verbatim>\<open>hgm_publisher\<close> carry consecutive sequence numbers of one
  session; every run of \<^verbatim>\<open>hgm_coordinator\<close> is a run of the system, with as many evaluations as it counts.
\<close>

section \<open>Installing what a fabric encodes\<close>

text \<open>The snapshots with the one of a message type replaced by that of the fabric.\<close>

definition put_evidence :: "SyntheticFabric \<Rightarrow> Millis \<Rightarrow> MessageType \<Rightarrow> Provenance \<Rightarrow> Snapshots \<Rightarrow> Snapshots" where
  "put_evidence f now k prov s =
     (case k of
        MT_Topology \<Rightarrow> s\<lparr>sn_topology := Some ((sf_topology f)\<lparr>tp_provenance := prov\<rparr>)\<rparr>
      | MT_Capacity \<Rightarrow> s\<lparr>sn_capacity := Some ((sf_capacity f)\<lparr>cs_provenance := prov\<rparr>)\<rparr>
      | MT_Signals \<Rightarrow> s\<lparr>sn_signals := Some ((sf_signals f)\<lparr>ss_provenance := prov\<rparr>)\<rparr>
      | MT_Paths \<Rightarrow> s\<lparr>sn_paths := Some ((sf_paths f)\<lparr>ps_provenance := prov\<rparr>)\<rparr>
      | MT_Traffic \<Rightarrow> s\<lparr>sn_traffic := Some ((sf_traffic f)\<lparr>ts_provenance := prov\<rparr>)\<rparr>
      | MT_Policy \<Rightarrow> s\<lparr>sn_policy := Some ((synthetic_policy f now)\<lparr>po_provenance := prov\<rparr>)\<rparr>
      | _ \<Rightarrow> s)"

text \<open>The times and the quality that the wire can carry.\<close>

definition config_ok :: "SyntheticConfig \<Rightarrow> bool" where
  "config_ok cfg \<longleftrightarrow> tq_ok (sy_quality cfg) \<and> \<bar>sy_base_time cfg\<bar> \<le> 2 ^ 62"

lemma times_ok:
  assumes "\<bar>now\<bar> \<le> 2 ^ 62 + 2 ^ 43"
  shows "millis_ok (now - 1000)" "millis_ok (now + 60000)" "millis_ok now" "millis_ok (now - 100)" "millis_ok (observed_at cfg now)"
    "millis_ok (now - uint (sy_traffic_age_ms cfg))"
proof -
  define e r where "e = uint (sy_evidence_age_ms cfg)" and "r = uint (sy_traffic_age_ms cfg)"
  have "0 \<le> e" "e < 2 ^ 32" "0 \<le> r" "r < 2 ^ 32" using uint_lt2p [of "sy_evidence_age_ms cfg"] uint_lt2p [of "sy_traffic_age_ms cfg"] by (simp_all add: e_def r_def)
  then show "millis_ok (now - 1000)" "millis_ok (now + 60000)" "millis_ok now" "millis_ok (now - 100)" "millis_ok (observed_at cfg now)"
    "millis_ok (now - uint (sy_traffic_age_ms cfg))"
    using assms by (auto simp: millis_ok_def kNoTime_def kMaxTime_def observed_at_def abs_le_iff simp flip: e_def r_def)
qed

text \<open>Every stream of a fabric is encoded, and installing the frame puts exactly that snapshot in place.\<close>

definition installs :: "SyntheticFabric \<Rightarrow> Millis \<Rightarrow> u64 \<Rightarrow> MessageType \<Rightarrow> bytes \<Rightarrow> bool" where
  "installs f now generation k bs \<longleftrightarrow>
     (\<forall>frame s. fr_payload frame = bs \<longrightarrow> fh_type (fr_header frame) = k \<longrightarrow>
        (\<forall>t. sn_topology s = Some t \<longrightarrow> k = MT_Topology \<longrightarrow> tp_generation t < generation) \<longrightarrow>
        (\<exists>n. install_payload frame s = Inr (n, put_evidence f now k (frame_provenance (fr_header frame)) s)))"

lemma installs_intro:
  "decode_topology_payload bs = Inr ((sf_topology f)\<lparr>tp_provenance := no_provenance\<rparr>) \<Longrightarrow> tp_generation (sf_topology f) = generation \<Longrightarrow>
     installs f now generation MT_Topology bs"
  "decode_capacity_payload bs = Inr ((sf_capacity f)\<lparr>cs_provenance := no_provenance\<rparr>) \<Longrightarrow> installs f now generation MT_Capacity bs"
  "decode_signals_payload bs = Inr ((sf_signals f)\<lparr>ss_provenance := no_provenance\<rparr>) \<Longrightarrow> installs f now generation MT_Signals bs"
  "decode_paths_payload bs = Inr ((sf_paths f)\<lparr>ps_provenance := no_provenance\<rparr>) \<Longrightarrow> installs f now generation MT_Paths bs"
  "decode_traffic_payload bs = Inr ((sf_traffic f)\<lparr>ts_provenance := no_provenance\<rparr>) \<Longrightarrow> installs f now generation MT_Traffic bs"
  "decode_policy_payload bs = Inr ((synthetic_policy f now)\<lparr>po_provenance := no_provenance\<rparr>) \<Longrightarrow> installs f now generation MT_Policy bs"
  by (simp_all add: installs_def install_payload_def put_evidence_def Let_def guard_def split: option.split)

lemma topology_encodes:
  assumes f: "f = rebuild now generation cfg" and ok: "sf_build_status f = Inr ()" and now: "\<bar>now\<bar> \<le> 2 ^ 62 + 2 ^ 43"
  shows "\<exists>bs. encode_topology_payload (sf_topology f) = Inr bs \<and> installs f now generation MT_Topology bs"
proof -
  have b: "build_topology (make_topology cfg now generation) = Inr (sf_topology f)" using rebuild_ok [OF f ok] by blast
  note meta = build_topology_meta [OF b] and gen = rebuild_generations [OF f ok, unfolded fabric_generations_def]
  have "\<forall>r \<in> set (tp_resources (sf_topology f)). rk_ok (rs_kind r)"
    using make_topology_fields(6) [of _ cfg now generation] build_topology_wf(3) [OF b] by (fastforce simp: rk_ok_def rk_of_def)
  moreover have "sf_topology f = (sf_topology f)\<lparr>tp_generation := generation, tp_valid_from := now - 1000, tp_valid_until := now + 60000,
      tp_provenance := tp_provenance (sf_topology f)\<rparr>"
    using meta gen make_topology_fields(4,5) [of cfg now generation] by (cases "sf_topology f") simp
  ultimately obtain bs where "encode_topology_payload (sf_topology f) = Inr bs"
    "decode_topology_payload bs = Inr ((sf_topology f)\<lparr>tp_provenance := no_provenance\<rparr>)"
    using topology_roundtrip [OF b _ times_ok(1,2) [OF now]] by blast
  then show ?thesis using gen by (blast intro: installs_intro)
qed

lemma capacity_encodes:
  assumes f: "f = rebuild now generation cfg" and ok: "sf_build_status f = Inr ()" and now: "\<bar>now\<bar> \<le> 2 ^ 62 + 2 ^ 43"
  shows "\<exists>bs. encode_capacity_payload (sf_capacity f) = Inr bs \<and> installs f now generation MT_Capacity bs"
proof -
  have b: "build_capacity (make_capacity cfg now generation) = Inr (sf_capacity f)" using rebuild_ok [OF f ok] by blast
  have "cs_observed_at (sf_capacity f) = now" using build_evidence_meta(1) [OF b] by (simp add: make_capacity_def)
  then obtain bs where "encode_capacity_payload (sf_capacity f) = Inr bs"
    "decode_capacity_payload bs = Inr ((sf_capacity f)\<lparr>cs_provenance := no_provenance\<rparr>)"
    using capacity_roundtrip [OF b, where s = "sf_capacity f" and g = "cs_generation (sf_capacity f)" and
        tg = "cs_topology_generation (sf_capacity f)" and at = now and p = "cs_provenance (sf_capacity f)"] times_ok(3) [OF now] by auto
  then show ?thesis by (blast intro: installs_intro)
qed

lemma signals_encodes:
  assumes f: "f = rebuild now generation cfg" and ok: "sf_build_status f = Inr ()" and now: "\<bar>now\<bar> \<le> 2 ^ 62 + 2 ^ 43"
    and q: "tq_ok (sy_quality cfg)"
  shows "\<exists>bs. encode_signals_payload (sf_signals f) = Inr bs \<and> installs f now generation MT_Signals bs"
proof -
  have b: "build_signals (make_signals cfg now generation) = Inr (sf_signals f)" using rebuild_ok [OF f ok] by blast
  note t = times_ok [OF now]
  have "\<forall>r \<in> set (ss_records (sf_signals f)). tq_ok (sr_quality r) \<and> millis_ok (sr_observed_at r)"
    using build_signals_wf(2) [OF b] q t(5) [of cfg]
    by (auto simp: make_signals_def fold_add_entries empty_signals_def signal_record_def Let_def)
  moreover have "ss_window_start (sf_signals f) = now - 1000" "ss_window_end (sf_signals f) = observed_at cfg now"
    using build_evidence_meta(2) [OF b] by (simp_all add: make_signals_def)
  ultimately obtain bs where "encode_signals_payload (sf_signals f) = Inr bs"
    "decode_signals_payload bs = Inr ((sf_signals f)\<lparr>ss_provenance := no_provenance\<rparr>)"
    using signals_roundtrip [OF b _ t(1) t(5) [of cfg], where s = "sf_signals f" and g = "ss_generation (sf_signals f)" and
        tg = "ss_topology_generation (sf_signals f)" and cg = "ss_capacity_generation (sf_signals f)" and p = "ss_provenance (sf_signals f)"] by auto
  then show ?thesis by (blast intro: installs_intro)
qed

lemma paths_encodes:
  assumes f: "f = rebuild now generation cfg" and ok: "sf_build_status f = Inr ()" and now: "\<bar>now\<bar> \<le> 2 ^ 62 + 2 ^ 43"
  shows "\<exists>bs. encode_paths_payload (sf_paths f) = Inr bs \<and> installs f now generation MT_Paths bs"
proof -
  obtain records where b: "build_paths (make_paths now generation records) = Inr (sf_paths f)" using rebuild_ok [OF f ok] by blast
  have "ps_observed_at (sf_paths f) = now" using build_evidence_meta(3) [OF b] by (simp add: make_paths_def)
  then obtain bs where "encode_paths_payload (sf_paths f) = Inr bs"
    "decode_paths_payload bs = Inr ((sf_paths f)\<lparr>ps_provenance := no_provenance\<rparr>)"
    using paths_roundtrip [OF b times_ok(3) [OF now], where s = "sf_paths f" and g = "ps_generation (sf_paths f)" and
        tg = "ps_topology_generation (sf_paths f)" and p = "ps_provenance (sf_paths f)"] by auto
  then show ?thesis by (blast intro: installs_intro)
qed

lemma traffic_encodes:
  assumes f: "f = rebuild now generation cfg" and ok: "sf_build_status f = Inr ()" and now: "\<bar>now\<bar> \<le> 2 ^ 62 + 2 ^ 43"
  shows "\<exists>bs. encode_traffic_payload (sf_traffic f) = Inr bs \<and> installs f now generation MT_Traffic bs"
proof -
  obtain demands where b: "build_traffic (make_traffic cfg now generation (sf_paths f) demands) = Inr (sf_traffic f)"
    using rebuild_ok [OF f ok] by blast
  have "\<forall>r \<in> set (ts_records (sf_traffic f)). tq_ok (tr_quality r) \<and> millis_ok (tr_observed_at r)"
    using build_traffic_wf(2) [OF b] times_ok(6) [OF now, of cfg]
    by (auto simp: make_traffic_def fold_add_entries empty_traffic_def case_prod_unfold tq_ok_def tq_of_def)
  then obtain bs where "encode_traffic_payload (sf_traffic f) = Inr bs"
    "decode_traffic_payload bs = Inr ((sf_traffic f)\<lparr>ts_provenance := no_provenance\<rparr>)"
    using traffic_roundtrip [OF b, where s = "sf_traffic f" and g = "ts_generation (sf_traffic f)" and
        pg = "ts_path_generation (sf_traffic f)" and p = "ts_provenance (sf_traffic f)"] by auto
  then show ?thesis by (blast intro: installs_intro)
qed

lemma policy_encodes:
  assumes "\<bar>now\<bar> \<le> 2 ^ 62 + 2 ^ 43"
  shows "installs f now generation MT_Policy (encode_policy_payload (synthetic_policy f now))"
  using policy_roundtrip [of "synthetic_policy f now"] times_ok(4) [OF assms] by (intro installs_intro) (simp add: synthetic_policy_def)

section \<open>Evidence over one set of resources\<close>

definition evidence_over :: "ResourceId set \<Rightarrow> Snapshots \<Rightarrow> bool" where
  "evidence_over R s \<longleftrightarrow>
     (\<forall>t. sn_topology s = Some t \<longrightarrow> topology_wf t \<and> (\<forall>i. has_resource t i \<longleftrightarrow> i \<in> R)) \<and>
     (\<forall>c. sn_capacity s = Some c \<longrightarrow> capacity_wf c \<and> (\<forall>e \<in> set (cs_entries c). cap_resource e \<in> R)) \<and>
     (\<forall>x. sn_signals s = Some x \<longrightarrow> signals_wf x \<and> (\<forall>r \<in> set (ss_records x). sr_resource r \<in> R)) \<and>
     (\<forall>p. sn_paths s = Some p \<longrightarrow> (\<forall>path \<in> set (ps_paths p). \<forall>hop \<in> set (pr_hops path). hop \<in> R))"

lemma evidence_over_resolves:
  assumes "evidence_over R s"
  shows "verify_references s = Inr ()"
proof (cases "sn_topology s")
  case (Some t)
  then have t: "topology_wf t" "\<And>i. has_resource t i \<longleftrightarrow> i \<in> R" using assms by (auto simp: evidence_over_def)
  have "\<forall>c. sn_capacity s = Some c \<longrightarrow> capacity_resolves t c" "\<forall>x. sn_signals s = Some x \<longrightarrow> signals_resolve t x"
    "\<forall>p. sn_paths s = Some p \<longrightarrow> paths_resolve t p"
    using assms t capacity_resolves_iff [OF t(1)] signals_resolve_iff [OF t(1)] by (auto simp: evidence_over_def paths_resolve_def)
  then show ?thesis by (auto simp: verify_references_def Some guard_def split: option.splits)
qed (simp add: verify_references_def)

lemma evidence_over_put:
  assumes f: "f = rebuild now generation cfg" and ok: "sf_build_status f = Inr ()" and s: "evidence_over (set (all_resources cfg)) s"
  shows "evidence_over (set (all_resources cfg)) (put_evidence f now k prov s)"
proof -
  note r = rebuild_resolves [OF f ok]
  have "has_resource (t\<lparr>tp_provenance := p\<rparr>) i = has_resource t i" for t p i by (simp add: has_resource_def find_resource_def)
  moreover have "capacity_wf (c\<lparr>cs_provenance := p\<rparr>) = capacity_wf c" "signals_wf (x\<lparr>ss_provenance := p\<rparr>) = signals_wf x" for c x p
    by (simp_all add: capacity_wf_def signals_wf_def)
  moreover have "\<forall>x \<in> set (ss_records (sf_signals f)). sr_resource x \<in> set (all_resources cfg)"
    using r(6,8) signals_resolve_iff [OF r(1,3)] by simp
  moreover have "\<forall>path \<in> set (ps_paths (sf_paths f)). \<forall>hop \<in> set (pr_hops path). hop \<in> set (all_resources cfg)"
    using r(6,9) by (simp add: paths_resolve_def)
  moreover have "\<forall>e \<in> set (cs_entries (sf_capacity f)). cap_resource e \<in> set (all_resources cfg)" using r(10) by blast
  ultimately show ?thesis using s r(1-3,6) by (cases k) (simp_all add: put_evidence_def evidence_over_def)
qed

section \<open>One publication\<close>

text \<open>
  A governor with one publisher, the one that said hello: with the sequence numbers below \<open>n\<close> used, the
  installed epoch and the evidence.
\<close>

definition session_state :: "HelloPayload \<Rightarrow> nat \<Rightarrow> u64 list \<Rightarrow> Snapshots \<Rightarrow> Governor \<Rightarrow> bool" where
  "session_state hello n gens s g \<longleftrightarrow> governor_reachable g \<and> gv_epoch g = 1 \<and> gv_snapshots g = s \<and>
     (\<exists>p. gv_publishers g = [p] \<and> pb_id p = he_publisher hello \<and> pb_incarnation p = he_incarnation hello \<and> pb_boot p = he_boot hello \<and> pb_epoch p = 1 \<and>
        pb_alive p \<and> unat (pb_last_sequence p) < n \<and> pb_stream_generations p = gens)"

lemma stamped_frame_header:
  "fr_payload (stamped_frame prov k bs sq gen at) = bs" "fh_type (fr_header (stamped_frame prov k bs sq gen at)) = k"
  "fh_epoch (fr_header (stamped_frame prov k bs sq gen at)) = pv_epoch prov"
  "fh_publisher (fr_header (stamped_frame prov k bs sq gen at)) = pv_publisher prov"
  "fh_incarnation (fr_header (stamped_frame prov k bs sq gen at)) = pv_incarnation prov"
  "fh_boot (fr_header (stamped_frame prov k bs sq gen at)) = pv_boot prov"
  "fh_sequence (fr_header (stamped_frame prov k bs sq gen at)) = sq"
  "fh_generation (fr_header (stamped_frame prov k bs sq gen at)) = gen"
  by (simp_all add: stamped_frame_def make_frame_def)

lemma stamped_frame_verifies:
  assumes "length bs \<le> kMaxFrameBytes"
  shows "verify_payload (fr_header (stamped_frame prov k bs sq gen at)) bs = Inr ()"
proof -
  have "length bs < 2 ^ 32" using assms by (simp add: kMaxFrameBytes_def)
  then show ?thesis using assms by (simp add: verify_payload_def stamped_frame_def make_frame_def unat_length32)
qed

lemma demo_admits:
  assumes g: "session_state hello n gens s g" and n: "n < 2 ^ 63" and k: "stream_of k \<noteq> Stream_Unknown"
    and gen: "gens ! stream_index (stream_of k) < generation" and len: "length bs \<le> kMaxFrameBytes"
    and i: "installs f now generation k bs" and live: "\<forall>t. sn_topology s = Some t \<longrightarrow> k = MT_Topology \<longrightarrow> tp_generation t < generation"
    and R: "\<And>prov. evidence_over R (put_evidence f now k prov s)"
  shows "\<exists>rep g' prov. admit (stamped_frame (session_provenance hello 1) k bs (word_of_nat n) generation now) now g = (Inr rep, g') \<and>
    session_state hello (Suc n) (gens[stream_index (stream_of k) := generation]) (put_evidence f now k prov s) g'"
proof -
  let ?f = "stamped_frame (session_provenance hello 1) k bs (word_of_nat n) generation now"
  obtain p where p: "gv_publishers g = [p]" "pb_id p = he_publisher hello" "pb_incarnation p = he_incarnation hello" "pb_boot p = he_boot hello" "pb_epoch p = 1"
    "pb_alive p" "unat (pb_last_sequence p) < n" "pb_stream_generations p = gens"
    and e: "governor_reachable g" "gv_epoch g = 1" "gv_snapshots g = s" using g by (auto simp: session_state_def)
  have sq: "unat (word_of_nat n :: u64) = n" using n by (simp add: unsigned_of_nat take_bit_nat_eq_self)
  then have "pb_last_sequence p < word_of_nat n" using p(7) by (simp add: word_less_nat_alt)
  then have auth: "frame_authorised (fr_header ?f) g p"
    using k gen p e by (simp add: frame_authorised_def stamped_frame_header session_provenance_def valid_id_def
        find_publisher_def find_sorted_def lower_bound_def)
  obtain m where m: "install_payload ?f s = Inr (m, put_evidence f now k (frame_provenance (fr_header ?f)) s)"
    using i live by (fastforce simp: installs_def stamped_frame_header)
  then have m': "install_payload ?f (gv_snapshots g) = Inr (m, put_evidence f now k (frame_provenance (fr_header ?f)) s)" by (simp add: e(3))
  have h: "fh_type (fr_header ?f) \<noteq> MT_Heartbeat" using k by (auto simp: stamped_frame_header stream_of_def)
  have v: "verify_payload (fr_header ?f) (fr_payload ?f) = Inr ()" using stamped_frame_verifies [OF len] by (simp add: stamped_frame_header)
  obtain rep g' where a: "admit ?f now g = (Inr rep, g')" "gv_snapshots g' = put_evidence f now k (frame_provenance (fr_header ?f)) s"
    "gv_epoch g' = gv_epoch g" "gv_publishers g' = set_publisher (advanced (fr_header ?f) now p) (gv_publishers g)"
    using authorised_frame_admitted [OF governor_reachable_ok [OF e(1)] auth h v m' evidence_over_resolves [OF R]] by metis
  have "governor_reachable g'" using steps [OF e(1) step_admit [OF a(1)]] .
  then have "session_state hello (Suc n) (gens[stream_index (stream_of k) := generation]) (put_evidence f now k (frame_provenance (fr_header ?f)) s) g'"
    using a(2-4) e p sq by (auto simp: session_state_def set_publisher_def lower_bound_def advanced_def stamped_frame_header)
  then show ?thesis using a(1) by blast
qed

section \<open>One round\<close>

abbreviation stream_slot :: "MessageType \<Rightarrow> nat" where
  "stream_slot k \<equiv> stream_index (stream_of k)"

definition puts :: "SyntheticFabric \<Rightarrow> Millis \<Rightarrow> (MessageType \<times> Provenance) list \<Rightarrow> Snapshots \<Rightarrow> Snapshots" where
  "puts f now kps s = fold (\<lambda>(k, prov). put_evidence f now k prov) kps s"

lemma put_topology: "k \<noteq> MT_Topology \<Longrightarrow> sn_topology (put_evidence f now k prov s) = sn_topology s"
  by (cases k) (simp_all add: put_evidence_def)

lemma demo_publishes:
  assumes "session_state hello n gens s g" and "n + length streams < 2 ^ 63" and "distinct (map (stream_slot \<circ> fst) streams)"
    and "\<forall>(k, b) \<in> set streams. stream_of k \<noteq> Stream_Unknown \<and> gens ! stream_slot k < generation \<and>
           (\<exists>bs. b = Inr bs \<and> length bs \<le> kMaxFrameBytes \<and> installs f now generation k bs)"
    and "\<forall>t. sn_topology s = Some t \<longrightarrow> MT_Topology \<in> fst ` set streams \<longrightarrow> tp_generation t < generation"
    and "evidence_over R s" and R: "\<And>k prov s. evidence_over R s \<Longrightarrow> evidence_over R (put_evidence f now k prov s)"
  shows "\<exists>g' provs. demo_publish hello 1 generation now streams (word_of_nat n, g) = (True, word_of_nat (n + length streams), g') \<and>
     length provs = length streams \<and>
     session_state hello (n + length streams) (fold (\<lambda>k gs. gs[stream_slot k := generation]) (map fst streams) gens)
       (puts f now (zip (map fst streams) provs) s) g'"
  using assms(1-6)
proof (induction streams arbitrary: n gens s g)
  case Nil
  then show ?case by (auto simp: puts_def)
next
  case (Cons kb streams)
  obtain k b where kb: "kb = (k, b)" by fastforce
  from Cons.prems(4) kb obtain bs where k: "stream_of k \<noteq> Stream_Unknown" "gens ! stream_slot k < generation" "b = Inr bs"
    "length bs \<le> kMaxFrameBytes" "installs f now generation k bs" by auto
  obtain rep g1 prov where a: "admit (stamped_frame (session_provenance hello 1) k bs (word_of_nat n) generation now) now g = (Inr rep, g1)"
    and g1: "session_state hello (Suc n) (gens[stream_slot k := generation]) (put_evidence f now k prov s) g1"
    using demo_admits [OF Cons.prems(1) _ k(1,2,4,5), of R] Cons.prems(2,5) R [OF Cons.prems(6)] kb by auto
  have other: "stream_slot k' \<noteq> stream_slot k" if "(k', b') \<in> set streams" for k' b' using Cons.prems(3) kb that by force
  have same: "gens[stream_slot k := generation] ! stream_slot k' = gens ! stream_slot k'" if "(k', b') \<in> set streams" for k' b'
    using other [OF that] by simp
  have each: "stream_of k' \<noteq> Stream_Unknown \<and> gens[stream_slot k := generation] ! stream_slot k' < generation \<and>
      (\<exists>bs. b' = Inr bs \<and> length bs \<le> kMaxFrameBytes \<and> installs f now generation k' bs)" if "(k', b') \<in> set streams" for k' b'
    unfolding same [OF that] using Cons.prems(4) that by auto
  have rest: "\<forall>(k', b') \<in> set streams. stream_of k' \<noteq> Stream_Unknown \<and> gens[stream_slot k := generation] ! stream_slot k' < generation \<and>
      (\<exists>bs. b' = Inr bs \<and> length bs \<le> kMaxFrameBytes \<and> installs f now generation k' bs)"
    using each by blast
  have live: "\<forall>t. sn_topology (put_evidence f now k prov s) = Some t \<longrightarrow> MT_Topology \<in> fst ` set streams \<longrightarrow> tp_generation t < generation"
  proof (cases "k = MT_Topology")
    case True
    then have "MT_Topology \<notin> fst ` set streams" using other by force
    then show ?thesis by simp
  next
    case False
    then show ?thesis using Cons.prems(5) by (simp add: put_topology)
  qed
  obtain g' provs where "demo_publish hello 1 generation now streams (word_of_nat (Suc n), g1) = (True, word_of_nat (Suc n + length streams), g')"
    "length provs = length streams"
    "session_state hello (Suc n + length streams) (fold (\<lambda>k gs. gs[stream_slot k := generation]) (map fst streams) (gens[stream_slot k := generation]))
       (puts f now (zip (map fst streams) provs) (put_evidence f now k prov s)) g'"
    using Cons.IH [OF g1 _ _ rest live R [OF Cons.prems(6)]] Cons.prems(2,3) by auto
  then show ?case using a k(3) kb
    by (intro exI [of _ g'] exI [of _ "prov # provs"]) (simp add: puts_def add.commute)
qed

text \<open>The fabric of a round, and what the run asks of it: it builds and its payloads fit a frame.\<close>

definition fabric_fits :: "Millis \<Rightarrow> u64 \<Rightarrow> SyntheticConfig \<Rightarrow> bool" where
  "fabric_fits now generation cfg \<longleftrightarrow>
     (let f = rebuild now generation (clamped cfg)
      in sf_build_status f = Inr () \<and> (\<forall>k bs. (k, Inr bs) \<in> set (demo_streams f now) \<longrightarrow> length bs \<le> kMaxFrameBytes))"

text \<open>The governor between rounds: everything it has seen is older than the generation to come.\<close>

definition rounds_ready :: "HelloPayload \<Rightarrow> SyntheticConfig \<Rightarrow> u64 \<Rightarrow> nat \<Rightarrow> Governor \<Rightarrow> bool" where
  "rounds_ready hello cfg generation n g \<longleftrightarrow>
     (\<exists>gens. session_state hello n gens (gv_snapshots g) g \<and> length gens = kStreamCount \<and> (\<forall>x \<in> set gens. x < generation)) \<and>
     evidence_over (set (all_resources (clamped cfg))) (gv_snapshots g) \<and>
     (\<forall>t. sn_topology (gv_snapshots g) = Some t \<longrightarrow> tp_generation t < generation)"

text \<open>The evaluation of a round admits the evidence of that round.\<close>

definition decides_on :: "Millis \<Rightarrow> u64 \<Rightarrow> SyntheticConfig \<Rightarrow> Decision \<Rightarrow> bool" where
  "decides_on now generation cfg d \<longleftrightarrow>
     (let f = rebuild now generation (clamped cfg)
      in \<exists>inp pt pc ps. d = decision_of inp \<and> di_now inp = now + 1 \<and>
           evidence_admitted inp ((sf_topology f)\<lparr>tp_provenance := pt\<rparr>) ((sf_capacity f)\<lparr>cs_provenance := pc\<rparr>)
             ((sf_signals f)\<lparr>ss_provenance := ps\<rparr>))"

lemma round_streams_ok:
  assumes now: "\<bar>now\<bar> \<le> 2 ^ 62 + 2 ^ 43" and q: "tq_ok (sy_quality cfg)" and fit: "fabric_fits now generation cfg"
    and f: "f = rebuild now generation (clamped cfg)" and kb: "(k, b) \<in> set (demo_streams f now)"
  shows "stream_of k \<noteq> Stream_Unknown \<and> (\<exists>bs. b = Inr bs \<and> length bs \<le> kMaxFrameBytes \<and> installs f now generation k bs)"
proof -
  have q: "tq_ok (sy_quality (clamped cfg))" using q by (simp add: clamped_def)
  have ok: "sf_build_status f = Inr ()" using fit f by (simp add: fabric_fits_def Let_def)
  note e = topology_encodes [OF f ok now] capacity_encodes [OF f ok now] paths_encodes [OF f ok now] policy_encodes [OF now]
    signals_encodes [OF f ok now q] traffic_encodes [OF f ok now]
  have "stream_of k \<noteq> Stream_Unknown \<and> (\<exists>bs. b = Inr bs \<and> installs f now generation k bs)"
    using kb e by (auto simp: demo_streams_def stream_of_def)
  then show ?thesis using kb fit f by (auto simp: fabric_fits_def Let_def)
qed

lemma puts_over:
  assumes "\<And>k prov s. evidence_over R s \<Longrightarrow> evidence_over R (put_evidence f now k prov s)" and "evidence_over R s"
  shows "evidence_over R (puts f now kps s)"
  using assms(2) by (induction kps arbitrary: s) (auto simp: puts_def intro: assms(1))

lemma evaluate_publishers: "evaluate now g = (d, g') \<Longrightarrow> gv_publishers g' = gv_publishers g"
  by (auto simp: evaluate_def record_decision_def Let_def case_prod_beta)

lemma evaluate_decision: "evaluate now g = (d, g') \<Longrightarrow> \<exists>x. d = decision_of ((evaluation_input now g)\<lparr>di_tracker := x\<rparr>)"
  by (auto simp: evaluate_def engine_step_def decide_def Let_def case_prod_beta)

text \<open>All six streams of a fabric in place.\<close>

definition fabric_installed :: "SyntheticFabric \<Rightarrow> Millis \<Rightarrow> Snapshots \<Rightarrow> bool" where
  "fabric_installed f now s \<longleftrightarrow>
     (\<exists>pt pc ps pp pr py. s = \<lparr>sn_topology = Some ((sf_topology f)\<lparr>tp_provenance := pt\<rparr>),
        sn_capacity = Some ((sf_capacity f)\<lparr>cs_provenance := pc\<rparr>), sn_signals = Some ((sf_signals f)\<lparr>ss_provenance := ps\<rparr>),
        sn_paths = Some ((sf_paths f)\<lparr>ps_provenance := pp\<rparr>), sn_traffic = Some ((sf_traffic f)\<lparr>ts_provenance := pr\<rparr>),
        sn_policy = Some ((synthetic_policy f now)\<lparr>po_provenance := py\<rparr>)\<rparr>)"

lemma puts_installed:
  assumes "length provs = 6"
  shows "fabric_installed f now (puts f now (zip (map fst (demo_streams f now)) provs) s)"
proof -
  obtain a b c d e x where "provs = [a, b, c, d, e, x]" using assms by (auto simp: length_Suc_conv numeral_eq_Suc)
  then show ?thesis by (cases s) (simp add: fabric_installed_def puts_def demo_streams_def put_evidence_def, blast)
qed

lemma installed_admitted:
  assumes now: "\<bar>now\<bar> \<le> 2 ^ 62 + 2 ^ 43" and fit: "fabric_fits now generation cfg"
    and s: "fabric_installed (rebuild now generation (clamped cfg)) now (gv_snapshots g)" and e: "evaluate (now + 1) g = (d, g')"
  shows "decides_on now generation cfg d"
proof -
  define f where "f = rebuild now generation (clamped cfg)"
  obtain x where d: "d = decision_of ((evaluation_input (now + 1) g)\<lparr>di_tracker := x\<rparr>)" using evaluate_decision [OF e] by blast
  have ok: "sf_build_status f = Inr ()" using fit by (simp add: fabric_fits_def f_def Let_def)
  obtain records demands where b: "build_topology (make_topology (clamped cfg) now generation) = Inr (sf_topology f)"
    "build_capacity (make_capacity (clamped cfg) now generation) = Inr (sf_capacity f)"
    using rebuild_ok [OF f_def ok] by blast
  have times: "tp_valid_until (sf_topology f) = now + 60000" "cs_observed_at (sf_capacity f) = now"
    using build_topology_meta [OF b(1)] build_evidence_meta(1) [OF b(2)] by (simp_all add: make_topology_fields make_capacity_def)
  have age: "age_ms now (now + 1) = 1" using now by (simp add: age_ms_def kNoTime_def kMaxTime_def abs_le_iff)
  note wf = rebuild_resolves(1-3) [OF f_def ok] and gen = rebuild_generations [OF f_def ok, unfolded fabric_generations_def]
  obtain pt pc ps pp pr py where s: "gv_snapshots g = \<lparr>sn_topology = Some ((sf_topology f)\<lparr>tp_provenance := pt\<rparr>),
        sn_capacity = Some ((sf_capacity f)\<lparr>cs_provenance := pc\<rparr>), sn_signals = Some ((sf_signals f)\<lparr>ss_provenance := ps\<rparr>),
        sn_paths = Some ((sf_paths f)\<lparr>ps_provenance := pp\<rparr>), sn_traffic = Some ((sf_traffic f)\<lparr>ts_provenance := pr\<rparr>),
        sn_policy = Some ((synthetic_policy f now)\<lparr>po_provenance := py\<rparr>)\<rparr>" using s by (auto simp: fabric_installed_def f_def)
  have "evidence_admitted ((evaluation_input (now + 1) g)\<lparr>di_tracker := x\<rparr>) ((sf_topology f)\<lparr>tp_provenance := pt\<rparr>)
      ((sf_capacity f)\<lparr>cs_provenance := pc\<rparr>) ((sf_signals f)\<lparr>ss_provenance := ps\<rparr>)"
    using wf gen times age
    by (simp add: evidence_admitted_def evaluation_input_def Let_def s topology_wf_def capacity_wf_def signals_wf_def fresh_at_def
        input_thresholds_def synthetic_policy_def empty_policy_def default_thresholds_def)
  moreover have "di_now ((evaluation_input (now + 1) g)\<lparr>di_tracker := x\<rparr>) = now + 1" by (simp add: evaluation_input_def Let_def)
  ultimately show ?thesis unfolding decides_on_def Let_def f_def [symmetric] using d by blast
qed

lemma slots_updated:
  "set (fold (\<lambda>k gs. gs[stream_slot k := v]) ks gs) \<subseteq> insert v (set gs)" "length (fold (\<lambda>k gs. gs[stream_slot k := v]) ks gs) = length gs"
proof (induction ks arbitrary: gs)
  case (Cons k ks)
  { case 1 show ?case using Cons.IH(1) [of "gs[stream_slot k := v]"] set_update_subset_insert [of gs "stream_slot k" v] by auto }
  { case 2 show ?case using Cons.IH(2) by simp }
qed auto

text \<open>A round publishes its six streams, and the evaluation that follows leaves the governor ready for the next one.\<close>

lemma round_published:
  assumes now: "\<bar>now\<bar> \<le> 2 ^ 62 + 2 ^ 43" and q: "tq_ok (sy_quality cfg)" and fit: "fabric_fits now generation cfg" and n: "n + 6 < 2 ^ 63"
    and ready: "rounds_ready hello cfg generation n g" and f: "f = rebuild now generation (clamped cfg)"
  shows "\<exists>g1 gens. demo_publish hello 1 generation now (demo_streams f now) (word_of_nat n, g) = (True, word_of_nat (n + 6), g1) \<and>
    session_state hello (n + 6) gens (gv_snapshots g1) g1 \<and> length gens = kStreamCount \<and> (\<forall>x \<in> set gens. x \<le> generation) \<and>
    evidence_over (set (all_resources (clamped cfg))) (gv_snapshots g1) \<and> fabric_installed f now (gv_snapshots g1)"
proof -
  let ?R = "set (all_resources (clamped cfg))" and ?streams = "demo_streams f now"
  have ok: "sf_build_status f = Inr ()" using fit by (simp add: fabric_fits_def f Let_def)
  obtain gens where st: "session_state hello n gens (gv_snapshots g) g" "length gens = kStreamCount" "\<forall>x \<in> set gens. x < generation"
    and R: "evidence_over ?R (gv_snapshots g)" and live: "\<forall>t. sn_topology (gv_snapshots g) = Some t \<longrightarrow> tp_generation t < generation"
    using ready by (auto simp: rounds_ready_def)
  let ?gens = "fold (\<lambda>k gs. gs[stream_slot k := generation]) (map fst ?streams) gens"
  note put = evidence_over_put [OF f ok]
  have each: "stream_of k \<noteq> Stream_Unknown \<and> gens ! stream_slot k < generation \<and>
      (\<exists>bs. b = Inr bs \<and> length bs \<le> kMaxFrameBytes \<and> installs f now generation k bs)" if "(k, b) \<in> set ?streams" for k b
  proof -
    note o = round_streams_ok [OF now q fit f that]
    then have "gens ! stream_slot k \<in> set gens" using st(2) stream_index_less by (intro nth_mem) simp
    then show ?thesis using o st(3) by blast
  qed
  then have "\<forall>(k, b) \<in> set ?streams. stream_of k \<noteq> Stream_Unknown \<and> gens ! stream_slot k < generation \<and>
      (\<exists>bs. b = Inr bs \<and> length bs \<le> kMaxFrameBytes \<and> installs f now generation k bs)"
    by blast
  moreover have "distinct (map (stream_slot \<circ> fst) ?streams)" "length ?streams = 6"
    by (simp_all add: demo_streams_def stream_of_def stream_index_def kStreamCount_def Let_def)
  ultimately obtain g1 provs where
    p: "demo_publish hello 1 generation now ?streams (word_of_nat n, g) = (True, word_of_nat (n + 6), g1)" "length provs = 6"
    and g1: "session_state hello (n + 6) ?gens (puts f now (zip (map fst ?streams) provs) (gv_snapshots g)) g1"
    using demo_publishes [OF st(1), of ?streams generation f now ?R] n live R put by auto
  have s1: "gv_snapshots g1 = puts f now (zip (map fst ?streams) provs) (gv_snapshots g)" using g1 by (simp add: session_state_def)
  have "\<forall>x \<in> set ?gens. x \<le> generation" "length ?gens = kStreamCount"
    using st(2,3) slots_updated [of generation "map fst ?streams" gens] by (auto intro: less_imp_le)
  moreover have "fabric_installed f now (gv_snapshots g1)" unfolding s1 by (rule puts_installed [OF p(2)])
  moreover have "evidence_over ?R (gv_snapshots g1)" unfolding s1 by (rule puts_over [OF put R])
  ultimately show ?thesis using p(1) g1 s1 by auto
qed

lemma round_ok:
  assumes now: "\<bar>now\<bar> \<le> 2 ^ 62 + 2 ^ 43" and q: "tq_ok (sy_quality cfg)" and fit: "fabric_fits now generation cfg" and n: "n + 6 < 2 ^ 63"
    and ready: "rounds_ready hello cfg generation n g" and next_gen: "generation < generation'"
  shows "\<exists>g1 d g2. demo_publish hello 1 generation now (demo_streams (rebuild now generation (clamped cfg)) now) (word_of_nat n, g) =
      (True, word_of_nat (n + 6), g1) \<and> evaluate (now + 1) g1 = (d, g2) \<and>
    decides_on now generation cfg d \<and> rounds_ready hello cfg generation' (n + 6) g2"
proof -
  define f where "f = rebuild now generation (clamped cfg)"
  have ok: "sf_build_status f = Inr ()" using fit by (simp add: fabric_fits_def f_def Let_def)
  obtain g1 gens where p: "demo_publish hello 1 generation now (demo_streams f now) (word_of_nat n, g) = (True, word_of_nat (n + 6), g1)"
    and g1: "session_state hello (n + 6) gens (gv_snapshots g1) g1" "length gens = kStreamCount" "\<forall>x \<in> set gens. x \<le> generation"
    and R: "evidence_over (set (all_resources (clamped cfg))) (gv_snapshots g1)" and inst: "fabric_installed f now (gv_snapshots g1)"
    using round_published [OF now q fit n ready f_def] by blast
  obtain d g2 where e: "evaluate (now + 1) g1 = (d, g2)" by fastforce
  note keeps = evaluate_keeps [OF e] evaluate_publishers [OF e]
  have "governor_reachable g2" using g1(1) steps [OF _ step_evaluate [OF e]] by (simp add: session_state_def)
  then have "session_state hello (n + 6) gens (gv_snapshots g2) g2" using g1(1) keeps by (simp add: session_state_def)
  moreover have "\<forall>x \<in> set gens. x < generation'" using g1(3) next_gen by (blast intro: le_less_trans)
  moreover have "tp_generation (sf_topology f) = generation"
    using rebuild_generations [OF f_def ok] by (simp add: fabric_generations_def)
  then have "\<forall>t. sn_topology (gv_snapshots g2) = Some t \<longrightarrow> tp_generation t < generation'"
    using keeps(1) inst next_gen by (auto simp: fabric_installed_def)
  ultimately have "rounds_ready hello cfg generation' (n + 6) g2" using R g1(2) keeps(1) by (auto simp: rounds_ready_def)
  then show ?thesis using p e installed_admitted [OF now fit inst [unfolded f_def] e] unfolding f_def by blast
qed

section \<open>The whole run\<close>

definition demo_time :: "SyntheticConfig \<Rightarrow> nat \<Rightarrow> Millis" where
  "demo_time cfg round = sy_base_time cfg + int round * 1000"

definition demo_generation :: "nat \<Rightarrow> u64" where
  "demo_generation round = 10 + word_of_nat round"

lemma unat_generation:
  assumes "m \<le> 2 ^ 32" and "k < 2 ^ 32"
  shows "unat (word_of_nat k + word_of_nat m :: u64) = k + m"
proof -
  have "(word_of_nat k + word_of_nat m :: u64) = word_of_nat (k + m)" by simp
  then show ?thesis using assms by (simp only: unsigned_of_nat) (simp add: take_bit_nat_eq_self)
qed

lemma demo_generation_less: "round < 2 ^ 32 \<Longrightarrow> demo_generation round < demo_generation (Suc round)"
  using unat_generation [of round 10] unat_generation [of "Suc round" 10] by (simp add: demo_generation_def word_less_nat_alt)

lemma demo_rounds_ok:
  assumes cfg: "config_ok cfg" and "n + 6 * length rounds < 2 ^ 63" and "rounds_ready demo_hello cfg (demo_generation r) n g"
    and "rounds = [r..<m]" and m: "m \<le> 2 ^ 32" and fit: "\<And>i. i < m \<Longrightarrow> fabric_fits (demo_time cfg i) (demo_generation i) cfg"
  shows "\<exists>ds g'. demo_rounds cfg 1 rounds (word_of_nat n, g) = (True, ds, g') \<and> length ds = length rounds \<and>
     (\<forall>i < length rounds. decides_on (demo_time cfg (r + i)) (demo_generation (r + i)) cfg (ds ! i))"
  using assms(2-4)
proof (induction rounds arbitrary: r n g)
  case (Cons i rounds)
  then have i: "i = r" "r < m" "rounds = [Suc r..<m]" by (metis list.discI list.inject not_less upt_conv_Cons upt_conv_Nil)+
  have t: "\<bar>demo_time cfg r\<bar> \<le> 2 ^ 62 + 2 ^ 43" using cfg i(2) m by (simp add: config_ok_def demo_time_def abs_le_iff)
  have q: "tq_ok (sy_quality cfg)" using cfg by (simp add: config_ok_def)
  obtain g1 d g2 where one: "demo_publish demo_hello 1 (demo_generation r) (demo_time cfg r)
      (demo_streams (rebuild (demo_time cfg r) (demo_generation r) (clamped cfg)) (demo_time cfg r)) (word_of_nat n, g) =
      (True, word_of_nat (n + 6), g1)" "evaluate (demo_time cfg r + 1) g1 = (d, g2)"
    "decides_on (demo_time cfg r) (demo_generation r) cfg d" "rounds_ready demo_hello cfg (demo_generation (Suc r)) (n + 6) g2"
    using round_ok [OF t q fit [OF i(2)] _ Cons.prems(2) demo_generation_less] i(2) m Cons.prems(1) by auto
  obtain ds g' where rest: "demo_rounds cfg 1 rounds (word_of_nat (n + 6), g2) = (True, ds, g')" "length ds = length rounds"
    "\<forall>i < length rounds. decides_on (demo_time cfg (Suc r + i)) (demo_generation (Suc r + i)) cfg (ds ! i)"
    using Cons.IH [OF _ one(4) i(3)] Cons.prems(1) by auto
  have "demo_rounds cfg 1 (i # rounds) (word_of_nat n, g) = (True, d # ds, g')"
    using one(1,2) rest(1) by (simp add: i(1) Let_def demo_time_def demo_generation_def)
  moreover have "decides_on (demo_time cfg (r + j)) (demo_generation (r + j)) cfg ((d # ds) ! j)" if "j < length (i # rounds)" for j
    using that one(3) rest(3) by (cases j) auto
  ultimately show ?case using rest(2) by auto
qed simp

text \<open>A new governor without a store that installs its first epoch and registers a publisher is ready for any round.\<close>

lemma session_initial:
  assumes g: "governor_reachable g" "gv_publishers g = []" "gv_snapshots g = no_snapshots" "gv_store g = None" "gv_epoch g \<le> 1"
    and h: "valid_id (he_publisher hello)" "valid_id (he_incarnation hello)" "valid_id (he_boot hello)" "he_protocol_version hello = kFrameProtocolVersion"
    and gen: "0 < generation"
  shows "\<exists>g0 g1. install_epoch 1 1 now g = (Inr (), g0) \<and> register_publisher hello now g0 = (Inr (welcome_of g0), g1) \<and>
    we_epoch (welcome_of g0) = 1 \<and> rounds_ready hello cfg generation 1 g1"
proof -
  obtain g0 where g0: "install_epoch 1 1 now g = (Inr (), g0)" "gv_epoch g0 = 1" "gv_publishers g0 = []" "gv_snapshots g0 = no_snapshots"
    using g(2-5) by (simp add: install_epoch_def commit_candidate_def valid_id_def Let_def counted_def not_less)
  define g1 where "g1 = g0\<lparr>gv_publishers := [fresh_publisher hello 1 now]\<rparr>"
  have r: "register_publisher hello now g0 = (Inr (welcome_of g0), g1)"
    using g0(2,3) h by (simp add: register_publisher_def valid_id_def find_publisher_def find_sorted_def lower_bound_def
        insert_publisher_def g1_def kMaxPublishers_def Let_def)
  have "governor_reachable g0" using steps [OF g(1) step_install [OF g0(1)]] .
  then have "governor_reachable g1" using steps [OF _ step_register [OF r]] by blast
  then have "session_state hello 1 no_generations (gv_snapshots g1) g1" using g0 by (simp add: session_state_def g1_def fresh_publisher_def)
  moreover have "length no_generations = kStreamCount" "\<forall>x \<in> set no_generations. x < generation"
    using gen by (simp_all add: no_generations_def kStreamCount_def)
  ultimately have "rounds_ready hello cfg generation 1 g1"
    using g0(4) by (auto simp: rounds_ready_def g1_def evidence_over_def no_snapshots_def)
  then show ?thesis using g0 r by (auto simp: welcome_of_def)
qed

lemma demo_initial:
  "\<exists>g0 g1. install_epoch 1 1 now (new_governor demo_governor_config) = (Inr (), g0) \<and>
     register_publisher demo_hello now g0 = (Inr (welcome_of g0), g1) \<and> we_epoch (welcome_of g0) = 1 \<and>
     rounds_ready demo_hello cfg (demo_generation 0) 1 g1"
  by (rule session_initial [OF governor_reachable.created])
     (simp_all add: new_governor_def demo_governor_config_def demo_hello_def identity_valid [unfolded valid_id_def] valid_id_def demo_generation_def)

text \<open>C39: The demonstration completes. For a configuration whose times and quality the wire can carry and
  whose fabrics build and fit a frame in every round, \<open>run_demo\<close> returns 0: the epoch is installed, the
  publisher registered, all six streams of every round are admitted, and the evaluation of each round
  decides on the topology, the capacity and the signals of exactly that round, one decision per round.\<close>

theorem demo_completes:
  assumes "config_ok (dm_config opts)"
    and "\<forall>i < unat (dm_evaluations opts). fabric_fits (demo_time (dm_config opts) i) (demo_generation i) (dm_config opts)"
  shows "\<exists>ds g. run_demo opts = (0, ds, g) \<and> length ds = unat (dm_evaluations opts) \<and>
     (\<forall>i < length ds. decides_on (demo_time (dm_config opts) i) (demo_generation i) (dm_config opts) (ds ! i))"
proof -
  let ?cfg = "dm_config opts" and ?m = "unat (dm_evaluations opts)"
  have m: "?m < 2 ^ 32" using unsigned_less [of "dm_evaluations opts"] by simp
  obtain g0 g1 where s: "install_epoch 1 1 (sy_base_time ?cfg) (new_governor demo_governor_config) = (Inr (), g0)"
    "register_publisher demo_hello (sy_base_time ?cfg) g0 = (Inr (welcome_of g0), g1)" "we_epoch (welcome_of g0) = 1"
    "rounds_ready demo_hello ?cfg (demo_generation 0) 1 g1" using demo_initial by metis
  obtain ds g where "demo_rounds ?cfg 1 [0..<?m] (word_of_nat 1, g1) = (True, ds, g)" "length ds = ?m"
    "\<forall>i < ?m. decides_on (demo_time ?cfg (0 + i)) (demo_generation (0 + i)) ?cfg (ds ! i)"
    using demo_rounds_ok [OF assms(1) _ s(4) refl, of ?m] m assms(2) by auto
  then show ?thesis using s by (simp add: run_demo_def Let_def)
qed

text \<open>The fabric of one resource fits: a payload of one entry per stream.\<close>

lemma tiny_fits: "fabric_fits now generation tiny_config"
proof -
  define f where "f = rebuild now generation tiny_config"
  obtain t c x p y where b: "build_topology (make_topology tiny_config now generation) = Inr t"
    "build_capacity (make_capacity tiny_config now generation) = Inr c" "build_signals (make_signals tiny_config now generation) = Inr x"
    "neighbors t (resource_id 0 0) = []" "build_paths (make_paths now generation [path_record t (resource_id 0 0) 0]) = Inr p"
    "build_traffic (make_traffic tiny_config now generation p
      [(pr_id (path_record t (resource_id 0 0) 0), path_demand tiny_config (resource_id 0 0))]) = Inr y"
    and ok: "sf_build_status f = Inr ()"
    and fs: "sf_topology f = t" "sf_capacity f = c"
    "sf_signals f = x" "sf_paths f = p" "sf_traffic f = y"
    unfolding f_def by (rule tiny_rebuild [of now generation])
  have n: "length (bounded_name nm kMaxRegionNameBytes) \<le> 128" "length (bounded_name nm kMaxResourceNameBytes) \<le> 128" for nm
    using bounded_name_length [of nm kMaxRegionNameBytes] bounded_name_length [of nm kMaxResourceNameBytes] by (simp_all add: limit_defs)
  note enc = bind_result_Inr_iff encode_stream_header_def length_w_list
  have "length bs \<le> 4096" if "encode_topology_payload t = Inr bs" for bs
    using that n [of "''region-'' @ decimal 0"] n [of "''res-'' @ decimal 0 @ ''-'' @ decimal 0"] build_topology_wf [OF b(1)]
    by (auto simp: enc encode_topology_payload_def w_region_def w_resource_def w_text_def tiny_topology_fields)
  moreover have "length bs \<le> 4096" if "encode_capacity_payload c = Inr bs" for bs
    using that by (auto simp: enc encode_capacity_payload_def w_capacity_def w_bool_def build_capacity_wf(2) [OF b(2)] make_capacity_def
        tiny_fields add_capacity_def empty_capacity_def)
  moreover have "length bs \<le> 4096" if "encode_signals_payload x = Inr bs" for bs
    using that by (auto simp: enc encode_signals_payload_def w_signals_def build_signals_wf(2) [OF b(3)] make_signals_def
        tiny_fields add_signals_def empty_signals_def Let_def)
  moreover have "length bs \<le> 4096" if "encode_paths_payload p = Inr bs" for bs
    using that b(4) by (auto simp: enc encode_paths_payload_def w_path_def build_paths_wf(2) [OF b(5)] make_paths_def
        add_path_def empty_paths_def path_record_def Let_def)
  moreover have "length bs \<le> 4096" if "encode_traffic_payload y = Inr bs" for bs
    using that by (auto simp: enc encode_traffic_payload_def w_traffic_def build_traffic_wf(2) [OF b(6)] make_traffic_def
        add_traffic_def empty_traffic_def Let_def)
  moreover have "length (encode_policy_payload q) \<le> 4096" for q
    by (simp add: encode_policy_payload_def encode_stream_header_def w_thresholds_def w_budget_def w_bands_def)
  ultimately have "length bs \<le> 4096" if "(k, Inr bs) \<in> set (demo_streams f now)" for k bs
    using that by (auto simp: demo_streams_def fs)
  then have "length bs \<le> kMaxFrameBytes" if "(k, Inr bs) \<in> set (demo_streams f now)" for k bs
    using that by (fastforce simp: kMaxFrameBytes_def)
  then show ?thesis using ok by (auto simp: fabric_fits_def f_def tiny_fields)
qed

theorem demo_completes_witness:
  "\<exists>d0 d1 g. run_demo (default_demo\<lparr>dm_config := tiny_config, dm_evaluations := 2\<rparr>) = (0, [d0, d1], g) \<and>
     decides_on 1000 10 tiny_config d0 \<and> decides_on 2000 11 tiny_config d1"
proof -
  let ?o = "default_demo\<lparr>dm_config := tiny_config, dm_evaluations := 2\<rparr>"
  have "config_ok (dm_config ?o)" by (simp add: config_ok_def tiny_config_def default_synthetic_def tq_ok_def tq_of_def)
  then obtain ds g where r: "run_demo ?o = (0, ds, g)" "length ds = unat (dm_evaluations ?o)"
    "\<forall>i < length ds. decides_on (demo_time (dm_config ?o) i) (demo_generation i) (dm_config ?o) (ds ! i)" using demo_completes [of ?o] tiny_fits by auto
  then have "length ds = 2" by simp
  then obtain d0 d1 where "ds = [d0, d1]" by (auto simp: length_Suc_conv numeral_eq_Suc)
  moreover have "demo_time tiny_config 0 = 1000" "demo_time tiny_config (Suc 0) = 2000" "demo_generation 0 = 10" "demo_generation (Suc 0) = 11"
    by (simp_all add: demo_time_def demo_generation_def tiny_config_def default_synthetic_def)
  ultimately show ?thesis using r by fastforce
qed

section \<open>The publisher's frames\<close>

text \<open>
  The frames a publisher has sent: each continues the sequence numbers and carries the identity of the
  session and a positive stream.
\<close>

definition stamped_from :: "Provenance \<Rightarrow> u64 \<Rightarrow> Frame list \<Rightarrow> bool" where
  "stamped_from prov sq frames \<longleftrightarrow>
     (\<forall>i < length frames. let h = fr_header (frames ! i) in fh_sequence h = sq + word_of_nat i \<and> fh_publisher h = pv_publisher prov \<and>
        fh_incarnation h = pv_incarnation prov \<and> fh_boot h = pv_boot prov \<and> fh_epoch h = pv_epoch prov)"

lemma stamped_from_append:
  "stamped_from prov sq (frames @ frames') \<longleftrightarrow> stamped_from prov sq frames \<and> stamped_from prov (sq + word_of_nat (length frames)) frames'"
proof -
  have "i < length (frames @ frames') \<longleftrightarrow> i < length frames \<or> (\<exists>j < length frames'. i = length frames + j)" for i
    by (auto simp: less_diff_conv2 intro: exI [of _ "i - length frames"])
  then show ?thesis by (auto simp: stamped_from_def nth_append Let_def add.assoc)
qed

lemma publish_streams_stamped:
  assumes "publish_streams prov gen at streams (sq, published, s) = (ok, sq', published', s')"
  shows "\<exists>frames. published' = published @ frames \<and> stamped_from prov sq frames \<and> (ok \<longrightarrow> sq' = sq + word_of_nat (length frames)) \<and>
     (ok \<longrightarrow> map (fh_type \<circ> fr_header) frames = map fst streams)"
  using assms
proof (induction streams arbitrary: sq published s)
  case (Cons kb streams)
  obtain k b where kb: "kb = (k, b)" by fastforce
  show ?case
  proof (cases b)
    case (Inl e)
    then show ?thesis using Cons.prems by (auto simp: kb stamped_from_def)
  next
    case (Inr bs)
    let ?f = "stamped_frame prov k bs sq gen at"
    obtain r s1 where send: "send_frame ?f s = (r, s1)" by fastforce
    show ?thesis
    proof (cases r)
      case (Inl e)
      then show ?thesis using Cons.prems send \<open>b = Inr bs\<close> by (auto simp: kb Let_def stamped_from_def)
    next
      case (Inr u)
      then have "publish_streams prov gen at streams (sq + 1, published @ [?f], s1) = (ok, sq', published', s')"
        using Cons.prems send \<open>b = Inr bs\<close> by (simp add: kb Let_def)
      then obtain frames where fr: "published' = published @ [?f] @ frames" "stamped_from prov (sq + 1) frames"
        "ok \<longrightarrow> sq' = sq + 1 + word_of_nat (length frames)" "ok \<longrightarrow> map (fh_type \<circ> fr_header) frames = map fst streams"
        using Cons.IH by fastforce
      have "stamped_from prov sq ([?f] @ frames)"
        unfolding stamped_from_append using fr(2) by (simp add: stamped_from_def stamped_frame_header)
      then show ?thesis using fr by (intro exI [of _ "[?f] @ frames"]) (auto simp: kb stamped_frame_header comp_def)
    qed
  qed
qed (simp add: stamped_from_def)

lemma publish_rounds_stamped:
  assumes "publish_rounds opts prov clock rounds (sq, published, s) = (ok, sq', published', s')"
  shows "\<exists>frames. published' = published @ frames \<and> stamped_from prov sq frames"
  using assms
proof (induction rounds arbitrary: sq published s)
  case (Cons r rounds)
  let ?at = "clock r" and ?gen = "pu_start_generation opts + word_of_nat r"
  let ?streams = "round_streams r (rebuild ?at ?gen (clamped (pu_synthetic opts))) ?at"
  obtain ok1 sq1 p1 s1 where one: "publish_streams prov ?gen ?at ?streams (sq, published, s) = (ok1, sq1, p1, s1)" by (metis prod_cases4)
  then obtain frames where fr: "p1 = published @ frames" "stamped_from prov sq frames" "ok1 \<longrightarrow> sq1 = sq + word_of_nat (length frames)"
    using publish_streams_stamped by blast
  show ?case
  proof (cases ok1)
    case True
    then obtain frames' where "published' = p1 @ frames'" "stamped_from prov sq1 frames'"
      using Cons.IH [of sq1 p1 s1] Cons.prems one by (auto simp: Let_def)
    then show ?thesis using fr True by (intro exI [of _ "frames @ frames'"]) (simp add: stamped_from_append)
  next
    case False
    then show ?thesis using Cons.prems one fr by (auto simp: Let_def)
  qed
qed (simp add: stamped_from_def)

text \<open>
  After its first round the publisher sends only signals and traffic, and these belong to a later
  topology than the one it published: an evaluation over them knows nothing.
\<close>

lemma later_rounds_signals: "fst ` set (round_streams (Suc r) f at) = {MT_Signals, MT_Traffic}"
  by (simp add: round_streams_def)

lemma later_rounds_unknown:
  assumes f0: "f0 = rebuild at0 g0 cfg" "sf_build_status f0 = Inr ()" and f1: "f1 = rebuild at1 g1 cfg" "sf_build_status f1 = Inr ()"
    and "g0 \<noteq> g1" and inp: "di_topology inp = Some ((sf_topology f0)\<lparr>tp_provenance := p0\<rparr>)"
    "di_signals inp = Some ((sf_signals f1)\<lparr>ss_provenance := p1\<rparr>)"
  shows "fa_scope (fst (detect inp)) = Scope_Unknown \<and> fa_hotspots (fst (detect inp)) = []"
proof -
  have "tp_generation (sf_topology f0) = g0" "ss_topology_generation (sf_signals f1) = g1"
    using rebuild_generations [OF f0] rebuild_generations [OF f1] by (simp_all add: fabric_generations_def)
  then have "\<not> evidence_admitted inp t c s" for t c s using inp \<open>g0 \<noteq> g1\<close> by (auto simp: evidence_admitted_def)
  then show ?thesis using detect_rejects [of inp] reject_blank(1,2) by (fastforce simp: blank_result_def)
qed

section \<open>The coordinator process\<close>

lemma tool_commit_run:
  assumes "system_run w inps"
  shows "system_run (w\<lparr>co_governor := tool_commit opts now (co_governor w)\<rparr>) inps"
proof (cases "has_state_dir opts")
  case True
  then show ?thesis using commits [OF assms surjective_pairing] by (simp add: tool_commit_def)
qed (simp add: tool_commit_def assms)

lemma tool_boot_run:
  assumes "tool_boot pid counter disk now bound opts = Inr w"
  shows "system_run w []"
proof -
  obtain g where g: "governor_recover pid counter disk now (new_governor (tool_governor_config opts)) = (Inr (), g)"
    and w: "w = snd (coordinator_start bound (new_coordinator (ct_max_connections opts) (tool_commit opts now g)))"
    using assms by (auto simp: tool_boot_def split: prod.splits sum.splits)
  have "system_run (new_coordinator (ct_max_connections opts) (tool_commit opts now g)) []"
    using tool_commit_run [OF boots [OF g, of "ct_max_connections opts"]] by (simp add: new_coordinator_def)
  then show ?thesis unfolding w by (rule starts)
qed

text \<open>One iteration either only reads the counters or makes one evaluation.\<close>

lemma tool_iteration_cases:
  assumes "tool_iteration opts at st w = (control, d, st', w')"
  obtains (idle) "d = None" "st' = st" "w' = w" "control = Loop_break \<longrightarrow> exits opts (tl_evaluations st)"
  | (evaluated) d' g where "evaluate at (co_governor w) = (d', g)" "d = Some d'" "w' = w\<lparr>co_governor := g\<rparr>"
      "tl_evaluations st' = tl_evaluations st + 1" "control = Loop_break \<longleftrightarrow> exits opts (tl_evaluations st + 1)"
  using assms by (fastforce simp: tool_iteration_def Let_def split: if_splits prod.splits)

definition loop_ok :: "CoordinatorOptions \<Rightarrow> nat \<Rightarrow> bool \<Rightarrow> bool" where
  "loop_ok opts n ended \<longleftrightarrow>
     (if ct_exit_after opts = 0 then \<not> ended
      else if ended then n = unat (ct_exit_after opts) else n < unat (ct_exit_after opts))"

lemma exit_after_less: "unat (ct_exit_after opts) < 2 ^ 64"
  using unsigned_less [of "ct_exit_after opts"] by simp

lemma loop_ok_idle:
  assumes "loop_ok opts n False" and "evaluations = word_of_nat n"
  shows "\<not> exits opts evaluations"
proof (cases "ct_exit_after opts = 0")
  case False
  then have n: "n < unat (ct_exit_after opts)" using assms(1) by (simp add: loop_ok_def)
  then have "n < 2 ^ 64" using exit_after_less [of opts] by linarith
  then have "unat (word_of_nat n :: u64) = n" by (simp add: unsigned_of_nat take_bit_nat_eq_self)
  then show ?thesis using n by (simp add: exits_def assms(2) word_le_nat_alt)
qed (simp add: exits_def)

lemma loop_ok_step:
  assumes "loop_ok opts n False" and "evaluations = word_of_nat n"
  shows "loop_ok opts (Suc n) (exits opts (evaluations + 1))"
proof (cases "ct_exit_after opts = 0")
  case False
  then have n: "Suc n \<le> unat (ct_exit_after opts)" using assms(1) by (simp add: loop_ok_def)
  then have "Suc n < 2 ^ 64" using exit_after_less [of opts] by linarith
  then have "unat (word_of_nat (Suc n) :: u64) = Suc n" by (simp only: unsigned_of_nat) (simp add: take_bit_nat_eq_self)
  moreover have "evaluations + 1 = word_of_nat (Suc n)" using assms(2) by simp
  ultimately have "exits opts (evaluations + 1) \<longleftrightarrow> unat (ct_exit_after opts) \<le> Suc n" using False 
    by (simp only: exits_def word_le_nat_alt) simp
  then show ?thesis using n False by (auto simp: loop_ok_def)
qed (simp add: loop_ok_def exits_def)

lemma tool_run_ok:
  "tool_run opts w st inps ended \<Longrightarrow>
     system_run w inps \<and> tl_evaluations st = word_of_nat (length inps) \<and> loop_ok opts (length inps) ended"
proof (induction rule: tool_run.induct)
  case (tool_boots pid counter disk now bound w)
  then show ?case using tool_boot_run by (auto simp: loop_start_def loop_ok_def unat_gt_0)
next
  case (tool_iterates w st inps at control d st' w')
  note ok = loop_ok_idle [of opts "length inps"] loop_ok_step [of opts "length inps"]
  from tool_iterates.hyps(5) show ?case
  proof (cases rule: tool_iteration_cases)
    case idle
    then show ?thesis using tool_iterates.IH ok(1) by (cases control) auto
  next
    case (evaluated d' g)
    then have "system_run w' (evaluation_input at (co_governor w) # inps)"
      using evaluates [OF conjunct1 [OF tool_iterates.IH] tool_iterates.hyps(3,4)] by simp
    then show ?thesis using evaluated tool_iterates.IH ok(2) by simp
  qed
next
  case (tool_finishes w st inps now)
  then show ?case using stops [OF tool_commit_run] by (simp add: tool_finish_def)
qed (auto intro: serves accepts)

text \<open>C40: The coordinator process is a run of the system. Whatever its threads do between the iterations
  of its main loop, every state of \<open>hgm_coordinator\<close> is reached by a run of governor and coordinator in
  which the evaluations are exactly those the loop counts; with \<open>--exit-after-evals n\<close> the loop makes at
  most \<open>n\<close> of them and has ended exactly when it has made \<open>n\<close>, and without it the loop does not end.\<close>

theorem coordinator_process_refines:
  assumes "tool_run opts w st inps ended"
  shows "system_run w inps \<and> tl_evaluations st = word_of_nat (length inps) \<and>
    (ct_exit_after opts = 0 \<longrightarrow> \<not> ended) \<and>
    (ct_exit_after opts \<noteq> 0 \<longrightarrow> length inps \<le> unat (ct_exit_after opts) \<and> (ended \<longleftrightarrow> length inps = unat (ct_exit_after opts)))"
  using tool_run_ok [OF assms] by (auto simp: loop_ok_def split: if_splits)

definition two_evaluations :: CoordinatorOptions where
  "two_evaluations = \<lparr>ct_name = ''hgm-coordinator'', ct_host = ''127.0.0.1'', ct_port = 0, ct_max_connections = 32, ct_state_dir = [],
      ct_drop_on_death = False, ct_exit_after = 2, ct_evaluate_every = 0, ct_spin = False\<rparr>"

theorem coordinator_process_refines_witness:
  "\<exists>w. tool_run two_evaluations w loop_start [] False \<and>
     co_running w \<and> system_run w []"
proof -
  let ?o = two_evaluations and ?disk = "\<lparr>dk_files = Map.empty, dk_io = []\<rparr>"
  define g where "g = snd (governor_recover 1 0 ?disk 1000 (new_governor (tool_governor_config ?o)))"
  have cfg: "gc_store (tool_governor_config ?o) = None" "gc_initial_epoch (tool_governor_config ?o) = 0" "tool_commit ?o 1000 h = h" for h
    by (simp_all add: tool_governor_config_def two_evaluations_def has_state_dir_def tool_commit_def)
  then have r: "governor_recover 1 0 ?disk 1000 (new_governor (tool_governor_config ?o)) = (Inr (), g)" "gv_store g = None" "gv_epoch g = 1"
    by (simp_all add: g_def governor_recover_def Let_def new_governor_def valid_id_def)
  then obtain g1 where i: "install_epoch (gv_epoch g) (gv_boot g) 0 g = (Inr (), g1)"
    by (simp add: install_epoch_def commit_candidate_def Let_def bind_op_def valid_id_def)
  define w where "w = (new_coordinator 32 g)\<lparr>co_governor := g1, co_listening := True, co_running := True, co_accept_thread := True\<rparr>"
  have m: "ct_max_connections ?o = 32" by (simp add: two_evaluations_def)
  have w: "tool_boot 1 0 ?disk 1000 (Inr ()) ?o = Inr w" "co_running w" "co_frames_admitted w = 0" "co_connections_accepted w = 0"
    using i by (simp_all add: tool_boot_def r(1) [simplified] cfg(3) m coordinator_start_def new_coordinator_def w_def)
  have "tool_iteration ?o 1000 loop_start w = (Loop_continue, None, loop_start, w)"
    using w(3,4) by (simp add: tool_iteration_def two_evaluations_def loop_start_def)
  then have "tool_run ?o w loop_start [] False"
    using tool_iterates [OF tool_boots [OF w(1)], of 1000 Loop_continue None loop_start w]
    by (simp add: waits_over_def loop_start_def two_evaluations_def w(3) millis_ok_def kNoTime_def kMaxTime_def)
  then show ?thesis using w(2) coordinator_process_refines by blast
qed

text \<open>The flag \<open>--spin\<close> changes nothing: without it the first test only skips what the second one skips.\<close>

lemma spin_irrelevant:
  assumes "co_frames_admitted w = 0 \<longrightarrow> tl_last_admitted st = 0" and "\<not> exits opts (tl_evaluations st)"
  shows "tool_iteration (opts\<lparr>ct_spin := b\<rparr>) at st w = tool_iteration opts at st w"
proof -
  have "exits (opts\<lparr>ct_spin := b\<rparr>) = exits opts" by (simp add: exits_def fun_eq_iff)
  then show ?thesis using assms by (auto simp: tool_iteration_def Let_def)
qed

end
