(* ===== verification/HGM_Bench.thy ===== *)
theory HGM_Bench
  imports HGM_Demo
begin

text \<open>
  The benchmark (\<^verbatim>\<open>bench/hgm_bench.cpp\<close>) without its clock: the cases, the run of a case through admission
  and evaluation, and the suites. The times it measures and what it prints are left out. Unlike the
  demonstration it goes on after a frame that is refused and counts it, and it ignores whether a payload
  could be encoded: the buffer then still holds what was encoded before.
\<close>

section \<open>A case\<close>

record BenchCase =
  bc_name :: string
  bc_regions :: u32
  bc_resources_per_region :: u32
  bc_hotspots :: u32
  bc_fan_in :: u32
  bc_evidence_density_ppm :: u32
  bc_global_congestion :: bool
  bc_evaluations :: u32

record BenchResult =
  br_name :: string
  br_resources :: u64
  br_paths :: u64
  br_evaluations :: u64
  br_hotspots :: u64
  br_candidates :: u64
  br_intents :: u64
  br_rejected :: u64
  br_scope :: CongestionScope
  br_escalation :: bool

definition bench_config :: "BenchCase \<Rightarrow> SyntheticConfig" where
  "bench_config c = default_synthetic\<lparr>sy_region_count := bc_regions c, sy_resources_per_region := bc_resources_per_region c,
     sy_hotspot_count := bc_hotspots c, sy_path_fan_in := bc_fan_in c, sy_path_resource_density_ppm := 1000000,
     sy_evidence_density_ppm := bc_evidence_density_ppm c, sy_global_congestion := bc_global_congestion c\<rparr>"

definition bench_governor_config :: GovernorConfig where
  "bench_governor_config = \<lparr>gc_node_name = ''bench-governor'', gc_initial_epoch = 0, gc_worker_threads = 2, gc_queue_capacity = 256,
     gc_store = None, gc_drop_evidence_on_publisher_death = False, gc_max_history = 4096\<rparr>"

definition bench_hello :: HelloPayload where
  "bench_hello = \<lparr>he_publisher = identity_from_bytes ''bench-publisher'', he_incarnation = 1, he_boot = 1,
     he_protocol_version = kFrameProtocolVersion, he_name = ''bench''\<rparr>"

text \<open>The buffer after an encoding whose status is ignored, and the six bodies of a round.\<close>

definition encoded_into :: "bytes \<Rightarrow> bytes result \<Rightarrow> bytes" where
  "encoded_into body encoded = (case encoded of Inr bs \<Rightarrow> bs | Inl _ \<Rightarrow> body)"

definition bench_bodies :: "SyntheticFabric \<Rightarrow> Millis \<Rightarrow> (MessageType \<times> bytes) list" where
  "bench_bodies f now =
     (let topology = encoded_into [] (encode_topology_payload (sf_topology f));
          capacity = encoded_into topology (encode_capacity_payload (sf_capacity f));
          paths = encoded_into capacity (encode_paths_payload (sf_paths f));
          policy = encode_policy_payload (synthetic_policy f now);
          signals = encoded_into policy (encode_signals_payload (sf_signals f))
      in [(MT_Topology, topology), (MT_Capacity, capacity), (MT_Paths, paths), (MT_Policy, policy), (MT_Signals, signals),
          (MT_Traffic, encoded_into [] (encode_traffic_payload (sf_traffic f)))])"

fun bench_publish :: "CoordinatorEpoch \<Rightarrow> u64 \<Rightarrow> Millis \<Rightarrow> (MessageType \<times> bytes) list \<Rightarrow> u64 \<times> u64 \<times> Governor \<Rightarrow> u64 \<times> u64 \<times> Governor" where
  "bench_publish epoch generation now [] st = st"
| "bench_publish epoch generation now ((type, body) # bodies) (sequence, rejected, g) =
     (case admit (stamped_frame (session_provenance bench_hello epoch) type body sequence generation now) now g of
        (Inl e, g) \<Rightarrow> bench_publish epoch generation now bodies (sequence + 1, rejected + 1, g)
      | (Inr _, g) \<Rightarrow> bench_publish epoch generation now bodies (sequence + 1, rejected, g))"

text \<open>What a round keeps of its decision.\<close>

definition note_decision :: "SyntheticFabric \<Rightarrow> Decision \<Rightarrow> BenchResult \<Rightarrow> BenchResult" where
  "note_decision f d r = r\<lparr>br_scope := fa_scope (de_assessment d), br_hotspots := word_of_nat (length (fa_hotspots (de_assessment d))),
     br_candidates := word_of_nat (length (fa_candidates (de_assessment d))), br_intents := word_of_nat (length (pl_intents (de_plan d))),
     br_escalation := fa_escalation_required (de_assessment d), br_paths := word_of_nat (length (ps_paths (sf_paths f))),
     br_resources := word_of_nat (length (tp_resources (sf_topology f))), br_evaluations := br_evaluations r + 1\<rparr>"

record BenchLoop =
  bl_now :: Millis
  bl_generation :: u64
  bl_sequence :: u64
  bl_result :: BenchResult
  bl_governor :: Governor

definition bench_round :: "SyntheticConfig \<Rightarrow> CoordinatorEpoch \<Rightarrow> BenchLoop \<Rightarrow> BenchLoop" where
  "bench_round cfg epoch st =
     (let now = bl_now st + 1000;
          generation = bl_generation st + 1;
          f = rebuild now generation (clamped cfg);
          r = bl_result st;
          (sequence, rejected, g) = bench_publish epoch generation now (bench_bodies f now) (bl_sequence st, br_rejected r, bl_governor st);
          (d, g) = evaluate (now + 1) g
      in \<lparr>bl_now = now, bl_generation = generation, bl_sequence = sequence, bl_result = note_decision f d (r\<lparr>br_rejected := rejected\<rparr>), bl_governor = g\<rparr>)"

definition empty_result :: "string \<Rightarrow> BenchResult" where
  "empty_result name = \<lparr>br_name = name, br_resources = 0, br_paths = 0, br_evaluations = 0, br_hotspots = 0, br_candidates = 0,
     br_intents = 0, br_rejected = 0, br_scope = Scope_Unknown, br_escalation = False\<rparr>"

definition setup_failed :: "string \<Rightarrow> BenchResult" where
  "setup_failed name = empty_result (name @ '' (setup-failed)'')"

definition run_case :: "nat \<Rightarrow> nat \<Rightarrow> Disk \<Rightarrow> BenchCase \<Rightarrow> BenchResult" where
  "run_case pid counter disk c =
     (let cfg = bench_config c; base = sy_base_time cfg
      in case governor_recover pid counter disk base (new_governor bench_governor_config) of
           (Inl e, g) \<Rightarrow> setup_failed (bc_name c)
         | (Inr _, g) \<Rightarrow>
             (case install_epoch 1 1 base g of
                (Inl e, g) \<Rightarrow> setup_failed (bc_name c)
              | (Inr _, g) \<Rightarrow>
                  (case register_publisher bench_hello base g of
                     (Inl e, g) \<Rightarrow> setup_failed (bc_name c)
                   | (Inr welcome, g) \<Rightarrow>
                       bl_result ((bench_round cfg (we_epoch welcome) ^^ unat (bc_evaluations c))
                         \<lparr>bl_now = base, bl_generation = 1, bl_sequence = 1, bl_result = empty_result (bc_name c), bl_governor = g\<rparr>))))"

section \<open>The suites\<close>

definition bench_case :: "string \<Rightarrow> u32 \<Rightarrow> u32 \<Rightarrow> u32 \<Rightarrow> u32 \<Rightarrow> u32 \<Rightarrow> bool \<Rightarrow> u32 \<Rightarrow> BenchCase" where
  "bench_case name regions resources hotspots fan_in density global evaluations =
     \<lparr>bc_name = name, bc_regions = regions, bc_resources_per_region = resources, bc_hotspots = hotspots, bc_fan_in = fan_in,
      bc_evidence_density_ppm = density, bc_global_congestion = global, bc_evaluations = evaluations\<rparr>"

definition full_suite :: "BenchCase list" where
  "full_suite =
     [bench_case ''graph-1k'' 8 128 1 4 1000000 False 4, bench_case ''graph-8k'' 16 512 1 4 1000000 False 4,
      bench_case ''graph-64k'' 32 2048 1 4 1000000 False 4, bench_case ''hotspots-8'' 16 256 8 4 1000000 False 4,
      bench_case ''hotspots-64'' 16 256 64 4 1000000 False 4, bench_case ''hotspots-256'' 16 256 256 4 1000000 False 4,
      bench_case ''fanin-1'' 8 256 4 1 1000000 False 4, bench_case ''fanin-16'' 8 256 4 16 1000000 False 4,
      bench_case ''fanin-64'' 8 256 4 64 1000000 False 4, bench_case ''density-100'' 8 256 4 4 1000000 False 4,
      bench_case ''density-70'' 8 256 4 4 700000 False 4, bench_case ''density-40'' 8 256 4 4 400000 False 4,
      bench_case ''global-8k'' 16 512 0 4 1000000 True 4]"

definition quick_suite :: "BenchCase list" where
  "quick_suite =
     [bench_case ''graph-1k'' 8 128 1 4 1000000 False 3, bench_case ''hotspots-8'' 8 128 8 4 1000000 False 3,
      bench_case ''fanin-16'' 4 64 2 16 1000000 False 3, bench_case ''density-40'' 4 64 2 4 400000 False 3,
      bench_case ''global-1k'' 8 128 0 4 1000000 True 3]"

text \<open>\<open>main\<close>: the results it prints; every governor that recovers takes the next value of the boot counter.\<close>

definition bench_main :: "nat \<Rightarrow> nat \<Rightarrow> Disk \<Rightarrow> string list \<Rightarrow> BenchResult list" where
  "bench_main pid counter disk args =
     map (\<lambda>(i, c). run_case pid i disk c) (List.enumerate counter (if ''--quick'' \<in> set args then quick_suite else full_suite))"

section \<open>A round\<close>

definition bench_time :: "SyntheticConfig \<Rightarrow> nat \<Rightarrow> Millis" where
  "bench_time cfg round = sy_base_time cfg + int (Suc round) * 1000"

definition bench_generation :: "nat \<Rightarrow> u64" where
  "bench_generation round = 2 + word_of_nat round"

lemma bench_generation_less: "round < 2 ^ 32 \<Longrightarrow> bench_generation round < bench_generation (Suc round)"
  using unat_generation [of round 2] unat_generation [of "Suc round" 2] by (simp add: bench_generation_def word_less_nat_alt)

text \<open>Where the demonstration's loop publishes everything, the benchmark publishes the same without a refusal.\<close>

lemma bench_publish_demo:
  assumes "demo_publish bench_hello epoch generation now streams (sq, g) = (True, sq', g')"
    and "list_all2 (\<lambda>(k, b) (k', bs). k = k' \<and> b = Inr bs) streams bodies"
  shows "bench_publish epoch generation now bodies (sq, rejected, g) = (sq', rejected, g')"
  using assms(2,1)
proof (induction arbitrary: sq g rule: list_all2_induct)
  case (Cons x xs y ys)
  then show ?case by (cases x; cases y) (auto split: prod.splits sum.splits)
qed simp

lemma bench_bodies_encoded:
  assumes "\<And>k b. (k, b) \<in> set (demo_streams f now) \<Longrightarrow> \<exists>bs. b = Inr bs"
  shows "list_all2 (\<lambda>(k, b) (k', bs). k = k' \<and> b = Inr bs) (demo_streams f now) (bench_bodies f now)"
proof -
  obtain t c p s x where "encode_topology_payload (sf_topology f) = Inr t" "encode_capacity_payload (sf_capacity f) = Inr c"
    "encode_paths_payload (sf_paths f) = Inr p" "encode_signals_payload (sf_signals f) = Inr s" "encode_traffic_payload (sf_traffic f) = Inr x"
    using assms unfolding demo_streams_def by (metis list.set_intros(1,2))
  then show ?thesis by (simp add: demo_streams_def bench_bodies_def encoded_into_def)
qed

section \<open>A case completes\<close>

lemma bench_config_ok: "config_ok (bench_config c)"
  by (simp add: config_ok_def bench_config_def default_synthetic_def tq_ok_def tq_of_def)

text \<open>The loop after \<open>n\<close> rounds: nothing was refused and each round was evaluated on its own evidence.\<close>

definition bench_ready :: "BenchCase \<Rightarrow> nat \<Rightarrow> BenchLoop \<Rightarrow> bool" where
  "bench_ready c n st \<longleftrightarrow>
     bl_now st = sy_base_time (bench_config c) + int n * 1000 \<and> bl_generation st = 1 + word_of_nat n \<and> bl_sequence st = word_of_nat (1 + 6 * n) \<and>
     rounds_ready bench_hello (bench_config c) (bench_generation n) (1 + 6 * n) (bl_governor st) \<and>
     br_name (bl_result st) = bc_name c \<and> br_rejected (bl_result st) = 0 \<and> br_evaluations (bl_result st) = word_of_nat n \<and>
     (n > 0 \<longrightarrow> (\<exists>d r. decides_on (bench_time (bench_config c) (n - 1)) (bench_generation (n - 1)) (bench_config c) d \<and>
        bl_result st = note_decision (rebuild (bench_time (bench_config c) (n - 1)) (bench_generation (n - 1)) (clamped (bench_config c))) d r))"

lemma bench_round_ready:
  assumes st: "bench_ready c n st" and n: "n < 2 ^ 32" and fit: "fabric_fits (bench_time (bench_config c) n) (bench_generation n) (bench_config c)"
  shows "bench_ready c (Suc n) (bench_round (bench_config c) 1 st)"
proof -
  let ?cfg = "bench_config c"
  define f where "f = rebuild (bench_time ?cfg n) (bench_generation n) (clamped ?cfg)"
  have t: "\<bar>bench_time ?cfg n\<bar> \<le> 2 ^ 62 + 2 ^ 43" and q: "tq_ok (sy_quality ?cfg)"
    using bench_config_ok [of c] n by (simp_all add: config_ok_def bench_time_def abs_le_iff)
  have now: "bl_now st + 1000 = bench_time ?cfg n" and gen: "bl_generation st + 1 = bench_generation n"
    and sq: "bl_sequence st = word_of_nat (1 + 6 * n)" and rj: "br_rejected (bl_result st) = 0"
    using st by (simp_all add: bench_ready_def bench_time_def bench_generation_def)
  obtain g1 d g2 where one: "demo_publish bench_hello 1 (bench_generation n) (bench_time ?cfg n) (demo_streams f (bench_time ?cfg n))
      (word_of_nat (1 + 6 * n), bl_governor st) = (True, word_of_nat (1 + 6 * n + 6), g1)" "evaluate (bench_time ?cfg n + 1) g1 = (d, g2)"
    "decides_on (bench_time ?cfg n) (bench_generation n) ?cfg d" "rounds_ready bench_hello ?cfg (bench_generation (Suc n)) (1 + 6 * n + 6) g2"
    using round_ok [OF t q fit _ _ bench_generation_less [OF n], of "1 + 6 * n" bench_hello "bl_governor st"] st n
    by (auto simp: bench_ready_def f_def)
  have "bench_publish 1 (bench_generation n) (bench_time ?cfg n) (bench_bodies f (bench_time ?cfg n)) (word_of_nat (1 + 6 * n), 0, bl_governor st) =
      (word_of_nat (1 + 6 * n + 6), 0, g1)"
    by (rule bench_publish_demo [OF one(1)]) (rule bench_bodies_encoded, use round_streams_ok [OF t q fit f_def] in blast)
  then have "bench_round ?cfg 1 st = \<lparr>bl_now = bench_time ?cfg n, bl_generation = bench_generation n, bl_sequence = word_of_nat (1 + 6 * n + 6),
      bl_result = note_decision f d ((bl_result st)\<lparr>br_rejected := 0\<rparr>), bl_governor = g2\<rparr>"
    using one(2) by (simp add: bench_round_def Let_def now gen sq rj del: of_nat_add of_nat_Suc of_nat_mult flip: f_def)
  moreover have "bl_result (bench_round ?cfg 1 st) = note_decision f d ((bl_result st)\<lparr>br_rejected := 0\<rparr>)" using calculation by simp
  then have "\<exists>d r. decides_on (bench_time ?cfg n) (bench_generation n) ?cfg d \<and> bl_result (bench_round ?cfg 1 st) = note_decision f d r"
    using one(3) by blast
  ultimately show ?thesis using st one(4) unfolding bench_ready_def f_def
    by (simp add: note_decision_def bench_time_def bench_generation_def)
qed

text \<open>
  A case completes. When the fabric of every round builds and fits a frame, the set-up succeeds, no frame
  is refused, as many evaluations are counted as the case asks for, and what the result keeps is the
  decision on the evidence of the last round.
\<close>

theorem bench_completes:
  assumes "\<forall>i < unat (bc_evaluations c). fabric_fits (bench_time (bench_config c) i) (bench_generation i) (bench_config c)"
  shows "br_name (run_case pid counter disk c) = bc_name c \<and> br_rejected (run_case pid counter disk c) = 0 \<and>
    br_evaluations (run_case pid counter disk c) = ucast (bc_evaluations c) \<and>
    (\<forall>n. unat (bc_evaluations c) = Suc n \<longrightarrow>
       (\<exists>d r. decides_on (bench_time (bench_config c) n) (bench_generation n) (bench_config c) d \<and>
          run_case pid counter disk c =
            note_decision (rebuild (bench_time (bench_config c) n) (bench_generation n) (clamped (bench_config c))) d r))"
proof -
  let ?cfg = "bench_config c" and ?base = "sy_base_time (bench_config c)"
  obtain g where rec: "governor_recover pid counter disk ?base (new_governor bench_governor_config) = (Inr (), g)"
    and g: "gv_publishers g = []" "gv_snapshots g = no_snapshots" "gv_store g = None" "gv_epoch g \<le> 1"
    by (simp add: governor_recover_def new_governor_def bench_governor_config_def valid_id_def Let_def)
  have h: "valid_id (he_publisher bench_hello)" "valid_id (he_incarnation bench_hello)" "valid_id (he_boot bench_hello)"
    "he_protocol_version bench_hello = kFrameProtocolVersion" "0 < bench_generation 0"
    by (simp_all add: bench_hello_def identity_valid bench_generation_def) (simp_all add: valid_id_def)
  obtain g0 g1 where s: "install_epoch 1 1 ?base g = (Inr (), g0)" "register_publisher bench_hello ?base g0 = (Inr (welcome_of g0), g1)"
    "we_epoch (welcome_of g0) = 1" "rounds_ready bench_hello ?cfg (bench_generation 0) 1 g1"
    using session_initial [OF governor_reachable.recovered [OF rec] g h, of ?base ?cfg] by blast
  let ?st = "\<lparr>bl_now = ?base, bl_generation = 1, bl_sequence = 1, bl_result = empty_result (bc_name c), bl_governor = g1\<rparr>"
  have "bench_ready c n ((bench_round ?cfg 1 ^^ n) ?st)" if "n \<le> unat (bc_evaluations c)" for n
    using that
  proof (induction n)
    case 0
    then show ?case using s(4) by (simp add: bench_ready_def empty_result_def)
  next
    case (Suc n)
    then have "n < unat (bc_evaluations c)" "n < 2 ^ 32" using unsigned_less [of "bc_evaluations c", where 'a = nat] by simp_all
    then show ?case using bench_round_ready [of c n] assms Suc.IH by simp
  qed
  then have ready: "bench_ready c (unat (bc_evaluations c)) ((bench_round ?cfg 1 ^^ unat (bc_evaluations c)) ?st)" by simp
  have run: "run_case pid counter disk c = bl_result ((bench_round ?cfg 1 ^^ unat (bc_evaluations c)) ?st)"
    using rec s by (simp add: run_case_def Let_def)
  have "\<exists>d r'. decides_on (bench_time ?cfg n) (bench_generation n) ?cfg d \<and>
      run_case pid counter disk c = note_decision (rebuild (bench_time ?cfg n) (bench_generation n) (clamped ?cfg)) d r'"
    if "unat (bc_evaluations c) = Suc n" for n
    unfolding run using ready unfolding bench_ready_def that by simp
  moreover have "br_name (run_case pid counter disk c) = bc_name c" "br_rejected (run_case pid counter disk c) = 0"
    "br_evaluations (run_case pid counter disk c) = ucast (bc_evaluations c)"
    unfolding run using ready by (simp_all add: bench_ready_def unsigned_ucast_eq)
  ultimately show ?thesis by blast
qed

text \<open>The smallest case completes; the cases of the suites are generated at the size they name.\<close>

lemma tiny_case_completes:
  "br_rejected (run_case pid counter disk (bench_case ''tiny'' 1 1 1 1 1000000 False 3)) = 0 \<and>
   br_evaluations (run_case pid counter disk (bench_case ''tiny'' 1 1 1 1 1000000 False 3)) = 3"
proof -
  let ?c = "bench_case ''tiny'' 1 1 1 1 1000000 False 3"
  have "bench_config ?c = tiny_config" by (simp add: bench_config_def bench_case_def tiny_config_def default_synthetic_def)
  then have "fabric_fits (bench_time (bench_config ?c) i) (bench_generation i) (bench_config ?c)" for i using tiny_fits by simp
  then show ?thesis using bench_completes [of ?c pid counter disk] by (simp add: bench_case_def)
qed

lemma suites_not_clamped: "c \<in> set (full_suite @ quick_suite) \<Longrightarrow> clamped (bench_config c) = bench_config c"
  by (auto simp: full_suite_def quick_suite_def bench_case_def bench_config_def default_synthetic_def clamped_def)

end
