(* ===== verification/Spec2Isabelle.thy ===== *)
theory Spec2Isabelle
  imports HGM_System HGM_Threads HGM_Worker HGM_Explanation HGM_Handles HGM_Bench
begin

text \<open>
  Hotspot Governor: a verification development of the C++ sources under \<^verbatim>\<open>src/\<close>.

  \<^bold>\<open>The program.\<close> A coordinator process accepts connections from publishers. Every publisher sends
  frames that carry one of six evidence streams (topology, capacity, saturation signals, paths,
  traffic, policy). The governor fences and decodes the frames, keeps the latest snapshot of each
  stream and its publisher registry, and makes its coordinator epoch, registry and generations durable
  in a snapshot file and a journal. On every evaluation the decision engine looks for saturated
  resources, groups them into hotspots, decides which are persistent, how wide they are and what is
  known about their cause, and plans a bounded set of mitigation intents. The governor can
  start and stop a worker pool, and the explanation component renders a decision as bounded text.

  \<^bold>\<open>The theories,\<close> in the order of their dependency, with the files they model:

  \<^item> \<^verbatim>\<open>HGM_Prelude\<close>: word and list lemmas, the \<open>result\<close> type (an error code or a value) and its bind,
    sorted look-up tables with the locale \<open>sorted_index\<close>, and \<^verbatim>\<open>error.hpp\<close>, \<^verbatim>\<open>limits.hpp\<close>.
  \<^item> \<^verbatim>\<open>HGM_Arith\<close>: checked, saturating and ratio arithmetic and the clock (\<^verbatim>\<open>checked.hpp\<close>, \<^verbatim>\<open>time.hpp\<close>,
    \<^verbatim>\<open>time.cpp\<close>), at the width of the machine types.
  \<^item> \<^verbatim>\<open>HGM_Bytes\<close>: readers, writers, CRC-64 and the digest (\<^verbatim>\<open>byteio.*\<close>, \<^verbatim>\<open>digest.*\<close>), with the locales
    \<open>codec\<close> and \<open>canonical_codec\<close>.
  \<^item> \<^verbatim>\<open>HGM_Types\<close>: enumerations and provenance (\<^verbatim>\<open>enums.hpp\<close>, \<^verbatim>\<open>provenance.*\<close>, \<^verbatim>\<open>ids.hpp\<close>).
  \<^item> \<^verbatim>\<open>HGM_Csr\<close>, \<^verbatim>\<open>HGM_Topology\<close>: compressed adjacency and the topology builder (\<^verbatim>\<open>topology.*\<close>).
  \<^item> \<^verbatim>\<open>HGM_Evidence\<close>: the capacity, signal, path and traffic builders (\<^verbatim>\<open>capacity.*\<close>, \<^verbatim>\<open>signals.*\<close>,
    \<^verbatim>\<open>paths.*\<close>, \<^verbatim>\<open>traffic.*\<close>).
  \<^item> \<^verbatim>\<open>HGM_Policy\<close>: policy, thresholds, budgets and the authority vector (\<^verbatim>\<open>policy.*\<close>, \<^verbatim>\<open>authority.*\<close>).
  \<^item> \<^verbatim>\<open>HGM_Saturation\<close>, \<^verbatim>\<open>HGM_Components\<close>, \<^verbatim>\<open>HGM_Detection\<close>, \<^verbatim>\<open>HGM_Persistence\<close>: the detector of
    \<^verbatim>\<open>detection.*\<close>, namely the scan of the evidence, the search for components (locale
    \<open>saturation_graph\<close>), hotspots and verdicts, and the history in the saturation tracker.
  \<^item> \<^verbatim>\<open>HGM_Planning\<close>, \<^verbatim>\<open>HGM_Engine\<close>: \<^verbatim>\<open>intervention.*\<close>, \<^verbatim>\<open>engine.*\<close> and \<^verbatim>\<open>metrics.*\<close>.
  \<^item> \<^verbatim>\<open>HGM_Scenario\<close>, \<^verbatim>\<open>HGM_Decisions\<close>: the properties of detection and of planning with a concrete
    fabric that exercises them.
  \<^item> \<^verbatim>\<open>HGM_Frame\<close>: frame headers and payload codecs (\<^verbatim>\<open>frame.*\<close>), with the locale \<open>parser_codec\<close>.
  \<^item> \<^verbatim>\<open>HGM_Disk\<close>, \<^verbatim>\<open>HGM_Journal\<close>, \<^verbatim>\<open>HGM_Store\<close>: \<^verbatim>\<open>file_io.*\<close>, \<^verbatim>\<open>journal.*\<close>, \<^verbatim>\<open>store.*\<close>.
  \<^item> \<^verbatim>\<open>HGM_Governor\<close>, \<^verbatim>\<open>HGM_Fencing\<close>: \<^verbatim>\<open>governor.*\<close>, its operations and its invariant and fencing.
  \<^item> \<^verbatim>\<open>HGM_Transport\<close>, \<^verbatim>\<open>HGM_Coordinator\<close>: frames over a byte stream and the sessions of the
    coordinator (\<^verbatim>\<open>transport.*\<close>, \<^verbatim>\<open>coordinator.*\<close>), with the locale \<open>growing_service\<close>.
  \<^item> \<^verbatim>\<open>HGM_Threads\<close>: the threads of the coordinator at the grain of its critical sections, with the handles
    of the threads (\<^verbatim>\<open>coordinator.*\<close>).
  \<^item> \<^verbatim>\<open>HGM_Worker\<close>: the worker pool (\<^verbatim>\<open>worker.*\<close>).
  \<^item> \<^verbatim>\<open>HGM_Handles\<close>: sockets and listeners as owners of handles (\<^verbatim>\<open>transport.*\<close>).
  \<^item> \<^verbatim>\<open>HGM_Text\<close>, \<^verbatim>\<open>HGM_Explanation\<close>: the texts of enumerations, errors and counters (\<^verbatim>\<open>enums.cpp\<close>,
    \<^verbatim>\<open>error.cpp\<close>, \<^verbatim>\<open>version.*\<close> and the \<open>render\<close> functions), and \<^verbatim>\<open>explanation.*\<close>.
  \<^item> \<^verbatim>\<open>HGM_System\<close>: runs of a recovered coordinator with its governor and engine; the theorem that spans
    all components is below.
  \<^item> \<^verbatim>\<open>HGM_Synthetic\<close>: the generator of fabrics (\<^verbatim>\<open>synthetic.*\<close>).
  \<^item> \<^verbatim>\<open>HGM_Tools\<close>, \<^verbatim>\<open>HGM_Demo\<close>: the programs of \<^verbatim>\<open>tools/\<close> with their arguments, and what they achieve:
    that the demonstration run completes and that the coordinator process is a run of the system.
  \<^item> \<^verbatim>\<open>HGM_Bench\<close>: the cases of the benchmark (\<^verbatim>\<open>bench/hgm_bench.cpp\<close>) without its clock.

  \<^bold>\<open>State and operations.\<close> A struct or class is a record whose fields keep the order of the source, an
  enumeration is a datatype with a constructor for the values that have no name, an operation is a
  function of the same name that returns the updated state, and \<open>Status\<close>/\<open>Result\<close> are the sum \<open>result\<close>
  of an error code and a value. Unsigned integers are words of their width; \<open>std::int64_t\<close> times are
  integers, with the bounds that keep them in range as explicit hypotheses; \<open>std::size_t\<close> counts of
  containers are natural numbers. Identifiers are 64-bit words with 0 the invalid one. Vectors are
  lists, the ordered maps association lists sorted by key. Texts that only explain (reasons, details,
  rationales) are no fields of the records; a function that prints one takes it as an argument.

  \<^bold>\<open>Inputs from outside.\<close> Every file operation takes the outcome the operating system gives it, and a
  failed or cut write leaves any prefix behind; a crash is a failure after which nothing more succeeds,
  so the theorems on crash safety quantify over all lists of outcomes. A receive takes the answer of
  the socket, which may be any non-empty part of what was asked for, a timeout, a failure or the end.
  The clock is an argument of every operation that reads it.

  \<^bold>\<open>Concurrency.\<close> The governor and the worker pool hold a mutex for the whole of an operation, so an
  operation is one atomic step and a run is a sequence of steps in any order. The coordinator calls the
  governor without a lock and takes its own mutex for short sections only. \<^verbatim>\<open>HGM_Coordinator\<close> takes one
  iteration of a loop as one step, which is the grain of the theorems on the whole system.
  \<^verbatim>\<open>HGM_Threads\<close> takes the iterations apart into sections, shows that sections which are not interrupted
  make up an iteration (\<open>sections_iteration\<close>, \<open>sections_end\<close>), and proves the invariants of the sessions again
  for all interleavings of sections. \<open>governor_reachable\<close>, \<open>coordinator_reachable\<close>, \<open>threads_reachable\<close>,
  \<open>pool_reachable\<close>, \<open>process_reachable\<close>, \<open>system_run\<close> and \<open>tool_run\<close> are inductive relations and their
  invariants are proved by rule induction. A receive or a send of a whole frame is local to its thread
  and one step. Memory is sequentially consistent between steps.

  \<^bold>\<open>Termination.\<close> All definitions are total. The loops of the source that are bounded by a container are
  structural recursions; the component search, the loops of the journal and the loops over a socket
  have a measure, the last because every answer of the socket is used up. No definition takes fuel. The
  loops of the coordinator's threads, of the workers and of the coordinator process do not end by
  themselves: their iterations are the steps of the relations above. That
  draining the worker pool and stopping the coordinator end under every schedule is proved by a measure.

  \<^bold>\<open>What is shown.\<close>

  \<^item> Evidence: builders produce sorted, closed snapshots whose look-ups find exactly what was added;
    neighbours, region chains and paths through a resource are exactly those of the input, the chains as
    long as all of them together have fewer than \<open>2\<^sup>3\<^sup>2\<close> entries, where their offsets wrap.
  \<^item> Detection: without admitted evidence the verdict is UNKNOWN; the components found are exactly the
    connected components of the saturated resources; the tracker holds exactly the unbroken runs; a
    confirmed hotspot was saturated in enough consecutive evaluations over the persistence window.
  \<^item> Planning: an intent needs a live policy and admitted evidence and names a confirmed hotspot all of
    whose resources were saturated long enough. Local intents also need an eligible hotspot, contain its
    whole saturated scope, stay within every budget, and use the first admissible kind. The escalation
    intent stands alone and touches nothing; the permitted number of intents is not consulted for it.
    Refusals are recorded up to a bound of 64 in local planning; when escalation is required only for
    eligible hotspots, and not at all where topology or policy withhold the whole plan.
  \<^item> Encoding: payloads and snapshots decode to what was encoded, and a changed byte is refused.
  \<^item> Durability: a restart recovers the old or the new state of a commit that was cut anywhere and the
    whole records of a torn journal, also when an earlier crash left records in it, and what was
    acknowledged it recovers. This is shown for states that leave room for the 32 bytes of the snapshot header below
    the bound of the store; beyond, an acknowledged snapshot cannot be read back
    (\<open>oversized_snapshot_unreadable\<close>). A restart begins above the last acknowledged epoch, up to the
    saturation of the 64-bit epoch.
  \<^item> Fencing: only the live incarnation of a registered publisher under the installed epoch with a newer
    sequence changes the evidence; refused frames do not, apart from evidence that decodes and names
    unknown resources (\<open>refused_snapshot_installed\<close>). A frame that was accepted is refused in every later
    state of the governor.
  \<^item> Sessions, workers, and the whole system: the limits on connections, the accounting of tasks with
    their order and every counter, and that an intent emitted by a running system rests on sustained
    evidence.
  \<^item> Threads: under all interleavings of critical sections the limit on connections and the accounting of
    handshakes hold; every handle of a thread is released by exactly one path, provided it is assigned
    before the thread ends, which the code does not enforce (\<open>late_assignment_orphans\<close>); \<open>stop\<close> comes to its
    joins (\<open>stop_approaches\<close>) and completes them under every schedule, with such an orphaned handle as
    the only one that may stay joinable.
  \<^item> Handles and texts: every open handle has exactly one owner. An explanation is complete or ends with
    its truncation marker, of which less than 33 bytes show only a part; at exactly 33 bytes it throws.
  \<^item> Tools: a fabric that builds is consistent, the demonstration run makes one decision per round on
    the evidence of that round, so does a case of the benchmark (\<open>bench_completes\<close>), and the coordinator
    process evaluates as often as it was told.

  \<^bold>\<open>Not modelled.\<close> The running times the benchmark measures; what the tools print, and the thread that
  only prints; the Windows branches of the transport and of the file access; the text that describes
  the compiler; name resolution and socket timeouts, whose effect is an answer of the socket; plain
  accessors, which are the fields of the records; and
  what a file system may lose of unsynchronised writes when the machine loses power.
\<close>

section \<open>Properties of the whole system\<close>

text \<open>C1: mitigation rests on sustained evidence, end to end. However connections, frames, epochs,
  deaths, commits and evaluations were interleaved since the system recovered, every intent that its
  next evaluation emits is emitted under a live policy and names a confirmed hotspot of the decision's
  assessment. The hotspot lists at least one resource, and each resource it lists is saturated now and
  was in as many consecutive evaluations of the system up to this one as the policy requires, the first
  of them at least the persistence window ago when the policy sets a window. A local intent touches all
  resources the hotspot lists, and whatever else it touches is a healthy neighbour of the hotspot and not
  saturated. An escalation intent is emitted only when escalation is required, stands alone in its plan
  and touches no resource, path or flow.\<close>

theorem system_intent_sustained:
  assumes "system_run w inps" and "now \<noteq> kNoTime" and "millis_ok now"
    and "evaluate now (co_governor w) = (d, g)" and "i \<in> set (pl_intents (de_plan d))"
    and "inp = evaluation_input now (co_governor w)"
  shows "policy_live inp \<and>
    (\<exists>h \<in> set (fa_hotspots (de_assessment d)). mi_hotspot i = hs_id h \<and> hs_resources h \<noteq> [] \<and>
       (\<forall>r \<in> set (hs_resources h). sustained inp inps r) \<and>
       (if mi_escalation i
        then fa_escalation_required (de_assessment d) \<and> pl_intents (de_plan d) = [i] \<and>
          mi_resources i = [] \<and> mi_paths i = [] \<and> mi_flows i = []
        else set (hs_resources h) \<subseteq> set (mi_resources i) \<and>
          (\<forall>r \<in> set (mi_resources i) - set (hs_resources h). r \<in> set (hs_healthy h) \<and> \<not> saturated_in inp r)))"
  by (rule run_intent_sustained [OF assms])

theorem system_intent_sustained_witness:
  "\<exists>w inps d g i h. system_run w inps \<and> evaluate 3000 (co_governor w) = (d, g) \<and> i \<in> set (pl_intents (de_plan d)) \<and>
     h \<in> set (fa_hotspots (de_assessment d)) \<and> mi_hotspot i = hs_id h \<and> hs_resources h = [11] \<and> 11 \<in> set (mi_resources i) \<and>
     3 \<le> length (streak 11 (evaluation_input 3000 (co_governor w) # inps))"
proof -
  obtain w inps d g i t c s x h0 where run: "system_run w inps" and ev: "evaluate 3000 (co_governor w) = (d, g)"
    and i: "i \<in> set (pl_intents (de_plan d))" "\<not> mi_escalation i" and h0: "fa_hotspots (de_assessment d) = [h0]" "hs_resources h0 = [11]"
    and inp: "evaluation_input 3000 (co_governor w) = (line_input t c s 3000)\<lparr>di_tracker := x\<rparr>"
    using line_run_emits by blast
  have th: "input_thresholds (evaluation_input 3000 (co_governor w)) = default_thresholds"
    unfolding inp using line_thresholds [of t c s 3000] by (simp add: input_thresholds_def)
  from system_intent_sustained [OF run line_times(6,9) ev i(1) refl] i(2) h0
  have h: "mi_hotspot i = hs_id h0" "11 \<in> set (mi_resources i)" "sustained (evaluation_input 3000 (co_governor w)) inps 11"
    by simp_all
  then have "3 \<le> length (streak 11 (evaluation_input 3000 (co_governor w) # inps))"
    by (simp add: sustained_def th default_thresholds_def)
  then show ?thesis using run ev i(1) h h0 by (metis list.set_intros(1))
qed

end
